(* ===== verification/Prelude.thy ===== *)
theory Prelude
  imports Main "HOL-Library.Word"
begin

text \<open>
  Shared types and lemmas of the development.  Go's fixed-width unsigned
  integers are words, byte slices are lists of 8-bit words, and Go's
  \<^verbatim>\<open>int\<close> and \<^verbatim>\<open>int64\<close> values are \<open>int\<close>.
  \<open>be_encode\<close> and \<open>be_decode\<close> are the big endian readers and writers of
  \<^verbatim>\<open>encoding/binary\<close>; \<open>read_full\<close> is \<^verbatim>\<open>io.ReadFull\<close> on a reader that still
  holds the given bytes.  The collection \<open>wire_simps\<close> carries the layout
  lemmas that the codec proofs use, and \<open>ones_simps\<close> the lemmas on
  positions of set bits.
\<close>

unbundle bit_operations_syntax

type_synonym u8 = "8 word"
type_synonym u16 = "16 word"
type_synonym u32 = "32 word"
type_synonym u64 = "64 word"
type_synonym bytes = "u8 list"

named_theorems wire_simps \<open>layout of encoded fields\<close>
named_theorems ones_simps \<open>positions of set bits\<close>

section \<open>Big endian integers\<close>

definition be_decode :: "bytes \<Rightarrow> 'a::len word" where
  "be_decode bs = foldl (\<lambda>acc b. push_bit 8 acc OR ucast b) 0 bs"

definition be_encode :: "nat \<Rightarrow> 'a::len word \<Rightarrow> bytes" where
  "be_encode n w = map (\<lambda>i. ucast (drop_bit (8 * (n - 1 - i)) w)) [0..<n]"

abbreviation PutUint16 :: "u16 \<Rightarrow> bytes" where "PutUint16 v \<equiv> be_encode 2 v"
abbreviation PutUint32 :: "u32 \<Rightarrow> bytes" where "PutUint32 v \<equiv> be_encode 4 v"
abbreviation PutUint64 :: "u64 \<Rightarrow> bytes" where "PutUint64 v \<equiv> be_encode 8 v"

text \<open>\<open>Uint16 b i\<close> is \<^verbatim>\<open>binary.BigEndian.Uint16(b[i:])\<close>, for a slice that is long enough.\<close>

definition Uint16 :: "bytes \<Rightarrow> nat \<Rightarrow> u16" where
  "Uint16 b i = be_decode (take 2 (drop i b))"

definition Uint32 :: "bytes \<Rightarrow> nat \<Rightarrow> u32" where
  "Uint32 b i = be_decode (take 4 (drop i b))"

definition Uint64 :: "bytes \<Rightarrow> nat \<Rightarrow> u64" where
  "Uint64 b i = be_decode (take 8 (drop i b))"

lemma be_decode_Nil [simp]: "be_decode [] = 0"
  by (simp add: be_decode_def)

lemma be_decode_snoc: "be_decode (bs @ [b]) = push_bit 8 (be_decode bs) OR ucast b"
  by (simp add: be_decode_def)

lemma length_be_encode [simp]: "length (be_encode n w) = n"
  by (simp add: be_encode_def)

lemma be_encode_0 [simp]: "be_encode 0 w = []"
  by (simp add: be_encode_def)

lemma be_encode_Suc: "be_encode (Suc n) w = be_encode n (drop_bit 8 w) @ [ucast w]"
proof (rule nth_equalityI)
  fix i assume "i < length (be_encode (Suc n) w)"
  then have i: "i < Suc n" by simp
  show "be_encode (Suc n) w ! i = (be_encode n (drop_bit 8 w) @ [ucast w]) ! i"
  proof (cases "i < n")
    case True
    then have "8 * (n - 1 - i) + 8 = 8 * (n - i)" by simp
    with True show ?thesis
      by (simp add: be_encode_def nth_append drop_bit_drop_bit del: upt_Suc)
  next
    case False
    with i have "i = n" by simp
    then show ?thesis by (simp add: be_encode_def nth_append del: upt_Suc)
  qed
qed simp

text \<open>Which bit of which byte a bit of the decoded integer is.\<close>

lemma bit_be_decode:
  "bit (be_decode bs :: 'a::len word) i \<longleftrightarrow>
     i < LENGTH('a) \<and> i < 8 * length bs \<and> bit (bs ! (length bs - 1 - i div 8)) (i mod 8)"
proof (induction bs arbitrary: i rule: rev_induct)
  case Nil
  then show ?case by simp
next
  case (snoc b bs)
  show ?case
  proof (cases "i < 8")
    case True
    then show ?thesis
      by (auto simp: be_decode_snoc bit_or_iff bit_push_bit_iff bit_simps nth_append)
  next
    case False
    then have "i - 8 < 8 * length bs \<longleftrightarrow> i < 8 * Suc (length bs)"
      and "(i - 8) div 8 = i div 8 - 1" and "(i - 8) mod 8 = i mod 8" and "0 < i div 8"
      by (auto simp: le_mod_geq [symmetric] le_div_geq)
    moreover have "length bs - Suc (i div 8 - Suc 0) = length bs - i div 8"
      using \<open>0 < i div 8\<close> by simp
    moreover have "i < 8 * Suc (length bs) \<Longrightarrow> length bs - i div 8 < length bs"
      using \<open>0 < i div 8\<close> by (cases "length bs") auto
    ultimately show ?thesis
      using False snoc.IH [of "i - 8"]
      by (auto simp: be_decode_snoc bit_or_iff bit_push_bit_iff bit_simps nth_append
          possible_bit_word dest: bit_imp_le_length)
  qed
qed

lemma bit_be_encode_nth:
  "i < n \<Longrightarrow> bit (be_encode n (w :: 'a::len word) ! i) k \<longleftrightarrow>
     k < 8 \<and> bit w (8 * (n - 1 - i) + k)"
  by (simp add: be_encode_def bit_simps)

lemma be_decode_encode:
  assumes "LENGTH('a) \<le> 8 * n"
  shows "be_decode (be_encode n (w :: 'a::len word)) = w"
proof (rule bit_word_eqI)
  fix i assume i: "i < LENGTH('a)"
  with assms have in8: "i < 8 * n" by simp
  then have d: "i div 8 < n" by simp
  then have "n - 1 - (n - 1 - i div 8) = i div 8" by simp
  then have "8 * (n - 1 - (n - 1 - i div 8)) + i mod 8 = i" by simp
  with i in8 d show "bit (be_decode (be_encode n w) :: 'a word) i = bit w i"
    by (simp add: bit_be_decode bit_be_encode_nth)
qed

lemma be_encode_decode:
  assumes "8 * length bs \<le> LENGTH('a)"
  shows "be_encode (length bs) (be_decode bs :: 'a::len word) = bs"
proof (rule nth_equalityI)
  fix i assume "i < length (be_encode (length bs) (be_decode bs :: 'a word))"
  then have i: "i < length bs" by simp
  show "be_encode (length bs) (be_decode bs :: 'a word) ! i = bs ! i"
  proof (rule bit_word_eqI)
    fix k :: nat assume "k < LENGTH(8)"
    then have k: "k < 8" by simp
    let ?j = "8 * (length bs - 1 - i) + k"
    have "?j div 8 = length bs - 1 - i" "?j mod 8 = k"
      using k by simp_all
    moreover from i have "length bs - 1 - (length bs - 1 - i) = i" by simp
    moreover have "?j < 8 * length bs" using i k by simp
    ultimately show "bit (be_encode (length bs) (be_decode bs :: 'a word) ! i) k = bit (bs ! i) k"
      using i k assms by (simp add: bit_be_encode_nth bit_be_decode)
  qed
qed simp

lemma be_decode_inject:
  assumes "8 * length bs \<le> LENGTH('a)" and "length bs = length cs"
    and "(be_decode bs :: 'a::len word) = be_decode cs"
  shows "bs = cs"
proof -
  have "bs = be_encode (length bs) (be_decode bs :: 'a word)"
    using assms(1) by (simp only: be_encode_decode)
  also have "\<dots> = be_encode (length cs) (be_decode cs :: 'a word)"
    by (simp only: assms(2,3))
  also have "\<dots> = cs"
    using assms(1,2) by (intro be_encode_decode) simp
  finally show ?thesis .
qed

section \<open>Reading a field out of a concatenation of fields\<close>

lemma Uint16_here [wire_simps]: "Uint16 (PutUint16 v @ r) 0 = v"
  by (simp add: Uint16_def be_decode_encode)

lemma Uint32_here [wire_simps]: "Uint32 (PutUint32 v @ r) 0 = v"
  by (simp add: Uint32_def be_decode_encode)

lemma Uint64_here [wire_simps]: "Uint64 (PutUint64 v @ r) 0 = v"
  by (simp add: Uint64_def be_decode_encode)

lemma Uint16_skip: "length p \<le> i \<Longrightarrow> Uint16 (p @ r) i = Uint16 r (i - length p)"
  by (simp add: Uint16_def)

lemma Uint32_skip: "length p \<le> i \<Longrightarrow> Uint32 (p @ r) i = Uint32 r (i - length p)"
  by (simp add: Uint32_def)

lemma Uint16_Cons [wire_simps]: "Uint16 (x # r) i = (if i = 0 then be_decode (x # take 1 r) else Uint16 r (i - 1))"
  by (cases i) (simp_all add: Uint16_def)

lemma Uint32_Cons [wire_simps]: "0 < i \<Longrightarrow> Uint32 (x # r) i = Uint32 r (i - 1)"
  by (cases i) (simp_all add: Uint32_def)

section \<open>Results\<close>

text \<open>An error of the left side ends a computation.\<close>

definition and_then :: "'e + 'a \<Rightarrow> ('a \<Rightarrow> 'e + 'b) \<Rightarrow> 'e + 'b" where
  "and_then r f = (case r of Inl e \<Rightarrow> Inl e | Inr x \<Rightarrow> f x)"

lemma and_then_simps [simp]: "and_then (Inl e) f = Inl e" "and_then (Inr x) f = f x"
  by (simp_all add: and_then_def)

lemma and_then_Inr: "and_then r f = Inr y \<longleftrightarrow> (\<exists>x. r = Inr x \<and> f x = Inr y)"
  by (cases r) simp_all

section \<open>Readers\<close>

text \<open>
  \<^verbatim>\<open>io.ReadFull(r, buf)\<close> with \<open>n\<close> the length of the buffer: no byte at all is
  \<^verbatim>\<open>io.EOF\<close>, a short read is \<^verbatim>\<open>io.ErrUnexpectedEOF\<close>.
\<close>

datatype io_error = EOF | UnexpectedEOF

definition read_full :: "nat \<Rightarrow> bytes \<Rightarrow> io_error + bytes \<times> bytes" where
  "read_full n r =
     (if n \<le> length r then Inr (take n r, drop n r)
      else if r = [] then Inl EOF else Inl UnexpectedEOF)"

lemma read_full_append [wire_simps]: "n = length p \<Longrightarrow> read_full n (p @ r) = Inr (p, r)"
  by (simp add: read_full_def)

lemma read_full_InrD: "read_full n r = Inr (p, q) \<Longrightarrow> r = p @ q \<and> length p = n"
  by (auto simp: read_full_def split: if_splits)

lemma read_full_short: "length r < n \<Longrightarrow> \<exists>e. read_full n r = Inl e"
  by (simp add: read_full_def)

section \<open>Go's integer division\<close>

text \<open>Go's \<^verbatim>\<open>/\<close> and \<^verbatim>\<open>%\<close> on signed integers truncate toward zero.\<close>

definition go_div :: "int \<Rightarrow> int \<Rightarrow> int" where
  "go_div a b = sgn a * sgn b * (\<bar>a\<bar> div \<bar>b\<bar>)"

lemma go_div_nonneg [simp]: "0 \<le> a \<Longrightarrow> 0 < b \<Longrightarrow> go_div a b = a div b"
  by (cases "a = 0") (simp_all add: go_div_def)

section \<open>Positions of set bits\<close>

definition ones :: "'a::len word \<Rightarrow> nat list" where
  "ones m = filter (bit m) [0..<LENGTH('a)]"

lemma set_ones [ones_simps]: "set (ones m) = {i. bit m i}"
  by (auto simp: ones_def dest: bit_imp_le_length)

lemma sorted_ones: "sorted_wrt (<) (ones m)"
  by (simp add: ones_def strict_sorted_iff sorted_wrt_filter)

lemma distinct_ones [simp]: "distinct (ones m)"
  by (simp add: ones_def)

lemma ones_0 [simp]: "ones 0 = []"
  by (simp add: ones_def)

lemma ones_eq_Nil_iff [simp]: "ones m = [] \<longleftrightarrow> m = 0"
proof
  assume "ones m = []"
  then have "\<And>i. \<not> bit m i" using set_ones [of m] by auto
  then show "m = 0" by (simp add: bit_eq_iff)
qed simp

lemma length_ones_le: "length (ones (m :: 'a::len word)) \<le> LENGTH('a)"
  by (simp add: ones_def) (metis length_filter_le length_upt diff_zero)

lemma ones_eqI:
  assumes "sorted_wrt (<) xs" and "\<And>i. i \<in> set xs \<longleftrightarrow> bit m i"
  shows "ones m = xs"
proof -
  have "set (ones m) = set xs" using assms(2) by (auto simp: set_ones)
  then show ?thesis
    using sorted_ones [of m] assms(1) by (simp add: strict_sorted_equal)
qed

end
