(* ===== verification/Mathext.thy ===== *)
theory Mathext
  imports Prelude
begin

text \<open>
  The numeric helpers of \<^verbatim>\<open>pkg/mathext\<close>: the generic comparisons of
  \<^verbatim>\<open>numbers.go\<close> and the portable bit deposit and bit extract of
  \<^verbatim>\<open>bit.go\<close>.  \<^verbatim>\<open>bit_amd64.go\<close> replaces the two bit routines by the BMI2
  instructions, which compute the same functions.
  The loops clear the lowest set bit of the mask in every round, so the
  measure of their recursion is the mask itself.
\<close>

section \<open>Comparisons\<close>

definition Min_go :: "'a::linorder \<Rightarrow> 'a \<Rightarrow> 'a" where
  "Min_go a b = (if a \<le> b then a else b)"

definition Max_go :: "'a::linorder \<Rightarrow> 'a \<Rightarrow> 'a" where
  "Max_go a b = (if a \<ge> b then a else b)"

text \<open>\<^verbatim>\<open>Mid\<close> sorts three values with three conditional swaps and returns the middle one.\<close>

definition Mid :: "'a::linorder \<Rightarrow> 'a \<Rightarrow> 'a \<Rightarrow> 'a" where
  "Mid a b c =
     (let (v0, v1, v2) = (a, b, c);
          (v0, v1) = (if v0 > v1 then (v1, v0) else (v0, v1));
          (v0, v2) = (if v0 > v2 then (v2, v0) else (v0, v2));
          (v1, v2) = (if v1 > v2 then (v2, v1) else (v1, v2))
      in v1)"

definition Abs_go :: "'a::{linorder,zero,uminus} \<Rightarrow> 'a" where
  "Abs_go a = (if a \<ge> 0 then a else - a)"

text \<open>On an unsigned type the two bounds wrap around.\<close>

definition WithinRange :: "'a::{linorder,plus,minus} \<Rightarrow> 'a \<Rightarrow> 'a \<Rightarrow> bool" where
  "WithinRange v target margin \<longleftrightarrow> Mid v (target - margin) (target + margin) = v"

lemma Min_go_eq_min [simp]: "Min_go a b = min a b"
  by (simp add: Min_go_def min_def)

lemma Max_go_eq_max [simp]: "Max_go a b = max a b"
  by (auto simp: Max_go_def max_def)

lemma Abs_go_eq_abs [simp]: "Abs_go (a :: int) = \<bar>a\<bar>"
  by (simp add: Abs_go_def)

lemma Mid_eq_fst_iff: "Mid v lo hi = v \<longleftrightarrow> (lo \<le> v \<and> v \<le> hi) \<or> (hi \<le> v \<and> v \<le> lo)"
  by (auto simp: Mid_def Let_def split: if_splits)

lemma Mid_sort: "Mid a b c = sort [a, b, c] ! 1"
  by (auto simp: Mid_def Let_def)

lemma WithinRange_int: "0 \<le> margin \<Longrightarrow> WithinRange (v :: int) target margin \<longleftrightarrow> \<bar>v - target\<bar> \<le> margin"
  by (auto simp: WithinRange_def Mid_eq_fst_iff)

lemma WithinRange_u32:
  assumes "0 < unat target" and "Suc (unat target) < 2 ^ 32"
  shows "WithinRange (v :: u32) target 1 \<longleftrightarrow> \<bar>int (unat v) - int (unat target)\<bar> \<le> 1"
proof -
  have t0: "target \<noteq> 0"
    using assms(1) by auto
  have lo: "unat (target - 1) = unat target - 1"
    using t0 by (simp add: unat_minus_one)
  have hi: "unat (target + 1) = Suc (unat target)"
    using assms(2) by (simp add: unat_word_ariths)
  show ?thesis
    unfolding WithinRange_def Mid_eq_fst_iff word_le_nat_alt lo hi using assms(1) by arith
qed

section \<open>Bit deposit and bit extract\<close>

definition RepeatUint32 :: "u32 \<Rightarrow> u64" where
  "RepeatUint32 v = push_bit 32 (ucast v) OR ucast v"

lemma clear_lowest_less:
  fixes m :: "'a::len word"
  assumes "m \<noteq> 0"
  shows "m AND (m - 1) < m"
proof -
  have "m AND (m - 1) \<le> m - 1" by (rule word_and_le1)
  moreover have "m - 1 < m"
    using assms by (simp add: word_less_nat_alt unat_minus_one unat_gt_0)
  ultimately show ?thesis by (rule order.strict_trans1)
qed

function pdep_loop :: "u64 \<Rightarrow> u64 \<Rightarrow> u64 \<Rightarrow> u64 \<Rightarrow> u64" where
  "pdep_loop x msk srcBit result =
     (if msk = 0 then result
      else let maskBit = msk AND (- msk);
               result' = (if x AND srcBit \<noteq> 0 then result OR maskBit else result)
           in pdep_loop x (msk AND (msk - 1)) (push_bit 1 srcBit) result')"
  by pat_completeness auto
termination
  by (relation "measure (\<lambda>(x, msk, srcBit, result). unat msk)")
     (simp_all add: word_less_nat_alt [symmetric] clear_lowest_less)

function pext_loop :: "u64 \<Rightarrow> u64 \<Rightarrow> u64 \<Rightarrow> u64 \<Rightarrow> u64" where
  "pext_loop x msk resultBit result =
     (if msk = 0 then result
      else let maskBit = msk AND (- msk);
               result' = (if x AND maskBit \<noteq> 0 then result OR resultBit else result)
           in pext_loop x (msk AND (msk - 1)) (push_bit 1 resultBit) result')"
  by pat_completeness auto
termination
  by (relation "measure (\<lambda>(x, msk, resultBit, result). unat msk)")
     (simp_all add: word_less_nat_alt [symmetric] clear_lowest_less)

declare pdep_loop.simps [simp del] pext_loop.simps [simp del]

definition pdepGeneric :: "u64 \<Rightarrow> u64 \<Rightarrow> u64" where
  "pdepGeneric x msk = pdep_loop x msk 1 0"

definition pextGeneric :: "u64 \<Rightarrow> u64 \<Rightarrow> u64" where
  "pextGeneric x msk = pext_loop x msk 1 0"

definition PDEP :: "u64 \<Rightarrow> u64 \<Rightarrow> u64" where
  "PDEP x msk = pdepGeneric x msk"

definition PEXT :: "u64 \<Rightarrow> u64 \<Rightarrow> u64" where
  "PEXT x msk = pextGeneric x msk"

subsection \<open>The lowest set bit\<close>

lemma bit_minus_one_lowest:
  fixes m :: "'a::len word"
  assumes l: "bit m l" and low: "\<And>i. i < l \<Longrightarrow> \<not> bit m i"
  shows "bit (m - 1) i \<longleftrightarrow> i < l \<or> (l < i \<and> bit m i)"
proof -
  define h where "h = unset_bit l m"
  from l have ll: "l < LENGTH('a)" by (rule bit_imp_le_length)
  have hm: "h AND 2 ^ l = 0"
    by (rule bit_word_eqI) (auto simp: h_def bit_simps)
  have "m = h OR 2 ^ l"
    using l by (intro bit_word_eqI) (auto simp: h_def bit_simps)
  also have "\<dots> = h + 2 ^ l"
    by (rule disjunctive_add_eq_or [OF hm, symmetric])
  finally have m: "m = h + 2 ^ l" .
  have hk: "h AND mask l = 0"
    using low by (intro bit_word_eqI) (auto simp: h_def bit_simps)
  have "m - 1 = h + mask l"
    by (subst m) (simp add: mask_eq_exp_minus_1)
  also have "\<dots> = h OR mask l"
    by (rule disjunctive_add_eq_or [OF hk])
  finally have "m - 1 = h OR mask l" .
  then show ?thesis
    using low ll by (auto simp: h_def bit_simps dest: bit_imp_le_length)
qed

lemma lowest_bit:
  fixes m :: "'a::len word"
  assumes "ones m = l # ls"
  shows "m AND (- m) = 2 ^ l" and "ones (m AND (m - 1)) = ls"
proof -
  from assms have "l \<in> set (ones m)" by simp
  then have l: "bit m l" by (simp add: set_ones)
  have low: "\<not> bit m i" if "i < l" for i
  proof
    assume "bit m i"
    then have "i \<in> set (l # ls)" using assms set_ones [of m] by auto
    moreover have "\<forall>j \<in> set ls. l < j" using sorted_ones [of m] assms by simp
    ultimately show False using that by auto
  qed
  note dec = bit_minus_one_lowest [OF l low]
  show "m AND (- m) = 2 ^ l"
    using l low bit_imp_le_length [OF l]
    by (intro bit_word_eqI) (auto simp: bit_simps bit_minus_iff dec not_less nat_less_le
        possible_bit_word)
  show "ones (m AND (m - 1)) = ls"
  proof (rule ones_eqI)
    show "sorted_wrt (<) ls" using sorted_ones [of m] assms by simp
    have "set ls = {i. bit m i} - {l}"
      using assms set_ones [of m] distinct_ones [of m] by auto
    then show "i \<in> set ls \<longleftrightarrow> bit (m AND (m - 1)) i" for i
      using low by (auto simp: bit_and_iff dec not_less nat_less_le)
  qed
qed

subsection \<open>What the loops compute\<close>

lemma test_single_bit: "x AND 2 ^ k = 0 \<longleftrightarrow> \<not> bit (x :: 'a::len word) k"
proof
  assume "x AND 2 ^ k = 0"
  then have "\<not> bit (x AND 2 ^ k) k" by simp
  then show "\<not> bit x k"
    by (auto simp: bit_simps possible_bit_word dest: bit_imp_le_length)
next
  assume "\<not> bit x k"
  then show "x AND 2 ^ k = 0" by (intro bit_word_eqI) (auto simp: bit_simps)
qed

lemma bit_pdep_loop:
  "bit (pdep_loop x m (2 ^ k) r) i \<longleftrightarrow>
     bit r i \<or> (\<exists>j < length (ones m). ones m ! j = i \<and> bit x (k + j))"
proof (induction "ones m" arbitrary: m k r)
  case Nil
  then have "m = 0" using ones_eq_Nil_iff [of m] by simp
  then show ?case by (simp add: pdep_loop.simps)
next
  case (Cons l ls)
  then have m: "m \<noteq> 0" and o: "ones m = l # ls" by auto
  note lb = lowest_bit [OF o]
  have "bit m l" using o set_ones [of m] by auto
  then have lm: "l < 64" using bit_imp_le_length [of m l] by simp
  have step: "pdep_loop x m (2 ^ k) r =
     pdep_loop x (m AND (m - 1)) (2 ^ Suc k)
       (if bit x k then r OR 2 ^ l else r)"
    by (subst pdep_loop.simps) (simp add: m lb(1) test_single_bit push_bit_eq_mult mult.commute)
  have ex: "(\<exists>j < length (l # ls). (l # ls) ! j = i \<and> bit x (k + j)) \<longleftrightarrow>
     (l = i \<and> bit x k) \<or> (\<exists>j < length ls. ls ! j = i \<and> bit x (Suc k + j))"
    by (auto simp: less_Suc_eq_0_disj)
  have IH: "bit (pdep_loop x (m AND (m - 1)) (2 ^ Suc k) r') i \<longleftrightarrow>
      bit r' i \<or> (\<exists>j < length ls. ls ! j = i \<and> bit x (Suc k + j))" for r'
    using Cons(1) [of "m AND (m - 1)" "Suc k" r'] by (simp only: lb(2))
  show ?case
    unfolding step IH o ex using lm by (auto simp: bit_simps possible_bit_word)
qed

lemma bit_pext_loop:
  "bit (pext_loop x m (2 ^ k) r) i \<longleftrightarrow>
     bit r i \<or> (\<exists>j < length (ones m). k + j = i \<and> i < 64 \<and> bit x (ones m ! j))"
proof (induction "ones m" arbitrary: m k r)
  case Nil
  then have "m = 0" using ones_eq_Nil_iff [of m] by simp
  then show ?case by (simp add: pext_loop.simps)
next
  case (Cons l ls)
  then have m: "m \<noteq> 0" and o: "ones m = l # ls" by auto
  note lb = lowest_bit [OF o]
  have step: "pext_loop x m (2 ^ k) r =
     pext_loop x (m AND (m - 1)) (2 ^ Suc k)
       (if bit x l then r OR 2 ^ k else r)"
    by (subst pext_loop.simps) (simp add: m lb(1) test_single_bit push_bit_eq_mult mult.commute)
  have ex: "(\<exists>j < length (l # ls). k + j = i \<and> i < 64 \<and> bit x ((l # ls) ! j)) \<longleftrightarrow>
     (k = i \<and> i < 64 \<and> bit x l) \<or> (\<exists>j < length ls. Suc k + j = i \<and> i < 64 \<and> bit x (ls ! j))"
    by (auto simp: less_Suc_eq_0_disj)
  have IH: "bit (pext_loop x (m AND (m - 1)) (2 ^ Suc k) r') i \<longleftrightarrow>
      bit r' i \<or> (\<exists>j < length ls. Suc k + j = i \<and> i < 64 \<and> bit x (ls ! j))" for r'
    using Cons(1) [of "m AND (m - 1)" "Suc k" r'] by (simp only: lb(2))
  show ?case
    unfolding step IH o ex by (auto simp: bit_simps possible_bit_word)
qed

text \<open>Deposit puts bit \<open>j\<close> of the source at the \<open>j\<close>-th set position of the mask.\<close>

lemma bit_PDEP: "bit (PDEP x m) i \<longleftrightarrow> (\<exists>j < length (ones m). ones m ! j = i \<and> bit x j)"
  using bit_pdep_loop [of x m 0 0 i] by (simp add: PDEP_def pdepGeneric_def)

lemma bit_PEXT: "bit (PEXT x m) i \<longleftrightarrow> i < length (ones m) \<and> bit x (ones m ! i)"
  using bit_pext_loop [of x m 0 0 i] length_ones_le [of m]
  by (auto simp: PEXT_def pextGeneric_def)

lemma PDEP_subset: "bit (PDEP x m) i \<Longrightarrow> bit m i"
  by (auto simp: bit_PDEP) (metis mem_Collect_eq nth_mem set_ones)

lemma bit_PDEP_nth: "j < length (ones m) \<Longrightarrow> bit (PDEP x m) (ones m ! j) \<longleftrightarrow> bit x j"
  by (auto simp: bit_PDEP) (metis distinct_ones nth_eq_iff_index_eq)

lemma PEXT_PDEP: "PEXT (PDEP x m) m = take_bit (length (ones m)) x"
  by (rule bit_word_eqI) (auto simp: bit_PEXT bit_PDEP_nth bit_simps)

lemma PDEP_PEXT: "PDEP (PEXT x m) m = x AND m"
proof (rule bit_word_eqI)
  fix i assume "i < LENGTH(64)"
  show "bit (PDEP (PEXT x m) m) i = bit (x AND m) i"
  proof (cases "bit m i")
    case True
    then have "i \<in> set (ones m)" by (simp add: set_ones)
    then obtain j where "j < length (ones m)" "ones m ! j = i" by (auto simp: in_set_conv_nth)
    with True show ?thesis
      by (metis bit_PDEP_nth bit_PEXT bit_and_iff)
  next
    case False
    then show ?thesis by (auto simp: bit_and_iff dest: PDEP_subset)
  qed
qed

end
