(* ===== verification/Appctlpb.thy ===== *)
theory Appctlpb
  imports Prelude
begin

text \<open>
  The messages of \<^verbatim>\<open>pkg/appctl/appctlpb/base.pb.go\<close> that the protocol reads.
  A proto3 optional scalar or a message pointer is an \<open>option\<close>, \<open>None\<close> being
  the nil pointer; an \<^verbatim>\<open>int32\<close> field and an enum value are \<open>int\<close>, with the
  numbers of the generated constants.  The getters return the zero value for a nil pointer.
\<close>

record TCPFragment =
  tf_Enable :: "bool option"
  tf_MaxSleepMs :: "int option"

record NoncePattern =
  np_Type :: "int option"
  np_ApplyToAllUDPPacket :: "bool option"
  np_MinLen :: "int option"
  np_MaxLen :: "int option"
  np_CustomHexStrings :: "string list"

record PaddingPattern =
  pp_MaxMiddlePaddingLen :: "int option"
  pp_MaxEndPaddingLen :: "int option"

record LowEntropyPattern =
  le_Mode :: "int option"
  le_MaskRotation :: "int option"

record TrafficPattern =
  tp_Seed :: "int option"
  tp_UnlockAll :: "bool option"
  tp_TcpFragment :: "TCPFragment option"
  tp_Nonce :: "NoncePattern option"
  tp_Padding :: "PaddingPattern option"
  tp_LowEntropy :: "LowEntropyPattern option"

definition NONCE_TYPE_RANDOM :: int where "NONCE_TYPE_RANDOM = 0"
definition NONCE_TYPE_PRINTABLE :: int where "NONCE_TYPE_PRINTABLE = 1"
definition NONCE_TYPE_PRINTABLE_SUBSET :: int where "NONCE_TYPE_PRINTABLE_SUBSET = 2"
definition NONCE_TYPE_FIXED :: int where "NONCE_TYPE_FIXED = 3"

lemmas NonceType_defs = NONCE_TYPE_RANDOM_def NONCE_TYPE_PRINTABLE_def
  NONCE_TYPE_PRINTABLE_SUBSET_def NONCE_TYPE_FIXED_def

definition LOW_ENTROPY_MODE_OFF :: int where "LOW_ENTROPY_MODE_OFF = 0"
definition LOW_ENTROPY_MODE_32 :: int where "LOW_ENTROPY_MODE_32 = 1"
definition LOW_ENTROPY_MODE_40 :: int where "LOW_ENTROPY_MODE_40 = 2"
definition LOW_ENTROPY_MODE_48 :: int where "LOW_ENTROPY_MODE_48 = 3"
definition LOW_ENTROPY_MODE_56 :: int where "LOW_ENTROPY_MODE_56 = 4"

lemmas LowEntropyMode_defs = LOW_ENTROPY_MODE_OFF_def LOW_ENTROPY_MODE_32_def
  LOW_ENTROPY_MODE_40_def LOW_ENTROPY_MODE_48_def LOW_ENTROPY_MODE_56_def

text \<open>The keys of \<^verbatim>\<open>LowEntropyMode_name\<close> and \<^verbatim>\<open>LowEntropyMaskRotation_name\<close>.\<close>

definition LowEntropyMode_name :: "int list" where
  "LowEntropyMode_name = [0, 1, 2, 3, 4]"

definition LowEntropyMaskRotation_name :: "int list" where
  "LowEntropyMaskRotation_name = [0..15] @ map (\<lambda>k. 16 * k) [1..15]"

definition ROTATE_NONE :: int where "ROTATE_NONE = 0"
definition ROTATE_RIGHT_1 :: int where "ROTATE_RIGHT_1 = 1"
definition ROTATE_RIGHT_15 :: int where "ROTATE_RIGHT_15 = 15"
definition ROTATE_LEFT_1 :: int where "ROTATE_LEFT_1 = 16"
definition ROTATE_LEFT_15 :: int where "ROTATE_LEFT_15 = 240"

lemmas LowEntropyMaskRotation_defs = ROTATE_NONE_def ROTATE_RIGHT_1_def ROTATE_RIGHT_15_def
  ROTATE_LEFT_1_def ROTATE_LEFT_15_def

definition GetMode :: "LowEntropyPattern \<Rightarrow> int" where
  "GetMode x = (case le_Mode x of Some m \<Rightarrow> m | None \<Rightarrow> LOW_ENTROPY_MODE_OFF)"

definition GetMaskRotation :: "LowEntropyPattern \<Rightarrow> int" where
  "GetMaskRotation x = (case le_MaskRotation x of Some r \<Rightarrow> r | None \<Rightarrow> ROTATE_NONE)"

definition GetNonceType :: "NoncePattern \<Rightarrow> int" where
  "GetNonceType x = (case np_Type x of Some t \<Rightarrow> t | None \<Rightarrow> NONCE_TYPE_RANDOM)"

definition GetApplyToAllUDPPacket :: "NoncePattern \<Rightarrow> bool" where
  "GetApplyToAllUDPPacket x = (case np_ApplyToAllUDPPacket x of Some b \<Rightarrow> b | None \<Rightarrow> False)"

definition GetMinLen :: "NoncePattern \<Rightarrow> int" where
  "GetMinLen x = (case np_MinLen x of Some n \<Rightarrow> n | None \<Rightarrow> 0)"

definition GetMaxLen :: "NoncePattern \<Rightarrow> int" where
  "GetMaxLen x = (case np_MaxLen x of Some n \<Rightarrow> n | None \<Rightarrow> 0)"

record Quota_pb =
  qp_Days :: "int option"
  qp_Megabytes :: "int option"

record User =
  u_Name :: "string option"
  u_Password :: "string option"
  u_HashedPassword :: "string option"
  u_Quotas :: "Quota_pb list"
  u_AllowPrivateIP :: "bool option"
  u_AllowLoopbackIP :: "bool option"

definition GetString :: "string option \<Rightarrow> string" where
  "GetString x = (case x of Some s \<Rightarrow> s | None \<Rightarrow> '''')"

definition GetInt32 :: "int option \<Rightarrow> int" where
  "GetInt32 x = (case x of Some n \<Rightarrow> n | None \<Rightarrow> 0)"

definition GetBool :: "bool option \<Rightarrow> bool" where
  "GetBool x = (case x of Some b \<Rightarrow> b | None \<Rightarrow> False)"

end
