(* ===== verification/Low_Entropy.thy ===== *)
theory Low_Entropy
  imports Mathext Appctlpb
begin

text \<open>
  The low entropy codec of \<^verbatim>\<open>pkg/protocol/low_entropy.go\<close>.  The payload is cut
  into chunks of 4 to 7 bytes.  Each chunk is deposited at the set positions
  of a 64-bit mask that rotates from chunk to chunk, and the other
  positions hold one padding bit.  The loops over offsets are recursions that consume the source.
  Decoding inverts encoding, and it accepts only what encoding produces.
\<close>

section \<open>Parameters\<close>

datatype le_error =
    InvalidMode int
  | InvalidExtractedLen int
  | EncodedLenTooBig int
  | InvalidRotation int
  | InvalidChunkIndex int
  | InvalidMaskOnes int int
  | InvalidPaddingBit u8
  | EncodedLenMismatch int int
  | MixedPadding int
  | NonUniformPadding int

definition lowEntropyChunkLen :: nat where "lowEntropyChunkLen = 8"

record lowEntropyModeParams =
  sourceBytesPerChunk :: nat
  halfMaskOnes :: nat

definition extractLowEntropyConfig :: "TrafficPattern option \<Rightarrow> int \<times> int \<times> bool" where
  "extractLowEntropyConfig pattern =
     (case pattern of
        None \<Rightarrow> (LOW_ENTROPY_MODE_OFF, ROTATE_NONE, False)
      | Some p \<Rightarrow> (case tp_LowEntropy p of
            None \<Rightarrow> (LOW_ENTROPY_MODE_OFF, ROTATE_NONE, False)
          | Some le \<Rightarrow>
              let mode = GetMode le
              in if mode = LOW_ENTROPY_MODE_OFF then (mode, ROTATE_NONE, False)
                 else (mode, GetMaskRotation le, True)))"

definition buildLowEntropyParams :: "int \<Rightarrow> le_error + lowEntropyModeParams" where
  "buildLowEntropyParams mode =
     (if mode = LOW_ENTROPY_MODE_32 then Inr \<lparr>sourceBytesPerChunk = 4, halfMaskOnes = 16\<rparr>
      else if mode = LOW_ENTROPY_MODE_40 then Inr \<lparr>sourceBytesPerChunk = 5, halfMaskOnes = 20\<rparr>
      else if mode = LOW_ENTROPY_MODE_48 then Inr \<lparr>sourceBytesPerChunk = 6, halfMaskOnes = 24\<rparr>
      else if mode = LOW_ENTROPY_MODE_56 then Inr \<lparr>sourceBytesPerChunk = 7, halfMaskOnes = 28\<rparr>
      else Inl (InvalidMode mode))"

definition lowEntropyEncodedPayloadLen :: "int \<Rightarrow> int \<Rightarrow> le_error + u16" where
  "lowEntropyEncodedPayloadLen extractedPayloadLen mode =
     (case buildLowEntropyParams mode of
        Inl e \<Rightarrow> Inl e
      | Inr params \<Rightarrow>
          if extractedPayloadLen \<le> 0 then Inl (InvalidExtractedLen extractedPayloadLen)
          else
            let n = int (sourceBytesPerChunk params);
                chunkCount = extractedPayloadLen div n;
                chunkCount = (if extractedPayloadLen mod n \<noteq> 0 then chunkCount + 1 else chunkCount)
            in if chunkCount > 65535 div int lowEntropyChunkLen
               then Inl (EncodedLenTooBig extractedPayloadLen)
               else Inr (word_of_int (chunkCount * int lowEntropyChunkLen)))"

definition isValidLowEntropyRotation :: "int \<Rightarrow> bool" where
  "isValidLowEntropyRotation rotation \<longleftrightarrow>
     rotation = ROTATE_NONE \<or>
     (rotation \<ge> ROTATE_RIGHT_1 \<and> rotation \<le> ROTATE_RIGHT_15) \<or>
     (rotation \<ge> ROTATE_LEFT_1 \<and> rotation \<le> ROTATE_LEFT_15 \<and> rotation mod 16 = 0)"

text \<open>\<^verbatim>\<open>bits.RotateLeft64\<close> reduces a shift of either sign modulo 64.\<close>

definition RotateLeft64 :: "u64 \<Rightarrow> int \<Rightarrow> u64" where
  "RotateLeft64 x k = word_rotl (nat (k mod 64)) x"

definition rotateLowEntropyMask :: "u64 \<Rightarrow> int \<Rightarrow> int \<Rightarrow> u64" where
  "rotateLowEntropyMask initialMask rotation chunkIndex =
     (if rotation = ROTATE_NONE \<or> chunkIndex = 0 then initialMask
      else if rotation \<le> ROTATE_RIGHT_15
        then RotateLeft64 initialMask (- ((chunkIndex mod 64) * rotation))
      else RotateLeft64 initialMask ((chunkIndex mod 64) * (rotation div 16)))"

definition lowEntropyChunkMask :: "u64 \<Rightarrow> int \<Rightarrow> int \<Rightarrow> le_error + u64" where
  "lowEntropyChunkMask initialMask rotation chunkIndex =
     (if \<not> isValidLowEntropyRotation rotation then Inl (InvalidRotation rotation)
      else if chunkIndex < 0 then Inl (InvalidChunkIndex chunkIndex)
      else Inr (rotateLowEntropyMask initialMask rotation chunkIndex))"

text \<open>\<^verbatim>\<open>bits.OnesCount32\<close> counts the set bits.\<close>

definition OnesCount32 :: "u32 \<Rightarrow> nat" where
  "OnesCount32 x = length (ones x)"

definition validateLowEntropyCodecParams :: "int \<Rightarrow> u32 \<Rightarrow> int \<Rightarrow> le_error + lowEntropyModeParams" where
  "validateLowEntropyCodecParams mode halfMask rotation =
     (case buildLowEntropyParams mode of
        Inl e \<Rightarrow> Inl e
      | Inr params \<Rightarrow>
          if OnesCount32 halfMask \<noteq> halfMaskOnes params
            then Inl (InvalidMaskOnes (int (OnesCount32 halfMask)) (int (halfMaskOnes params)))
          else if \<not> isValidLowEntropyRotation rotation then Inl (InvalidRotation rotation)
          else Inr params)"

definition lowBits :: "nat \<Rightarrow> u64" where
  "lowBits n = (if n \<ge> 64 then - 1 else push_bit n 1 - 1)"

section \<open>The codec\<close>

text \<open>
  \<open>n\<close> is \<open>sourceBytesPerChunk\<close>, which is never 0; the test \<open>n = 0\<close> only makes the
  recursion total.
\<close>

function encode_loop :: "nat \<Rightarrow> u64 \<Rightarrow> int \<Rightarrow> u8 \<Rightarrow> int \<Rightarrow> bytes \<Rightarrow> bytes" where
  "encode_loop n initialMask rotation paddingBit chunkIndex src =
     (if src = [] \<or> n = 0 then []
      else
        let sourceLen = (if length src < n then length src else n);
            scratch = replicate (lowEntropyChunkLen - sourceLen) 0 @ take sourceLen src;
            source = Uint64 scratch 0;
            chunkMask = rotateLowEntropyMask initialMask rotation chunkIndex;
            dataMask = PDEP (lowBits (sourceLen * 8)) chunkMask;
            chunk = PDEP source chunkMask;
            chunk = (if paddingBit = 1 then chunk OR NOT dataMask else chunk)
        in PutUint64 chunk @
           encode_loop n initialMask rotation paddingBit (chunkIndex + 1) (drop n src))"
  by pat_completeness auto
termination
  by (relation "measure (\<lambda>(n, m, r, p, i, src). length src)") auto

definition encodeLowEntropyPayloadWithPaddingBit ::
  "bytes \<Rightarrow> int \<Rightarrow> u32 \<Rightarrow> int \<Rightarrow> u8 \<Rightarrow> le_error + bytes" where
  "encodeLowEntropyPayloadWithPaddingBit src mode halfMask rotation paddingBit =
     (case validateLowEntropyCodecParams mode halfMask rotation of
        Inl e \<Rightarrow> Inl e
      | Inr params \<Rightarrow>
          if paddingBit > 1 then Inl (InvalidPaddingBit paddingBit)
          else (case lowEntropyEncodedPayloadLen (int (length src)) mode of
              Inl e \<Rightarrow> Inl e
            | Inr encodedLen \<Rightarrow>
                Inr (encode_loop (sourceBytesPerChunk params) (RepeatUint32 halfMask)
                       rotation paddingBit 0 src)))"

text \<open>\<open>lowEntropyPaddingBit\<close> is a constant of the host, so it is an argument here.\<close>

definition encodeLowEntropyPayload ::
  "u8 \<Rightarrow> bytes \<Rightarrow> int \<Rightarrow> u32 \<Rightarrow> int \<Rightarrow> le_error + bytes" where
  "encodeLowEntropyPayload lowEntropyPaddingBit src mode halfMask rotation =
     encodeLowEntropyPayloadWithPaddingBit src mode halfMask rotation lowEntropyPaddingBit"

text \<open>The padding test of one chunk, which returns the padding bit in force afterwards.\<close>

definition check_padding :: "int \<Rightarrow> u8 \<Rightarrow> u64 \<Rightarrow> u64 \<Rightarrow> le_error + u8" where
  "check_padding chunkIndex paddingBit padding paddingMask =
     (if chunkIndex = 0 then
        (if padding = 0 then Inr 0
         else if padding = paddingMask then Inr 1
         else Inl (MixedPadding chunkIndex))
      else if (paddingBit = 0 \<and> padding \<noteq> 0) \<or> (paddingBit = 1 \<and> padding \<noteq> paddingMask)
        then Inl (NonUniformPadding chunkIndex)
      else Inr paddingBit)"

function decode_loop :: "nat \<Rightarrow> u64 \<Rightarrow> int \<Rightarrow> u8 \<Rightarrow> int \<Rightarrow> nat \<Rightarrow> bytes \<Rightarrow> le_error + bytes" where
  "decode_loop n initialMask rotation paddingBit chunkIndex remaining encoded =
     (if remaining = 0 \<or> n = 0 then Inr []
      else
        let sourceLen = (if remaining < n then remaining else n);
            chunk = Uint64 encoded 0;
            chunkMask = rotateLowEntropyMask initialMask rotation chunkIndex;
            dataMask = PDEP (lowBits (sourceLen * 8)) chunkMask;
            paddingMask = NOT dataMask;
            padding = chunk AND paddingMask
        in case check_padding chunkIndex paddingBit padding paddingMask of
             Inl e \<Rightarrow> Inl e
           | Inr paddingBit' \<Rightarrow>
               let source = PEXT chunk chunkMask;
                   part = drop (lowEntropyChunkLen - sourceLen) (PutUint64 source)
               in (case decode_loop n initialMask rotation paddingBit' (chunkIndex + 1)
                         (remaining - n) (drop lowEntropyChunkLen encoded) of
                     Inl e \<Rightarrow> Inl e
                   | Inr rest \<Rightarrow> Inr (part @ rest)))"
  by pat_completeness auto
termination
  by (relation "measure (\<lambda>(n, m, r, p, i, remaining, enc). remaining)") auto

definition decodeLowEntropyPayload ::
  "bytes \<Rightarrow> int \<Rightarrow> int \<Rightarrow> u32 \<Rightarrow> int \<Rightarrow> le_error + bytes" where
  "decodeLowEntropyPayload encoded extractedPayloadLen mode halfMask rotation =
     (case validateLowEntropyCodecParams mode halfMask rotation of
        Inl e \<Rightarrow> Inl e
      | Inr params \<Rightarrow>
          (case lowEntropyEncodedPayloadLen extractedPayloadLen mode of
             Inl e \<Rightarrow> Inl e
           | Inr expectedEncodedLen \<Rightarrow>
               if length encoded \<noteq> unat expectedEncodedLen
               then Inl (EncodedLenMismatch (int (length encoded)) (uint expectedEncodedLen))
               else decode_loop (sourceBytesPerChunk params) (RepeatUint32 halfMask)
                      rotation 0 0 (nat extractedPayloadLen) encoded))"

declare encode_loop.simps [simp del] decode_loop.simps [simp del]

section \<open>One chunk\<close>

lemma bit_lowBits: "bit (lowBits n) i \<longleftrightarrow> i < n \<and> i < 64"
  by (auto simp: lowBits_def mask_eq_exp_minus_1 [symmetric] bit_simps push_bit_eq_mult)

lemma Uint64_scratch:
  assumes "length bs \<le> 8"
  shows "Uint64 (replicate (8 - length bs) 0 @ bs) 0 = be_decode bs"
proof (rule bit_word_eqI)
  fix i assume "i < LENGTH(64)"
  then have "i < 64" by simp
  moreover have "8 - length bs \<le> 8 - Suc (i div 8) \<longleftrightarrow> i < 8 * length bs" if "i < 64"
    using assms that div_less_iff_less_mult [of 8 i "length bs"] by (auto simp: mult.commute)
  ultimately show "bit (Uint64 (replicate (8 - length bs) 0 @ bs) 0) i = bit (be_decode bs :: u64) i"
    using assms by (auto simp: Uint64_def bit_be_decode nth_append)
qed

lemma drop_be_encode: "s \<le> n \<Longrightarrow> drop (n - s) (be_encode n w) = be_encode s w"
  by (rule nth_equalityI) (auto simp: be_encode_def)

lemma be_encode_cong: "(\<And>j. j < 8 * s \<Longrightarrow> bit w j = bit v j) \<Longrightarrow> be_encode s w = be_encode s v"
  for w v :: "'a::len word"
  by (rule nth_equalityI) (auto intro!: bit_word_eqI simp: bit_be_encode_nth)

text \<open>The positions of a chunk that carry data.\<close>

lemma bit_dataMask:
  "k \<le> length (ones m) \<Longrightarrow> bit (PDEP (lowBits k) m) i \<longleftrightarrow> (\<exists>j < k. ones m ! j = i)"
  using length_ones_le [of m]
  by (auto simp: bit_PDEP bit_lowBits) (metis order.strict_trans2)

text \<open>Encoding a chunk leaves its padding positions uniform and its data readable.\<close>

lemma chunk_encode_decode:
  fixes m :: u64 and p :: bool
  assumes "length bs * 8 \<le> length (ones m)"
  defines "d \<equiv> PDEP (lowBits (length bs * 8)) m"
  defines "c \<equiv> (if p then PDEP (be_decode bs) m OR NOT d else PDEP (be_decode bs) m)"
  shows "c AND NOT d = (if p then NOT d else 0)"
    and "be_encode (length bs) (PEXT c m) = bs"
proof -
  have le64: "length bs * 8 \<le> 64"
    using assms(1) length_ones_le [of m] by simp
  have sub: "bit d i" if "bit (PDEP (be_decode bs) m) i" for i
    using that unfolding d_def bit_dataMask [OF assms(1)]
    by (auto simp: bit_PDEP bit_be_decode mult.commute)
  show "c AND NOT d = (if p then NOT d else 0)"
    by (rule bit_word_eqI) (auto simp: c_def bit_simps dest: sub)
  have "bit (PEXT c m) j \<longleftrightarrow> bit (be_decode bs :: u64) j" if "j < 8 * length bs" for j
  proof -
    have j: "j < length (ones m)" using that assms(1) by simp
    have "bit d (ones m ! j)" using that by (auto simp: d_def bit_dataMask [OF assms(1)] mult.commute)
    then have "bit c (ones m ! j) \<longleftrightarrow> bit (PDEP (be_decode bs) m) (ones m ! j)"
      by (auto simp: c_def bit_simps)
    then show ?thesis using j by (simp add: bit_PEXT bit_PDEP_nth)
  qed
  then have "be_encode (length bs) (PEXT c m) = be_encode (length bs) (be_decode bs :: u64)"
    by (rule be_encode_cong)
  also have "\<dots> = bs"
    using le64 by (intro be_encode_decode) simp
  finally show "be_encode (length bs) (PEXT c m) = bs" .
qed

text \<open>A chunk with uniform padding is the encoding of the data it carries.\<close>

lemma chunk_decode_encode:
  fixes m :: u64 and p :: bool
  assumes "s * 8 \<le> length (ones m)"
  defines "d \<equiv> PDEP (lowBits (s * 8)) m"
  assumes pad: "c AND NOT d = (if p then NOT d else 0)"
  defines "bs \<equiv> be_encode s (PEXT c m)"
  shows "(if p then PDEP (be_decode bs) m OR NOT d else PDEP (be_decode bs) m) = c"
proof (rule bit_word_eqI)
  fix i :: nat assume "i < LENGTH(64)"
  have le64: "s * 8 \<le> 64"
    using assms(1) length_ones_le [of m] by simp
  have b: "bit (be_decode bs :: u64) j \<longleftrightarrow> j < s * 8 \<and> bit c (ones m ! j)" for j
  proof (cases "j < s * 8")
    case True
    then have "j div 8 < s" by simp
    then have "8 * (s - Suc (s - Suc (j div 8))) + j mod 8 = j" by simp
    with True assms(1) le64 show ?thesis
      by (simp add: bs_def bit_be_decode bit_be_encode_nth bit_PEXT)
  qed (simp add: bs_def bit_be_decode)
  have dat: "bit (PDEP (be_decode bs) m) i \<longleftrightarrow> bit d i \<and> bit c i"
    using assms(1) unfolding d_def bit_dataMask [OF assms(1)]
    by (auto simp: bit_PDEP b) (metis order.strict_trans2)
  have "bit (c AND NOT d) i = bit (if p then NOT d else 0) i"
    by (simp only: pad)
  then show "bit (if p then PDEP (be_decode bs) m OR NOT d else PDEP (be_decode bs) m) i = bit c i"
    using \<open>i < LENGTH(64)\<close> by (auto simp: bit_simps dat split: if_splits)
qed

section \<open>Masks\<close>

lemma length_ones_card: "length (ones m) = card {i. bit m i}"
  by (metis distinct_card distinct_ones set_ones)

lemma rotate_back_mod: "(x + (n - k mod n) + k) mod n = x mod (n :: nat)" if "0 < n"
proof -
  have "n - k mod n + k = n * Suc (k div n)"
    using mod_less_divisor [OF that, of k] by (simp add: algebra_simps minus_mod_eq_mult_div [symmetric])
  then have "x + (n - k mod n) + k = x + n * Suc (k div n)" by simp
  then show ?thesis by (simp only: mod_mult_self2)
qed

lemma length_ones_rotl: "length (ones (word_rotl k m)) = length (ones m)"
  for m :: "'a::len word"
proof -
  let ?n = "LENGTH('a)"
  let ?f = "\<lambda>i. (i + k) mod ?n" and ?g = "\<lambda>i. (i + (?n - k mod ?n)) mod ?n"
  have gf: "?g (?f i) = i" and fg: "?f (?g i) = i" if "i < ?n" for i
  proof -
    have "?g (?f i) = (i + k + (?n - k mod ?n)) mod ?n" and "?f (?g i) = (i + (?n - k mod ?n) + k) mod ?n"
      by (simp_all only: mod_add_left_eq)
    then show "?g (?f i) = i" and "?f (?g i) = i"
      using that rotate_back_mod [of ?n i k] by (simp_all only: ac_simps) simp_all
  qed
  have lt: "i < ?n" if "bit m i" for i
    using that by (rule bit_imp_le_length)
  have inj: "inj_on ?f {i. bit m i}"
    by (rule inj_on_inverseI [where g = ?g]) (use gf lt in auto)
  have "bit (word_rotl k m) i \<longleftrightarrow> i \<in> ?f ` {i. bit m i}" for i
    unfolding bit_word_rotl_iff image_iff using gf fg lt by (auto 0 3)
  then have "{i. bit (word_rotl k m) i} = ?f ` {i. bit m i}" by auto
  then show ?thesis by (simp add: length_ones_card card_image [OF inj])
qed

lemma length_ones_RepeatUint32: "length (ones (RepeatUint32 h)) = 2 * length (ones h)"
proof -
  have "{i. bit (RepeatUint32 h) i} = {i. bit h i} \<union> (\<lambda>i. i + 32) ` {i. bit h i}"
    by (auto simp: RepeatUint32_def bit_simps image_iff dest: bit_imp_le_length)
       (metis le_add_diff_inverse2)
  moreover have "{i. bit h i} \<inter> (\<lambda>i. i + 32) ` {i. bit h i} = {}"
    by (auto dest: bit_imp_le_length)
  moreover have "finite {i. bit h i}"
    by (metis set_ones List.finite_set)
  ultimately show ?thesis
    by (simp add: length_ones_card card_Un_disjoint card_image)
qed

lemma length_ones_rotateLowEntropyMask [simp]:
  "length (ones (rotateLowEntropyMask m rotation i)) = length (ones m)"
  by (simp add: rotateLowEntropyMask_def RotateLeft64_def length_ones_rotl)

lemma NOT_dataMask_nonzero:
  fixes m :: u64
  assumes "length (ones m) < 64"
  shows "NOT (PDEP x m) \<noteq> 0"
proof
  assume "NOT (PDEP x m) = 0"
  then have "bit (PDEP x m) i" if "i < 64" for i
  proof -
    have "\<not> bit (NOT (PDEP x m)) i" by (simp only: \<open>NOT (PDEP x m) = 0\<close> bit_0_eq bot_apply bot_bool_def simp_thms)
    then show ?thesis using that by (simp add: bit_simps)
  qed
  then have "filter (bit m) [0..<64] = [0..<64]"
    by (intro filter_True) (auto intro: PDEP_subset [of x m])
  then show False using assms by (simp add: ones_def)
qed

section \<open>The loops\<close>

text \<open>The number of chunks.\<close>

definition chunks :: "nat \<Rightarrow> nat \<Rightarrow> nat" where
  "chunks n len = (len + n - 1) div n"

lemma chunks_0 [simp]: "chunks n 0 = 0"
  by (cases n) (simp_all add: chunks_def)

lemma chunks_step: "0 < n \<Longrightarrow> 0 < len \<Longrightarrow> chunks n len = Suc (chunks n (len - n))"
proof -
  assume "0 < n" "0 < len"
  then have "chunks n len = Suc ((len - 1) div n)"
    by (simp add: chunks_def le_div_geq)
  also have "(len - 1) div n = chunks n (len - n)"
    using \<open>0 < n\<close> \<open>0 < len\<close> by (cases "len \<le> n") (auto simp: chunks_def)
  finally show ?thesis .
qed

text \<open>One round of each loop, with the scratch buffers computed away.\<close>

lemma encode_loop_Nil [simp]: "encode_loop n m r p i [] = []"
  by (subst encode_loop.simps) simp

lemma encode_loop_step:
  assumes "src \<noteq> []" and "0 < n" and "n \<le> 8"
  shows "encode_loop n m r p i src =
    (let s = take n src; k = rotateLowEntropyMask m r i; d = PDEP (lowBits (length s * 8)) k
     in PutUint64 (if p = 1 then PDEP (be_decode s) k OR NOT d else PDEP (be_decode s) k) @
        encode_loop n m r p (i + 1) (drop n src))"
proof -
  have sl: "(if length src < n then length src else n) = length (take n src)" by simp
  have tk: "take (length (take n src)) src = take n src" by (metis append_eq_conv_conj append_take_drop_id)
  have "length (take n src) \<le> 8" using assms by simp
  then show ?thesis
    using assms(1,2)
    by (subst encode_loop.simps)
       (simp only: Let_def sl tk lowEntropyChunkLen_def Uint64_scratch if_False simp_thms
         neq0_conv [symmetric])
qed

lemma decode_loop_0 [simp]: "decode_loop n m r p i 0 enc = Inr []"
  by (subst decode_loop.simps) simp

lemma decode_loop_step:
  assumes "0 < rem" and "0 < n" and "n \<le> 8"
  shows "decode_loop n m r p i rem enc =
    (let s = min rem n; k = rotateLowEntropyMask m r i; d = PDEP (lowBits (s * 8)) k;
         c = Uint64 enc 0
     in case check_padding i p (c AND NOT d) (NOT d) of
          Inl e \<Rightarrow> Inl e
        | Inr p' \<Rightarrow> (case decode_loop n m r p' (i + 1) (rem - n) (drop 8 enc) of
              Inl e \<Rightarrow> Inl e
            | Inr rest \<Rightarrow> Inr (be_encode s (PEXT c k) @ rest)))"
proof -
  have sl: "(if rem < n then rem else n) = min rem n" by simp
  have "min rem n \<le> 8" using assms by simp
  then show ?thesis
    using assms(1,2)
    by (subst decode_loop.simps)
       (simp only: Let_def sl lowEntropyChunkLen_def drop_be_encode if_False simp_thms
         neq0_conv [symmetric])
qed

lemma length_encode_loop:
  "0 < n \<Longrightarrow> n \<le> 8 \<Longrightarrow> length (encode_loop n m r p i src) = 8 * chunks n (length src)"
proof (induction src arbitrary: i rule: length_induct)
  case (1 src)
  show ?case
  proof (cases "src = []")
    case False
    with 1 show ?thesis by (simp add: encode_loop_step Let_def chunks_step)
  qed simp
qed

lemma check_padding_uniform:
  assumes "b = 0 \<or> b = 1" and "i = 0 \<or> pb = b" and "q \<noteq> 0"
  shows "check_padding i pb (if b = 1 then q else 0) q = Inr b"
  using assms by (auto simp: check_padding_def)

lemma check_padding_InrD:
  assumes "check_padding i pb x q = Inr b" and "i = 0 \<or> pb = 0 \<or> pb = 1"
  shows "(b = 0 \<or> b = 1) \<and> (i \<noteq> 0 \<longrightarrow> b = pb) \<and> x = (if b = 1 then q else 0)"
  using assms by (auto simp: check_padding_def split: if_splits)

lemma decode_encode_loop:
  assumes "8 * n = length (ones m)" and "0 < n" and "n < 8" and "p = 0 \<or> p = 1"
  shows "0 \<le> i \<Longrightarrow> i = 0 \<or> pb = p \<Longrightarrow>
    decode_loop n m r pb i (length src) (encode_loop n m r p i src) = Inr src"
proof (induction src arbitrary: i pb rule: length_induct)
  case (1 src)
  show ?case
  proof (cases "src = []")
    case False
    let ?s = "take n src"
    let ?m = "rotateLowEntropyMask m r i"
    let ?d = "PDEP (lowBits (length ?s * 8)) ?m"
    let ?c = "if p = 1 then PDEP (be_decode ?s) ?m OR NOT ?d else PDEP (be_decode ?s) ?m"
    have len: "length ?s * 8 \<le> length (ones ?m)" using assms(1) by simp
    have enc: "encode_loop n m r p i src = PutUint64 ?c @ encode_loop n m r p (i + 1) (drop n src)"
      using False assms by (simp add: encode_loop_step Let_def)
    have nz: "NOT ?d \<noteq> 0"
      using assms by (intro NOT_dataMask_nonzero) simp
    note ced = chunk_encode_decode [OF len, of "p = 1"]
    have chk: "check_padding i pb (?c AND NOT ?d) (NOT ?d) = Inr p"
      unfolding ced(1) by (rule check_padding_uniform [OF assms(4) 1(3) nz])
    have "length (drop n src) < length src" using False assms(2) by simp
    then have IH: "decode_loop n m r p (i + 1) (length (drop n src))
        (encode_loop n m r p (i + 1) (drop n src)) = Inr (drop n src)"
      using 1(1) [rule_format, of "drop n src" "i + 1" p] 1(2) by simp
    have sl: "min (length src) n = length ?s" by simp
    have "decode_loop n m r pb i (length src) (encode_loop n m r p i src) = Inr (?s @ drop n src)"
      unfolding enc using False assms(2,3)
      by (subst decode_loop_step)
         (simp_all only: Let_def sl Uint64_here chk IH [unfolded length_drop] ced(2) sum.case
           append_eq_conv_conj length_be_encode drop_append drop_all diff_self_eq_0 drop_0
           append_Nil order_refl length_greater_0_conv less_imp_le not_False_eq_True)
    then show ?thesis by simp
  qed simp
qed

lemma encode_decode_loop:
  assumes "8 * n = length (ones m)" and "0 < n" and "n < 8"
  shows "decode_loop n m r pb i rem enc = Inr src \<Longrightarrow> length enc = 8 * chunks n rem \<Longrightarrow>
    0 \<le> i \<Longrightarrow> i = 0 \<or> pb = 0 \<or> pb = 1 \<Longrightarrow>
    length src = rem \<and>
    (\<exists>p. (p = 0 \<or> p = 1) \<and> (i \<noteq> 0 \<longrightarrow> p = pb) \<and> encode_loop n m r p i src = enc)"
proof (induction rem arbitrary: i pb enc src rule: less_induct)
  case (less rem)
  show ?case
  proof (cases "rem = 0")
    case True
    then show ?thesis using less.prems by auto
  next
    case False
    let ?s = "min rem n"
    let ?m = "rotateLowEntropyMask m r i"
    let ?d = "PDEP (lowBits (?s * 8)) ?m"
    let ?c = "Uint64 enc 0"
    obtain p rest where chk: "check_padding i pb (?c AND NOT ?d) (NOT ?d) = Inr p"
      and rest: "decode_loop n m r p (i + 1) (rem - n) (drop 8 enc) = Inr rest"
      and src: "src = be_encode ?s (PEXT ?c ?m) @ rest"
      using less.prems(1) False assms
      by (auto simp: decode_loop_step Let_def split: sum.splits)
    note p = check_padding_InrD [OF chk less.prems(4)]
    have len8: "length enc = 8 + 8 * chunks n (rem - n)"
      using less.prems(2) False assms(2) by (simp add: chunks_step)
    have IH: "length rest = rem - n \<and> (\<exists>q. (q = 0 \<or> q = 1) \<and> (i + 1 \<noteq> 0 \<longrightarrow> q = p) \<and>
        encode_loop n m r q (i + 1) rest = drop 8 enc)"
      using False assms(2) rest len8 less.prems(3) p by (intro less.IH) auto
    then have enc': "encode_loop n m r p (i + 1) rest = drop 8 enc" and lr: "length rest = rem - n"
      using less.prems(3) by auto
    have tk: "take n src = be_encode ?s (PEXT ?c ?m)" and dr: "drop n src = rest"
      using lr by (auto simp: src min_def)
    have c: "(if p = 1 then PDEP (be_decode (take n src)) ?m OR NOT ?d
        else PDEP (be_decode (take n src)) ?m) = ?c"
      unfolding tk by (rule chunk_decode_encode) (use assms(1) p in auto)
    have "src \<noteq> []" and lt: "length (take n src) = ?s" and ls: "length src = rem"
      using False assms(2) lr by (auto simp: src min_def dest: arg_cong [where f = length])
    then have "encode_loop n m r p i src = PutUint64 ?c @ drop 8 enc"
      using assms(2,3) by (subst encode_loop_step) (simp_all only: Let_def lt c dr enc' less_imp_le not_False_eq_True)
    also have "PutUint64 ?c = take 8 enc"
      using len8 be_encode_decode [of "take 8 enc", where 'a = 64] by (simp add: Uint64_def)
    finally show ?thesis using ls p by auto
  qed
qed

section \<open>The codec as a whole\<close>

lemma buildLowEntropyParams_InrD:
  assumes "buildLowEntropyParams mode = Inr ps"
  shows "0 < sourceBytesPerChunk ps" and "sourceBytesPerChunk ps < 8"
    and "2 * halfMaskOnes ps = 8 * sourceBytesPerChunk ps"
  using assms by (auto simp: buildLowEntropyParams_def split: if_splits)

lemma validateLowEntropyCodecParams_Inr_iff:
  "validateLowEntropyCodecParams mode h r = Inr ps \<longleftrightarrow>
     buildLowEntropyParams mode = Inr ps \<and> OnesCount32 h = halfMaskOnes ps \<and>
     isValidLowEntropyRotation r"
  by (auto simp: validateLowEntropyCodecParams_def split: sum.splits if_splits)

lemma validated_mask:
  assumes "validateLowEntropyCodecParams mode h r = Inr ps"
  shows "8 * sourceBytesPerChunk ps = length (ones (RepeatUint32 h))"
    and "0 < sourceBytesPerChunk ps" and "sourceBytesPerChunk ps < 8"
  using assms buildLowEntropyParams_InrD [of mode ps]
  by (auto simp: validateLowEntropyCodecParams_Inr_iff length_ones_RepeatUint32 OnesCount32_def)

lemma chunks_int:
  assumes "0 < n"
  shows "int (chunks n len) =
    (if int len mod int n \<noteq> 0 then int len div int n + 1 else int len div int n)"
proof -
  have "chunks n len = (if len mod n \<noteq> 0 then len div n + 1 else len div n)"
  proof (cases "len mod n")
    case 0
    then have "len = n * (len div n)" by auto
    then have "chunks n len = len div n"
      unfolding chunks_def using assms by (intro div_nat_eqI) simp_all
    then show ?thesis using 0 by simp
  next
    case (Suc k)
    have "len + n - 1 = n * Suc (len div n) + k"
      using Suc mult_div_mod_eq [of n len] assms by simp
    moreover have "k < n" using Suc mod_less_divisor [OF assms, of len] by simp
    ultimately have "chunks n len = Suc (len div n)"
      unfolding chunks_def by (intro div_nat_eqI) simp_all
    then show ?thesis using Suc by simp
  qed
  then show ?thesis by (auto simp: zmod_int [symmetric] zdiv_int [symmetric])
qed

lemma lowEntropyEncodedPayloadLen_eq:
  assumes "buildLowEntropyParams mode = Inr ps"
  shows "lowEntropyEncodedPayloadLen (int len) mode =
    (if len = 0 then Inl (InvalidExtractedLen 0)
     else if chunks (sourceBytesPerChunk ps) len > 8191 then Inl (EncodedLenTooBig (int len))
     else Inr (of_nat (8 * chunks (sourceBytesPerChunk ps) len)))"
proof -
  note n = buildLowEntropyParams_InrD(1) [OF assms]
  have "lowEntropyEncodedPayloadLen (int len) mode =
    (if len = 0 then Inl (InvalidExtractedLen 0)
     else if int (chunks (sourceBytesPerChunk ps) len) > 8191 then Inl (EncodedLenTooBig (int len))
     else Inr (word_of_int (int (chunks (sourceBytesPerChunk ps) len) * 8)))"
    unfolding chunks_int [OF n]
    by (simp add: lowEntropyEncodedPayloadLen_def assms lowEntropyChunkLen_def Let_def)
  then show ?thesis by (simp add: mult.commute)
qed

lemma unat_encoded_len: "c \<le> 8191 \<Longrightarrow> unat (of_nat (8 * c) :: u16) = 8 * c"
  by (simp add: unat_of_nat del: of_nat_mult)

lemma encodeLowEntropyPayload_Inr_iff:
  "encodeLowEntropyPayloadWithPaddingBit src mode h r p = Inr e \<longleftrightarrow>
     (\<exists>ps. validateLowEntropyCodecParams mode h r = Inr ps \<and> p \<le> 1 \<and> src \<noteq> [] \<and>
       chunks (sourceBytesPerChunk ps) (length src) \<le> 8191 \<and>
       e = encode_loop (sourceBytesPerChunk ps) (RepeatUint32 h) r p 0 src)"
proof (cases "validateLowEntropyCodecParams mode h r")
  case (Inr ps)
  then have "buildLowEntropyParams mode = Inr ps"
    by (simp add: validateLowEntropyCodecParams_Inr_iff)
  with Inr show ?thesis
    by (auto simp: encodeLowEntropyPayloadWithPaddingBit_def lowEntropyEncodedPayloadLen_eq)
qed (simp add: encodeLowEntropyPayloadWithPaddingBit_def)

lemma decodeLowEntropyPayload_Inr_iff:
  "decodeLowEntropyPayload e (int len) mode h r = Inr src \<longleftrightarrow>
     (\<exists>ps. validateLowEntropyCodecParams mode h r = Inr ps \<and> 0 < len \<and>
       chunks (sourceBytesPerChunk ps) len \<le> 8191 \<and>
       length e = 8 * chunks (sourceBytesPerChunk ps) len \<and>
       decode_loop (sourceBytesPerChunk ps) (RepeatUint32 h) r 0 0 len e = Inr src)"
proof (cases "validateLowEntropyCodecParams mode h r")
  case (Inr ps)
  then have "buildLowEntropyParams mode = Inr ps"
    by (simp add: validateLowEntropyCodecParams_Inr_iff)
  with Inr show ?thesis
    by (auto simp: decodeLowEntropyPayload_def lowEntropyEncodedPayloadLen_eq unat_encoded_len
        simp del: of_nat_mult split: if_splits)
qed (simp add: decodeLowEntropyPayload_def)

lemma word_le_1_cases: "p \<le> 1 \<longleftrightarrow> p = 0 \<or> p = (1 :: u8)"
  by (auto simp: word_le_nat_alt word_unat_eq_iff)

lemma decode_of_encode:
  assumes "encodeLowEntropyPayloadWithPaddingBit src mode h r p = Inr e"
  shows "decodeLowEntropyPayload e (int (length src)) mode h r = Inr src"
    and "buildLowEntropyParams mode = Inr ps \<Longrightarrow> length e = 8 * chunks (sourceBytesPerChunk ps) (length src)"
proof -
  obtain qs where v: "validateLowEntropyCodecParams mode h r = Inr qs" and p: "p \<le> 1"
    and src: "src \<noteq> []" "chunks (sourceBytesPerChunk qs) (length src) \<le> 8191"
    and e: "e = encode_loop (sourceBytesPerChunk qs) (RepeatUint32 h) r p 0 src"
    using assms by (auto simp: encodeLowEntropyPayload_Inr_iff)
  note n = validated_mask [OF v]
  have len: "length e = 8 * chunks (sourceBytesPerChunk qs) (length src)"
    using n by (simp add: e length_encode_loop)
  show "decodeLowEntropyPayload e (int (length src)) mode h r = Inr src"
    using v src p len decode_encode_loop [OF n, of p 0 0 r src]
    by (simp add: decodeLowEntropyPayload_Inr_iff word_le_1_cases e)
  show "buildLowEntropyParams mode = Inr ps \<Longrightarrow> length e = 8 * chunks (sourceBytesPerChunk ps) (length src)"
    using v len by (simp add: validateLowEntropyCodecParams_Inr_iff)
qed

text \<open>
  C8.  For every mode, mask with the right number of ones, valid rotation, padding bit
  and non-empty payload of at most 8191 chunks, encoding succeeds, produces 8 bytes per chunk, and
  decoding returns the payload.
\<close>

theorem low_entropy_round_trip:
  assumes "buildLowEntropyParams mode = Inr ps" and "OnesCount32 halfMask = halfMaskOnes ps"
    and "isValidLowEntropyRotation rotation" and "paddingBit \<le> 1" and "src \<noteq> []"
    and "length src \<le> 8191 * sourceBytesPerChunk ps"
  shows "\<exists>encoded. encodeLowEntropyPayloadWithPaddingBit src mode halfMask rotation paddingBit = Inr encoded \<and>
    int (length encoded) = 8 * ((int (length src) + int (sourceBytesPerChunk ps) - 1) div int (sourceBytesPerChunk ps)) \<and>
    decodeLowEntropyPayload encoded (int (length src)) mode halfMask rotation = Inr src"
proof -
  let ?n = "sourceBytesPerChunk ps"
  have v: "validateLowEntropyCodecParams mode halfMask rotation = Inr ps"
    using assms by (simp add: validateLowEntropyCodecParams_Inr_iff)
  note n = validated_mask [OF v]
  have "chunks ?n (length src) < Suc 8191"
    unfolding chunks_def using assms(6) n(2) by (simp add: div_less_iff_less_mult)
  then obtain e where e: "encodeLowEntropyPayloadWithPaddingBit src mode halfMask rotation paddingBit = Inr e"
    using v assms(4,5) by (auto simp: encodeLowEntropyPayload_Inr_iff)
  have "int (chunks ?n (length src)) = (int (length src) + int ?n - 1) div int ?n"
    using n(2) by (simp add: chunks_def zdiv_int of_nat_diff)
  then show ?thesis
    using e decode_of_encode [OF e] assms(1) by auto
qed

theorem low_entropy_round_trip_witness:
  "\<exists>encoded. encodeLowEntropyPayloadWithPaddingBit [1, 2, 3, 4, 5, 6, 7] 2 0xFFFFF 16 1 = Inr encoded \<and>
     int (length encoded) = 16 \<and>
     decodeLowEntropyPayload encoded 7 2 0xFFFFF 16 = Inr [1, 2, 3, 4, 5, 6, 7]"
proof -
  have "OnesCount32 0xFFFFF = 20" by code_simp
  then show ?thesis
    using low_entropy_round_trip [of 2 "\<lparr>sourceBytesPerChunk = 5, halfMaskOnes = 20\<rparr>" "0xFFFFF" 16 1
        "[1, 2, 3, 4, 5, 6, 7]"]
    by (simp add: buildLowEntropyParams_def LowEntropyMode_defs isValidLowEntropyRotation_def
        LowEntropyMaskRotation_defs)
qed

text \<open>
  C9.  Decoding is canonical: whatever it accepts is exactly the encoding of the decoded payload
  under one of the two padding bits, and the payload has the announced length.
\<close>

theorem low_entropy_decode_canonical:
  assumes "decodeLowEntropyPayload encoded extractedPayloadLen mode halfMask rotation = Inr src"
  shows "int (length src) = extractedPayloadLen \<and>
    (\<exists>paddingBit \<in> {0, 1}.
       encodeLowEntropyPayloadWithPaddingBit src mode halfMask rotation paddingBit = Inr encoded)"
proof -
  have "0 < extractedPayloadLen"
    using assms by (auto simp: decodeLowEntropyPayload_def lowEntropyEncodedPayloadLen_def
        split: sum.splits if_splits)
  then obtain len where len: "extractedPayloadLen = int len"
    by (metis nonneg_int_cases less_imp_le)
  obtain ps where ps: "validateLowEntropyCodecParams mode halfMask rotation = Inr ps"
    and l: "0 < len" "chunks (sourceBytesPerChunk ps) len \<le> 8191"
    and e: "length encoded = 8 * chunks (sourceBytesPerChunk ps) len"
    and d: "decode_loop (sourceBytesPerChunk ps) (RepeatUint32 halfMask) rotation 0 0 len encoded = Inr src"
    using assms unfolding len decodeLowEntropyPayload_Inr_iff by auto
  note n = validated_mask [OF ps]
  from encode_decode_loop [OF n d e] obtain p where "length src = len" and "p = 0 \<or> p = 1"
    and "encode_loop (sourceBytesPerChunk ps) (RepeatUint32 halfMask) rotation p 0 src = encoded"
    by auto
  then show ?thesis
    using l ps by (auto simp: len encodeLowEntropyPayload_Inr_iff intro: exI [of _ ps])
qed

theorem low_entropy_decode_canonical_witness:
  "\<exists>encoded. decodeLowEntropyPayload encoded 7 2 0xFFFFF 16 = Inr [1, 2, 3, 4, 5, 6, 7] \<and>
     (\<exists>paddingBit \<in> {0, 1}.
        encodeLowEntropyPayloadWithPaddingBit [1, 2, 3, 4, 5, 6, 7] 2 0xFFFFF 16 paddingBit = Inr encoded)"
proof -
  have "OnesCount32 0xFFFFF = 20" by code_simp
  then obtain e where "encodeLowEntropyPayloadWithPaddingBit [1, 2, 3, 4, 5, 6, 7] 2 0xFFFFF 16 1 = Inr e"
    by (auto simp: encodeLowEntropyPayload_Inr_iff validateLowEntropyCodecParams_Inr_iff
        buildLowEntropyParams_def LowEntropyMode_defs isValidLowEntropyRotation_def
        LowEntropyMaskRotation_defs chunks_def)
  from decode_of_encode(1) [OF this] show ?thesis
    using low_entropy_decode_canonical [of e 7 2 "0xFFFFF" 16 "[1, 2, 3, 4, 5, 6, 7]"] by auto
qed

end
