(* ===== verification/Metadata.thy ===== *)
theory Metadata
  imports Low_Entropy
begin

text \<open>
  The segment metadata of \<^verbatim>\<open>pkg/protocol/metadata.go\<close>: the two 32-byte layouts,
  their writers and their checking readers.  The clock is an argument \<open>now\<close>, in
  seconds since the Unix epoch.  The embedded \<^verbatim>\<open>baseStruct\<close> is inlined into the two
  records, and the Go interface \<^verbatim>\<open>metadata\<close> is the datatype of its two implementations.
\<close>

section \<open>Protocol types\<close>

type_synonym protocolType = u8

definition closeConnRequest :: protocolType where "closeConnRequest = 0"
definition closeConnResponse :: protocolType where "closeConnResponse = 1"
definition openSessionRequest :: protocolType where "openSessionRequest = 2"
definition openSessionResponse :: protocolType where "openSessionResponse = 3"
definition closeSessionRequest :: protocolType where "closeSessionRequest = 4"
definition closeSessionResponse :: protocolType where "closeSessionResponse = 5"
definition dataClientToServer :: protocolType where "dataClientToServer = 6"
definition dataServerToClient :: protocolType where "dataServerToClient = 7"
definition ackClientToServer :: protocolType where "ackClientToServer = 8"
definition ackServerToClient :: protocolType where "ackServerToClient = 9"
definition dataClientToServerLowEntropy :: protocolType where "dataClientToServerLowEntropy = 10"
definition dataServerToClientLowEntropy :: protocolType where "dataServerToClientLowEntropy = 11"

lemmas protocolType_defs = closeConnRequest_def closeConnResponse_def openSessionRequest_def
  openSessionResponse_def closeSessionRequest_def closeSessionResponse_def
  dataClientToServer_def dataServerToClient_def ackClientToServer_def ackServerToClient_def
  dataClientToServerLowEntropy_def dataServerToClientLowEntropy_def

definition isSessionProtocol :: "protocolType \<Rightarrow> bool" where
  "isSessionProtocol p \<longleftrightarrow> p = openSessionRequest \<or> p = openSessionResponse \<or>
     p = closeSessionRequest \<or> p = closeSessionResponse"

definition isLowEntropyProtocol :: "protocolType \<Rightarrow> bool" where
  "isLowEntropyProtocol p \<longleftrightarrow>
     p = dataClientToServerLowEntropy \<or> p = dataServerToClientLowEntropy"

definition isDataProtocol :: "protocolType \<Rightarrow> bool" where
  "isDataProtocol p \<longleftrightarrow>
     p = dataClientToServer \<or> p = dataServerToClient \<or> isLowEntropyProtocol p"

definition isAckProtocol :: "protocolType \<Rightarrow> bool" where
  "isAckProtocol p \<longleftrightarrow> p = ackClientToServer \<or> p = ackServerToClient"

definition isDataAckProtocol :: "protocolType \<Rightarrow> bool" where
  "isDataAckProtocol p \<longleftrightarrow> isDataProtocol p \<or> isAckProtocol p"

lemmas isProtocol_defs = isSessionProtocol_def isLowEntropyProtocol_def isDataProtocol_def
  isAckProtocol_def isDataAckProtocol_def

definition statusOK :: u8 where "statusOK = 0"
definition statusQuotaExhausted :: u8 where "statusQuotaExhausted = 1"

definition MetadataLength :: nat where "MetadataLength = 32"
definition MaxSessionOpenPayload :: nat where "MaxSessionOpenPayload = 1024"

text \<open>\<^verbatim>\<open>maxPDU\<close> is declared in \<^verbatim>\<open>segment.go\<close>; the metadata checks refer to it.\<close>

definition maxPDU :: nat where "maxPDU = 32 * 1024"

section \<open>The two structures\<close>

datatype md_error =
    InputLen nat
  | InvalidProtocol u8
  | InvalidTimestamp u32
  | PayloadTooBig u16
  | NotLowEntropyData u8
  | InvalidExtractedPayloadLen u16
  | InvalidLowEntropyLen u16
  | LowEntropyLenWant u16 u16
  | LowEntropyCodec le_error

record sessionStruct =
  ss_protocol :: u8
  ss_timestamp :: u32
  ss_sessionID :: u32
  ss_seq :: u32
  ss_statusCode :: u8
  ss_payloadLen :: u16
  ss_suffixLen :: u8

record dataAckStruct =
  das_protocol :: u8
  das_timestamp :: u32
  das_lowEntropyMode :: u8
  das_sessionID :: u32
  das_seq :: u32
  das_unAckSeq :: u32
  das_windowSize :: u16
  das_fragment :: u8
  das_prefixLen :: u8
  das_payloadLen :: u16
  das_suffixLen :: u8
  das_lowEntropyMask :: u32
  das_extractedPayloadLen :: u16
  das_lowEntropyMaskRotation :: u8

datatype metadata = SessionMD sessionStruct | DataAckMD dataAckStruct

fun Protocol :: "metadata \<Rightarrow> protocolType" where
  "Protocol (SessionMD ss) = ss_protocol ss"
| "Protocol (DataAckMD das) = das_protocol das"

text \<open>
  The checked conversions.  The inner type assertion panics when the dynamic type
  does not match the protocol.  Here and in the later theories an outer \<open>None\<close> is a panic.
\<close>

definition toSessionStruct :: "metadata \<Rightarrow> sessionStruct option option" where
  "toSessionStruct m =
     (if isSessionProtocol (Protocol m)
      then (case m of SessionMD ss \<Rightarrow> Some (Some ss) | DataAckMD _ \<Rightarrow> None)
      else Some None)"

definition toDataAckStruct :: "metadata \<Rightarrow> dataAckStruct option option" where
  "toDataAckStruct m =
     (if isDataAckProtocol (Protocol m)
      then (case m of SessionMD _ \<Rightarrow> None | DataAckMD das \<Rightarrow> Some (Some das))
      else Some None)"

text \<open>The minute written into, and compared with, the timestamp field.\<close>

definition unix_minute :: "nat \<Rightarrow> u32" where
  "unix_minute now = of_nat (now div 60)"

definition marshal_session :: "nat \<Rightarrow> sessionStruct \<Rightarrow> sessionStruct \<times> bytes" where
  "marshal_session now ss =
     (let ss = ss\<lparr>ss_timestamp := unix_minute now\<rparr>
      in (ss, [ss_protocol ss, 0] @ PutUint32 (ss_timestamp ss) @ PutUint32 (ss_sessionID ss) @
              PutUint32 (ss_seq ss) @ [ss_statusCode ss] @ PutUint16 (ss_payloadLen ss) @
              [ss_suffixLen ss] @ replicate 14 0))"

definition unmarshal_session :: "nat \<Rightarrow> bytes \<Rightarrow> md_error + sessionStruct" where
  "unmarshal_session now b =
     (if length b \<noteq> MetadataLength then Inl (InputLen (length b))
      else if openSessionRequest \<noteq> b ! 0 \<and> openSessionResponse \<noteq> b ! 0 \<and>
              closeSessionRequest \<noteq> b ! 0 \<and> closeSessionResponse \<noteq> b ! 0
        then Inl (InvalidProtocol (b ! 0))
      else
        let originalTimestamp = Uint32 b 2;
            currentTimestamp = unix_minute now
        in if \<not> WithinRange currentTimestamp originalTimestamp 1
             then Inl (InvalidTimestamp (originalTimestamp * 60))
           else
             let payloadLen = Uint16 b 15
             in if unat payloadLen > MaxSessionOpenPayload then Inl (PayloadTooBig payloadLen)
                else Inr \<lparr>ss_protocol = b ! 0, ss_timestamp = originalTimestamp,
                         ss_sessionID = Uint32 b 6, ss_seq = Uint32 b 10,
                         ss_statusCode = b ! 14, ss_payloadLen = payloadLen,
                         ss_suffixLen = b ! 17\<rparr>)"

definition marshal_dataAck :: "nat \<Rightarrow> dataAckStruct \<Rightarrow> dataAckStruct \<times> bytes" where
  "marshal_dataAck now das =
     (let das = das\<lparr>das_timestamp := unix_minute now\<rparr>;
          le = isLowEntropyProtocol (das_protocol das)
      in (das, [das_protocol das, if le then das_lowEntropyMode das else 0] @
               PutUint32 (das_timestamp das) @ PutUint32 (das_sessionID das) @
               PutUint32 (das_seq das) @ PutUint32 (das_unAckSeq das) @
               PutUint16 (das_windowSize das) @ [das_fragment das, das_prefixLen das] @
               PutUint16 (das_payloadLen das) @ [das_suffixLen das] @
               (if le then PutUint32 (das_lowEntropyMask das) @
                           PutUint16 (das_extractedPayloadLen das) @
                           [das_lowEntropyMaskRotation das]
                else replicate 7 0)))"

definition validateLowEntropyDataAckMetadata :: "dataAckStruct \<Rightarrow> md_error option" where
  "validateLowEntropyDataAckMetadata das =
     (if \<not> isLowEntropyProtocol (das_protocol das) then Some (NotLowEntropyData (das_protocol das))
      else if unat (das_extractedPayloadLen das) > maxPDU
        then Some (InvalidExtractedPayloadLen (das_extractedPayloadLen das))
      else if unat (das_payloadLen das) mod lowEntropyChunkLen \<noteq> 0
        then Some (InvalidLowEntropyLen (das_payloadLen das))
      else
        case validateLowEntropyCodecParams (uint (das_lowEntropyMode das))
               (das_lowEntropyMask das) (uint (das_lowEntropyMaskRotation das)) of
          Inl e \<Rightarrow> Some (LowEntropyCodec e)
        | Inr _ \<Rightarrow>
            if das_extractedPayloadLen das = 0 then
              (if das_payloadLen das \<noteq> 0 then Some (LowEntropyLenWant (das_payloadLen das) 0) else None)
            else
              (case lowEntropyEncodedPayloadLen (uint (das_extractedPayloadLen das))
                      (uint (das_lowEntropyMode das)) of
                 Inl e \<Rightarrow> Some (LowEntropyCodec e)
               | Inr expectedPayloadLen \<Rightarrow>
                   if das_payloadLen das \<noteq> expectedPayloadLen
                   then Some (LowEntropyLenWant (das_payloadLen das) expectedPayloadLen)
                   else None))"

definition unmarshal_dataAck :: "nat \<Rightarrow> bytes \<Rightarrow> md_error + dataAckStruct" where
  "unmarshal_dataAck now b =
     (if length b \<noteq> MetadataLength then Inl (InputLen (length b))
      else
        let protocol = b ! 0
        in if \<not> isDataAckProtocol protocol then Inl (InvalidProtocol protocol)
           else
             let originalTimestamp = Uint32 b 2;
                 currentTimestamp = unix_minute now
             in if \<not> WithinRange currentTimestamp originalTimestamp 1
                  then Inl (InvalidTimestamp (originalTimestamp * 60))
                else
                  let le = isLowEntropyProtocol protocol;
                      mode = (if le then b ! 1 else 0);
                      lemask = (if le then Uint32 b 25 else 0);
                      extracted = (if le then Uint16 b 29 else 0);
                      rotation = (if le then b ! 31 else 0);
                      candidate = \<lparr>das_protocol = protocol, das_timestamp = 0,
                        das_lowEntropyMode = mode, das_sessionID = 0, das_seq = 0,
                        das_unAckSeq = 0, das_windowSize = 0, das_fragment = 0,
                        das_prefixLen = 0, das_payloadLen = Uint16 b 22, das_suffixLen = 0,
                        das_lowEntropyMask = lemask, das_extractedPayloadLen = extracted,
                        das_lowEntropyMaskRotation = rotation\<rparr>
                  in case (if le then validateLowEntropyDataAckMetadata candidate else None) of
                       Some e \<Rightarrow> Inl e
                     | None \<Rightarrow> Inr
                         \<lparr>das_protocol = protocol, das_timestamp = originalTimestamp,
                          das_lowEntropyMode = mode, das_sessionID = Uint32 b 6,
                          das_seq = Uint32 b 10, das_unAckSeq = Uint32 b 14,
                          das_windowSize = Uint16 b 18, das_fragment = b ! 20,
                          das_prefixLen = b ! 21, das_payloadLen = Uint16 b 22,
                          das_suffixLen = b ! 24, das_lowEntropyMask = lemask,
                          das_extractedPayloadLen = extracted,
                          das_lowEntropyMaskRotation = rotation\<rparr>)"

section \<open>Round trips\<close>

lemma length_marshal_session: "length (snd (marshal_session now ss)) = MetadataLength"
  by (simp add: marshal_session_def Let_def MetadataLength_def)

lemma length_marshal_dataAck: "length (snd (marshal_dataAck now das)) = MetadataLength"
  by (simp add: marshal_dataAck_def Let_def MetadataLength_def)

lemma marshal_session_fields:
  defines "b \<equiv> \<lambda>now ss. snd (marshal_session now ss)"
  shows "b now ss ! 0 = ss_protocol ss" "Uint32 (b now ss) 2 = unix_minute now"
    "Uint32 (b now ss) 6 = ss_sessionID ss" "Uint32 (b now ss) 10 = ss_seq ss"
    "b now ss ! 14 = ss_statusCode ss" "Uint16 (b now ss) 15 = ss_payloadLen ss"
    "b now ss ! 17 = ss_suffixLen ss"
  by (simp_all add: b_def marshal_session_def Let_def wire_simps Uint16_skip Uint32_skip nth_append)

lemma marshal_dataAck_fields:
  defines "b \<equiv> \<lambda>now das. snd (marshal_dataAck now das)"
  shows "b now das ! 0 = das_protocol das" "Uint32 (b now das) 2 = unix_minute now"
    "Uint32 (b now das) 6 = das_sessionID das" "Uint32 (b now das) 10 = das_seq das"
    "Uint32 (b now das) 14 = das_unAckSeq das" "Uint16 (b now das) 18 = das_windowSize das"
    "b now das ! 20 = das_fragment das" "b now das ! 21 = das_prefixLen das"
    "Uint16 (b now das) 22 = das_payloadLen das" "b now das ! 24 = das_suffixLen das"
    "isLowEntropyProtocol (das_protocol das) \<Longrightarrow> b now das ! 1 = das_lowEntropyMode das"
    "isLowEntropyProtocol (das_protocol das) \<Longrightarrow> Uint32 (b now das) 25 = das_lowEntropyMask das"
    "isLowEntropyProtocol (das_protocol das) \<Longrightarrow> Uint16 (b now das) 29 = das_extractedPayloadLen das"
    "isLowEntropyProtocol (das_protocol das) \<Longrightarrow> b now das ! 31 = das_lowEntropyMaskRotation das"
  by (simp_all add: b_def marshal_dataAck_def Let_def wire_simps Uint16_skip Uint32_skip nth_append)

text \<open>Timestamps away from the two ends of the 32-bit range.\<close>

lemma unat_unix_minute: "now div 60 < 2 ^ 32 \<Longrightarrow> unat (unix_minute now) = now div 60"
  by (simp add: unix_minute_def unat_of_nat)

lemma WithinRange_minutes:
  assumes "60 \<le> sent" and "sent div 60 + 1 < 2 ^ 32" and "\<bar>int (now div 60) - int (sent div 60)\<bar> \<le> 1"
  shows "WithinRange (unix_minute now) (unix_minute sent) 1"
proof -
  have "sent div 60 < 2 ^ 32" "now div 60 < 2 ^ 32" using assms(2,3) by linarith+
  then have u: "unat (unix_minute now) = now div 60" "unat (unix_minute sent) = sent div 60"
    by (simp_all add: unat_unix_minute)
  have "0 < sent div 60" using div_le_mono [OF assms(1), of 60] by simp
  then show ?thesis
    using assms(2,3) by (subst WithinRange_u32) (simp_all only: u Suc_eq_plus1)
qed

lemma WithinRange_not_extreme:
  assumes "WithinRange (unix_minute now) ts 1" and "ts \<noteq> 0" and "ts \<noteq> - 1" and "now div 60 < 2 ^ 32"
  shows "\<bar>int (now div 60) - int (unat ts)\<bar> \<le> 1"
proof -
  have "0 < unat ts" using assms(2) by (simp add: unat_gt_0)
  moreover have "Suc (unat ts) < 2 ^ 32"
  proof -
    have "unat (- 1 :: u32) = 2 ^ 32 - 1"
      by (simp add: unsigned_minus_1_eq_mask mask_eq_exp_minus_1)
    then have "unat ts \<noteq> 2 ^ 32 - 1"
      using assms(3) by (metis word_unat_eq_iff)
    then show ?thesis using unsigned_less [of ts, where ?'a = nat] by simp
  qed
  ultimately show ?thesis
    using assms(1,4) by (subst (asm) WithinRange_u32) (simp_all only: unat_unix_minute)
qed

lemma unmarshal_marshal_session:
  assumes "isSessionProtocol (ss_protocol ss)" and "unat (ss_payloadLen ss) \<le> MaxSessionOpenPayload"
    and "60 \<le> sent" and "sent div 60 + 1 < 2 ^ 32"
    and "\<bar>int (now div 60) - int (sent div 60)\<bar> \<le> 1"
  shows "length (snd (marshal_session sent ss)) = MetadataLength \<and>
    unmarshal_session now (snd (marshal_session sent ss)) = Inr (ss\<lparr>ss_timestamp := unix_minute sent\<rparr>)"
  using assms(1,2) WithinRange_minutes [OF assms(3-5)]
  by (auto simp: unmarshal_session_def Let_def length_marshal_session marshal_session_fields
      isSessionProtocol_def)

text \<open>
  A session metadata with a session protocol and at most 1024 payload bytes, marshalled at
  one time and unmarshalled at most one minute apart, comes back as it was sent, and it is 32 bytes long.
\<close>

theorem session_metadata_round_trip:
  assumes "isSessionProtocol (ss_protocol ss)" and "unat (ss_payloadLen ss) \<le> MaxSessionOpenPayload"
    and "60 \<le> sent" and "sent div 60 + 1 < 2 ^ 32"
    and "\<bar>int (now div 60) - int (sent div 60)\<bar> \<le> 1"
  shows "length (snd (marshal_session sent ss)) = MetadataLength \<and>
    unmarshal_session now (snd (marshal_session sent ss)) = Inr (ss\<lparr>ss_timestamp := unix_minute sent\<rparr>)"
  using assms by (rule unmarshal_marshal_session)

theorem session_metadata_round_trip_witness:
  "unmarshal_session 1700000059 (snd (marshal_session 1700000000
      \<lparr>ss_protocol = 2, ss_timestamp = 0, ss_sessionID = 7, ss_seq = 0, ss_statusCode = 0,
       ss_payloadLen = 1024, ss_suffixLen = 9\<rparr>)) =
    Inr \<lparr>ss_protocol = 2, ss_timestamp = 28333333, ss_sessionID = 7, ss_seq = 0, ss_statusCode = 0,
      ss_payloadLen = 1024, ss_suffixLen = 9\<rparr>"
  using session_metadata_round_trip [of "\<lparr>ss_protocol = 2, ss_timestamp = 0, ss_sessionID = 7,
      ss_seq = 0, ss_statusCode = 0, ss_payloadLen = 1024, ss_suffixLen = 9\<rparr>" 1700000000 1700000059]
  by (simp add: isSessionProtocol_def protocolType_defs MaxSessionOpenPayload_def unix_minute_def)

lemma validateLowEntropy_cong:
  "validateLowEntropyDataAckMetadata
     \<lparr>das_protocol = das_protocol das, das_timestamp = t,
      das_lowEntropyMode = das_lowEntropyMode das, das_sessionID = i, das_seq = q,
      das_unAckSeq = u, das_windowSize = w, das_fragment = f,
      das_prefixLen = x, das_payloadLen = das_payloadLen das, das_suffixLen = y,
      das_lowEntropyMask = das_lowEntropyMask das,
      das_extractedPayloadLen = das_extractedPayloadLen das,
      das_lowEntropyMaskRotation = das_lowEntropyMaskRotation das\<rparr> =
   validateLowEntropyDataAckMetadata das"
  unfolding validateLowEntropyDataAckMetadata_def dataAckStruct.simps by (rule refl)

lemma unmarshal_marshal_dataAck:
  assumes "isDataAckProtocol (das_protocol das)"
    and "isLowEntropyProtocol (das_protocol das) \<longrightarrow> validateLowEntropyDataAckMetadata das = None"
    and "60 \<le> sent" and "sent div 60 + 1 < 2 ^ 32"
    and "\<bar>int (now div 60) - int (sent div 60)\<bar> \<le> 1"
  shows "length (snd (marshal_dataAck sent das)) = MetadataLength \<and>
    unmarshal_dataAck now (snd (marshal_dataAck sent das)) =
      Inr (if isLowEntropyProtocol (das_protocol das) then das\<lparr>das_timestamp := unix_minute sent\<rparr>
           else das\<lparr>das_timestamp := unix_minute sent, das_lowEntropyMode := 0, das_lowEntropyMask := 0,
                    das_extractedPayloadLen := 0, das_lowEntropyMaskRotation := 0\<rparr>)"
proof (cases "isLowEntropyProtocol (das_protocol das)")
  case True
  then show ?thesis
    using assms(1,2) WithinRange_minutes [OF assms(3-5)]
    by (simp add: unmarshal_dataAck_def Let_def length_marshal_dataAck marshal_dataAck_fields
        marshal_dataAck_fields(11) [unfolded One_nat_def] validateLowEntropy_cong)
next
  case False
  then show ?thesis
    using assms(1) WithinRange_minutes [OF assms(3-5)]
    by (simp add: unmarshal_dataAck_def Let_def length_marshal_dataAck marshal_dataAck_fields)
qed

text \<open>
  C11.  A data or ack metadata comes back as it was sent.  A low entropy one must
  pass the low entropy checks, and the low entropy fields of any other come back as 0.
\<close>

theorem dataAck_metadata_round_trip:
  assumes "isDataAckProtocol (das_protocol das)"
    and "isLowEntropyProtocol (das_protocol das) \<longrightarrow> validateLowEntropyDataAckMetadata das = None"
    and "60 \<le> sent" and "sent div 60 + 1 < 2 ^ 32"
    and "\<bar>int (now div 60) - int (sent div 60)\<bar> \<le> 1"
  shows "length (snd (marshal_dataAck sent das)) = MetadataLength \<and>
    unmarshal_dataAck now (snd (marshal_dataAck sent das)) =
      Inr (if isLowEntropyProtocol (das_protocol das) then das\<lparr>das_timestamp := unix_minute sent\<rparr>
           else das\<lparr>das_timestamp := unix_minute sent, das_lowEntropyMode := 0, das_lowEntropyMask := 0,
                    das_extractedPayloadLen := 0, das_lowEntropyMaskRotation := 0\<rparr>)"
  using assms by (rule unmarshal_marshal_dataAck)

theorem dataAck_metadata_round_trip_witness:
  "unmarshal_dataAck 1700000059 (snd (marshal_dataAck 1700000000
      \<lparr>das_protocol = 10, das_timestamp = 0, das_lowEntropyMode = 2, das_sessionID = 7, das_seq = 5,
       das_unAckSeq = 3, das_windowSize = 256, das_fragment = 1, das_prefixLen = 2,
       das_payloadLen = 16, das_suffixLen = 9, das_lowEntropyMask = 0xFFFFF,
       das_extractedPayloadLen = 7, das_lowEntropyMaskRotation = 16\<rparr>)) =
    Inr \<lparr>das_protocol = 10, das_timestamp = 28333333, das_lowEntropyMode = 2, das_sessionID = 7,
       das_seq = 5, das_unAckSeq = 3, das_windowSize = 256, das_fragment = 1, das_prefixLen = 2,
       das_payloadLen = 16, das_suffixLen = 9, das_lowEntropyMask = 0xFFFFF,
       das_extractedPayloadLen = 7, das_lowEntropyMaskRotation = 16\<rparr>"
proof -
  let ?d = "\<lparr>das_protocol = 10, das_timestamp = 0, das_lowEntropyMode = 2, das_sessionID = 7,
       das_seq = 5, das_unAckSeq = 3, das_windowSize = 256, das_fragment = 1, das_prefixLen = 2,
       das_payloadLen = 16, das_suffixLen = 9, das_lowEntropyMask = 0xFFFFF,
       das_extractedPayloadLen = 7, das_lowEntropyMaskRotation = 16\<rparr>"
  have "OnesCount32 0xFFFFF = 20" by code_simp
  then have "validateLowEntropyDataAckMetadata ?d = None"
    by (simp add: validateLowEntropyDataAckMetadata_def isProtocol_defs protocolType_defs maxPDU_def
        lowEntropyChunkLen_def validateLowEntropyCodecParams_def buildLowEntropyParams_def
        LowEntropyMode_defs isValidLowEntropyRotation_def LowEntropyMaskRotation_defs
        lowEntropyEncodedPayloadLen_def)
  then show ?thesis
    using dataAck_metadata_round_trip [of ?d 1700000000 1700000059]
    by (simp add: isProtocol_defs protocolType_defs unix_minute_def)
qed

lemma unmarshal_session_timestamp:
  assumes "unmarshal_session now b = Inr ss"
  shows "WithinRange (unix_minute now) (ss_timestamp ss) 1"
  using assms by (auto simp: unmarshal_session_def Let_def split: if_split_asm)

lemma unmarshal_dataAck_timestamp:
  assumes "unmarshal_dataAck now b = Inr das"
  shows "WithinRange (unix_minute now) (das_timestamp das) 1"
proof -
  have c: "length b = MetadataLength" "isDataAckProtocol (b ! 0)"
    "WithinRange (unix_minute now) (Uint32 b 2) 1"
    using assms by (auto simp only: unmarshal_dataAck_def Let_def if_True if_False split: if_split_asm)
  have "das_timestamp das = Uint32 b 2"
    using assms unfolding unmarshal_dataAck_def Let_def
    by (simp only: c if_False not_True_eq_False simp_thms split: option.split_asm) auto
  with c(3) show ?thesis by simp
qed

text \<open>
  C13.  Whatever metadata is accepted was stamped within one minute of the receiver's clock,
  unless its timestamp is one of the two ends of the 32-bit range.
\<close>

theorem accepted_metadata_is_fresh:
  assumes "now div 60 < 2 ^ 32"
  shows "(unmarshal_session now b = Inr ss \<and> ss_timestamp ss \<noteq> 0 \<and> ss_timestamp ss \<noteq> - 1 \<longrightarrow>
            \<bar>int (now div 60) - int (unat (ss_timestamp ss))\<bar> \<le> 1) \<and>
         (unmarshal_dataAck now b = Inr das \<and> das_timestamp das \<noteq> 0 \<and> das_timestamp das \<noteq> - 1 \<longrightarrow>
            \<bar>int (now div 60) - int (unat (das_timestamp das))\<bar> \<le> 1)"
  using WithinRange_not_extreme [OF _ _ _ assms] unmarshal_session_timestamp
    unmarshal_dataAck_timestamp by blast

theorem accepted_metadata_is_fresh_witness:
  "\<exists>ss. unmarshal_session 1700000059 (snd (marshal_session 1700000000
      \<lparr>ss_protocol = 2, ss_timestamp = 0, ss_sessionID = 7, ss_seq = 0, ss_statusCode = 0,
       ss_payloadLen = 1024, ss_suffixLen = 9\<rparr>)) = Inr ss \<and>
     \<bar>28333334 - int (unat (ss_timestamp ss))\<bar> \<le> 1"
proof -
  let ?b = "snd (marshal_session 1700000000
      \<lparr>ss_protocol = 2, ss_timestamp = 0, ss_sessionID = 7, ss_seq = 0, ss_statusCode = 0,
       ss_payloadLen = 1024, ss_suffixLen = 9\<rparr>)"
  let ?s = "\<lparr>ss_protocol = 2, ss_timestamp = 28333333, ss_sessionID = 7, ss_seq = 0, ss_statusCode = 0,
       ss_payloadLen = 1024, ss_suffixLen = 9\<rparr>"
  have "WithinRange (unix_minute 1700000059) (unix_minute 1700000000) 1"
    by (rule WithinRange_minutes) simp_all
  then have "unmarshal_session 1700000059 ?b = Inr ?s"
    by (simp add: unmarshal_session_def Let_def length_marshal_session marshal_session_fields
        protocolType_defs MaxSessionOpenPayload_def) (simp add: unix_minute_def)
  then show ?thesis
    using accepted_metadata_is_fresh [of 1700000059 ?b ?s undefined] by simp
qed

text \<open>
  The freshness check wraps around at the ends of the range: metadata stamped with
  minute 0 is accepted at every later minute that fits 32 bits, whatever its age.
\<close>

theorem minute_zero_always_accepted:
  assumes "length b = MetadataLength" and "isSessionProtocol (b ! 0)" and "Uint32 b 2 = 0"
    and "unat (Uint16 b 15) \<le> MaxSessionOpenPayload" and "60 \<le> now" and "now div 60 < 2 ^ 32"
  shows "\<exists>ss. unmarshal_session now b = Inr ss \<and> ss_timestamp ss = 0"
proof -
  have "0 < now div 60" using div_le_mono [OF assms(5), of 60] by simp
  then have "1 \<le> unix_minute now"
    using assms(6) by (simp add: word_le_nat_alt unat_unix_minute)
  then have "WithinRange (unix_minute now) 0 1"
    by (simp add: WithinRange_def Mid_eq_fst_iff)
  then show ?thesis
    using assms by (auto simp: unmarshal_session_def Let_def isSessionProtocol_def)
qed

theorem minute_zero_always_accepted_witness:
  "\<exists>ss. unmarshal_session 1700000059 (2 # replicate 31 0) = Inr ss \<and> ss_timestamp ss = 0"
proof (rule minute_zero_always_accepted)
  show "length (2 # replicate 31 0 :: bytes) = MetadataLength" by code_simp
  show "isSessionProtocol ((2 # replicate 31 0) ! 0)" by code_simp
  show "Uint32 (2 # replicate 31 0) 2 = 0" by code_simp
  have "Uint16 (2 # replicate 31 0) 15 = 0" by code_simp
  then show "unat (Uint16 (2 # replicate 31 0) 15) \<le> MaxSessionOpenPayload" by simp
qed simp_all

end
