(* ===== verification/Segment.thy ===== *)
theory Segment
  imports Metadata
begin

text \<open>
  Segments and segment trees of \<^verbatim>\<open>pkg/protocol/segment.go\<close>, and the user policies of
  \<^verbatim>\<open>pkg/protocol/serveruser/registry.go\<close> that segments carry.
  A segment tree wraps a B-tree of the package \<^verbatim>\<open>github.com/google/btree\<close>.  The B-tree
  is represented by its items in ascending order, its operations are the fields of a record that
  every definition takes as argument, and the locale \<open>btree\<close> states their documented behaviour.
  Writing through the segment pointers of a tree is an update of the item.
  An outer \<open>None\<close> is a panic.
\<close>

section \<open>User policies\<close>

record Quota =
  q_days :: int
  q_megabytes :: int

record Policy =
  p_name :: string
  p_quotas :: "Quota list"

text \<open>\<open>buildPolicy\<close> is only called on a non-nil user.\<close>

definition buildPolicy :: "User \<Rightarrow> Policy" where
  "buildPolicy u = \<lparr>p_name = GetString (u_Name u),
     p_quotas = map (\<lambda>q. \<lparr>q_days = GetInt32 (qp_Days q), q_megabytes = GetInt32 (qp_Megabytes q)\<rparr>)
                  (u_Quotas u)\<rparr>"

text \<open>The user map is the list of its values in the order in which the loop visits them.\<close>

definition BuildPolicies :: "User option list \<Rightarrow> (string \<rightharpoonup> Policy) option" where
  "BuildPolicies users =
     (if users = [] then None
      else Some (foldl (\<lambda>policies user.
             (case user of
                None \<Rightarrow> policies
              | Some u \<Rightarrow> if GetString (u_Name u) = '''' then policies
                          else policies(GetString (u_Name u) \<mapsto> buildPolicy u))) Map.empty users))"

section \<open>Segments\<close>

datatype TransportProtocol = UnknownTransport | StreamTransport | PacketTransport

text \<open>
  Of the cipher block of a segment the session reads only the user name of its context, so
  \<open>seg_block\<close> is that name.  The pending authentication is modelled with the underlays.
\<close>

record segment =
  seg_metadata :: metadata
  seg_payload :: bytes
  seg_transport :: TransportProtocol
  seg_ackCount :: u8
  seg_txCount :: u8
  seg_txTime :: int
  seg_txTimeout :: int
  seg_block :: "string option"
  seg_serverUserPolicy :: Policy

definition zeroPolicy :: Policy where
  "zeroPolicy = \<lparr>p_name = '''', p_quotas = []\<rparr>"

text \<open>A composite literal \<^verbatim>\<open>&segment{...}\<close> leaves the other fields at their zero values.\<close>

definition mk_segment :: "metadata \<Rightarrow> bytes \<Rightarrow> TransportProtocol \<Rightarrow> segment" where
  "mk_segment m p t = \<lparr>seg_metadata = m, seg_payload = p, seg_transport = t, seg_ackCount = 0,
     seg_txCount = 0, seg_txTime = 0, seg_txTimeout = 0, seg_block = None,
     seg_serverUserPolicy = zeroPolicy\<rparr>"

definition seg_Protocol :: "segment \<Rightarrow> protocolType" where
  "seg_Protocol s = Protocol (seg_metadata s)"

definition SessionID :: "segment \<Rightarrow> u32" where
  "SessionID s = (case seg_metadata s of
     DataAckMD das \<Rightarrow> das_sessionID das | SessionMD ss \<Rightarrow> ss_sessionID ss)"

definition Seq :: "segment \<Rightarrow> u32" where
  "Seq s = (case seg_metadata s of
     DataAckMD das \<Rightarrow> das_seq das | SessionMD ss \<Rightarrow> ss_seq ss)"

definition Fragment :: "segment \<Rightarrow> u8" where
  "Fragment s = (case seg_metadata s of DataAckMD das \<Rightarrow> das_fragment das | SessionMD _ \<Rightarrow> 0)"

definition Less :: "segment \<Rightarrow> segment \<Rightarrow> bool" where
  "Less s other \<longleftrightarrow> Seq s < Seq other"

section \<open>Fragment sizes\<close>

definition txCountLimit :: u8 where "txCountLimit = 20"

text \<open>
  \<^verbatim>\<open>packetOverhead\<close> is declared in \<^verbatim>\<open>underlay_packet.go\<close>: a nonce, the
  metadata, and two authentication tags.
\<close>

definition packetOverhead :: int where "packetOverhead = 24 + 32 + 16 * 2"

datatype frag_error = FragCodec le_error | NoCapacity int

definition maxFragmentSizeInternal :: "int \<Rightarrow> TransportProtocol \<Rightarrow> int" where
  "maxFragmentSizeInternal mtu transport =
     (if transport = StreamTransport then int maxPDU
      else let res = mtu - packetOverhead in Max_go 0 res)"

definition maxFragmentSize :: "int \<Rightarrow> TransportProtocol \<Rightarrow> int \<Rightarrow> frag_error + int" where
  "maxFragmentSize mtu transport mode =
     (if mode = LOW_ENTROPY_MODE_OFF then Inr (maxFragmentSizeInternal mtu transport)
      else case buildLowEntropyParams mode of
        Inl e \<Rightarrow> Inl (FragCodec e)
      | Inr params \<Rightarrow>
          let maxEncodableChunkCount = 65535 div int lowEntropyChunkLen
          in case transport of
               StreamTransport \<Rightarrow>
                 let fragmentSize = maxFragmentSizeInternal mtu transport;
                     maxEncodableFragmentSize = maxEncodableChunkCount * int (sourceBytesPerChunk params)
                 in Inr (Min_go fragmentSize maxEncodableFragmentSize)
             | PacketTransport \<Rightarrow>
                 let mtuChunkCount = go_div (mtu - packetOverhead) (int lowEntropyChunkLen)
                 in if mtuChunkCount \<le> 0 then Inl (NoCapacity mtu)
                    else Inr (mtuChunkCount * int (sourceBytesPerChunk params))
             | UnknownTransport \<Rightarrow> Inr (maxFragmentSizeInternal mtu transport))"

section \<open>Segment trees\<close>

record btree_ops =
  bt_ReplaceOrInsert :: "segment \<Rightarrow> segment list \<Rightarrow> segment option \<times> segment list"
  bt_DeleteMin :: "segment list \<Rightarrow> segment option \<times> segment list"
  bt_Min :: "segment list \<Rightarrow> segment option"
  bt_Max :: "segment list \<Rightarrow> segment option"
  bt_Len :: "segment list \<Rightarrow> nat"
  bt_Clear :: "segment list \<Rightarrow> segment list"

text \<open>The two event channels hold at most one token.\<close>

record segmentTree =
  st_tr :: "segment list"
  st_cap :: nat
  st_chanEmptyEvent :: bool
  st_chanNotEmptyEvent :: bool

definition newSegmentTree :: "int \<Rightarrow> segmentTree option" where
  "newSegmentTree capacity =
     (if capacity \<le> 0 then None
      else Some \<lparr>st_tr = [], st_cap = nat capacity, st_chanEmptyEvent = False,
                 st_chanNotEmptyEvent = False\<rparr>)"

definition notifyEmpty :: "segmentTree \<Rightarrow> segmentTree" where
  "notifyEmpty t = t\<lparr>st_chanEmptyEvent := True\<rparr>"

definition notifyNotEmpty :: "segmentTree \<Rightarrow> segmentTree" where
  "notifyNotEmpty t = t\<lparr>st_chanNotEmptyEvent := True\<rparr>"

definition checkProtocolType :: "segment \<Rightarrow> bool" where
  "checkProtocolType seg \<longleftrightarrow> isSessionProtocol (seg_Protocol seg) \<or> isDataProtocol (seg_Protocol seg)"

definition Insert :: "btree_ops \<Rightarrow> segment \<Rightarrow> segmentTree \<Rightarrow> (bool \<times> segmentTree) option" where
  "Insert bt seg t =
     (if \<not> checkProtocolType seg then None
      else if bt_Len bt (st_tr t) \<ge> st_cap t then Some (False, notifyNotEmpty t)
      else
        let (prev, tr) = bt_ReplaceOrInsert bt seg (st_tr t);
            t = t\<lparr>st_tr := tr\<rparr>
        in Some (True, if prev \<noteq> None then t else notifyNotEmpty t))"

text \<open>The notification after a deletion or a look at the minimum.\<close>

definition notify_len :: "btree_ops \<Rightarrow> segmentTree \<Rightarrow> segmentTree" where
  "notify_len bt t = (if bt_Len bt (st_tr t) > 0 then notifyNotEmpty t else notifyEmpty t)"

definition DeleteMin :: "btree_ops \<Rightarrow> segmentTree \<Rightarrow> (segment option \<times> segmentTree) option" where
  "DeleteMin bt t =
     (if bt_Len bt (st_tr t) = 0 then Some (None, t)
      else case bt_DeleteMin bt (st_tr t) of
          (None, _) \<Rightarrow> None
        | (Some seg, tr) \<Rightarrow> Some (Some seg, notify_len bt (t\<lparr>st_tr := tr\<rparr>)))"

text \<open>The second component tells whether the returned segment was deleted.\<close>

definition DeleteMinIf ::
  "btree_ops \<Rightarrow> (segment \<Rightarrow> bool) \<Rightarrow> segmentTree \<Rightarrow> (segment option \<times> bool \<times> segmentTree) option" where
  "DeleteMinIf bt si t =
     (if bt_Len bt (st_tr t) = 0 then Some (None, False, t)
      else case bt_Min bt (st_tr t) of
          None \<Rightarrow> None
        | Some seg \<Rightarrow>
            let shouldDelete = si seg
            in if shouldDelete
               then (case bt_DeleteMin bt (st_tr t) of
                       (None, _) \<Rightarrow> None
                     | (Some seg, tr) \<Rightarrow>
                         Some (Some seg, shouldDelete, notify_len bt (t\<lparr>st_tr := tr\<rparr>)))
               else Some (Some seg, shouldDelete, notify_len bt t))"

definition DeleteAll :: "btree_ops \<Rightarrow> segmentTree \<Rightarrow> segmentTree" where
  "DeleteAll bt t = notifyEmpty (t\<lparr>st_tr := bt_Clear bt (st_tr t)\<rparr>)"

text \<open>
  The iterator threads the variables that its closure captures, may write through the
  segment pointer, and returns whether to continue.
\<close>

fun ascend_items ::
  "('s \<Rightarrow> segment \<Rightarrow> 's \<times> segment \<times> bool) \<Rightarrow> 's \<Rightarrow> segment list \<Rightarrow> 's \<times> segment list" where
  "ascend_items si s [] = (s, [])"
| "ascend_items si s (x # xs) =
     (case si s x of (s', x', continue) \<Rightarrow>
        if continue then (case ascend_items si s' xs of (s'', xs') \<Rightarrow> (s'', x' # xs'))
        else (s', x' # xs))"

definition Ascend ::
  "btree_ops \<Rightarrow> ('s \<Rightarrow> segment \<Rightarrow> 's \<times> segment \<times> bool) \<Rightarrow> 's \<Rightarrow> segmentTree \<Rightarrow> 's \<times> segmentTree" where
  "Ascend bt si s t =
     (if bt_Len bt (st_tr t) = 0 then (s, t)
      else case ascend_items si s (st_tr t) of (s', tr) \<Rightarrow> (s', t\<lparr>st_tr := tr\<rparr>))"

text \<open>\<open>None\<close> is \<^verbatim>\<open>stderror.ErrEmpty\<close> in the next two.\<close>

definition MinSeq :: "btree_ops \<Rightarrow> segmentTree \<Rightarrow> u32 option" where
  "MinSeq bt t = (case bt_Min bt (st_tr t) of None \<Rightarrow> None | Some seg \<Rightarrow> Some (Seq seg))"

definition MaxSeq :: "btree_ops \<Rightarrow> segmentTree \<Rightarrow> u32 option" where
  "MaxSeq bt t = (case bt_Max bt (st_tr t) of None \<Rightarrow> None | Some seg \<Rightarrow> Some (Seq seg))"

definition Len :: "btree_ops \<Rightarrow> segmentTree \<Rightarrow> nat" where
  "Len bt t = bt_Len bt (st_tr t)"

definition Remaining :: "btree_ops \<Rightarrow> segmentTree \<Rightarrow> int" where
  "Remaining bt t = int (st_cap t) - int (bt_Len bt (st_tr t))"

section \<open>The interface of the B-tree\<close>

definition sorted_items :: "segment list \<Rightarrow> bool" where
  "sorted_items xs \<longleftrightarrow> sorted_wrt Less xs"

text \<open>Items in ascending order, with replacement of an equal item, as the package documents it.\<close>

locale btree =
  fixes bt :: btree_ops
  assumes insert_sorted: "sorted_items xs \<Longrightarrow> sorted_items (snd (bt_ReplaceOrInsert bt x xs))"
    and insert_set: "sorted_items xs \<Longrightarrow>
      set (snd (bt_ReplaceOrInsert bt x xs)) = insert x {y \<in> set xs. Seq y \<noteq> Seq x}"
    and insert_old: "sorted_items xs \<Longrightarrow>
      fst (bt_ReplaceOrInsert bt x xs) = find (\<lambda>y. Seq y = Seq x) xs"
    and deleteMin: "sorted_items (x # xs) \<Longrightarrow> bt_DeleteMin bt (x # xs) = (Some x, xs)"
    and min: "sorted_items (x # xs) \<Longrightarrow> bt_Min bt (x # xs) = Some x"
    and min_empty: "bt_Min bt [] = None"
    and max: "sorted_items (xs @ [x]) \<Longrightarrow> bt_Max bt (xs @ [x]) = Some x"
    and max_empty: "bt_Max bt [] = None"
    and len: "sorted_items xs \<Longrightarrow> bt_Len bt xs = length xs"
    and clear: "bt_Clear bt xs = []"

text \<open>A sorted list with these operations, which shows that the interface can be met.\<close>

fun ins_item :: "segment \<Rightarrow> segment list \<Rightarrow> segment list" where
  "ins_item x [] = [x]"
| "ins_item x (y # ys) =
     (if Less x y then x # y # ys else if Seq x = Seq y then x # ys else y # ins_item x ys)"

definition list_btree :: btree_ops where
  "list_btree = \<lparr>bt_ReplaceOrInsert = \<lambda>x xs. (find (\<lambda>y. Seq y = Seq x) xs, ins_item x xs),
     bt_DeleteMin = \<lambda>xs. (case xs of [] \<Rightarrow> (None, []) | y # ys \<Rightarrow> (Some y, ys)),
     bt_Min = \<lambda>xs. (case xs of [] \<Rightarrow> None | y # ys \<Rightarrow> Some y),
     bt_Max = \<lambda>xs. (if xs = [] then None else Some (last xs)),
     bt_Len = length, bt_Clear = \<lambda>xs. []\<rparr>"

lemma sorted_items_simps [simp]:
  "sorted_items []"
  "sorted_items (x # xs) \<longleftrightarrow> (\<forall>y \<in> set xs. Seq x < Seq y) \<and> sorted_items xs"
  by (auto simp: sorted_items_def Less_def)

lemma set_ins_item: "sorted_items xs \<Longrightarrow> set (ins_item x xs) = insert x {y \<in> set xs. Seq y \<noteq> Seq x}"
  by (induction xs) (auto simp: Less_def)

lemma sorted_ins_item: "sorted_items xs \<Longrightarrow> sorted_items (ins_item x xs)"
  by (induction xs) (auto simp: Less_def set_ins_item)

interpretation lb: btree list_btree
  by unfold_locales (auto simp: list_btree_def set_ins_item sorted_ins_item)

section \<open>Segment trees as ordered maps\<close>

definition st_inv :: "segmentTree \<Rightarrow> bool" where
  "st_inv t \<longleftrightarrow> sorted_items (st_tr t) \<and> length (st_tr t) \<le> st_cap t"

text \<open>What a tree stores: the segment of each sequence number.\<close>

definition seg_map :: "segmentTree \<Rightarrow> u32 \<rightharpoonup> segment" where
  "seg_map t q = find (\<lambda>x. Seq x = q) (st_tr t)"

lemma sorted_items_seq_inj: "sorted_items xs \<Longrightarrow> x \<in> set xs \<Longrightarrow> y \<in> set xs \<Longrightarrow> Seq x = Seq y \<Longrightarrow> x = y"
  by (induction xs) auto

lemma sorted_items_distinct: "sorted_items xs \<Longrightarrow> distinct xs"
  by (induction xs) auto

lemma sorted_items_set_eq:
  "sorted_items xs \<Longrightarrow> sorted_items ys \<Longrightarrow> set xs = set ys \<Longrightarrow> xs = ys"
proof (induction xs arbitrary: ys)
  case (Cons x xs)
  then obtain y ys' where ys: "ys = y # ys'" by (cases ys) auto
  have "x = y"
  proof (rule ccontr)
    assume "x \<noteq> y"
    then have "x \<in> set ys'" "y \<in> set xs" using Cons.prems(3) ys by auto
    then show False using Cons.prems(1,2) ys by (auto dest: less_asym)
  qed
  moreover have "x \<notin> set xs" "y \<notin> set ys'" using Cons.prems(1,2) ys by auto
  ultimately show ?case using Cons.prems Cons.IH [of ys'] ys by (auto simp: insert_ident)
qed simp

lemma find_in_set: "sorted_items xs \<Longrightarrow> find (\<lambda>y. Seq y = q) xs = Some x \<longleftrightarrow> x \<in> set xs \<and> Seq x = q"
  by (auto simp: find_Some_iff in_set_conv_nth sorted_items_def sorted_wrt_iff_nth_less Less_def)
     (metis less_irrefl linorder_neqE_nat)

lemma seg_map_Some_iff: "st_inv t \<Longrightarrow> seg_map t q = Some x \<longleftrightarrow> x \<in> set (st_tr t) \<and> Seq x = q"
  by (simp add: seg_map_def st_inv_def find_in_set)

lemma seg_map_eqI:
  assumes "st_inv t" and "\<And>x. m (Seq x) = Some x \<longleftrightarrow> x \<in> set (st_tr t)"
    and "\<And>q x. m q = Some x \<Longrightarrow> Seq x = q"
  shows "seg_map t = m"
proof
  fix q
  have "seg_map t q = Some x \<longleftrightarrow> m q = Some x" for x
    using assms(2,3) by (auto simp: seg_map_Some_iff [OF assms(1)])
  then show "seg_map t q = m q"
    by (metis option.exhaust)
qed

lemma length_ins_item: "length (ins_item x xs) \<le> Suc (length xs)"
  by (induction xs) auto

context btree
begin

lemma replaceOrInsert_eq:
  assumes "sorted_items xs"
  shows "bt_ReplaceOrInsert bt x xs = (find (\<lambda>y. Seq y = Seq x) xs, ins_item x xs)"
proof (rule prod_eqI)
  show "snd (bt_ReplaceOrInsert bt x xs) = snd (find (\<lambda>y. Seq y = Seq x) xs, ins_item x xs)"
    using assms insert_sorted insert_set sorted_ins_item set_ins_item
    by (simp add: sorted_items_set_eq)
qed (simp add: insert_old assms)

lemma Len_eq: "st_inv t \<Longrightarrow> Len bt t = length (st_tr t)"
  by (simp add: Len_def len st_inv_def)

lemma Remaining_eq: "st_inv t \<Longrightarrow> Remaining bt t = int (st_cap t) - int (length (st_tr t))"
  by (simp add: Remaining_def len st_inv_def)

lemma Insert_eq:
  assumes "st_inv t" and "checkProtocolType seg"
  shows "Insert bt seg t = Some (if length (st_tr t) < st_cap t
    then (True, (if find (\<lambda>y. Seq y = Seq seg) (st_tr t) = None then notifyNotEmpty else id)
                  (t\<lparr>st_tr := ins_item seg (st_tr t)\<rparr>))
    else (False, notifyNotEmpty t))"
  using assms by (simp add: Insert_def st_inv_def len replaceOrInsert_eq not_le)

lemma DeleteMin_eq:
  assumes "st_inv t"
  shows "DeleteMin bt t = Some (case st_tr t of [] \<Rightarrow> (None, t)
    | x # xs \<Rightarrow> (Some x, (if xs = [] then notifyEmpty else notifyNotEmpty) (t\<lparr>st_tr := xs\<rparr>)))"
  using assms by (cases "st_tr t") (auto simp: DeleteMin_def st_inv_def len deleteMin notify_len_def)

lemma DeleteMinIf_eq:
  assumes "st_inv t"
  shows "DeleteMinIf bt si t = Some (case st_tr t of [] \<Rightarrow> (None, False, t)
    | x # xs \<Rightarrow> if si x
        then (Some x, True, (if xs = [] then notifyEmpty else notifyNotEmpty) (t\<lparr>st_tr := xs\<rparr>))
        else (Some x, False, notifyNotEmpty t))"
  using assms
  by (cases "st_tr t") (auto simp: DeleteMinIf_def st_inv_def len deleteMin min notify_len_def Let_def)

lemma DeleteAll_eq: "DeleteAll bt t = notifyEmpty (t\<lparr>st_tr := []\<rparr>)"
  by (simp add: DeleteAll_def clear)

lemma Ascend_eq:
  assumes "st_inv t"
  shows "Ascend bt si s t = (case ascend_items si s (st_tr t) of (s', tr) \<Rightarrow> (s', t\<lparr>st_tr := tr\<rparr>))"
  using assms by (auto simp: Ascend_def st_inv_def len)

lemma MinSeq_eq: "st_inv t \<Longrightarrow> MinSeq bt t = (case st_tr t of [] \<Rightarrow> None | x # xs \<Rightarrow> Some (Seq x))"
  by (cases "st_tr t") (auto simp: MinSeq_def min min_empty st_inv_def)

lemmas tree_eqs = Len_eq Remaining_eq Insert_eq DeleteMin_eq DeleteMinIf_eq DeleteAll_eq Ascend_eq MinSeq_eq

end

lemma st_notify [simp]:
  "st_tr (notifyEmpty t) = st_tr t" "st_tr (notifyNotEmpty t) = st_tr t"
  "st_cap (notifyEmpty t) = st_cap t" "st_cap (notifyNotEmpty t) = st_cap t"
  by (simp_all add: notifyEmpty_def notifyNotEmpty_def)

lemma st_inv_notify [simp]: "st_inv (notifyEmpty t) = st_inv t" "st_inv (notifyNotEmpty t) = st_inv t"
  by (simp_all add: st_inv_def)

lemma st_inv_ins: "st_inv t \<Longrightarrow> length (st_tr t) < st_cap t \<Longrightarrow> st_inv (t\<lparr>st_tr := ins_item x (st_tr t)\<rparr>)"
  using length_ins_item [of x "st_tr t"] by (simp add: st_inv_def sorted_ins_item)

lemma st_inv_tl: "st_inv t \<Longrightarrow> st_tr t = x # xs \<Longrightarrow> st_inv (t\<lparr>st_tr := xs\<rparr>)"
  by (simp add: st_inv_def)

lemma dom_seg_map: "st_inv t \<Longrightarrow> dom (seg_map t) = Seq ` set (st_tr t)"
  by (auto simp: dom_def seg_map_Some_iff)

lemma card_dom_seg_map: "st_inv t \<Longrightarrow> card (dom (seg_map t)) = length (st_tr t)"
  unfolding dom_seg_map
  by (subst card_image) (auto simp: inj_on_def st_inv_def distinct_card sorted_items_distinct
      dest: sorted_items_seq_inj)

lemma seg_map_ins:
  assumes "st_inv t" and "length (st_tr t) < st_cap t"
  shows "seg_map (t\<lparr>st_tr := ins_item x (st_tr t)\<rparr>) = (seg_map t)(Seq x \<mapsto> x)"
  using assms by (intro seg_map_eqI st_inv_ins)
    (auto simp: set_ins_item st_inv_def seg_map_Some_iff [OF assms(1)] split: if_splits)

lemma seg_map_tl:
  assumes "st_inv t" and "st_tr t = x # xs"
  shows "seg_map (t\<lparr>st_tr := xs\<rparr>) = (seg_map t)(Seq x := None)"
  using assms by (intro seg_map_eqI st_inv_tl)
    (auto simp: st_inv_def seg_map_Some_iff [OF assms(1)] split: if_splits)

lemma seg_map_notify [simp]: "seg_map (notifyEmpty t) = seg_map t" "seg_map (notifyNotEmpty t) = seg_map t"
  by (simp_all add: seg_map_def fun_eq_iff)

lemma Insert_refines:
  assumes "btree bt" and "st_inv t" and "checkProtocolType seg"
  shows "\<exists>ok t'. Insert bt seg t = Some (ok, t') \<and> st_inv t' \<and> ok = (card (dom (seg_map t)) < st_cap t) \<and>
    seg_map t' = (if ok then (seg_map t)(Seq seg \<mapsto> seg) else seg_map t)"
  using assms(2) seg_map_ins [OF assms(2), of seg] st_inv_ins [OF assms(2), of seg]
  by (simp add: btree.Insert_eq [OF assms] card_dom_seg_map)

lemma DeleteMin_refines:
  assumes "btree bt" and "st_inv t"
  shows "\<exists>r t'. DeleteMin bt t = Some (r, t') \<and> st_inv t' \<and>
      (case r of None \<Rightarrow> dom (seg_map t) = {} \<and> t' = t
       | Some x \<Rightarrow> seg_map t (Seq x) = Some x \<and> (\<forall>q \<in> dom (seg_map t). Seq x \<le> q) \<and>
           seg_map t' = (seg_map t)(Seq x := None))"
proof (cases "st_tr t")
  case Nil
  then show ?thesis
    using assms(2) by (simp add: btree.DeleteMin_eq [OF assms] dom_seg_map)
next
  case (Cons x xs)
  moreover have "\<forall>q \<in> dom (seg_map t). Seq x \<le> q"
    using Cons assms(2) by (auto simp: dom_seg_map st_inv_def)
  ultimately show ?thesis
    using assms(2) seg_map_tl [OF assms(2) Cons] st_inv_tl [OF assms(2) Cons]
    by (cases "xs = []") (simp_all add: btree.DeleteMin_eq [OF assms] seg_map_Some_iff)
qed

lemma DeleteMinIf_refines:
  assumes "btree bt" and "st_inv t"
  shows "\<exists>r d t'. DeleteMinIf bt si t = Some (r, d, t') \<and> st_inv t' \<and>
      (case r of None \<Rightarrow> dom (seg_map t) = {} \<and> \<not> d \<and> t' = t
       | Some x \<Rightarrow> seg_map t (Seq x) = Some x \<and> (\<forall>q \<in> dom (seg_map t). Seq x \<le> q) \<and> d = si x \<and>
           seg_map t' = (if d then (seg_map t)(Seq x := None) else seg_map t))"
proof (cases "st_tr t")
  case Nil
  then show ?thesis
    using assms(2) by (auto simp: btree.DeleteMinIf_eq [OF assms] dom_seg_map)
next
  case (Cons x xs)
  moreover have "\<forall>q \<in> dom (seg_map t). Seq x \<le> q"
    using Cons assms(2) by (auto simp: dom_seg_map st_inv_def)
  ultimately show ?thesis
    using assms(2) seg_map_tl [OF assms(2) Cons] st_inv_tl [OF assms(2) Cons]
    by (cases "xs = []"; cases "si x") (auto simp: btree.DeleteMinIf_eq [OF assms] seg_map_Some_iff)
qed

text \<open>
  What an iteration does to the map: the iterator sees the segments in the order of their sequence numbers \<open>qs\<close> until it stops, and
  what it writes through the pointers is stored.
\<close>

fun visit :: "('s \<Rightarrow> segment \<Rightarrow> 's \<times> segment \<times> bool) \<Rightarrow> 's \<Rightarrow> u32 list \<Rightarrow> (u32 \<rightharpoonup> segment) \<Rightarrow> 's \<times> (u32 \<rightharpoonup> segment)" where
  "visit si s [] m = (s, m)"
| "visit si s (q # qs) m =
     (case m q of
        None \<Rightarrow> (s, m)
      | Some x \<Rightarrow> (case si s x of (s', x', continue) \<Rightarrow>
          if continue then visit si s' qs (m(q \<mapsto> x')) else (s', m(q \<mapsto> x'))))"

lemma ascend_items_keeps_seqs:
  assumes "\<And>s x. Seq (fst (snd (si s x))) = Seq x"
  shows "map Seq (snd (ascend_items si s xs)) = map Seq xs"
proof (induction xs arbitrary: s)
  case (Cons x xs)
  obtain s' x' c where si: "si s x = (s', x', c)" by (metis prod_cases3)
  then show ?case using assms [of s x] Cons.IH [of s'] by (auto split: prod.splits)
qed simp

lemma visit_items:
  assumes "\<And>s x. Seq (fst (snd (si s x))) = Seq x" and "distinct (map Seq xs)" and "\<forall>x \<in> set xs. m (Seq x) = Some x"
  shows "visit si s (map Seq xs) m =
    (fst (ascend_items si s xs), m ++ map_of (map (\<lambda>x. (Seq x, x)) (snd (ascend_items si s xs))))"
  using assms(2,3)
proof (induction xs arbitrary: s m)
  case (Cons x xs)
  obtain s' x' c where si: "si s x = (s', x', c)" by (cases "si s x") auto
  have q: "Seq x' = Seq x" using assms(1) [of s x] si by simp
  let ?kv = "map (\<lambda>x. (Seq x, x))"
  show ?case
  proof (cases c)
    case True
    have "Seq x \<notin> Seq ` set (snd (ascend_items si s' xs))"
      using Cons.prems(1) arg_cong [OF ascend_items_keeps_seqs [of si s' xs, OF assms(1)], of set] by simp
    then have n: "Seq x \<notin> dom (map_of (?kv (snd (ascend_items si s' xs))))"
      by (simp add: dom_map_of_conv_image_fst image_image)
    have "visit si s' (map Seq xs) (m(Seq x \<mapsto> x')) =
        (fst (ascend_items si s' xs), m(Seq x \<mapsto> x') ++ map_of (?kv (snd (ascend_items si s' xs))))"
    proof (rule Cons.IH)
      show "distinct (map Seq xs)" using Cons.prems(1) by simp
      show "\<forall>y \<in> set xs. (m(Seq x \<mapsto> x')) (Seq y) = Some y"
        using Cons.prems by (metis distinct.simps(2) fun_upd_other image_eqI list.set_intros(2) list.set_map list.simps(9))
    qed
    then show ?thesis
      using True si q Cons.prems(2) map_add_upd_left [OF n, of m x'] by (simp add: case_prod_beta) (auto simp: fun_eq_iff map_add_def)
  next
    case False
    have "map_of (?kv xs) r = Some y \<Longrightarrow> m r = Some y" for r y
      using Cons.prems(2) map_of_SomeD [of "?kv xs" r y] by auto
    then have "m ++ map_of (?kv xs) = m"
      by (intro ext) (simp add: map_add_def split: option.split)
    moreover have "m ++ (\<lambda>a. if a = Seq x then Some x' else map_of (?kv xs) a) = (m ++ map_of (?kv xs))(Seq x \<mapsto> x')"
      by (auto simp: fun_eq_iff map_add_def)
    ultimately show ?thesis using False si q Cons.prems(2) by (simp add: fun_upd_def)
  qed
qed simp

lemma map_of_items: "sorted_items xs \<Longrightarrow> map_of (map (\<lambda>x. (Seq x, x)) xs) = (\<lambda>q. find (\<lambda>x. Seq x = q) xs)"
  by (induction xs) (auto simp: fun_eq_iff)

lemma seqs_of_items: "sorted_items xs \<Longrightarrow> sorted_list_of_set (Seq ` set xs) = map Seq xs"
proof -
  assume a: "sorted_items xs"
  then have "sorted (map Seq xs)" "distinct (map Seq xs)"
    by (induction xs) (auto simp: less_imp_le)
  then show ?thesis using sorted_list_of_set.idem_if_sorted_distinct [of "map Seq xs"] by simp
qed

lemma sorted_items_seqs: "map Seq ys = map Seq xs \<Longrightarrow> sorted_items ys = sorted_items xs"
proof -
  assume "map Seq ys = map Seq xs"
  moreover have "sorted_items zs \<longleftrightarrow> sorted_wrt (<) (map Seq zs)" for zs
    by (simp add: sorted_items_def sorted_wrt_map Less_def [abs_def])
  ultimately show ?thesis by simp
qed

lemma Ascend_refines:
  assumes "btree bt" and "st_inv t" and "\<And>s x. Seq (fst (snd (si s x))) = Seq x"
  shows "\<exists>s' t'. Ascend bt si s t = (s', t') \<and> st_inv t' \<and>
    visit si s (sorted_list_of_set (dom (seg_map t))) (seg_map t) = (s', seg_map t')"
proof -
  obtain s' xs' where a: "ascend_items si s (st_tr t) = (s', xs')" by (metis surj_pair)
  have k: "map Seq xs' = map Seq (st_tr t)" using ascend_items_keeps_seqs [of si s "st_tr t", OF assms(3)] a by simp
  have so: "sorted_items (st_tr t)" "sorted_items xs'" using assms(2) sorted_items_seqs [OF k] by (simp_all add: st_inv_def)
  have "seg_map (t\<lparr>st_tr := xs'\<rparr>) = (\<lambda>q. find (\<lambda>x. Seq x = q) xs')" by (simp add: seg_map_def fun_eq_iff)
  then have "visit si s (map Seq (st_tr t)) (seg_map t) = (s', seg_map t ++ seg_map (t\<lparr>st_tr := xs'\<rparr>))"
    using visit_items [of si "st_tr t" "seg_map t" s, OF assms(3)] so a seqs_of_items [OF so(1)]
      distinct_sorted_list_of_set [of "Seq ` set (st_tr t)"] seg_map_Some_iff [OF assms(2)]
    by (simp add: map_of_items)
  moreover have "seg_map t ++ seg_map (t\<lparr>st_tr := xs'\<rparr>) = seg_map (t\<lparr>st_tr := xs'\<rparr>)"
  proof
    fix r
    have "find (\<lambda>x. Seq x = r) xs' = None \<longleftrightarrow> find (\<lambda>x. Seq x = r) (st_tr t) = None"
      using arg_cong [OF k, of "\<lambda>l. r \<in> set l"] by (auto simp: find_None_iff)
    then show "(seg_map t ++ seg_map (t\<lparr>st_tr := xs'\<rparr>)) r = seg_map (t\<lparr>st_tr := xs'\<rparr>) r"
      by (auto simp: map_add_def seg_map_def split: option.split)
  qed
  ultimately show ?thesis
    using assms(2) so(2) arg_cong [OF k, of length] a
    by (simp add: btree.Ascend_eq [OF assms(1,2)] dom_seg_map seqs_of_items [OF so(1)] st_inv_def)
qed

lemma MinSeq_refines:
  assumes "btree bt" and "st_inv t"
  shows "MinSeq bt t = (if dom (seg_map t) = {} then None else Some (Min (dom (seg_map t))))"
proof (cases "st_tr t")
  case (Cons x xs)
  then have "Min (Seq ` set (st_tr t)) = Seq x"
    using assms(2) by (intro Min_eqI) (auto simp: st_inv_def)
  then show ?thesis using Cons assms(2) by (simp add: btree.MinSeq_eq [OF assms] dom_seg_map)
qed (use assms(2) in \<open>simp add: btree.MinSeq_eq [OF assms] dom_seg_map\<close>)

lemma MaxSeq_refines:
  assumes "btree bt" and "st_inv t"
  shows "MaxSeq bt t = (if dom (seg_map t) = {} then None else Some (Max (dom (seg_map t))))"
proof (cases "st_tr t" rule: rev_cases)
  case (snoc xs x)
  then have s: "sorted_items (xs @ [x])" using assms(2) by (simp add: st_inv_def)
  then have "Max (Seq ` set (st_tr t)) = Seq x"
    using snoc by (intro Max_eqI) (auto simp: sorted_items_def sorted_wrt_append Less_def)
  then show ?thesis using snoc assms(2) btree.max [OF assms(1) s] by (simp add: MaxSeq_def dom_seg_map)
qed (use assms btree.max_empty in \<open>simp add: MaxSeq_def dom_seg_map\<close>)

text \<open>
  C10.  On any B-tree that meets its documentation, a segment tree is a map from sequence numbers to segments of bounded size, and every operation
  acts on this map.  Inserting succeeds exactly below the capacity and then updates the map, and a full tree is left alone.  Deleting the minimum returns and
  removes the segment with the smallest sequence number, and the conditional deletion does so exactly if the condition holds of it.  Clearing empties the map.
  An iteration whose iterator keeps sequence numbers visits the segments in their order until it is stopped.  The queries return the smallest and the largest sequence number,
  the number of segments and the room that is left.
\<close>

theorem segment_tree_refines_map:
  assumes "btree bt" and "st_inv t" and "checkProtocolType seg" and "\<And>s x. Seq (fst (snd (it s x))) = Seq x"
  shows "(\<exists>ok t'. Insert bt seg t = Some (ok, t') \<and> st_inv t' \<and> ok = (card (dom (seg_map t)) < st_cap t) \<and>
      seg_map t' = (if ok then (seg_map t)(Seq seg \<mapsto> seg) else seg_map t)) \<and>
    (\<exists>r t'. DeleteMin bt t = Some (r, t') \<and> st_inv t' \<and>
      (case r of None \<Rightarrow> dom (seg_map t) = {} \<and> t' = t
       | Some x \<Rightarrow> seg_map t (Seq x) = Some x \<and> (\<forall>q \<in> dom (seg_map t). Seq x \<le> q) \<and>
           seg_map t' = (seg_map t)(Seq x := None))) \<and>
    (\<exists>r d t'. DeleteMinIf bt si t = Some (r, d, t') \<and> st_inv t' \<and>
      (case r of None \<Rightarrow> dom (seg_map t) = {} \<and> \<not> d \<and> t' = t
       | Some x \<Rightarrow> seg_map t (Seq x) = Some x \<and> (\<forall>q \<in> dom (seg_map t). Seq x \<le> q) \<and> d = si x \<and>
           seg_map t' = (if d then (seg_map t)(Seq x := None) else seg_map t))) \<and>
    st_inv (DeleteAll bt t) \<and> seg_map (DeleteAll bt t) = Map.empty \<and>
    (\<exists>s' t'. Ascend bt it s t = (s', t') \<and> st_inv t' \<and>
      visit it s (sorted_list_of_set (dom (seg_map t))) (seg_map t) = (s', seg_map t')) \<and>
    MinSeq bt t = (if dom (seg_map t) = {} then None else Some (Min (dom (seg_map t)))) \<and>
    MaxSeq bt t = (if dom (seg_map t) = {} then None else Some (Max (dom (seg_map t)))) \<and>
    Len bt t = card (dom (seg_map t)) \<and> Remaining bt t = int (st_cap t) - int (card (dom (seg_map t)))"
proof (intro conjI)
  show "st_inv (DeleteAll bt t)" "seg_map (DeleteAll bt t) = Map.empty"
    by (simp_all add: btree.DeleteAll_eq [OF assms(1)] st_inv_def seg_map_def fun_eq_iff)
  show "Len bt t = card (dom (seg_map t))" "Remaining bt t = int (st_cap t) - int (card (dom (seg_map t)))"
    using assms(2) by (simp_all add: btree.Len_eq [OF assms(1,2)] btree.Remaining_eq [OF assms(1,2)] card_dom_seg_map)
qed (use assms in \<open>simp_all only: Insert_refines DeleteMin_refines DeleteMinIf_refines Ascend_refines MinSeq_refines MaxSeq_refines\<close>)

definition sample_segment :: "u32 \<Rightarrow> segment" where
  "sample_segment q = mk_segment (SessionMD \<lparr>ss_protocol = 2, ss_timestamp = 0, ss_sessionID = 1,
     ss_seq = q, ss_statusCode = 0, ss_payloadLen = 0, ss_suffixLen = 0\<rparr>) [] PacketTransport"

definition sample_segmentTree :: segmentTree where
  "sample_segmentTree = \<lparr>st_tr = [sample_segment 1, sample_segment 5],
     st_cap = 4, st_chanEmptyEvent = False, st_chanNotEmptyEvent = False\<rparr>"

theorem segment_tree_refines_map_witness:
  "(\<exists>t'. Insert list_btree (sample_segment 3) sample_segmentTree = Some (True, t') \<and>
     seg_map t' = (seg_map sample_segmentTree)(3 \<mapsto> sample_segment 3)) \<and>
   (\<exists>t'. DeleteMinIf list_btree (\<lambda>x. Seq x < 2) sample_segmentTree = Some (Some (sample_segment 1), True, t') \<and>
     seg_map t' = (seg_map sample_segmentTree)(1 := None)) \<and>
   MaxSeq list_btree sample_segmentTree = Some 5"
proof -
  have q: "Seq (sample_segment q) = q" for q by (simp add: sample_segment_def mk_segment_def Seq_def)
  have t: "st_inv sample_segmentTree" by (simp add: st_inv_def sample_segmentTree_def q)
  have d: "dom (seg_map sample_segmentTree) = {1, 5}" unfolding dom_seg_map [OF t] by (simp add: sample_segmentTree_def q)
  have "checkProtocolType (sample_segment 3)"
    by (simp add: checkProtocolType_def seg_Protocol_def sample_segment_def mk_segment_def
        isProtocol_defs protocolType_defs)
  note r = segment_tree_refines_map [OF lb.btree_axioms t this, of "\<lambda>s x. (s, x, True)" "\<lambda>x. Seq x < 2" "()", simplified d]
  have "DeleteMinIf list_btree (\<lambda>x. Seq x < 2) sample_segmentTree =
      Some (Some (sample_segment 1), True, snd (snd (the (DeleteMinIf list_btree (\<lambda>x. Seq x < 2) sample_segmentTree))))"
    by (simp add: lb.DeleteMinIf_eq [OF t]) (simp add: sample_segmentTree_def q)
  then show ?thesis using r by (auto simp: q sample_segmentTree_def)
qed

section \<open>Fragments fit\<close>

lemma chunks_le_mono: "0 < n \<Longrightarrow> len \<le> c * n \<Longrightarrow> chunks n len \<le> c"
proof -
  assume n: "0 < n" and "len \<le> c * n"
  then have "len + n - 1 < Suc c * n" by simp
  then have "chunks n len < Suc c" unfolding chunks_def using n by (simp only: div_less_iff_less_mult)
  then show ?thesis by simp
qed

lemma encoded_len_fits:
  assumes "buildLowEntropyParams mode = Inr ps" and "0 < len" and "len \<le> c * sourceBytesPerChunk ps"
    and "c \<le> 8191"
  shows "\<exists>w. lowEntropyEncodedPayloadLen (int len) mode = Inr w \<and> unat w \<le> 8 * c"
proof -
  note n = buildLowEntropyParams_InrD [OF assms(1)]
  have "chunks (sourceBytesPerChunk ps) len \<le> c" using chunks_le_mono n(1) assms(3) by blast
  then show ?thesis
    using assms(2,4) by (simp add: lowEntropyEncodedPayloadLen_eq [OF assms(1)] unat_encoded_len
        del: of_nat_mult)
qed

lemma fragment_fits:
  assumes "maxFragmentSize mtu transport mode = Inr sz" and "0 < len" and "int len \<le> sz"
    and "mtu \<le> 65535"
  shows "(mode = LOW_ENTROPY_MODE_OFF \<and> transport = PacketTransport \<longrightarrow> int len + packetOverhead \<le> mtu) \<and>
    (mode \<noteq> LOW_ENTROPY_MODE_OFF \<and> transport \<noteq> UnknownTransport \<longrightarrow>
      (\<exists>w. lowEntropyEncodedPayloadLen (int len) mode = Inr w \<and>
        (transport = PacketTransport \<longrightarrow> int (unat w) + packetOverhead \<le> mtu)))"
proof (cases "mode = LOW_ENTROPY_MODE_OFF")
  case True
  then show ?thesis
    using assms by (auto simp: maxFragmentSize_def maxFragmentSizeInternal_def Let_def)
next
  case False
  then obtain ps where ps: "buildLowEntropyParams mode = Inr ps"
    using assms(1) by (auto simp: maxFragmentSize_def split: sum.splits)
  show ?thesis
  proof (cases transport)
    case StreamTransport
    then have "int len \<le> 8191 * int (sourceBytesPerChunk ps)"
      using assms(1,3) False ps by (auto simp: maxFragmentSize_def Let_def lowEntropyChunkLen_def)
    then have "len \<le> 8191 * sourceBytesPerChunk ps" by linarith
    then show ?thesis
      using encoded_len_fits [OF ps assms(2)] StreamTransport False by auto
  next
    case PacketTransport
    define c where "c = (mtu - packetOverhead) div 8"
    have c0: "0 < go_div (mtu - packetOverhead) 8"
      and sz: "sz = go_div (mtu - packetOverhead) 8 * int (sourceBytesPerChunk ps)"
      using assms(1) False ps PacketTransport
      by (auto simp: maxFragmentSize_def Let_def lowEntropyChunkLen_def split: if_splits)
    have "0 \<le> mtu - packetOverhead"
      using c0 by (rule_tac ccontr) (auto simp: go_div_def sgn_if split: if_splits)
    then have gc: "go_div (mtu - packetOverhead) 8 = c" by (simp add: c_def)
    have cle: "8 * c + packetOverhead \<le> mtu" by (simp add: c_def)
    have "int len \<le> int (nat c) * int (sourceBytesPerChunk ps)"
      using assms(3) c0 by (simp add: sz gc)
    then have l: "len \<le> nat c * sourceBytesPerChunk ps"
      by (simp only: of_nat_mult [symmetric] of_nat_le_iff)
    have "nat c \<le> 8191" using cle assms(4) by (simp add: packetOverhead_def)
    from encoded_len_fits [OF ps assms(2) l this] obtain w
      where w: "lowEntropyEncodedPayloadLen (int len) mode = Inr w" "unat w \<le> 8 * nat c" by blast
    then have "int (unat w) \<le> 8 * c" using c0 gc by linarith
    then show ?thesis using w cle PacketTransport False by auto
  qed simp
qed

text \<open>
  Whatever size \<open>maxFragmentSize\<close> allows fits: a plain packet payload fits the MTU with the packet
  overhead, and a low entropy payload has an encoded length that the 16-bit length field holds and that,
  on the packet transport, fits the MTU with the packet overhead.
\<close>

theorem max_fragment_fits:
  assumes "maxFragmentSize mtu transport mode = Inr sz" and "0 < len" and "int len \<le> sz"
    and "mtu \<le> 65535"
  shows "(mode = LOW_ENTROPY_MODE_OFF \<and> transport = PacketTransport \<longrightarrow> int len + packetOverhead \<le> mtu) \<and>
    (mode \<noteq> LOW_ENTROPY_MODE_OFF \<and> transport \<noteq> UnknownTransport \<longrightarrow>
      (\<exists>w. lowEntropyEncodedPayloadLen (int len) mode = Inr w \<and>
        (transport = PacketTransport \<longrightarrow> int (unat w) + packetOverhead \<le> mtu)))"
  by (rule fragment_fits [OF assms])

theorem max_fragment_fits_witness:
  "\<exists>w. lowEntropyEncodedPayloadLen 880 2 = Inr w \<and> int (unat w) + packetOverhead \<le> 1500"
proof -
  have "maxFragmentSize 1500 PacketTransport 2 = Inr 880"
    by (simp add: maxFragmentSize_def buildLowEntropyParams_def LowEntropyMode_defs Let_def
        lowEntropyChunkLen_def packetOverhead_def)
  then show ?thesis
    using max_fragment_fits [of 1500 PacketTransport 2 880 880] by (simp add: LowEntropyMode_defs)
qed

end
