(* ===== verification/Congestion.thy ===== *)
theory Congestion
  imports Mathext
begin

text \<open>
  Congestion control of \<^verbatim>\<open>pkg/congestion\<close>: the CUBIC window of \<^verbatim>\<open>cubic.go\<close> and the
  round-trip statistics of \<^verbatim>\<open>rtt.go\<close>.  A \<^verbatim>\<open>float64\<close> is its 64-bit pattern, a \<^verbatim>\<open>float32\<close>
  its 32-bit pattern, and the floating point operations of the platform are the fields of a record
  that every definition takes as argument, so that the theorems hold whatever the rounding is.
  A \<^verbatim>\<open>time.Duration\<close> is a number of nanoseconds.
\<close>

type_synonym f64 = u64
type_synonym f32 = u32

text \<open>\<open>f64_lit n d\<close> is the constant \<open>n/d\<close> rounded to \<^verbatim>\<open>float64\<close>, and so for \<open>f32_lit\<close>.\<close>

record float_ops =
  f64_lit :: "int \<Rightarrow> int \<Rightarrow> f64"
  f64_of_int :: "int \<Rightarrow> f64"
  f64_add :: "f64 \<Rightarrow> f64 \<Rightarrow> f64"
  f64_sub :: "f64 \<Rightarrow> f64 \<Rightarrow> f64"
  f64_mul :: "f64 \<Rightarrow> f64 \<Rightarrow> f64"
  f64_div :: "f64 \<Rightarrow> f64 \<Rightarrow> f64"
  f64_Cbrt :: "f64 \<Rightarrow> f64"
  f64_to_uint32 :: "f64 \<Rightarrow> u32"
  f64_to_int :: "f64 \<Rightarrow> int"
  f64_le_0 :: "f64 \<Rightarrow> bool"
  f32_lit :: "int \<Rightarrow> int \<Rightarrow> f32"
  f32_of_int :: "int \<Rightarrow> f32"
  f32_add :: "f32 \<Rightarrow> f32 \<Rightarrow> f32"
  f32_mul :: "f32 \<Rightarrow> f32 \<Rightarrow> f32"
  f32_to_int :: "f32 \<Rightarrow> int"

section \<open>CUBIC\<close>

datatype cubicOperationMode = cubicSlowStart | cubicNormal

record CubicSendAlgorithm =
  cu_minWindowSize :: u32
  cu_maxWindowSize :: u32
  cu_mode :: cubicOperationMode
  cu_congestionWindow :: u32
  cu_windowSizeBeforeLastReduction :: u32
  cu_lastReductionTime :: f64
  cu_accumulatedAcks :: u32

definition cubicBeta :: "float_ops \<Rightarrow> f64" where "cubicBeta fl = f64_lit fl 7 10"
definition cubicC :: "float_ops \<Rightarrow> f64" where "cubicC fl = f64_lit fl 4 10"

text \<open>\<open>None\<close> is the panic on an empty window range.  The zero \<^verbatim>\<open>float64\<close> is the zero bit pattern.\<close>

definition NewCubicSendAlgorithm :: "u32 \<Rightarrow> u32 \<Rightarrow> CubicSendAlgorithm option" where
  "NewCubicSendAlgorithm minWindowSize maxWindowSize =
     (if minWindowSize > maxWindowSize then None
      else Some \<lparr>cu_minWindowSize = minWindowSize, cu_maxWindowSize = maxWindowSize,
                 cu_mode = cubicSlowStart, cu_congestionWindow = minWindowSize,
                 cu_windowSizeBeforeLastReduction = 0, cu_lastReductionTime = 0,
                 cu_accumulatedAcks = 0\<rparr>)"

definition CongestionWindowSize :: "CubicSendAlgorithm \<Rightarrow> u32" where
  "CongestionWindowSize c = cu_congestionWindow c"

definition InSlowStart :: "CubicSendAlgorithm \<Rightarrow> bool" where
  "InSlowStart c \<longleftrightarrow> cu_mode c = cubicSlowStart"

definition inRange :: "CubicSendAlgorithm \<Rightarrow> CubicSendAlgorithm" where
  "inRange c =
     (if cu_congestionWindow c < cu_minWindowSize c
        then c\<lparr>cu_congestionWindow := cu_minWindowSize c\<rparr>
      else if cu_congestionWindow c > cu_maxWindowSize c
        then c\<lparr>cu_congestionWindow := cu_maxWindowSize c\<rparr>
      else c)"

text \<open>\<open>micros\<close> is the clock in microseconds.\<close>

definition OnAck :: "float_ops \<Rightarrow> int \<Rightarrow> CubicSendAlgorithm \<Rightarrow> CubicSendAlgorithm" where
  "OnAck fl micros c =
     (if cu_mode c = cubicSlowStart
      then inRange (c\<lparr>cu_congestionWindow := cu_congestionWindow c + 1\<rparr>)
      else
        let c = c\<lparr>cu_accumulatedAcks := cu_accumulatedAcks c + 1\<rparr>;
            w = f64_of_int fl (uint (cu_windowSizeBeforeLastReduction c));
            k = f64_Cbrt fl (f64_div fl (f64_mul fl w (f64_lit fl 3 10)) (cubicC fl));
            t = f64_sub fl (f64_div fl (f64_of_int fl micros) (f64_lit fl 1000000 1))
                  (cu_lastReductionTime c);
            d = f64_sub fl t k;
            cube = f64_mul fl (f64_mul fl (f64_mul fl (cubicC fl) d) d) d
        in inRange (c\<lparr>cu_congestionWindow :=
             f64_to_uint32 fl (f64_add fl cube w) + cu_accumulatedAcks c div 16\<rparr>))"

definition OnLoss :: "float_ops \<Rightarrow> int \<Rightarrow> CubicSendAlgorithm \<Rightarrow> CubicSendAlgorithm" where
  "OnLoss fl micros c =
     inRange (c\<lparr>cu_mode := cubicNormal,
        cu_lastReductionTime := f64_div fl (f64_of_int fl micros) (f64_lit fl 1000000 1),
        cu_windowSizeBeforeLastReduction := cu_congestionWindow c,
        cu_accumulatedAcks := 0,
        cu_congestionWindow :=
          f64_to_uint32 fl (f64_mul fl (f64_of_int fl (uint (cu_congestionWindow c))) (cubicBeta fl))\<rparr>)"

definition OnTimeout :: "CubicSendAlgorithm \<Rightarrow> CubicSendAlgorithm" where
  "OnTimeout c =
     c\<lparr>cu_mode := cubicSlowStart, cu_congestionWindow := cu_minWindowSize c,
       cu_windowSizeBeforeLastReduction := 0, cu_lastReductionTime := 0, cu_accumulatedAcks := 0\<rparr>"

text \<open>The events of a connection, with the time at which they are handled.\<close>

datatype cubic_event = Ack int | Loss int | Timeout

fun cubic_step :: "float_ops \<Rightarrow> CubicSendAlgorithm \<Rightarrow> cubic_event \<Rightarrow> CubicSendAlgorithm" where
  "cubic_step fl c (Ack t) = OnAck fl t c"
| "cubic_step fl c (Loss t) = OnLoss fl t c"
| "cubic_step fl c Timeout = OnTimeout c"

definition cubic_inv :: "u32 \<Rightarrow> u32 \<Rightarrow> CubicSendAlgorithm \<Rightarrow> bool" where
  "cubic_inv lo hi c \<longleftrightarrow> cu_minWindowSize c = lo \<and> cu_maxWindowSize c = hi \<and> lo \<le> hi \<and>
     lo \<le> cu_congestionWindow c \<and> cu_congestionWindow c \<le> hi"

lemma inRange_inv:
  "cu_minWindowSize c = lo \<Longrightarrow> cu_maxWindowSize c = hi \<Longrightarrow> lo \<le> hi \<Longrightarrow> cubic_inv lo hi (inRange c)"
  by (auto simp: inRange_def cubic_inv_def not_less)

lemma OnAck_inv: "cubic_inv lo hi c \<Longrightarrow> cubic_inv lo hi (OnAck fl t c)"
  unfolding OnAck_def Let_def by (auto intro!: inRange_inv) (auto simp: cubic_inv_def)

lemma OnLoss_inv: "cubic_inv lo hi c \<Longrightarrow> cubic_inv lo hi (OnLoss fl t c)"
  unfolding OnLoss_def by (rule inRange_inv) (auto simp: cubic_inv_def)

lemma OnTimeout_inv: "cubic_inv lo hi c \<Longrightarrow> cubic_inv lo hi (OnTimeout c)"
  by (auto simp: OnTimeout_def cubic_inv_def)

lemma cubic_step_inv: "cubic_inv lo hi c \<Longrightarrow> cubic_inv lo hi (cubic_step fl c e)"
  by (cases e) (simp_all add: OnAck_inv OnLoss_inv OnTimeout_inv)

text \<open>
  C12.  From a new algorithm, any sequence of acknowledges, losses and timeouts keeps
  the congestion window between the minimum and the maximum, whatever the floating point
  arithmetic returns.
\<close>

theorem cubic_window_bounded:
  assumes "NewCubicSendAlgorithm lo hi = Some c"
  shows "lo \<le> CongestionWindowSize (foldl (cubic_step fl) c es) \<and>
    CongestionWindowSize (foldl (cubic_step fl) c es) \<le> hi"
proof -
  have "cubic_inv lo hi c"
    using assms by (auto simp: NewCubicSendAlgorithm_def cubic_inv_def split: if_splits)
  then have "cubic_inv lo hi (foldl (cubic_step fl) c es)"
    by (induction es arbitrary: c) (simp_all add: cubic_step_inv)
  then show ?thesis by (simp add: cubic_inv_def CongestionWindowSize_def)
qed

theorem cubic_window_bounded_witness:
  "\<forall>fl. let c = foldl (cubic_step fl) (the (NewCubicSendAlgorithm 16 4096)) [Ack 1, Loss 2, Ack 3]
     in 16 \<le> CongestionWindowSize c \<and> CongestionWindowSize c \<le> 4096"
  using cubic_window_bounded [of 16 4096 "the (NewCubicSendAlgorithm 16 4096)" _ "[Ack 1, Loss 2, Ack 3]"]
  by (simp add: NewCubicSendAlgorithm_def Let_def)

section \<open>Round-trip time\<close>

record RTTStats =
  rt_hasMeasurement :: bool
  rt_minRTT :: int
  rt_latestRTT :: int
  rt_smoothedRTT :: int
  rt_meanDeviation :: int
  rt_maxAckDelay :: int
  rt_rtoMultiplier :: f64

definition microsecond :: int where "microsecond = 1000"
definition millisecond :: int where "millisecond = 1000000"
definition second :: int where "second = 1000000000"
definition infDuration :: int where "infDuration = 2 ^ 63 - 1"

definition NewRTTStats :: "float_ops \<Rightarrow> RTTStats" where
  "NewRTTStats fl = \<lparr>rt_hasMeasurement = False, rt_minRTT = 0, rt_latestRTT = 0,
     rt_smoothedRTT = 0, rt_meanDeviation = 0, rt_maxAckDelay = 0, rt_rtoMultiplier = f64_lit fl 1 1\<rparr>"

definition RTO :: "float_ops \<Rightarrow> RTTStats \<Rightarrow> int" where
  "RTO fl r =
     (if rt_smoothedRTT r = 0 then 2 * second
      else
        let rto = rt_smoothedRTT r + Max_go (4 * rt_meanDeviation r) (10 * millisecond);
            rto = rto + rt_maxAckDelay r
        in f64_to_int fl (f64_mul fl (f64_of_int fl rto) (rt_rtoMultiplier r)))"

definition UpdateRTT :: "float_ops \<Rightarrow> int \<Rightarrow> RTTStats \<Rightarrow> RTTStats" where
  "UpdateRTT fl sample r =
     (if sample = infDuration \<or> sample \<le> 0 then r
      else
        let r = (if rt_minRTT r = 0 \<or> rt_minRTT r > sample then r\<lparr>rt_minRTT := sample\<rparr> else r);
            r = r\<lparr>rt_latestRTT := sample\<rparr>
        in if \<not> rt_hasMeasurement r
           then r\<lparr>rt_hasMeasurement := True, rt_smoothedRTT := sample,
                  rt_meanDeviation := go_div sample 2\<rparr>
           else
             let dev = f32_to_int fl (f32_add fl
                   (f32_mul fl (f32_lit fl 3 4) (f32_of_int fl (go_div (rt_meanDeviation r) microsecond)))
                   (f32_mul fl (f32_lit fl 1 4)
                      (f32_of_int fl (go_div (Abs_go (rt_smoothedRTT r - sample)) microsecond))))
                   * microsecond;
                 smoothed = f32_to_int fl (f32_add fl
                   (f32_mul fl (f32_of_int fl (go_div (rt_smoothedRTT r) microsecond)) (f32_lit fl 7 8))
                   (f32_mul fl (f32_of_int fl (go_div sample microsecond)) (f32_lit fl 1 8)))
                   * microsecond
             in r\<lparr>rt_meanDeviation := dev, rt_smoothedRTT := smoothed\<rparr>)"

definition SetMaxAckDelay :: "int \<Rightarrow> RTTStats \<Rightarrow> RTTStats" where
  "SetMaxAckDelay mad r = r\<lparr>rt_maxAckDelay := mad\<rparr>"

text \<open>\<open>None\<close> is a panic, here and in \<open>SetInitialRTT\<close>.\<close>

definition SetRTOMultiplier :: "float_ops \<Rightarrow> f64 \<Rightarrow> RTTStats \<Rightarrow> RTTStats option" where
  "SetRTOMultiplier fl n r = (if f64_le_0 fl n then None else Some (r\<lparr>rt_rtoMultiplier := n\<rparr>))"

definition SetInitialRTT :: "int \<Rightarrow> RTTStats \<Rightarrow> RTTStats option" where
  "SetInitialRTT t r =
     (if rt_hasMeasurement r then None else Some (r\<lparr>rt_smoothedRTT := t, rt_latestRTT := t\<rparr>))"

definition Reset_rtt :: "RTTStats \<Rightarrow> RTTStats" where
  "Reset_rtt r = r\<lparr>rt_latestRTT := 0, rt_minRTT := 0, rt_smoothedRTT := 0, rt_meanDeviation := 0\<rparr>"

definition ExpireSmoothedMetrics :: "RTTStats \<Rightarrow> RTTStats" where
  "ExpireSmoothedMetrics r =
     (let r = r\<lparr>rt_meanDeviation :=
                Max_go (rt_meanDeviation r) (Abs_go (rt_smoothedRTT r - rt_latestRTT r))\<rparr>
      in r\<lparr>rt_smoothedRTT := Max_go (rt_smoothedRTT r) (rt_latestRTT r)\<rparr>)"

lemma UpdateRTT_min_latest:
  "rt_minRTT (UpdateRTT fl s r) =
     (if s = infDuration \<or> s \<le> 0 then rt_minRTT r
      else if rt_minRTT r = 0 then s else min (rt_minRTT r) s)"
  "rt_latestRTT (UpdateRTT fl s r) = (if s = infDuration \<or> s \<le> 0 then rt_latestRTT r else s)"
  by (auto simp: UpdateRTT_def Let_def)

lemma UpdateRTT_has:
  "rt_hasMeasurement (UpdateRTT fl s r) = (rt_hasMeasurement r \<or> (s \<noteq> infDuration \<and> 0 < s))"
  by (auto simp: UpdateRTT_def Let_def)

lemma Min_snoc: "xs \<noteq> [] \<Longrightarrow> Min (set (xs @ [s])) = min (Min (set xs)) s" for s :: int
  by (simp add: min.commute)

lemma Min_pos: "xs \<noteq> [] \<Longrightarrow> (\<And>x. x \<in> set xs \<Longrightarrow> 0 < x) \<Longrightarrow> Min (set xs) \<noteq> (0 :: int)"
  by (metis List.finite_set Min_in less_irrefl set_empty)

text \<open>
  After any sequence of samples, the minimum RTT is the smallest valid sample and
  the latest RTT the last one, both 0 when there is none.
\<close>

theorem rtt_tracks_samples:
  "let valid = filter (\<lambda>s. s \<noteq> infDuration \<and> 0 < s) samples;
       r = foldl (\<lambda>r s. UpdateRTT fl s r) (NewRTTStats fl) samples
   in rt_minRTT r = (if valid = [] then 0 else Min (set valid)) \<and>
      rt_latestRTT r = (if valid = [] then 0 else last valid) \<and>
      rt_hasMeasurement r = (valid \<noteq> [])"
proof (induction samples rule: rev_induct)
  case Nil
  then show ?case by (simp add: NewRTTStats_def)
next
  case (snoc s ss)
  let ?r = "foldl (\<lambda>r s. UpdateRTT fl s r) (NewRTTStats fl) ss"
  let ?v = "filter (\<lambda>s. s \<noteq> infDuration \<and> 0 < s) ss"
  have pos: "?v \<noteq> [] \<Longrightarrow> Min (set ?v) \<noteq> 0"
    by (rule Min_pos) (simp_all only: set_filter mem_Collect_eq not_False_eq_True)
  have IH: "rt_minRTT ?r = (if ?v = [] then 0 else Min (set ?v))"
    "rt_latestRTT ?r = (if ?v = [] then 0 else last ?v)" "rt_hasMeasurement ?r = (?v \<noteq> [])"
    using snoc.IH by (simp_all only: Let_def)
  show ?case
  proof (cases "s \<noteq> infDuration \<and> 0 < s")
    case True
    then have f: "filter (\<lambda>s. s \<noteq> infDuration \<and> 0 < s) (ss @ [s]) = ?v @ [s]" by simp
    show ?thesis
      unfolding Let_def f foldl_append foldl.simps UpdateRTT_min_latest UpdateRTT_has IH
      using True True [folded not_le] pos Min_snoc [of ?v s]
      by (cases "?v = []") (simp_all only: list.simps simp_thms if_True if_False append_Nil last_snoc
          snoc_eq_iff_butlast Min_singleton last.simps)
  next
    case False
    then have f: "filter (\<lambda>s. s \<noteq> infDuration \<and> 0 < s) (ss @ [s]) = ?v" by auto
    show ?thesis
      unfolding Let_def f foldl_append foldl.simps UpdateRTT_min_latest UpdateRTT_has IH
      using False by auto
  qed
qed

end
