(* ===== verification/Session.thy ===== *)
theory Session
  imports Segment Congestion "HOL-Library.Monad_Syntax"
begin

text \<open>
  The session of \<^verbatim>\<open>pkg/protocol/session.go\<close>: one end of a reliable byte stream over a stream
  or a packet underlay.  Every method is a function on the record \<open>session\<close>; what it reads
  from outside (the clock, the outcome of a write to the underlay, random numbers, usage counters, the B-tree and the
  floating point operations) is the argument \<open>E\<close>.  Durations are in nanoseconds and
  timestamps in microseconds, as in the code.  An outer \<open>None\<close> is a panic.
  The segments that the underlay accepted are appended to \<open>s_wire\<close>.
  Where a goroutine waits, the model returns: \<open>Blocked\<close> outcomes can be retried,
  and the wait of a graceful close is the pending close \<open>s_closePending\<close>, ended by \<open>close_poll\<close>.
\<close>

section \<open>State\<close>

definition segmentTreeCapacity :: nat where "segmentTreeCapacity = 4096"
definition segmentSendQueueTreeCapacity :: nat where "segmentSendQueueTreeCapacity = 1024"
definition minWindowSize :: u32 where "minWindowSize = 16"
definition maxWindowSize :: u32 where "maxWindowSize = 4096"
definition sessionHeartbeatInterval :: int where "sessionHeartbeatInterval = 5 * second"
definition minOutputInterval :: int where "minOutputInterval = 1 * millisecond"
definition packetAckDelay :: int where "packetAckDelay = 1 * millisecond"
definition retransmissionCheckDelay :: int where "retransmissionCheckDelay = 10 * millisecond"
definition earlyRetransmission :: u8 where "earlyRetransmission = 3"
definition earlyRetransmissionLimit :: u8 where "earlyRetransmissionLimit = 1"
definition maxBackOffDuration :: int where "maxBackOffDuration = 10 * second"
definition MaxInt64 :: int where "MaxInt64 = 2 ^ 63 - 1"

type_synonym sessionState = int

definition sessionInit :: sessionState where "sessionInit = 0"
definition sessionAttached :: sessionState where "sessionAttached = 1"
definition sessionEstablished :: sessionState where "sessionEstablished = 2"
definition sessionClosed :: sessionState where "sessionClosed = 3"

lemmas sessionState_defs = sessionInit_def sessionAttached_def sessionEstablished_def sessionClosed_def

text \<open>\<^verbatim>\<open>writeOneSegment\<close> succeeds, reports that the cipher is not ready, or fails.\<close>

datatype write_outcome = WriteOK | WriteNotReady | WriteFailed

text \<open>
  \<open>e_metrics u\<close> are the two byte counters of the metric group of a user, each as the
  bytes counted in the last given number of days.  \<open>e_pick\<close> chooses among the ready cases of a select.
  A handler reads the clock once, as \<open>e_now\<close>; only the loop over the fragments of a write reads it
  again, as \<open>e_clock i\<close> before fragment \<open>i\<close>.
\<close>

record env =
  e_bt :: btree_ops
  e_fl :: float_ops
  e_now :: int
  e_clock :: "nat \<Rightarrow> int"
  e_write :: "segment \<Rightarrow> write_outcome"
  e_jitter :: int
  e_pick :: nat
  e_metrics :: "string \<Rightarrow> ((int \<Rightarrow> int) option \<times> (int \<Rightarrow> int) option) option"

record session =
  s_block :: "string option"
  s_id :: u32
  s_isClient :: bool
  s_mtu :: int
  s_transport :: TransportProtocol
  s_state :: sessionState
  s_status :: u8
  s_trafficPattern :: "TrafficPattern option"
  s_closeRequested :: bool
  s_closed :: bool
  s_readDeadline :: int
  s_writeDeadline :: int
  s_inputHasErr :: bool
  s_outputHasErr :: bool
  s_sendQueue :: segmentTree
  s_sendBuf :: segmentTree
  s_recvBuf :: segmentTree
  s_recvQueue :: segmentTree
  s_packetOutputWakeup :: bool
  s_nextSend :: u32
  s_nextRecv :: u32
  s_lastSend :: u32
  s_lastRXTime :: int
  s_lastTXTime :: int
  s_heartbeatJitter :: int
  s_nextRetransmissionTime :: int
  s_ackOnDataRecv :: bool
  s_ackDeadline :: int
  s_unreadBuf :: bytes
  s_rttStat :: RTTStats
  s_cubic :: CubicSendAlgorithm
  s_remoteWindowSize :: u32
  s_openSessionRequestSent :: bool
  s_userName :: "string option"
  s_userPolicy :: "Policy option"
  s_pendingServerUserPolicies :: "(string \<rightharpoonup> Policy) option"
  s_clientUseLowEntropy :: bool
  s_uploadBytes :: "int option"
  s_downloadBytes :: "int option"
  s_wire :: "segment list"
  s_closePending :: "segment option"

definition newSessionWithServerUserPolicy ::
  "env \<Rightarrow> u32 \<Rightarrow> bool \<Rightarrow> int \<Rightarrow> Policy \<Rightarrow> (string \<rightharpoonup> Policy) option \<Rightarrow> TrafficPattern option \<Rightarrow> session option" where
  "newSessionWithServerUserPolicy E sid isClient mtu policy pendingPolicies trafficPattern = do {
     let rttStat = SetMaxAckDelay packetAckDelay (NewRTTStats (e_fl E));
     rttStat \<leftarrow> SetRTOMultiplier (e_fl E) (f64_lit (e_fl E) 3 2) rttStat;
     sendQueue \<leftarrow> newSegmentTree (int segmentSendQueueTreeCapacity);
     tree \<leftarrow> newSegmentTree (int segmentTreeCapacity);
     cubic \<leftarrow> NewCubicSendAlgorithm minWindowSize maxWindowSize;
     Some \<lparr>s_block = None, s_id = sid, s_isClient = isClient, s_mtu = mtu,
       s_transport = UnknownTransport, s_state = sessionInit, s_status = statusOK,
       s_trafficPattern = trafficPattern, s_closeRequested = False, s_closed = False,
       s_readDeadline = 0, s_writeDeadline = 0, s_inputHasErr = False, s_outputHasErr = False,
       s_sendQueue = sendQueue, s_sendBuf = tree, s_recvBuf = tree, s_recvQueue = tree,
       s_packetOutputWakeup = False, s_nextSend = 0, s_nextRecv = 0, s_lastSend = 0,
       s_lastRXTime = e_now E, s_lastTXTime = e_now E, s_heartbeatJitter = e_jitter E,
       s_nextRetransmissionTime = 0, s_ackOnDataRecv = False, s_ackDeadline = 0, s_unreadBuf = [],
       s_rttStat = rttStat, s_cubic = cubic, s_remoteWindowSize = minWindowSize,
       s_openSessionRequestSent = False, s_userName = None,
       s_userPolicy = (if p_name policy \<noteq> '''' then Some policy else None),
       s_pendingServerUserPolicies = pendingPolicies, s_clientUseLowEntropy = False,
       s_uploadBytes = None, s_downloadBytes = None, s_wire = [], s_closePending = None\<rparr> }"

definition NewSession :: "env \<Rightarrow> u32 \<Rightarrow> bool \<Rightarrow> int \<Rightarrow> User option list \<Rightarrow> TrafficPattern option \<Rightarrow> session option" where
  "NewSession E sid isClient mtu users trafficPattern =
     newSessionWithServerUserPolicy E sid isClient mtu zeroPolicy (BuildPolicies users) trafficPattern"

section \<open>Small operations\<close>

definition isState :: "session \<Rightarrow> sessionState \<Rightarrow> bool" where
  "isState s target \<longleftrightarrow> s_state s = target"

definition isStateBefore :: "session \<Rightarrow> sessionState \<Rightarrow> bool \<Rightarrow> bool" where
  "isStateBefore s target incl = (if incl then s_state s \<le> target else s_state s < target)"

definition isStateAfter :: "session \<Rightarrow> sessionState \<Rightarrow> bool \<Rightarrow> bool" where
  "isStateAfter s target incl = (if incl then s_state s \<ge> target else s_state s > target)"

definition forwardStateTo :: "sessionState \<Rightarrow> session \<Rightarrow> session" where
  "forwardStateTo nxt s = (if nxt \<le> s_state s then s else s\<lparr>s_state := nxt\<rparr>)"

definition UserName :: "session \<Rightarrow> string" where
  "UserName s = (case s_userName s of Some n \<Rightarrow> n | None \<Rightarrow> '''')"

text \<open>The zero \<^verbatim>\<open>time.Time\<close> is \<open>None\<close>.\<close>

definition deadline_micros :: "int option \<Rightarrow> int" where
  "deadline_micros t = (case t of None \<Rightarrow> 0 | Some micros \<Rightarrow> micros)"

definition SetDeadline :: "int option \<Rightarrow> session \<Rightarrow> session" where
  "SetDeadline t s = s\<lparr>s_readDeadline := deadline_micros t, s_writeDeadline := deadline_micros t\<rparr>"

definition SetReadDeadline :: "int option \<Rightarrow> session \<Rightarrow> session" where
  "SetReadDeadline t s = s\<lparr>s_readDeadline := deadline_micros t\<rparr>"

definition SetWriteDeadline :: "int option \<Rightarrow> session \<Rightarrow> session" where
  "SetWriteDeadline t s = s\<lparr>s_writeDeadline := deadline_micros t\<rparr>"

definition isClientPacketSessionOpening :: "session \<Rightarrow> bool" where
  "isClientPacketSessionOpening s \<longleftrightarrow>
     s_isClient s \<and> s_transport s = PacketTransport \<and> isState s sessionAttached"

definition isClientPacketSessionOpenResponse :: "session \<Rightarrow> segment \<Rightarrow> bool" where
  "isClientPacketSessionOpenResponse s seg \<longleftrightarrow>
     isClientPacketSessionOpening s \<and> seg_Protocol seg = openSessionResponse"

definition shouldDeferNextPacketData :: "env \<Rightarrow> session \<Rightarrow> bool" where
  "shouldDeferNextPacketData E s =
     (if \<not> isClientPacketSessionOpening s then False
      else fst (Ascend (e_bt E) (\<lambda>deferData iter. (isDataProtocol (seg_Protocol iter), iter, False))
                  False (s_sendQueue s)))"

definition lowEntropySendConfig :: "session \<Rightarrow> int \<times> int \<times> bool" where
  "lowEntropySendConfig s =
     (case extractLowEntropyConfig (s_trafficPattern s) of (mode, rotation, enabled) \<Rightarrow>
        if \<not> enabled then (LOW_ENTROPY_MODE_OFF, ROTATE_NONE, False)
        else if \<not> s_isClient s \<and> \<not> s_clientUseLowEntropy s
          then (LOW_ENTROPY_MODE_OFF, ROTATE_NONE, False)
        else (mode, rotation, True))"

definition sendWindowSize :: "env \<Rightarrow> session \<Rightarrow> int" where
  "sendWindowSize E s =
     Max_go 0 (Min_go (uint (CongestionWindowSize (s_cubic s)) - int (Len (e_bt E) (s_sendBuf s)))
                      (uint (s_remoteWindowSize s)))"

definition receiveWindowSize :: "env \<Rightarrow> session \<Rightarrow> int" where
  "receiveWindowSize E s =
     Max_go 0 (int segmentTreeCapacity - int (Len (e_bt E) (s_recvBuf s)) - int (Len (e_bt E) (s_recvQueue s)))"

definition wakePacketOutput :: "session \<Rightarrow> session" where
  "wakePacketOutput s = s\<lparr>s_packetOutputWakeup := True\<rparr>"

definition micros :: "int \<Rightarrow> int" where
  "micros d = go_div d microsecond"

definition requestPacketAck :: "env \<Rightarrow> session \<Rightarrow> session" where
  "requestPacketAck E s =
     (if s_ackOnDataRecv s then s
      else wakePacketOutput (s\<lparr>s_ackDeadline := e_now E + micros packetAckDelay, s_ackOnDataRecv := True\<rparr>))"

text \<open>A Go select takes one of its ready cases, or the default case (\<open>None\<close>).\<close>

definition select_ready :: "env \<Rightarrow> (bool \<times> 'a) list \<Rightarrow> 'a option" where
  "select_ready E cases =
     (let ready = map snd (filter fst cases)
      in if ready = [] then None else Some (ready ! (e_pick E mod length ready)))"

section \<open>Output and close\<close>

datatype sess_error =
    ErrInvalidArgument
  | ErrUnsupportedTransport
  | ErrOutput
  | ErrInsertRecvQueue
  | ErrInsertSendQueue
  | ErrInsertBack

text \<open>\<open>output\<close> returns whether it failed.\<close>

definition output_seg :: "env \<Rightarrow> segment \<Rightarrow> session \<Rightarrow> bool \<times> session" where
  "output_seg E seg s =
     (let done = s\<lparr>s_wire := s_wire s @ [seg], s_lastSend := Seq seg, s_lastTXTime := e_now E\<rparr>
      in case s_transport s of
           StreamTransport \<Rightarrow> (case e_write E seg of WriteOK \<Rightarrow> (False, done) | _ \<Rightarrow> (True, s))
         | PacketTransport \<Rightarrow> (case e_write E seg of
               WriteOK \<Rightarrow> (False, done) | WriteNotReady \<Rightarrow> (False, s) | WriteFailed \<Rightarrow> (True, s))
         | UnknownTransport \<Rightarrow> (True, s))"

definition session_seg :: "u8 \<Rightarrow> u8 \<Rightarrow> session \<Rightarrow> segment" where
  "session_seg protocol status s =
     mk_segment (SessionMD \<lparr>ss_protocol = protocol, ss_timestamp = 0, ss_sessionID = s_id s,
       ss_seq = s_nextSend s, ss_statusCode = status, ss_payloadLen = 0, ss_suffixLen = 0\<rparr>) [] (s_transport s)"

text \<open>The end of \<^verbatim>\<open>closeWithError\<close>, after the close request was sent or given up.\<close>

definition close_tail :: "env \<Rightarrow> session \<Rightarrow> session" where
  "close_tail E s =
     (forwardStateTo sessionClosed
        (s\<lparr>s_sendQueue := DeleteAll (e_bt E) (s_sendQueue s),
           s_sendBuf := DeleteAll (e_bt E) (s_sendBuf s)\<rparr>))\<lparr>s_closed := True\<rparr>"

definition close_finish :: "env \<Rightarrow> bool \<Rightarrow> segment \<Rightarrow> session \<Rightarrow> session" where
  "close_finish E gracefulCloseSuccess seg s =
     close_tail E (if gracefulCloseSuccess then s else snd (output_seg E seg s))"

text \<open>\<open>graceful\<close> is the test \<^verbatim>\<open>err == nil\<close>.\<close>

definition closeWithError :: "env \<Rightarrow> bool \<Rightarrow> session \<Rightarrow> session option" where
  "closeWithError E graceful s =
     (if s_closeRequested s then Some s
      else
        let s = s\<lparr>s_closeRequested := True\<rparr>
        in if isState s sessionAttached \<or> isState s sessionEstablished then
             let seg = session_seg closeSessionRequest (s_status s) s;
                 s = s\<lparr>s_nextSend := s_nextSend s + 1\<rparr>
             in if graceful then do {
                  (ok, q) \<leftarrow> Insert (e_bt E) seg (s_sendQueue s);
                  let s = s\<lparr>s_sendQueue := q\<rparr>;
                  Some (if ok then s\<lparr>s_closePending := Some seg\<rparr> else close_finish E False seg s) }
                else Some (close_finish E False seg s)
           else Some (close_tail E s))"

definition Close :: "env \<Rightarrow> session \<Rightarrow> session option" where
  "Close E s = closeWithError E True s"

text \<open>The waiting close sees the last sent sequence number, or gives up.\<close>

definition close_poll :: "env \<Rightarrow> session \<Rightarrow> session" where
  "close_poll E s =
     (case s_closePending s of
        None \<Rightarrow> s
      | Some seg \<Rightarrow> close_finish E (s_lastSend s \<ge> Seq seg) seg (s\<lparr>s_closePending := None\<rparr>))"

section \<open>Read\<close>

text \<open>
  One pass of \<^verbatim>\<open>Read\<close> for a buffer with room for \<open>room\<close> more bytes; \<open>acc\<close> is what was copied.
  The result \<open>None\<close> of the inner option means that nothing was read and the queue is empty,
  so the call waits.
\<close>

partial_function (option) read_loop :: "env \<Rightarrow> nat \<Rightarrow> bytes \<Rightarrow> session \<Rightarrow> (bytes option \<times> session) option" where
  "read_loop E room acc s =
     (let copied = take room (s_unreadBuf s);
          unread = s_unreadBuf s \<noteq> [];
          s1 = (if unread then s\<lparr>s_unreadBuf := drop room (s_unreadBuf s)\<rparr> else s);
          acc1 = (if unread then acc @ copied else acc);
          room1 = (if unread then room - length copied else room)
      in if unread \<and> (room1 = 0 \<or> s_unreadBuf s1 \<noteq> []) then Some (Some acc1, s1)
         else if Len (e_bt E) (s_recvQueue s1) > 0 then
           DeleteMin (e_bt E) (s_recvQueue s1) \<bind> (\<lambda>(r, q). case r of
             None \<Rightarrow> read_loop E room1 acc1 (s1\<lparr>s_recvQueue := q\<rparr>)
           | Some seg \<Rightarrow>
               let s2 = s1\<lparr>s_recvQueue := q\<rparr>;
                   s2 = (if s_isClient s2 \<and> seg_Protocol seg = openSessionResponse \<and> isState s2 sessionAttached
                         then forwardStateTo sessionEstablished s2 else s2);
                   copied = take room1 (seg_payload seg);
                   s2 = (if length copied < length (seg_payload seg)
                         then s2\<lparr>s_unreadBuf := drop (length copied) (seg_payload seg)\<rparr> else s2);
                   room2 = room1 - length copied
               in if room2 = 0 then Some (Some (acc1 @ copied), s2)
                  else read_loop E room2 (acc1 @ copied) s2)
         else if acc1 \<noteq> [] then Some (Some acc1, s1)
         else Some (None, s1))"

datatype read_result = ReadOK bytes | ReadEOF | ReadUnexpectedEOF | ReadTimeout | ReadBlocked

definition finish_read :: "bytes \<Rightarrow> session \<Rightarrow> session" where
  "finish_read b s =
     s\<lparr>s_readDeadline := 0,
       s_uploadBytes := (if s_isClient s then s_uploadBytes s
                         else map_option (\<lambda>n. n + int (length b)) (s_uploadBytes s))\<rparr>"

definition Read :: "env \<Rightarrow> nat \<Rightarrow> session \<Rightarrow> (read_result \<times> session) option" where
  "Read E len s =
     (if len = 0 then Some (ReadOK [], s\<lparr>s_readDeadline := 0\<rparr>)
      else read_loop E len [] s \<bind> (\<lambda>(r, s'). Some (case r of
             Some b \<Rightarrow> (ReadOK b, finish_read b s')
           | None \<Rightarrow> (ReadBlocked, s'))))"

text \<open>
  The select of a blocked \<^verbatim>\<open>Read\<close>.  On \<open>ReadBlocked\<close> with the token taken, the call runs
  \<open>Read\<close> again.
\<close>

definition deadline_passed :: "env \<Rightarrow> int \<Rightarrow> bool" where
  "deadline_passed E deadline \<longleftrightarrow> deadline \<noteq> 0 \<and> deadline \<le> e_now E"

definition read_select :: "env \<Rightarrow> session \<Rightarrow> read_result \<times> session" where
  "read_select E s =
     (case select_ready E [(s_closed s, ReadEOF), (s_inputHasErr s, ReadUnexpectedEOF),
             (deadline_passed E (s_readDeadline s), ReadTimeout),
             (st_chanNotEmptyEvent (s_recvQueue s), ReadBlocked)] of
        None \<Rightarrow> (ReadBlocked, s)
      | Some ReadBlocked \<Rightarrow>
          (ReadBlocked, s\<lparr>s_recvQueue := (s_recvQueue s)\<lparr>st_chanNotEmptyEvent := False\<rparr>\<rparr>)
      | Some r \<Rightarrow> (r, s\<lparr>s_readDeadline := 0\<rparr>))"

section \<open>Write\<close>

datatype write_error =
    ErrClosedPipe
  | ErrNotReady
  | ErrShortWrite
  | ErrEOF
  | ErrTimeout
  | ErrFragment frag_error
  | ErrEncodedLen le_error
  | ErrSendQueueFull
  | WriteBlocked

definition write_interrupted :: "env \<Rightarrow> session \<Rightarrow> write_error option" where
  "write_interrupted E s =
     select_ready E [(s_closed s, ErrEOF), (s_outputHasErr s, ErrClosedPipe),
                     (deadline_passed E (s_writeDeadline s), ErrTimeout)]"

definition data_segment ::
  "env \<Rightarrow> int \<Rightarrow> int \<Rightarrow> bool \<Rightarrow> nat \<Rightarrow> bytes \<Rightarrow> u16 \<Rightarrow> session \<Rightarrow> segment" where
  "data_segment E mode rotation sendLowEntropy i part payloadLen s =
     (let protocol = (if s_isClient s
            then (if sendLowEntropy then dataClientToServerLowEntropy else dataClientToServer)
            else (if sendLowEntropy then dataServerToClientLowEntropy else dataServerToClient))
      in mk_segment (DataAckMD
           \<lparr>das_protocol = protocol, das_timestamp = 0,
            das_lowEntropyMode = (if sendLowEntropy then word_of_int mode else 0),
            das_sessionID = s_id s, das_seq = s_nextSend s, das_unAckSeq = s_nextRecv s,
            das_windowSize = word_of_int (receiveWindowSize E s), das_fragment = of_nat i,
            das_prefixLen = 0, das_payloadLen = payloadLen, das_suffixLen = 0,
            das_lowEntropyMask = 0,
            das_extractedPayloadLen = (if sendLowEntropy then of_nat (length part) else 0),
            das_lowEntropyMaskRotation = (if sendLowEntropy then word_of_int rotation else 0)\<rparr>)
         part (s_transport s))"

text \<open>The loop over the fragments; \<open>n\<close> fragments remain, the next one has number \<open>n - 1\<close>.\<close>

fun write_fragments ::
  "env \<Rightarrow> int \<Rightarrow> int \<Rightarrow> bool \<Rightarrow> nat \<Rightarrow> nat \<Rightarrow> bytes \<Rightarrow> session \<Rightarrow> (write_error option \<times> session) option" where
  "write_fragments E mode rotation le fragmentSize 0 ptr s = Some (None, s)"
| "write_fragments E mode rotation le fragmentSize (Suc i) ptr s =
     (case write_interrupted (E\<lparr>e_now := e_clock E i\<rparr>) s of
        Some e \<Rightarrow> Some (Some e, s)
      | None \<Rightarrow>
          let partLen = min fragmentSize (length ptr);
              part = take partLen ptr
          in case (if le then lowEntropyEncodedPayloadLen (int partLen) mode else Inr (of_nat partLen)) of
               Inl e \<Rightarrow> Some (Some (ErrEncodedLen e), s)
             | Inr payloadLen \<Rightarrow>
                 let seg = data_segment E mode rotation le i part payloadLen s;
                     s1 = s\<lparr>s_nextSend := s_nextSend s + 1\<rparr>
                 in Insert (e_bt E) seg (s_sendQueue s1) \<bind> (\<lambda>(ok, q).
                      if \<not> ok then Some (Some ErrSendQueueFull, s1\<lparr>s_sendQueue := q\<rparr>)
                      else write_fragments E mode rotation le fragmentSize i (drop partLen ptr)
                             (s1\<lparr>s_sendQueue := q\<rparr>)))"

text \<open>
  The result is \<open>Inr\<close> of the number of bytes taken.  The wait for the queue to move after the
  loop takes the token of the empty event when there is one; an integer division by 0 panics.
\<close>

definition writeChunk :: "env \<Rightarrow> bytes \<Rightarrow> session \<Rightarrow> ((write_error + nat) \<times> session) option" where
  "writeChunk E b s =
     (if length b > maxPDU then Some (Inl ErrShortWrite, s)
      else
        let (mode, rotation, le) = lowEntropySendConfig s
        in case maxFragmentSize (s_mtu s) (s_transport s) mode of
             Inl e \<Rightarrow> Some (Inl (ErrFragment e), s)
           | Inr fragmentSize \<Rightarrow>
               if int (length b) > fragmentSize \<and> fragmentSize = 0 then None
               else
                 let nFragment = (if int (length b) > fragmentSize
                       then nat (go_div (int (length b) - 1) fragmentSize + 1) else 1)
                 in if Remaining (e_bt E) (s_sendQueue s) \<le> int nFragment
                    then Some (Inl (case write_interrupted E s of Some e \<Rightarrow> e | None \<Rightarrow> WriteBlocked), s)
                    else write_fragments E mode rotation le (nat fragmentSize) nFragment b s \<bind> (\<lambda>(e, s1).
                      case e of
                        Some e \<Rightarrow> Some (Inl e, s1)
                      | None \<Rightarrow> Some (Inr (length b),
                          s1\<lparr>s_sendQueue := (s_sendQueue s1)\<lparr>st_chanEmptyEvent := False\<rparr>\<rparr>)))"

text \<open>The loop of \<^verbatim>\<open>Write\<close> over chunks of at most \<^verbatim>\<open>maxPDU\<close> bytes; \<open>n\<close> bytes are written.\<close>

function write_chunks :: "env \<Rightarrow> nat \<Rightarrow> bytes \<Rightarrow> session \<Rightarrow> (nat \<times> write_error option \<times> session) option" where
  "write_chunks E n b s =
     (if b = [] then Some (n, None, s)
      else
        let sizeToSend = min (length b) maxPDU
        in writeChunk E (take sizeToSend b) s \<bind> (\<lambda>(r, s1).
             case r of
               Inl e \<Rightarrow> Some (n, Some e, s1)
             | Inr sent \<Rightarrow> if sent = 0 then Some (n, None, s1)
                           else write_chunks E (n + sizeToSend) (drop sizeToSend b) s1))"
  by pat_completeness auto
termination
  by (relation "measure (\<lambda>(E, n, b, s). length b)") (auto simp: maxPDU_def)

declare write_chunks.simps [simp del]

definition finish_write :: "nat \<Rightarrow> session \<Rightarrow> session" where
  "finish_write n s =
     s\<lparr>s_downloadBytes := (if s_isClient s then s_downloadBytes s
                           else map_option (\<lambda>m. m + int n) (s_downloadBytes s))\<rparr>"

definition clear_write_deadline :: "session \<Rightarrow> session" where
  "clear_write_deadline s = s\<lparr>s_writeDeadline := 0\<rparr>"

text \<open>The open session request that precedes the first write of a client.\<close>

definition open_request :: "session \<Rightarrow> bytes \<Rightarrow> segment" where
  "open_request s b =
     (let (_, _, sendLowEntropy) = lowEntropySendConfig s;
          piggyback = (\<not> sendLowEntropy \<and> length b \<le> MaxSessionOpenPayload)
      in mk_segment (SessionMD \<lparr>ss_protocol = openSessionRequest, ss_timestamp = 0, ss_sessionID = s_id s,
           ss_seq = s_nextSend s, ss_statusCode = 0,
           ss_payloadLen = (if piggyback then of_nat (length b) else 0), ss_suffixLen = 0\<rparr>)
         (if piggyback then b else []) (s_transport s))"

definition Write :: "env \<Rightarrow> bytes \<Rightarrow> session \<Rightarrow> (nat \<times> write_error option \<times> session) option" where
  "Write E b s =
     (if s_closeRequested s then Some (0, Some ErrClosedPipe, s)
      else if isStateBefore s sessionAttached False then Some (0, Some ErrNotReady, s)
      else if isStateAfter s sessionClosed True then Some (0, Some ErrClosedPipe, s)
      else
        let rest = (\<lambda>s. write_chunks E 0 b s \<bind> (\<lambda>(n, e, s1).
              Some (n, e, clear_write_deadline (if e = None then finish_write n s1 else s1))))
        in if s_isClient s \<and> isState s sessionAttached \<and> \<not> s_openSessionRequestSent s then
             let seg = open_request s b;
                 s1 = s\<lparr>s_openSessionRequestSent := True, s_nextSend := s_nextSend s + 1\<rparr>
             in Insert (e_bt E) seg (s_sendQueue s1) \<bind> (\<lambda>(ok, q).
                  let s2 = s1\<lparr>s_sendQueue := q\<rparr>
                  in if \<not> ok then Some (0, Some ErrSendQueueFull, clear_write_deadline s2)
                     else if seg_payload seg \<noteq> []
                       then Some (length (seg_payload seg), None, clear_write_deadline s2)
                     else rest s2)
           else rest s)"

section \<open>The output loop\<close>

definition mark_output_err :: "session \<Rightarrow> session" where
  "mark_output_err s = s\<lparr>s_outputHasErr := True\<rparr>"

partial_function (option) output_stream_loop :: "env \<Rightarrow> session \<Rightarrow> session option" where
  "output_stream_loop E s =
     DeleteMin (e_bt E) (s_sendQueue s) \<bind> (\<lambda>(r, q).
       let s1 = s\<lparr>s_sendQueue := q\<rparr>
       in case r of
            None \<Rightarrow> Some s1
          | Some seg \<Rightarrow>
              (case output_seg E seg s1 of (err, s2) \<Rightarrow>
                 if err then closeWithError E False (mark_output_err s2)
                 else output_stream_loop E s2))"

definition runOutputOnceStream :: "env \<Rightarrow> session \<Rightarrow> session option" where
  "runOutputOnceStream E s = (if s_outputHasErr s then Some s else output_stream_loop E s)"

text \<open>
  \<^verbatim>\<open>time.Duration(math.Pow(1.5, n))\<close>.  The power is exact in \<^verbatim>\<open>float64\<close> for the transmission
  counts in use (at most \<open>txCountLimit\<close>), and the conversion truncates.
\<close>

definition backOff :: "u8 \<Rightarrow> int" where
  "backOff n = 3 ^ unat n div 2 ^ unat n"

definition tx_timeout :: "env \<Rightarrow> u8 \<Rightarrow> session \<Rightarrow> int" where
  "tx_timeout E txCount s = Min_go (RTO (e_fl E) (s_rttStat s) * backOff txCount) maxBackOffDuration"

text \<open>A data or ack segment is sent with the current \<open>nextRecv\<close>.  A type assertion may panic.\<close>

definition set_unAckSeq :: "u32 \<Rightarrow> segment \<Rightarrow> segment option" where
  "set_unAckSeq n seg =
     (if isDataAckProtocol (seg_Protocol seg)
      then (case seg_metadata seg of
              DataAckMD das \<Rightarrow> Some (seg\<lparr>seg_metadata := DataAckMD (das\<lparr>das_unAckSeq := n\<rparr>)\<rparr>)
            | SessionMD _ \<Rightarrow> None)
      else Some seg)"

text \<open>The variables that the closure of the retransmission loop captures.\<close>

record retx_vars =
  rv_session :: session
  rv_panic :: bool
  rv_closeReason :: bool
  rv_hasLoss :: bool
  rv_hasTimeout :: bool
  rv_total :: nat
  rv_nextTX :: int

definition retx_iter :: "env \<Rightarrow> retx_vars \<Rightarrow> segment \<Rightarrow> retx_vars \<times> segment \<times> bool" where
  "retx_iter E v iter =
     (if seg_txCount iter \<ge> txCountLimit
      then (v\<lparr>rv_session := mark_output_err (rv_session v), rv_closeReason := True\<rparr>, iter, False)
      else
        let early = (seg_ackCount iter \<ge> earlyRetransmission \<and> seg_txCount iter \<le> earlyRetransmissionLimit)
        in if early \<or> e_now E - seg_txTime iter \<ge> micros (seg_txTimeout iter) then
             let v = (if early then v\<lparr>rv_hasLoss := True\<rparr> else v\<lparr>rv_hasTimeout := True\<rparr>);
                 txc = seg_txCount iter + 1;
                 iter = iter\<lparr>seg_ackCount := 0, seg_txCount := txc, seg_txTime := e_now E,
                             seg_txTimeout := tx_timeout E txc (rv_session v)\<rparr>
             in case set_unAckSeq (s_nextRecv (rv_session v)) iter of
                  None \<Rightarrow> (v\<lparr>rv_panic := True\<rparr>, iter, False)
                | Some iter \<Rightarrow>
                    (case output_seg E iter (rv_session v) of (err, s) \<Rightarrow>
                       if err then (v\<lparr>rv_session := mark_output_err s, rv_closeReason := True\<rparr>, iter, False)
                       else (v\<lparr>rv_session := s, rv_total := rv_total v + 1,
                               rv_nextTX := Min_go (rv_nextTX v) (seg_txTime iter + micros (seg_txTimeout iter))\<rparr>,
                             iter, True))
           else (v\<lparr>rv_nextTX := Min_go (rv_nextTX v) (seg_txTime iter + micros (seg_txTimeout iter))\<rparr>,
                 iter, True))"

text \<open>The first part of \<^verbatim>\<open>runOutputOncePacket\<close>; it also returns the number of transmissions.\<close>

definition retransmit :: "env \<Rightarrow> session \<Rightarrow> (nat \<times> session) option" where
  "retransmit E s =
     (if Len (e_bt E) (s_sendBuf s) > 0 \<and> e_now E \<ge> s_nextRetransmissionTime s then
        case Ascend (e_bt E) (retx_iter E)
               \<lparr>rv_session = s, rv_panic = False, rv_closeReason = False, rv_hasLoss = False,
                rv_hasTimeout = False, rv_total = 0, rv_nextTX = MaxInt64\<rparr> (s_sendBuf s) of (v, buf) \<Rightarrow>
          if rv_panic v then None
          else
            let s1 = (rv_session v)\<lparr>s_sendBuf := buf\<rparr>;
                s1 = (if rv_nextTX v \<noteq> MaxInt64 then s1\<lparr>s_nextRetransmissionTime := rv_nextTX v\<rparr> else s1)
            in do {
              s2 \<leftarrow> (if rv_closeReason v then closeWithError E False s1 else Some s1);
              Some (rv_total v,
                if rv_hasTimeout v then s2\<lparr>s_cubic := OnTimeout (s_cubic s2)\<rparr>
                else if rv_hasLoss v then s2\<lparr>s_cubic := OnLoss (e_fl E) (e_now E) (s_cubic s2)\<rparr>
                else s2) }
      else Some (0, s))"

text \<open>The schedule of the next retransmission check when \<open>seg\<close> enters the send buffer.\<close>

definition schedule_check :: "env \<Rightarrow> segment \<Rightarrow> session \<Rightarrow> session" where
  "schedule_check E seg s =
     (let deadline = seg_txTime seg + micros (seg_txTimeout seg)
      in if Len (e_bt E) (s_sendBuf s) = 0
           then s\<lparr>s_nextRetransmissionTime := Min_go deadline (seg_txTime seg + micros retransmissionCheckDelay)\<rparr>
         else if s_nextRetransmissionTime s > deadline then s\<lparr>s_nextRetransmissionTime := deadline\<rparr>
         else s)"

partial_function (option) send_new_loop :: "env \<Rightarrow> nat \<Rightarrow> session \<Rightarrow> session option" where
  "send_new_loop E sent s =
     (if Remaining (e_bt E) (s_sendBuf s) \<le> 1 then Some s
      else if shouldDeferNextPacketData E s then Some s
      else DeleteMinIf (e_bt E) (\<lambda>_. int sent < sendWindowSize E s) (s_sendQueue s) \<bind> (\<lambda>(r, deleted, q).
        let s1 = s\<lparr>s_sendQueue := q\<rparr>
        in case r of
             None \<Rightarrow> Some s1
           | Some seg \<Rightarrow>
               if \<not> deleted then Some s1
               else
                 let txc = seg_txCount seg + 1;
                     seg = seg\<lparr>seg_txCount := txc, seg_txTime := e_now E, seg_txTimeout := tx_timeout E txc s1\<rparr>
                 in set_unAckSeq (s_nextRecv s1) seg \<bind> (\<lambda>seg.
                      let s2 = schedule_check E seg s1
                      in Insert (e_bt E) seg (s_sendBuf s2) \<bind> (\<lambda>(ok, buf).
                           let s3 = s2\<lparr>s_sendBuf := buf\<rparr>
                           in if \<not> ok then closeWithError E False (mark_output_err s3)
                              else (case output_seg E seg s3 of (err, s4) \<Rightarrow>
                                      if err then closeWithError E False (mark_output_err s4)
                                      else send_new_loop E (sent + 1) s4)))))"

definition ack_segment :: "env \<Rightarrow> session \<Rightarrow> segment" where
  "ack_segment E s =
     mk_segment (DataAckMD
       \<lparr>das_protocol = (if s_isClient s then ackClientToServer else ackServerToClient),
        das_timestamp = 0, das_lowEntropyMode = 0, das_sessionID = s_id s,
        das_seq = word_of_int (Max_go 0 (uint (s_nextSend s) - 1)), das_unAckSeq = s_nextRecv s,
        das_windowSize = word_of_int (receiveWindowSize E s), das_fragment = 0, das_prefixLen = 0,
        das_payloadLen = 0, das_suffixLen = 0, das_lowEntropyMask = 0, das_extractedPayloadLen = 0,
        das_lowEntropyMaskRotation = 0\<rparr>) [] (s_transport s)"

definition send_ack :: "env \<Rightarrow> session \<Rightarrow> session option" where
  "send_ack E s =
     (let now = e_now E;
          ackDue = (s_ackOnDataRecv s \<and> now \<ge> s_ackDeadline s);
          jitteredInterval = sessionHeartbeatInterval + s_heartbeatJitter s;
          exceedHeartbeatInterval = (now - s_lastTXTime s > micros jitteredInterval)
      in if \<not> isClientPacketSessionOpening s \<and> (ackDue \<or> exceedHeartbeatInterval) then
           let s1 = s\<lparr>s_ackOnDataRecv := False\<rparr>
           in case output_seg E (ack_segment E s1) s1 of (err, s2) \<Rightarrow> do {
                s3 \<leftarrow> (if err then closeWithError E False (mark_output_err s2) else Some s2);
                Some (s3\<lparr>s_heartbeatJitter := e_jitter E\<rparr>) }
         else Some s)"

definition runOutputOncePacket :: "env \<Rightarrow> session \<Rightarrow> session option" where
  "runOutputOncePacket E s =
     (if s_outputHasErr s then Some s
      else do {
        (sent, s1) \<leftarrow> retransmit E s;
        s2 \<leftarrow> (if Len (e_bt E) (s_sendQueue s1) > 0 \<and> \<not> sendWindowSize E s1 \<le> 0
               then send_new_loop E sent s1 else Some s1);
        send_ack E s2 })"

definition nextPacketOutputDelay :: "env \<Rightarrow> session \<Rightarrow> int" where
  "nextPacketOutputDelay E s =
     (let now = e_now E;
          nxt = MaxInt64;
          nxt = (if Len (e_bt E) (s_sendBuf s) > 0 then Min_go nxt (s_nextRetransmissionTime s) else nxt);
          nxt = (if \<not> isClientPacketSessionOpening s
                 then (let n1 = (if s_ackOnDataRecv s then Min_go nxt (s_ackDeadline s) else nxt)
                       in Min_go n1 (s_lastTXTime s + micros (sessionHeartbeatInterval + s_heartbeatJitter s)))
                 else nxt)
      in if nxt = MaxInt64 then sessionHeartbeatInterval
         else let delay = (nxt - now) * microsecond
              in if delay \<le> 0 then minOutputInterval else delay)"

section \<open>The input loop\<close>

datatype input_result = InOK | InErr sess_error | InBlocked

text \<open>The wait for room in the receive queue: room, closed, or still waiting.\<close>

datatype recv_space = HasSpace | SessionGone | NoSpace

definition waitForRecvQueueSpace :: "env \<Rightarrow> session \<Rightarrow> recv_space" where
  "waitForRecvQueueSpace E s =
     (if s_closed s then SessionGone
      else if Remaining (e_bt E) (s_recvQueue s) > 0 then HasSpace
      else NoSpace)"

text \<open>The result tells whether putting a segment back failed.\<close>

partial_function (option) moveRecvBufToRecvQueue :: "env \<Rightarrow> session \<Rightarrow> (bool \<times> session) option" where
  "moveRecvBufToRecvQueue E s =
     (if Remaining (e_bt E) (s_recvQueue s) \<le> 0 then Some (False, s)
      else
        let nextRecv = s_nextRecv s
        in DeleteMinIf (e_bt E) (\<lambda>iter. Seq iter \<le> nextRecv) (s_recvBuf s) \<bind> (\<lambda>(r, deleted, buf).
          let s1 = s\<lparr>s_recvBuf := buf\<rparr>
          in case r of
               None \<Rightarrow> Some (False, s1)
             | Some seg \<Rightarrow>
                 if \<not> deleted then Some (False, s1)
                 else if Seq seg < nextRecv then moveRecvBufToRecvQueue E s1
                 else Insert (e_bt E) seg (s_recvQueue s1) \<bind> (\<lambda>(ok, q).
                   let s2 = s1\<lparr>s_recvQueue := q\<rparr>
                   in if \<not> ok then
                        Insert (e_bt E) seg (s_recvBuf s2) \<bind> (\<lambda>(ok, buf).
                          Some (\<not> ok, s2\<lparr>s_recvBuf := buf\<rparr>))
                      else
                        let s3 = s2\<lparr>s_nextRecv := s_nextRecv s2 + 1\<rparr>
                        in moveRecvBufToRecvQueue E
                             (case seg_metadata seg of
                                DataAckMD das \<Rightarrow> s3\<lparr>s_remoteWindowSize := ucast (das_windowSize das)\<rparr>
                              | SessionMD _ \<Rightarrow> s3))))"

text \<open>Removing what the peer has acknowledged from the send buffer.\<close>

partial_function (option) delete_acked :: "env \<Rightarrow> u32 \<Rightarrow> session \<Rightarrow> session option" where
  "delete_acked E unAckSeq s =
     DeleteMinIf (e_bt E) (\<lambda>iter. Seq iter < unAckSeq) (s_sendBuf s) \<bind> (\<lambda>(r, deleted, buf).
       let s1 = s\<lparr>s_sendBuf := buf\<rparr>
       in case r of
            None \<Rightarrow> Some s1
          | Some seg2 \<Rightarrow>
              if \<not> deleted then Some s1
              else delete_acked E unAckSeq
                     (s1\<lparr>s_rttStat := UpdateRTT (e_fl E) ((e_now E - seg_txTime seg2) * microsecond) (s_rttStat s1),
                         s_cubic := OnAck (e_fl E) (e_now E) (s_cubic s1)\<rparr>))"

definition checkQuota :: "env \<Rightarrow> string \<Rightarrow> session \<Rightarrow> bool" where
  "checkQuota E userName s =
     (case s_userPolicy s of
        None \<Rightarrow> True
      | Some policy \<Rightarrow>
          if p_name policy \<noteq> userName then True
          else if p_quotas policy = [] then True
          else (case e_metrics E userName of
                  Some (Some upload, Some download) \<Rightarrow>
                    list_all (\<lambda>quota. \<not> go_div (upload (q_days quota) + download (q_days quota)) 1048576
                                       > q_megabytes quota) (p_quotas policy)
                | _ \<Rightarrow> True))"

text \<open>The answer of a server to an open session request.\<close>

definition answer_open :: "env \<Rightarrow> session \<Rightarrow> (input_result \<times> session) option" where
  "answer_open E s =
     (if UserName s \<noteq> '''' \<and> \<not> checkQuota E (UserName s) s then do {
        s1 \<leftarrow> Close E (s\<lparr>s_status := statusQuotaExhausted\<rparr>);
        Some (InOK, s1) }
      else
        let seg4 = session_seg openSessionResponse 0 s;
            s1 = s\<lparr>s_nextSend := s_nextSend s + 1\<rparr>
        in do {
          (ok, q) \<leftarrow> Insert (e_bt E) seg4 (s_sendQueue s1);
          let s2 = s1\<lparr>s_sendQueue := q\<rparr>;
          Some (if \<not> ok then (InErr ErrInsertSendQueue, s2)
                else (InOK, forwardStateTo sessionEstablished s2)) })"

definition input_packet_data :: "env \<Rightarrow> segment \<Rightarrow> session \<Rightarrow> (input_result \<times> session \<times> bool) option" where
  "input_packet_data E seg s = do {
     s1 \<leftarrow> (case seg_metadata seg of
             DataAckMD das \<Rightarrow> do {
               s' \<leftarrow> delete_acked E (das_unAckSeq das) s;
               Some (s'\<lparr>s_remoteWindowSize := ucast (das_windowSize das)\<rparr>) }
           | SessionMD _ \<Rightarrow> Some s);
     let s2 = (if Len (e_bt E) (s_sendQueue s1) > 0 then wakePacketOutput s1 else s1);
     let s3 = requestPacketAck E s2;
     if receiveWindowSize E s3 \<le> 0 then Some (InOK, s3, True)
     else do {
       (ok, buf) \<leftarrow> Insert (e_bt E) seg (s_recvBuf s3);
       let s4 = s3\<lparr>s_recvBuf := buf\<rparr>;
       if \<not> ok then Some (InOK, s4, True)
       else (case waitForRecvQueueSpace E s4 of
               NoSpace \<Rightarrow> Some (InBlocked, s4, True)
             | SessionGone \<Rightarrow> Some (InOK, requestPacketAck E s4, False)
             | HasSpace \<Rightarrow> do {
                 (err, s5) \<leftarrow> moveRecvBufToRecvQueue E s4;
                 Some (if err then (InErr ErrInsertBack, s5, True)
                       else (InOK, requestPacketAck E s5, False)) }) } }"

definition input_stream_data :: "env \<Rightarrow> segment \<Rightarrow> session \<Rightarrow> (input_result \<times> session \<times> bool) option" where
  "input_stream_data E seg s =
     (case waitForRecvQueueSpace E s of
        NoSpace \<Rightarrow> Some (InBlocked, s, True)
      | SessionGone \<Rightarrow> Some (InOK, s, False)
      | HasSpace \<Rightarrow> do {
          (ok, q) \<leftarrow> Insert (e_bt E) seg (s_recvQueue s);
          let s1 = s\<lparr>s_recvQueue := q\<rparr>;
          Some (if ok then (InOK, s1, False) else (InErr ErrInsertRecvQueue, s1, True)) })"

text \<open>The flag of the two parts tells that \<^verbatim>\<open>inputData\<close> returned there.\<close>

definition inputData :: "env \<Rightarrow> segment \<Rightarrow> session \<Rightarrow> (input_result \<times> session) option" where
  "inputData E seg s = do {
     (r, s1, returned) \<leftarrow> (case s_transport s of
         StreamTransport \<Rightarrow> input_stream_data E seg s
       | PacketTransport \<Rightarrow> input_packet_data E seg s
       | UnknownTransport \<Rightarrow> Some (InErr ErrUnsupportedTransport, s, True));
     if returned then Some (r, s1)
     else if \<not> s_isClient s1 \<and> seg_Protocol seg = openSessionRequest \<and> isState s1 sessionAttached
       then answer_open E s1
     else Some (InOK, s1) }"

definition count_ack :: "u32 \<Rightarrow> unit \<Rightarrow> segment \<Rightarrow> unit \<times> segment \<times> bool" where
  "count_ack unAckSeq u iter =
     (if Seq iter > unAckSeq then (u, iter, False)
      else if Seq iter = unAckSeq then (u, iter\<lparr>seg_ackCount := seg_ackCount iter + 1\<rparr>, True)
      else (u, iter, True))"

definition inputAck :: "env \<Rightarrow> segment \<Rightarrow> session \<Rightarrow> (input_result \<times> session) option" where
  "inputAck E seg s =
     (case s_transport s of
        StreamTransport \<Rightarrow> Some (InOK, s)
      | PacketTransport \<Rightarrow>
          (case seg_metadata seg of
             SessionMD _ \<Rightarrow> None
           | DataAckMD das \<Rightarrow> do {
               s1 \<leftarrow> delete_acked E (das_unAckSeq das) s;
               let s2 = s1\<lparr>s_remoteWindowSize := ucast (das_windowSize das)\<rparr>;
               let s3 = s2\<lparr>s_sendBuf := snd (Ascend (e_bt E) (count_ack (das_unAckSeq das)) () (s_sendBuf s2))\<rparr>;
               Some (InOK, if Len (e_bt E) (s_sendQueue s3) > 0 then wakePacketOutput s3 else s3) })
      | UnknownTransport \<Rightarrow> Some (InErr ErrUnsupportedTransport, s))"

definition inputClose :: "env \<Rightarrow> segment \<Rightarrow> session \<Rightarrow> (input_result \<times> session) option" where
  "inputClose E seg s =
     (if seg_Protocol seg = closeSessionRequest then
        let seg2 = session_seg closeSessionResponse statusOK s;
            s1 = s\<lparr>s_nextSend := s_nextSend s + 1\<rparr>
        in case output_seg E seg2 s1 of (err, s2) \<Rightarrow>
             if err then Some (InErr ErrOutput, s2)
             else (case seg_metadata seg of
                     DataAckMD _ \<Rightarrow> None
                   | SessionMD _ \<Rightarrow> do { s3 \<leftarrow> Close E s2; Some (InOK, s3) })
      else if seg_Protocol seg = closeSessionResponse then do {
        s1 \<leftarrow> Close E s; Some (InOK, s1) }
      else Some (InOK, s))"

definition accepts_protocol :: "bool \<Rightarrow> u8 \<Rightarrow> bool" where
  "accepts_protocol isClient protocol \<longleftrightarrow>
     (if isClient
      then protocol = openSessionResponse \<or> protocol = dataServerToClient \<or>
           protocol = dataServerToClientLowEntropy \<or> protocol = ackServerToClient \<or>
           protocol = closeSessionRequest \<or> protocol = closeSessionResponse
      else protocol = openSessionRequest \<or> protocol = dataClientToServer \<or>
           protocol = dataClientToServerLowEntropy \<or> protocol = ackClientToServer \<or>
           protocol = closeSessionRequest \<or> protocol = closeSessionResponse)"

text \<open>The user of the session, from the cipher block and the policy of a segment.\<close>

definition input_policy :: "string \<Rightarrow> segment \<Rightarrow> session \<Rightarrow> session option" where
  "input_policy next_user seg s =
     (let policy = seg_serverUserPolicy seg;
          policy = (if p_name policy = '''' then
                      (case s_pendingServerUserPolicies s of
                         None \<Rightarrow> policy
                       | Some m \<Rightarrow> (case m next_user of Some p \<Rightarrow> p | None \<Rightarrow> zeroPolicy))
                    else policy);
          s1 = s\<lparr>s_pendingServerUserPolicies := None\<rparr>
      in case s_userPolicy s1 of
           Some current \<Rightarrow>
             if p_name current \<noteq> next_user then None
             else if p_name policy \<noteq> '''' \<and> p_name current \<noteq> p_name policy then None
             else Some s1
         | None \<Rightarrow>
             if p_name policy \<noteq> '''' then
               (if p_name policy \<noteq> next_user then None else Some (s1\<lparr>s_userPolicy := Some policy\<rparr>))
             else Some s1)"

definition input_block :: "segment \<Rightarrow> session \<Rightarrow> session option" where
  "input_block seg s =
     (case seg_block seg of
        None \<Rightarrow> Some s
      | Some next_user \<Rightarrow>
          if (case s_block s of None \<Rightarrow> False
              | Some prev_user \<Rightarrow> prev_user = '''' \<or> next_user = '''' \<or> prev_user \<noteq> next_user)
          then None
          else do {
            let s1 = s\<lparr>s_block := Some next_user\<rparr>;
            s2 \<leftarrow> (if \<not> s_isClient s1 then input_policy next_user seg s1 else Some s1);
            let s3 = (if UserName s2 = '''' \<and> next_user \<noteq> '''' then s2\<lparr>s_userName := Some next_user\<rparr> else s2);
            Some (if s_isClient s3 then s3
                  else s3\<lparr>s_uploadBytes := (case s_uploadBytes s3 of None \<Rightarrow> Some 0 | x \<Rightarrow> x),
                          s_downloadBytes := (case s_downloadBytes s3 of None \<Rightarrow> Some 0 | x \<Rightarrow> x)\<rparr>) })"

definition input :: "env \<Rightarrow> segment \<Rightarrow> session \<Rightarrow> (input_result \<times> session) option" where
  "input E seg s =
     (let protocol = seg_Protocol seg
      in if \<not> accepts_protocol (s_isClient s) protocol then Some (InErr ErrInvalidArgument, s)
         else do {
           s1 \<leftarrow> input_block seg s;
           let s2 = s1\<lparr>s_lastRXTime := e_now E\<rparr>;
           let s3 = (if \<not> s_isClient s2 \<and> protocol = dataClientToServerLowEntropy
                     then s2\<lparr>s_clientUseLowEntropy := True\<rparr> else s2);
           if protocol = openSessionRequest \<or> protocol = openSessionResponse \<or> isDataProtocol protocol then do {
             (r, s4) \<leftarrow> inputData E seg s3;
             Some (r, if r = InOK \<and> isClientPacketSessionOpenResponse s4 seg
                      then wakePacketOutput (forwardStateTo sessionEstablished s4) else s4) }
           else if isAckProtocol protocol then inputAck E seg s3
           else if protocol = closeSessionRequest \<or> protocol = closeSessionResponse then inputClose E seg s3
           else Some (InOK, s3) })"

text \<open>One round of \<^verbatim>\<open>runInputLoop\<close> on a segment from the channel.\<close>

definition input_loop_step :: "env \<Rightarrow> segment \<Rightarrow> session \<Rightarrow> (input_result \<times> session) option" where
  "input_loop_step E seg s =
     (if s_closed s then Some (InOK, s)
      else do {
        (r, s1) \<leftarrow> input E seg s;
        case r of
          InErr e \<Rightarrow> do { s2 \<leftarrow> closeWithError E False (s1\<lparr>s_inputHasErr := True\<rparr>); Some (r, s2) }
        | _ \<Rightarrow> Some (r, s1) })"

end
