(* ===== verification/Session_Inv.thy ===== *)
theory Session_Inv
  imports Session
begin

text \<open>
  Invariants of a session and what each operation of \<open>Session\<close> does to it, as far as the peer can see:
  which segments it creates, keeps and hands to the underlay.  The relation \<open>evolves\<close>
  is that contract; it composes, so that each handler is proved from its parts.
  All lemmas assume a B-tree that meets its documentation (locale \<open>session_env\<close>).
\<close>

section \<open>What identifies a segment\<close>

text \<open>Retransmission changes counters and the acknowledgement of a segment, never these.\<close>

definition core :: "segment \<Rightarrow> u32 \<times> u8 \<times> bytes" where
  "core x = (Seq x, seg_Protocol x, seg_payload x)"

definition ack_ok :: "u32 \<Rightarrow> segment \<Rightarrow> bool" where
  "ack_ok n x \<longleftrightarrow> (case seg_metadata x of DataAckMD das \<Rightarrow> das_unAckSeq das \<le> n | SessionMD _ \<Rightarrow> True)"

lemma ack_ok_mono: "ack_ok n x \<Longrightarrow> n \<le> m \<Longrightarrow> ack_ok m x"
  by (auto simp: ack_ok_def split: metadata.splits)

text \<open>A segment with a data protocol has data metadata, one with a session protocol has session metadata.\<close>

definition typed :: "segment \<Rightarrow> bool" where
  "typed x \<longleftrightarrow> (case seg_metadata x of
     DataAckMD das \<Rightarrow> isDataAckProtocol (das_protocol das)
   | SessionMD ss \<Rightarrow> isSessionProtocol (ss_protocol ss))"

definition sendable :: "segment \<Rightarrow> bool" where
  "sendable x \<longleftrightarrow> typed x \<and> checkProtocolType x"

text \<open>The segments a session still has to send or to see acknowledged.\<close>

definition unacked :: "session \<Rightarrow> segment list" where
  "unacked s = st_tr (s_sendBuf s) @ st_tr (s_sendQueue s)"

definition known :: "session \<Rightarrow> (u32 \<times> u8 \<times> bytes) set" where
  "known s = core ` set (unacked s)"

definition session_inv :: "session \<Rightarrow> bool" where
  "session_inv s \<longleftrightarrow>
     st_inv (s_sendQueue s) \<and> st_inv (s_sendBuf s) \<and> st_inv (s_recvBuf s) \<and> st_inv (s_recvQueue s) \<and>
     st_cap (s_sendQueue s) = segmentSendQueueTreeCapacity \<and> st_cap (s_sendBuf s) = segmentTreeCapacity \<and>
     st_cap (s_recvBuf s) = segmentTreeCapacity \<and> st_cap (s_recvQueue s) = segmentTreeCapacity \<and>
     sorted_wrt (\<lambda>x y. Seq x < Seq y) (unacked s) \<and>
     (\<forall>x \<in> set (unacked s). Seq x < s_nextSend s \<and> sendable x) \<and>
     (s_isClient s \<and> s_state s \<le> sessionAttached \<and> \<not> s_openSessionRequestSent s \<and>
        \<not> s_closeRequested s \<longrightarrow> unacked s = []) \<and>
     (s_closePending s \<noteq> None \<longrightarrow> s_closeRequested s) \<and>
     (\<forall>x \<in> set (st_tr (s_recvBuf s) @ st_tr (s_recvQueue s)). checkProtocolType x)"

text \<open>What may be handed to the underlay.\<close>

definition may_send :: "(u32 \<times> u8 \<times> bytes) set \<Rightarrow> u32 \<Rightarrow> segment \<Rightarrow> bool" where
  "may_send k n x \<longleftrightarrow> (core x \<in> k \<or> isAckProtocol (seg_Protocol x)) \<and> typed x \<and> ack_ok n x"

lemma may_send_mono: "may_send k n x \<Longrightarrow> k \<subseteq> l \<Longrightarrow> n \<le> m \<Longrightarrow> may_send l m x"
  by (auto simp: may_send_def intro: ack_ok_mono)

text \<open>A waiting close holds a close request that was created.\<close>

definition fresh :: "segment list \<Rightarrow> segment \<Rightarrow> bool" where
  "fresh new p \<longleftrightarrow> core p \<in> core ` set new \<and> typed p \<and> ack_ok 0 p"

text \<open>
  \<open>evolves u s s' new\<close>: from \<open>s\<close> to \<open>s'\<close> the segments \<open>new\<close> were created with the next sequence numbers,
  everything handed to the underlay was known, new or a pure acknowledgement and acknowledges no more
  than was received, and unless the session started to close, only segments below \<open>u\<close> were forgotten
  (so with \<open>u = 2 ^ 32\<close> nothing is said).
\<close>

definition evolves :: "nat \<Rightarrow> session \<Rightarrow> session \<Rightarrow> segment list \<Rightarrow> bool" where
  "evolves u s s' new \<longleftrightarrow>
     session_inv s' \<and> s_isClient s' = s_isClient s \<and> s_transport s' = s_transport s \<and>
     unat (s_nextSend s') = unat (s_nextSend s) + length new \<and>
     (\<forall>i < length new. unat (Seq (new ! i)) = unat (s_nextSend s) + i) \<and>
     known s' \<subseteq> known s \<union> core ` set new \<and>
     (\<exists>outs. s_wire s' = s_wire s @ outs \<and>
        (\<forall>x \<in> set outs. may_send (known s \<union> core ` set new) (s_nextRecv s') x)) \<and>
     s_nextRecv s \<le> s_nextRecv s' \<and>
     s_state s \<le> s_state s' \<and> (s_closed s \<longrightarrow> s_closed s') \<and>
     (s_closeRequested s \<longrightarrow> s_closeRequested s') \<and>
     (\<not> s_closeRequested s' \<longrightarrow>
        (\<forall>c \<in> known s \<union> core ` set new. unat (fst c) < u \<or> c \<in> known s')) \<and>
     (\<forall>p. s_closePending s' = Some p \<longrightarrow> s_closePending s = Some p \<or> fresh new p)"

lemma evolvesD:
  assumes "evolves u s s' new"
  shows "session_inv s'" and "s_isClient s' = s_isClient s" and "s_transport s' = s_transport s"
    and "unat (s_nextSend s') = unat (s_nextSend s) + length new"
    and "\<forall>i < length new. unat (Seq (new ! i)) = unat (s_nextSend s) + i"
    and "known s' \<subseteq> known s \<union> core ` set new"
    and "\<exists>outs. s_wire s' = s_wire s @ outs \<and>
        (\<forall>x \<in> set outs. may_send (known s \<union> core ` set new) (s_nextRecv s') x)"
    and "s_nextRecv s \<le> s_nextRecv s'" and "s_state s \<le> s_state s'"
    and "s_closed s \<Longrightarrow> s_closed s'" and "s_closeRequested s \<Longrightarrow> s_closeRequested s'"
    and "\<not> s_closeRequested s' \<Longrightarrow> c \<in> known s \<union> core ` set new \<Longrightarrow> unat (fst c) < u \<or> c \<in> known s'"
    and "s_closePending s' = Some p \<Longrightarrow> s_closePending s = Some p \<or> fresh new p"
  using assms by (simp_all only: evolves_def) blast+

lemmas evolves_inv = evolvesD(1)

lemma evolves_trans:
  assumes "evolves u s s1 n1" and "evolves v s1 s2 n2"
  shows "evolves (max u v) s s2 (n1 @ n2)"
  unfolding evolves_def
proof (intro conjI)
  note d1 = evolvesD [OF assms(1)] and d2 = evolvesD [OF assms(2)]
  show "unat (s_nextSend s2) = unat (s_nextSend s) + length (n1 @ n2)" using d1(4) d2(4) by simp
  show "\<forall>i < length (n1 @ n2). unat (Seq ((n1 @ n2) ! i)) = unat (s_nextSend s) + i"
    using d1(4,5) d2(5) by (auto simp: nth_append)
  show k: "known s2 \<subseteq> known s \<union> core ` set (n1 @ n2)"
    using d1(6) d2(6) by auto
  show "\<not> s_closeRequested s2 \<longrightarrow> (\<forall>c \<in> known s \<union> core ` set (n1 @ n2). unat (fst c) < max u v \<or> c \<in> known s2)"
  proof (intro impI ballI)
    fix c assume nc: "\<not> s_closeRequested s2" and "c \<in> known s \<union> core ` set (n1 @ n2)"
    then have "c \<in> known s \<union> core ` set n1 \<or> c \<in> core ` set n2" by auto
    then show "unat (fst c) < max u v \<or> c \<in> known s2"
      using d1(12) [of c] d2(12) [of c] d2(11) nc by (auto simp: less_max_iff_disj)
  qed
  obtain o1 o2 where o: "s_wire s1 = s_wire s @ o1" "s_wire s2 = s_wire s1 @ o2"
      "\<And>x. x \<in> set o1 \<Longrightarrow> may_send (known s \<union> core ` set n1) (s_nextRecv s1) x"
      "\<And>x. x \<in> set o2 \<Longrightarrow> may_send (known s1 \<union> core ` set n2) (s_nextRecv s2) x"
    using d1(7) d2(7) by auto
  have "may_send (known s \<union> core ` set (n1 @ n2)) (s_nextRecv s2) x" if "x \<in> set (o1 @ o2)" for x
  proof (cases "x \<in> set o1")
    case True
    then show ?thesis using d2(8) by (auto intro!: may_send_mono [OF o(3)])
  next
    case False
    then have "x \<in> set o2" using that by simp
    moreover have "known s1 \<union> core ` set n2 \<subseteq> known s \<union> core ` set (n1 @ n2)"
      using d1(6) by auto
    ultimately show ?thesis by (blast intro: may_send_mono [OF o(4)])
  qed
  then show "\<exists>outs. s_wire s2 = s_wire s @ outs \<and>
      (\<forall>x \<in> set outs. may_send (known s \<union> core ` set (n1 @ n2)) (s_nextRecv s2) x)"
    using o(1,2) by (intro exI [of _ "o1 @ o2"]) simp
  show "s_nextRecv s \<le> s_nextRecv s2" using d1(8) d2(8) by (rule order_trans)
  show "s_state s \<le> s_state s2" using d1(9) d2(9) by (rule order_trans)
  show "\<forall>p. s_closePending s2 = Some p \<longrightarrow> s_closePending s = Some p \<or> fresh (n1 @ n2) p"
    using d1(13) d2(13) by (fastforce simp: fresh_def)
qed (use evolvesD(1-3,10,11) [OF assms(1)] evolvesD(1-3,10,11) [OF assms(2)] in auto)

lemma evolves_trans0: "evolves 0 s s1 n1 \<Longrightarrow> evolves 0 s1 s2 n2 \<Longrightarrow> evolves 0 s s2 (n1 @ n2)"
  using evolves_trans [of 0 s s1 n1 0] by simp

lemma evolves_closing: "evolves u s s' new \<Longrightarrow> s_closeRequested s' \<Longrightarrow> evolves v s s' new"
  unfolding evolves_def by blast

lemma evolves_mono: "evolves u s s' new \<Longrightarrow> u \<le> v \<Longrightarrow> evolves v s s' new"
  unfolding evolves_def by (elim conjE, intro conjI) (assumption | blast intro: order.strict_trans2)+

text \<open>The part of the state that steps on the sending side leave alone.\<close>

definition frame :: "session \<Rightarrow> session \<Rightarrow> bool" where
  "frame s s' \<longleftrightarrow>
     st_cap (s_sendQueue s') = st_cap (s_sendQueue s) \<and> st_cap (s_sendBuf s') = st_cap (s_sendBuf s) \<and>
     st_tr (s_recvBuf s') = st_tr (s_recvBuf s) \<and> st_cap (s_recvBuf s') = st_cap (s_recvBuf s) \<and>
     st_tr (s_recvQueue s') = st_tr (s_recvQueue s) \<and> st_cap (s_recvQueue s') = st_cap (s_recvQueue s) \<and>
     s_isClient s' = s_isClient s \<and> s_transport s' = s_transport s \<and> s_nextRecv s' = s_nextRecv s \<and>
     s_unreadBuf s' = s_unreadBuf s \<and>
     s_state s \<le> s_state s' \<and> (s_closed s \<longrightarrow> s_closed s') \<and>
     (s_closeRequested s \<longrightarrow> s_closeRequested s') \<and>
     (s_openSessionRequestSent s \<longrightarrow> s_openSessionRequestSent s')"

lemma frame_refl [simp]: "frame s s"
  by (simp add: frame_def)

lemma frame_trans: "frame s s1 \<Longrightarrow> frame s1 s2 \<Longrightarrow> frame s s2"
  by (auto simp: frame_def)

lemma session_invI:
  assumes "session_inv s" and "frame s s'"
    and "sorted_wrt (\<lambda>x y. Seq x < Seq y) (unacked s')"
    and "\<And>x. x \<in> set (unacked s') \<Longrightarrow> Seq x < s_nextSend s' \<and> sendable x"
    and "length (st_tr (s_sendQueue s')) \<le> st_cap (s_sendQueue s)"
    and "length (st_tr (s_sendBuf s')) \<le> st_cap (s_sendBuf s)"
    and "s_isClient s \<Longrightarrow> s_state s' \<le> sessionAttached \<Longrightarrow> \<not> s_openSessionRequestSent s' \<Longrightarrow>
      \<not> s_closeRequested s' \<Longrightarrow> unacked s' = []"
    and "s_closePending s' = s_closePending s \<or> s_closeRequested s'"
  shows "session_inv s'"
  using assms
  by (auto simp: session_inv_def frame_def st_inv_def sorted_items_def Less_def [abs_def] unacked_def
      sorted_wrt_append)

lemma evolvesI:
  assumes "session_inv s" and "frame s s'" and "session_inv s'"
    and "unat (s_nextSend s') = unat (s_nextSend s) + length new"
    and "\<And>i. i < length new \<Longrightarrow> unat (Seq (new ! i)) = unat (s_nextSend s) + i"
    and "known s' \<subseteq> known s \<union> core ` set new"
    and "s_wire s' = s_wire s @ outs"
    and "\<And>x. x \<in> set outs \<Longrightarrow> may_send (known s \<union> core ` set new) (s_nextRecv s) x"
    and "\<And>c. \<not> s_closeRequested s' \<Longrightarrow> c \<in> known s \<union> core ` set new \<Longrightarrow> unat (fst c) < u \<or> c \<in> known s'"
    and "\<And>p. s_closePending s' = Some p \<Longrightarrow> s_closePending s = Some p \<or> fresh new p"
  shows "evolves u s s' new"
  unfolding evolves_def
proof (intro conjI)
  show "\<exists>outs. s_wire s' = s_wire s @ outs \<and>
        (\<forall>x \<in> set outs. may_send (known s \<union> core ` set new) (s_nextRecv s') x)"
    using assms(2,7,8) by (intro exI [of _ outs]) (simp add: frame_def)
qed (use assms in \<open>simp_all add: frame_def\<close>)

text \<open>Steps that change neither the sending side nor what is known of it.\<close>

definition quiet :: "session \<Rightarrow> session \<Rightarrow> bool" where
  "quiet s s' \<longleftrightarrow> frame s s' \<and> st_tr (s_sendQueue s') = st_tr (s_sendQueue s) \<and>
     st_tr (s_sendBuf s') = st_tr (s_sendBuf s) \<and> s_nextSend s' = s_nextSend s \<and>
     s_closePending s' = s_closePending s"

lemma quiet_unacked: "quiet s s' \<Longrightarrow> unacked s' = unacked s" "quiet s s' \<Longrightarrow> known s' = known s"
  by (simp_all add: quiet_def unacked_def known_def)

lemma session_invD:
  assumes "session_inv s"
  shows "st_inv (s_sendQueue s)" "st_inv (s_sendBuf s)" "st_inv (s_recvBuf s)" "st_inv (s_recvQueue s)"
    "st_cap (s_sendQueue s) = segmentSendQueueTreeCapacity" "st_cap (s_sendBuf s) = segmentTreeCapacity"
    "st_cap (s_recvBuf s) = segmentTreeCapacity" "st_cap (s_recvQueue s) = segmentTreeCapacity"
    "sorted_wrt (\<lambda>x y. Seq x < Seq y) (unacked s)"
    "\<And>x. x \<in> set (unacked s) \<Longrightarrow> Seq x < s_nextSend s"
    "\<And>x. x \<in> set (unacked s) \<Longrightarrow> sendable x"
    "s_isClient s \<Longrightarrow> s_state s \<le> sessionAttached \<Longrightarrow> \<not> s_openSessionRequestSent s \<Longrightarrow>
        \<not> s_closeRequested s \<Longrightarrow> unacked s = []"
    "\<And>x. x \<in> set (st_tr (s_recvBuf s) @ st_tr (s_recvQueue s)) \<Longrightarrow> checkProtocolType x"
    "s_closePending s \<noteq> None \<Longrightarrow> s_closeRequested s"
  using assms by (simp_all only: session_inv_def simp_thms)

lemma quiet_inv: "session_inv s \<Longrightarrow> quiet s s' \<Longrightarrow> session_inv s'"
  by (rule session_invI [of s])
     (use session_invD in \<open>auto simp: quiet_unacked quiet_def frame_def unacked_def st_inv_def\<close>)

lemma evolves_quiet:
  assumes "session_inv s" and "quiet s s'" and "s_wire s' = s_wire s @ outs"
    and "\<And>x. x \<in> set outs \<Longrightarrow> may_send (known s) (s_nextRecv s) x"
  shows "evolves u s s' []"
  by (rule evolvesI [where outs = outs])
     (use assms quiet_inv [OF assms(1,2)] quiet_unacked [OF assms(2)] in \<open>simp_all add: quiet_def\<close>)

lemma evolves_refl: "session_inv s \<Longrightarrow> evolves u s s []"
  by (rule evolves_quiet [where outs = "[]"]) (simp_all add: quiet_def)

section \<open>The primitive steps\<close>

locale session_env = btree "e_bt E" for E :: env

lemma ins_item_last: "(\<forall>y \<in> set xs. Seq y < Seq x) \<Longrightarrow> ins_item x xs = xs @ [x]"
  by (induction xs) (auto simp: Less_def dest: less_asym)

lemma output_seg_cases:
  "snd (output_seg E seg s) = s \<or>
   snd (output_seg E seg s) = s\<lparr>s_wire := s_wire s @ [seg], s_lastSend := Seq seg, s_lastTXTime := e_now E\<rparr>"
  by (simp add: output_seg_def Let_def split: TransportProtocol.splits write_outcome.splits)

lemma output_evolves:
  assumes "session_inv s" and "may_send (known s) (s_nextRecv s) seg"
  shows "evolves u s (snd (output_seg E seg s)) []"
  using output_seg_cases [of E seg s]
proof
  assume "snd (output_seg E seg s) = s"
  then show ?thesis using evolves_refl [OF assms(1)] by simp
next
  assume *: "snd (output_seg E seg s) = s\<lparr>s_wire := s_wire s @ [seg], s_lastSend := Seq seg, s_lastTXTime := e_now E\<rparr>"
  show ?thesis
    unfolding * by (rule evolves_quiet [where outs = "[seg]"]) (use assms in \<open>simp_all add: quiet_def frame_def\<close>)
qed

text \<open>A new segment enters the send queue.\<close>

lemma enqueue_evolves:
  assumes "session_inv s" and "Seq seg = s_nextSend s" and "sendable seg"
    and "Suc (unat (s_nextSend s)) < 2 ^ 32"
    and "length (st_tr (s_sendQueue s)) < st_cap (s_sendQueue s)"
    and "frame s s'" and "st_tr (s_sendQueue s') = ins_item seg (st_tr (s_sendQueue s))"
    and "st_tr (s_sendBuf s') = st_tr (s_sendBuf s)" and "s_nextSend s' = s_nextSend s + 1"
    and "s_wire s' = s_wire s"
    and "s_isClient s \<Longrightarrow> s_state s' \<le> sessionAttached \<Longrightarrow> s_openSessionRequestSent s' \<or> s_closeRequested s'"
    and "s_closePending s' = s_closePending s \<or>
      (s_closePending s' = Some seg \<and> s_closeRequested s' \<and> ack_ok 0 seg)"
  shows "evolves 0 s s' [seg]" and "unacked s' = unacked s @ [seg]"
proof -
  note d = session_invD [OF assms(1)]
  have q: "ins_item seg (st_tr (s_sendQueue s)) = st_tr (s_sendQueue s) @ [seg]"
    using d(10) assms(2) by (intro ins_item_last) (simp add: unacked_def)
  then show u: "unacked s' = unacked s @ [seg]"
    using assms(7,8) by (simp add: unacked_def)
  have n: "unat (s_nextSend s') = Suc (unat (s_nextSend s))"
    using assms(4,9) by (simp add: unat_word_ariths)
  have "session_inv s'"
  proof (rule session_invI [OF assms(1,6)])
    show "sorted_wrt (\<lambda>x y. Seq x < Seq y) (unacked s')"
      using d(9,10) assms(2) by (simp add: u sorted_wrt_append)
    show "Seq x < s_nextSend s' \<and> sendable x" if "x \<in> set (unacked s')" for x
      using that d(10,11) [of x] assms(2,3) n by (auto simp: u word_less_nat_alt)
  qed (use assms(5,7,8,11,12) q d(2) in \<open>auto simp: st_inv_def\<close>)
  then show "evolves 0 s s' [seg]"
    by (rule evolvesI [OF assms(1,6), where outs = "[]"])
       (use assms(2,3,10,12) n in \<open>auto simp: known_def u fresh_def sendable_def\<close>)
qed

text \<open>Replacing segments by ones with the same core keeps everything.\<close>

lemma same_cores_evolves:
  assumes "session_inv s" and "frame s s'"
    and "map core (unacked s') = map core (unacked s)" and "\<And>x. x \<in> set (unacked s') \<Longrightarrow> sendable x"
    and "length (st_tr (s_sendQueue s')) \<le> st_cap (s_sendQueue s)"
    and "length (st_tr (s_sendBuf s')) \<le> st_cap (s_sendBuf s)"
    and "s_nextSend s' = s_nextSend s" and "s_wire s' = s_wire s @ outs"
    and "\<And>x. x \<in> set outs \<Longrightarrow> may_send (known s) (s_nextRecv s) x"
    and "s_closePending s' = s_closePending s"
  shows "evolves u s s' []"
proof -
  note d = session_invD [OF assms(1)]
  have seqs: "map Seq (unacked s') = map Seq (unacked s)"
    using arg_cong [OF assms(3), of "map fst"] by (simp add: core_def comp_def)
  have k: "known s' = known s"
    using arg_cong [OF assms(3), of set] by (simp add: known_def)
  have "sorted_wrt (<) (map Seq (unacked s'))"
    using d(9) by (simp only: seqs sorted_wrt_map)
  then have sorted: "sorted_wrt (\<lambda>x y. Seq x < Seq y) (unacked s')" by (simp only: sorted_wrt_map)
  have "\<forall>q \<in> set (map Seq (unacked s')). q < s_nextSend s"
    unfolding seqs using d(10) by auto
  then have "session_inv s'"
    using assms(4-7,10) d(12) assms(3) assms(2)
    by (intro session_invI [OF assms(1,2) sorted]) (auto simp: frame_def)
  then show ?thesis
    by (rule evolvesI [OF assms(1,2), where outs = outs]) (use assms(7-10) k in auto)
qed

context session_env
begin

lemma delete_acked_eq:
  assumes "st_inv (s_sendBuf s)"
  shows "\<exists>t r c. delete_acked E u s = Some (s\<lparr>s_sendBuf := t, s_rttStat := r, s_cubic := c\<rparr>) \<and>
    st_tr t = dropWhile (\<lambda>x. Seq x < u) (st_tr (s_sendBuf s)) \<and> st_cap t = st_cap (s_sendBuf s) \<and> st_inv t"
  using assms
proof (induction "st_tr (s_sendBuf s)" arbitrary: s)
  case Nil
  show ?case
    using Nil.prems Nil.hyps [symmetric]
    by (intro exI [of _ "s_sendBuf s"] exI [of _ "s_rttStat s"] exI [of _ "s_cubic s"], subst delete_acked.simps)
       (simp add: DeleteMinIf_eq)
next
  case (Cons x xs)
  show ?case
  proof (cases "Seq x < u")
    case False
    with Cons.hyps(2) [symmetric] Cons.prems show ?thesis
      by (intro exI [of _ "notifyNotEmpty (s_sendBuf s)"] exI [of _ "s_rttStat s"] exI [of _ "s_cubic s"],
          subst delete_acked.simps) (simp add: DeleteMinIf_eq)
  next
    case True
    let ?t = "(if xs = [] then notifyEmpty else notifyNotEmpty) ((s_sendBuf s)\<lparr>st_tr := xs\<rparr>)"
    let ?s = "s\<lparr>s_sendBuf := ?t, s_rttStat := UpdateRTT (e_fl E) ((e_now E - seg_txTime x) * microsecond) (s_rttStat s),
                s_cubic := OnAck (e_fl E) (e_now E) (s_cubic s)\<rparr>"
    have t: "st_tr ?t = xs" "st_cap ?t = st_cap (s_sendBuf s)" "st_inv ?t"
      using Cons.hyps(2) Cons.prems st_inv_tl [of "s_sendBuf s" x xs] by auto
    have "delete_acked E u s = delete_acked E u ?s"
      using Cons.hyps(2) [symmetric] Cons.prems True
      by (subst delete_acked.simps) (simp add: DeleteMinIf_eq Let_def)
    moreover obtain t' r c where
      "delete_acked E u ?s = Some (?s\<lparr>s_sendBuf := t', s_rttStat := r, s_cubic := c\<rparr>)"
      "st_tr t' = dropWhile (\<lambda>x. Seq x < u) xs" "st_cap t' = st_cap (s_sendBuf s)" "st_inv t'"
      using Cons.hyps(1) [of ?s] t by auto
    ultimately show ?thesis
      using Cons.hyps(2) [symmetric] True by (intro exI [of _ t'] exI [of _ r] exI [of _ c]) simp
  qed
qed

lemma delete_acked_evolves:
  assumes "session_inv s"
  shows "\<exists>s'. delete_acked E u s = Some s' \<and> evolves (unat u) s s' [] \<and> frame s s' \<and>
    s_wire s' = s_wire s \<and> s_nextSend s' = s_nextSend s"
proof -
  note d = session_invD [OF assms]
  obtain t r c where t: "delete_acked E u s = Some (s\<lparr>s_sendBuf := t, s_rttStat := r, s_cubic := c\<rparr>)"
      "st_tr t = dropWhile (\<lambda>x. Seq x < u) (st_tr (s_sendBuf s))" "st_cap t = st_cap (s_sendBuf s)"
    using delete_acked_eq [OF d(2)] by blast
  let ?s = "s\<lparr>s_sendBuf := t, s_rttStat := r, s_cubic := c\<rparr>"
  have sub: "set (st_tr t) \<subseteq> set (st_tr (s_sendBuf s))" "length (st_tr t) \<le> length (st_tr (s_sendBuf s))"
    using set_dropWhileD by (force simp: t(2), simp add: t(2) length_dropWhile_le)
  have fr: "frame s ?s" using t(3) by (simp add: frame_def)
  have "sorted_wrt (\<lambda>x y. Seq x < Seq y) (st_tr t)"
    using d(9) unfolding t(2) by (simp add: unacked_def sorted_wrt_append sorted_wrt_dropWhile)
  then have "session_inv ?s"
    using d sub by (intro session_invI [OF assms fr]) (auto simp: unacked_def sorted_wrt_append st_inv_def)
  moreover have keep: "core x \<in> known ?s" if "x \<in> set (unacked s)" "\<not> Seq x < u" for x
    using that by (auto simp: known_def unacked_def t(2) intro!: imageI)
      (metis takeWhile_dropWhile_id Un_iff set_append set_takeWhileD)
  have "unat (fst k) < unat u \<or> k \<in> known ?s" if "k \<in> known s" for k
  proof -
    obtain x where x: "x \<in> set (unacked s)" "k = core x" using \<open>k \<in> known s\<close> by (auto simp: known_def)
    then show ?thesis using keep [of x] by (auto simp: word_less_nat_alt [symmetric] core_def)
  qed
  ultimately have "evolves (unat u) s ?s []"
    using sub(1) by (intro evolvesI [OF assms fr, where outs = "[]"]) (auto simp: known_def unacked_def)
  then show ?thesis using t(1) fr by auto
qed

lemma close_tail_evolves:
  assumes "session_inv s" and "s_closeRequested s"
  shows "evolves u s (close_tail E s) []" and "frame s (close_tail E s)"
proof -
  have q: "unacked (close_tail E s) = []" "s_nextSend (close_tail E s) = s_nextSend s"
      "s_wire (close_tail E s) = s_wire s" "s_closeRequested (close_tail E s)"
      "s_closePending (close_tail E s) = s_closePending s"
    using assms(2) by (simp_all add: close_tail_def forwardStateTo_def DeleteAll_eq unacked_def)
  show fr: "frame s (close_tail E s)"
    using assms(2) by (simp add: close_tail_def forwardStateTo_def DeleteAll_eq frame_def)
  have "session_inv (close_tail E s)"
    using q by (intro session_invI [OF assms(1) fr]) (simp_all add: unacked_def)
  then show "evolves u s (close_tail E s) []"
    using q by (intro evolvesI [OF assms(1) fr, where outs = "[]"]) (simp_all add: known_def)
qed

end

text \<open>A session segment that is handed to the underlay at once and never stored.\<close>

lemma direct_evolves:
  assumes "session_inv s" and "frame s s'" and "unacked s' = unacked s"
    and "st_tr (s_sendBuf s') = st_tr (s_sendBuf s)"
    and "Seq seg = s_nextSend s" and "typed seg" and "ack_ok 0 seg" and "Suc (unat (s_nextSend s)) < 2 ^ 32"
    and "s_nextSend s' = s_nextSend s + 1" and "s_wire s' = s_wire s \<or> s_wire s' = s_wire s @ [seg]"
    and "s_closePending s' = s_closePending s"
  shows "evolves (2 ^ 32) s s' [seg]"
proof -
  note d = session_invD [OF assms(1)]
  have sq: "st_tr (s_sendQueue s') = st_tr (s_sendQueue s)"
    using assms(3,4) by (simp add: unacked_def)
  have n: "unat (s_nextSend s') = Suc (unat (s_nextSend s))"
    using assms(8,9) by (simp add: unat_word_ariths)
  have "session_inv s'"
  proof (rule session_invI [OF assms(1,2)])
    show "Seq x < s_nextSend s' \<and> sendable x" if "x \<in> set (unacked s')" for x
      using that d(10,11) [of x] n by (simp add: assms(3) word_less_nat_alt)
    show "unacked s' = []" if "s_isClient s" "s_state s' \<le> sessionAttached"
      "\<not> s_openSessionRequestSent s'" "\<not> s_closeRequested s'"
      using that d(12) assms(2) by (simp add: assms(3) frame_def)
  qed (use d assms(3,4,11) sq in \<open>auto simp: st_inv_def\<close>)
  moreover obtain outs where "s_wire s' = s_wire s @ outs" "set outs \<subseteq> {seg}"
    using assms(10) by auto
  moreover have "may_send (known s \<union> core ` set [seg]) (s_nextRecv s) seg"
    using assms(6,7) ack_ok_mono [of 0 seg] by (simp add: may_send_def)
  moreover have "unat q < 2 ^ 32" for q :: u32
    using unsigned_less [of q, where 'a = nat] by simp
  ultimately show ?thesis
    using n assms(3,5,11) by (intro evolvesI [OF assms(1,2), where outs = outs]) (auto simp: known_def)
qed

lemma session_seg_simps [simp]:
  "Seq (session_seg p st s) = s_nextSend s" "seg_Protocol (session_seg p st s) = p"
  "ack_ok n (session_seg p st s)" "seg_payload (session_seg p st s) = []"
  "typed (session_seg p st s) = isSessionProtocol p"
  by (simp_all add: session_seg_def mk_segment_def Seq_def seg_Protocol_def ack_ok_def typed_def)

context session_env
begin

lemma close_finish_new_evolves:
  assumes "session_inv s" and "frame s s'" and "unacked s' = unacked s"
    and "st_tr (s_sendBuf s') = st_tr (s_sendBuf s)" and "s_closeRequested s'"
    and "Seq seg = s_nextSend s" and "typed seg" and "ack_ok 0 seg" and "Suc (unat (s_nextSend s)) < 2 ^ 32"
    and "s_nextSend s' = s_nextSend s + 1" and "s_wire s' = s_wire s"
    and "s_closePending s' = s_closePending s"
  shows "evolves 0 s (close_finish E False seg s') [seg]" and "frame s (close_finish E False seg s')"
    and "s_closeRequested (close_finish E False seg s')"
proof -
  let ?o = "snd (output_seg E seg s')"
  have o: "frame s ?o" "unacked ?o = unacked s" "st_tr (s_sendBuf ?o) = st_tr (s_sendBuf s)"
      "s_nextSend ?o = s_nextSend s + 1" "s_wire ?o = s_wire s \<or> s_wire ?o = s_wire s @ [seg]"
      "s_closeRequested ?o" "s_closePending ?o = s_closePending s"
    using output_seg_cases [of E seg s'] assms(2-5,10-12) by (auto simp: frame_def unacked_def)
  have e: "evolves (2 ^ 32) s ?o [seg]"
    by (rule direct_evolves [OF assms(1) o(1-3) assms(6-9) o(4,5,7)])
  note t = close_tail_evolves [OF evolves_inv [OF e] o(6)]
  have eq: "close_finish E False seg s' = close_tail E ?o" by (simp add: close_finish_def)
  show c: "s_closeRequested (close_finish E False seg s')"
    unfolding eq by (rule evolvesD(11) [OF t(1) o(6)])
  show "evolves 0 s (close_finish E False seg s') [seg]"
    using evolves_closing [OF evolves_trans [OF e t(1)]] c by (simp add: eq)
  show "frame s (close_finish E False seg s')"
    unfolding eq by (rule frame_trans [OF o(1) t(2)])
qed

lemma closeWithError_evolves:
  assumes "session_inv s" and "Suc (unat (s_nextSend s)) < 2 ^ 32"
  shows "\<exists>s' new. closeWithError E g s = Some s' \<and> evolves 0 s s' new \<and> length new \<le> 1 \<and>
    s_closeRequested s' \<and> frame s s' \<and> (\<forall>x \<in> set new. seg_payload x = [])"
proof (cases "s_closeRequested s")
  case True
  then show ?thesis
    using evolves_refl [OF assms(1)] by (auto simp: closeWithError_def intro!: exI [of _ "[]"])
next
  case False
  let ?c = "s\<lparr>s_closeRequested := True\<rparr>"
  let ?seg = "session_seg closeSessionRequest (s_status s) ?c"
  let ?n = "?c\<lparr>s_nextSend := s_nextSend s + 1\<rparr>"
  note d = session_invD [OF assms(1)]
  have seg: "Seq ?seg = s_nextSend s" "typed ?seg" "ack_ok 0 ?seg" "checkProtocolType ?seg"
    by (simp_all add: checkProtocolType_def isProtocol_defs)
  show ?thesis
  proof (cases "isState ?c sessionAttached \<or> isState ?c sessionEstablished")
    case nostate: False
    have qc: "quiet s ?c" by (simp add: quiet_def frame_def)
    have "evolves 0 s ?c []" by (rule evolves_quiet [OF assms(1) qc, where outs = "[]"]) simp_all
    moreover note close_tail_evolves(1) [OF quiet_inv [OF assms(1) qc], of 0]
      close_tail_evolves(2) [OF quiet_inv [OF assms(1) qc]]
    ultimately have "evolves 0 s (close_tail E ?c) []" "frame s (close_tail E ?c)"
        "s_closeRequested (close_tail E ?c)"
      using qc evolves_trans0 [of s ?c "[]" "close_tail E ?c" "[]"] evolvesD(11)
      by (auto simp: quiet_def intro: frame_trans)
    then show ?thesis
      using False nostate by (auto simp: closeWithError_def Let_def intro!: exI [of _ "[]"])
  next
    case True
    note cf = close_finish_new_evolves [OF assms(1), where seg = ?seg]
    show ?thesis
    proof (cases "g \<and> length (st_tr (s_sendQueue s)) < st_cap (s_sendQueue s)")
      case ins: True
      obtain q where q: "Insert (e_bt E) ?seg (s_sendQueue s) = Some (True, q)"
          "st_tr q = ins_item ?seg (st_tr (s_sendQueue s))" "st_cap q = st_cap (s_sendQueue s)"
        using ins by (simp add: Insert_eq [OF d(1) seg(4)])
      let ?s = "?n\<lparr>s_sendQueue := q, s_closePending := Some ?seg\<rparr>"
      have "evolves 0 s ?s [?seg]"
        by (rule enqueue_evolves [OF assms(1) seg(1) _ assms(2)])
           (use ins q seg in \<open>simp_all add: frame_def sendable_def\<close>)
      then show ?thesis
        using False True ins q
        by (auto simp: closeWithError_def Let_def frame_def intro!: exI [of _ ?s] exI [of _ "[?seg]"])
    next
      case noins: False
      obtain s' where s': "closeWithError E g s = Some (close_finish E False ?seg s')" "frame s s'"
          "unacked s' = unacked s" "st_tr (s_sendBuf s') = st_tr (s_sendBuf s)" "s_closeRequested s'"
          "s_nextSend s' = s_nextSend s + 1" "s_wire s' = s_wire s" "s_closePending s' = s_closePending s"
        using False True noins
        by (cases g) (auto simp: closeWithError_def Let_def Insert_eq [OF d(1) seg(4)] frame_def unacked_def)
      note f = close_finish_new_evolves [OF assms(1) s'(2-5) seg(1-3) assms(2) s'(6-8)]
      then show ?thesis using s'(1) by (auto intro!: exI [of _ "[?seg]"])
    qed
  qed
qed

end

section \<open>The output of a packet session\<close>

lemma session_not_dataAck: "isSessionProtocol p \<Longrightarrow> \<not> isDataAckProtocol p"
  by (auto simp: isProtocol_defs protocolType_defs)

lemma data_not_ack: "isSessionProtocol p \<or> isDataProtocol p \<Longrightarrow> \<not> isAckProtocol p"
  by (auto simp: isProtocol_defs protocolType_defs)

lemma set_unAckSeq_ok:
  assumes "typed x"
  shows "\<exists>y. set_unAckSeq n x = Some y \<and> core y = core x \<and> typed y \<and> ack_ok n y \<and>
    checkProtocolType y = checkProtocolType x \<and> seg_payload y = seg_payload x"
proof (cases "seg_metadata x")
  case (SessionMD ss)
  with assms have "isSessionProtocol (seg_Protocol x)" by (simp add: typed_def seg_Protocol_def)
  then show ?thesis
    using assms SessionMD by (simp add: set_unAckSeq_def session_not_dataAck ack_ok_def)
next
  case (DataAckMD das)
  with assms have "isDataAckProtocol (seg_Protocol x)" by (simp add: typed_def seg_Protocol_def)
  then show ?thesis
    using assms DataAckMD
    by (simp add: set_unAckSeq_def ack_ok_def core_def Seq_def seg_Protocol_def typed_def checkProtocolType_def)
qed

lemma sendable_update:
  "sendable (x\<lparr>seg_txCount := a, seg_txTime := b, seg_txTimeout := c\<rparr>) = sendable x"
  "core (x\<lparr>seg_txCount := a, seg_txTime := b, seg_txTimeout := c\<rparr>) = core x"
  "sendable (x\<lparr>seg_ackCount := e, seg_txCount := a, seg_txTime := b, seg_txTimeout := c\<rparr>) = sendable x"
  "core (x\<lparr>seg_ackCount := e, seg_txCount := a, seg_txTime := b, seg_txTimeout := c\<rparr>) = core x"
  "sendable (x\<lparr>seg_ackCount := e\<rparr>) = sendable x" "core (x\<lparr>seg_ackCount := e\<rparr>) = core x"
  by (simp_all add: sendable_def typed_def checkProtocolType_def core_def Seq_def seg_Protocol_def)

lemma mark_output_err_quiet [simp]: "quiet s (mark_output_err s)" "s_wire (mark_output_err s) = s_wire s"
  by (simp_all add: mark_output_err_def quiet_def frame_def)

lemma schedule_check_frame:
  "schedule_check E seg s = s\<lparr>s_nextRetransmissionTime := s_nextRetransmissionTime (schedule_check E seg s)\<rparr>"
  by (simp add: schedule_check_def Let_def)

text \<open>What a handler of the sending side does: at most one new segment, without payload.\<close>

definition sends :: "session \<Rightarrow> session \<Rightarrow> bool" where
  "sends s s' \<longleftrightarrow> (\<exists>new. evolves 0 s s' new \<and> frame s s' \<and> (\<forall>x \<in> set new. seg_payload x = []) \<and>
     (new \<noteq> [] \<longrightarrow> length new = 1 \<and> \<not> s_closeRequested s \<and> s_closeRequested s'))"

lemma sends_inv: "sends s s' \<Longrightarrow> session_inv s'"
  by (auto simp: sends_def dest: evolves_inv)

lemma sends_refl: "session_inv s \<Longrightarrow> sends s s"
  using evolves_refl by (auto simp: sends_def intro!: exI [of _ "[]"])

lemma sends_quiet: "session_inv s \<Longrightarrow> quiet s s' \<Longrightarrow> s_wire s' = s_wire s \<Longrightarrow> sends s s'"
  using evolves_quiet [of s s' "[]"] by (auto simp: sends_def quiet_def intro!: exI [of _ "[]"])

lemma sends_trans:
  assumes "sends s s1" and "sends s1 s2"
  shows "sends s s2"
proof -
  obtain n1 n2 where n: "evolves 0 s s1 n1" "evolves 0 s1 s2 n2" "frame s s1" "frame s1 s2"
      "\<forall>x \<in> set n1. seg_payload x = []" "\<forall>x \<in> set n2. seg_payload x = []"
      "n1 \<noteq> [] \<longrightarrow> length n1 = 1 \<and> \<not> s_closeRequested s \<and> s_closeRequested s1"
      "n2 \<noteq> [] \<longrightarrow> length n2 = 1 \<and> \<not> s_closeRequested s1 \<and> s_closeRequested s2"
    using assms unfolding sends_def by blast
  have "evolves 0 s s2 (n1 @ n2)" "frame s s2"
    using evolves_trans0 [OF n(1,2)] frame_trans [OF n(3,4)] by auto
  moreover have "n1 @ n2 \<noteq> [] \<longrightarrow> length (n1 @ n2) = 1 \<and> \<not> s_closeRequested s \<and> s_closeRequested s2"
    using n(3,4,7,8) by (auto simp: frame_def)
  ultimately show ?thesis using n(5,6) unfolding sends_def by (intro exI [of _ "n1 @ n2"]) auto
qed

lemma sends_nextSend:
  assumes "sends s s'"
  shows "unat (s_nextSend s') = unat (s_nextSend s) + (if s_nextSend s' = s_nextSend s then 0 else 1)"
    and "s_nextSend s' = s_nextSend s \<or> s_closeRequested s'"
  using assms by (auto simp: sends_def dest!: evolvesD(4) simp: word_unat_eq_iff)

text \<open>There is a sequence number left for the close request.\<close>

definition room :: "session \<Rightarrow> bool" where
  "room s \<longleftrightarrow> s_closeRequested s \<or> Suc (unat (s_nextSend s)) < 2 ^ 32"

lemma sends_room: "sends s s' \<Longrightarrow> room s \<Longrightarrow> room s'"
  using sends_nextSend [of s s'] by (auto simp: room_def sends_def frame_def)

context session_env
begin

lemma close_sends:
  assumes "session_inv s" and "room s"
  shows "\<exists>s'. closeWithError E g s = Some s' \<and> sends s s' \<and> s_closeRequested s'"
proof (cases "s_closeRequested s")
  case True
  then show ?thesis using sends_refl [OF assms(1)] by (simp add: closeWithError_def)
next
  case False
  obtain s' new where n: "closeWithError E g s = Some s'" "evolves 0 s s' new" "length new \<le> 1"
      "s_closeRequested s'" "frame s s'" "\<forall>x \<in> set new. seg_payload x = []"
    using closeWithError_evolves [OF assms(1), of g] assms(2) False by (auto simp: room_def)
  then have "sends s s'"
    using False unfolding sends_def by (intro exI [of _ new]) (auto simp: le_Suc_eq)
  then show ?thesis using n by blast
qed

lemma output_sends:
  assumes "session_inv s" and "may_send (known s) (s_nextRecv s) seg"
  shows "sends s (snd (output_seg E seg s))" and "s_nextSend (snd (output_seg E seg s)) = s_nextSend s"
proof -
  have "frame s (snd (output_seg E seg s))"
    using output_seg_cases [of E seg s] by (auto simp: frame_def)
  then show "sends s (snd (output_seg E seg s))"
    using output_evolves [OF assms] by (auto simp: sends_def intro!: exI [of _ "[]"])
  show "s_nextSend (snd (output_seg E seg s)) = s_nextSend s"
    using output_seg_cases [of E seg s] by auto
qed

text \<open>The error branch after an output: mark the error and close.\<close>

lemma mark_close_sends:
  assumes "session_inv s" and "room s"
  shows "\<exists>s'. closeWithError E False (mark_output_err s) = Some s' \<and> sends s s' \<and> s_closeRequested s'"
proof -
  have q: "sends s (mark_output_err s)" by (rule sends_quiet [OF assms(1)]) simp_all
  then obtain s' where "closeWithError E False (mark_output_err s) = Some s'"
      "sends (mark_output_err s) s'" "s_closeRequested s'"
    using close_sends [OF sends_inv [OF q] sends_room [OF q assms(2)], of False] by auto
  then show ?thesis using sends_trans [OF q] by blast
qed

text \<open>The head of the send queue moves to the end of the send buffer.\<close>

lemma move_to_sendBuf:
  assumes "session_inv s" and "st_tr (s_sendQueue s) = x # xs" and "core y = core x" and "sendable y"
    and "length (st_tr (s_sendBuf s)) < st_cap (s_sendBuf s)"
    and "frame s s'" and "st_tr (s_sendQueue s') = xs" and "st_tr (s_sendBuf s') = ins_item y (st_tr (s_sendBuf s))"
    and "s_nextSend s' = s_nextSend s" and "s_wire s' = s_wire s" and "s_closePending s' = s_closePending s"
  shows "sends s s'" and "core y \<in> known s'"
proof -
  note d = session_invD [OF assms(1)]
  have "Seq y = Seq x" using assms(3) by (simp add: core_def)
  moreover have "\<forall>z \<in> set (st_tr (s_sendBuf s)). Seq z < Seq x"
    using d(9) assms(2) by (simp add: unacked_def sorted_wrt_append)
  ultimately have b: "ins_item y (st_tr (s_sendBuf s)) = st_tr (s_sendBuf s) @ [y]"
    by (intro ins_item_last) simp
  have "evolves 0 s s' []"
  proof (rule same_cores_evolves [OF assms(1,6), where outs = "[]"])
    show "map core (unacked s') = map core (unacked s)"
      using assms(2,3,7,8) b by (simp add: unacked_def)
    show "sendable z" if "z \<in> set (unacked s')" for z
      using that d(11) [of z] assms(2,4,7,8) b by (auto simp: unacked_def)
  qed (use assms b d(1) in \<open>auto simp: st_inv_def\<close>)
  then show "sends s s'" using assms(6) by (auto simp: sends_def intro!: exI [of _ "[]"])
  show "core y \<in> known s'" using assms(8) b by (auto simp: known_def unacked_def)
qed

end

end
