(* ===== verification/Session_Send.thy ===== *)
theory Session_Send
  imports Session_Inv
begin

text \<open>
  The sending side of a session: the output loop, the waiting close and \<open>Write\<close>.  The loops
  return (they neither panic nor run forever), keep every unacknowledged segment,
  and a write stores exactly the bytes it is given.
\<close>

section \<open>Sending new segments\<close>

context session_env
begin

lemma send_new_loop_sends:
  assumes "session_inv s" and "room s"
  shows "\<exists>s'. send_new_loop E n s = Some s' \<and> sends s s'"
  using assms
proof (induction "st_tr (s_sendQueue s)" arbitrary: n s)
  case Nil
  have q: "st_tr (s_sendQueue s) = []" using Nil.hyps by simp
  note d = session_invD [OF Nil.prems(1)]
  have "send_new_loop E n s = Some s"
    by (subst send_new_loop.simps) (simp add: DeleteMinIf_eq [OF d(1)] q)
  then show ?case using sends_refl [OF Nil.prems(1)] by blast
next
  case (Cons x xs)
  have q: "st_tr (s_sendQueue s) = x # xs" using Cons.hyps(2) by simp
  note d = session_invD [OF Cons.prems(1)]
  let ?same = "s\<lparr>s_sendQueue := notifyNotEmpty (s_sendQueue s)\<rparr>"
  consider "Remaining (e_bt E) (s_sendBuf s) \<le> 1 \<or> shouldDeferNextPacketData E s"
    | "\<not> Remaining (e_bt E) (s_sendBuf s) \<le> 1" "\<not> shouldDeferNextPacketData E s" "\<not> int n < sendWindowSize E s"
    | "\<not> Remaining (e_bt E) (s_sendBuf s) \<le> 1" "\<not> shouldDeferNextPacketData E s" "int n < sendWindowSize E s"
    by blast
  then show ?case
  proof cases
    case 1
    then have "send_new_loop E n s = Some s" by (subst send_new_loop.simps) auto
    then show ?thesis using sends_refl [OF Cons.prems(1)] by blast
  next
    case 2
    then have "send_new_loop E n s = Some ?same"
      by (subst send_new_loop.simps) (simp add: DeleteMinIf_eq [OF d(1)] q)
    moreover have "sends s ?same"
      by (rule sends_quiet [OF Cons.prems(1)]) (simp_all add: quiet_def frame_def)
    ultimately show ?thesis by blast
  next
    case 3
    let ?q = "(if xs = [] then notifyEmpty else notifyNotEmpty) ((s_sendQueue s)\<lparr>st_tr := xs\<rparr>)"
    let ?s1 = "s\<lparr>s_sendQueue := ?q\<rparr>"
    let ?x = "x\<lparr>seg_txCount := seg_txCount x + 1, seg_txTime := e_now E,
                seg_txTimeout := tx_timeout E (seg_txCount x + 1) ?s1\<rparr>"
    have q1: "st_tr ?q = xs" "st_cap ?q = st_cap (s_sendQueue s)" by simp_all
    have sx: "sendable x" using d(11) [of x] q by (simp add: unacked_def)
    then have "sendable ?x" by (simp only: sendable_update)
    then have x': "typed ?x" "checkProtocolType ?x" unfolding sendable_def by simp_all
    then obtain y where y: "set_unAckSeq (s_nextRecv s) ?x = Some y" "core y = core x" "typed y"
        "ack_ok (s_nextRecv s) y" "checkProtocolType y"
      using set_unAckSeq_ok [OF x'(1), of "s_nextRecv s"] unfolding sendable_update by auto
    define t where "t = s_nextRetransmissionTime (schedule_check E y ?s1)"
    let ?s2 = "?s1\<lparr>s_nextRetransmissionTime := t\<rparr>"
    have s2: "schedule_check E y ?s1 = ?s2"
      unfolding t_def by (rule schedule_check_frame)
    have len: "length (st_tr (s_sendBuf s)) < st_cap (s_sendBuf s)"
      using 3(1) by (simp add: Remaining_eq [OF d(2)])
    then obtain buf where buf: "Insert (e_bt E) y (s_sendBuf s) = Some (True, buf)"
        "st_tr buf = ins_item y (st_tr (s_sendBuf s))" "st_cap buf = st_cap (s_sendBuf s)"
      using y(5) by (simp add: Insert_eq [OF d(2)])
    let ?s3 = "?s2\<lparr>s_sendBuf := buf\<rparr>"
    have m: "sends s ?s3" "core y \<in> known ?s3"
      by (rule move_to_sendBuf [OF Cons.prems(1) q y(2) _ len];
          use q1 buf y in \<open>simp add: frame_def sendable_def\<close>)+
    then have may: "may_send (known ?s3) (s_nextRecv ?s3) y"
      using y by (simp add: may_send_def)
    obtain err s4 where o: "output_seg E y ?s3 = (err, s4)" by (cases "output_seg E y ?s3") auto
    have s4: "sends ?s3 s4" "s_nextSend s4 = s_nextSend s"
      using output_sends [OF sends_inv [OF m(1)] may] o by simp_all
    have q4: "st_tr (s_sendQueue s4) = xs"
      using output_seg_cases [of E y ?s3] o q1 by auto
    have ss4: "sends s s4" by (rule sends_trans [OF m(1) s4(1)])
    have step: "send_new_loop E n s = (if err then closeWithError E False (mark_output_err s4)
        else send_new_loop E (n + 1) s4)"
      using 3 q y(1) s2 buf(1) o
      by (subst send_new_loop.simps) (simp add: DeleteMinIf_eq [OF d(1)] Let_def)
    show ?thesis
    proof (cases err)
      case True
      then show ?thesis
        using mark_close_sends [OF sends_inv [OF ss4] sends_room [OF ss4 Cons.prems(2)]] step sends_trans [OF ss4]
        by auto
    next
      case False
      then show ?thesis
        using Cons.hyps(1) [of s4 "n + 1"] q4 sends_inv [OF ss4] sends_room [OF ss4 Cons.prems(2)] step
          sends_trans [OF ss4]
        by auto
    qed
  qed
qed

end

section \<open>Retransmission\<close>

text \<open>Handing segments to the underlay changes unchanged else that matters.\<close>

definition emits :: "(u32 \<times> u8 \<times> bytes) set \<Rightarrow> session \<Rightarrow> session \<Rightarrow> bool" where
  "emits k s s' \<longleftrightarrow> quiet s s' \<and> (\<exists>outs. s_wire s' = s_wire s @ outs \<and> (\<forall>x \<in> set outs. may_send k (s_nextRecv s) x))"

lemma emits_refl: "emits k s s"
  by (simp add: emits_def quiet_def)

lemma quiet_trans: "quiet s s1 \<Longrightarrow> quiet s1 s2 \<Longrightarrow> quiet s s2"
  by (auto simp: quiet_def intro: frame_trans)

lemma emits_trans:
  assumes "emits k s s1" and "emits k s1 s2"
  shows "emits k s s2"
proof -
  obtain o1 o2 where "s_wire s1 = s_wire s @ o1" "s_wire s2 = s_wire s1 @ o2"
    "\<forall>x \<in> set o1. may_send k (s_nextRecv s) x" "\<forall>x \<in> set o2. may_send k (s_nextRecv s1) x"
    using assms by (auto simp: emits_def)
  moreover have "s_nextRecv s1 = s_nextRecv s" "quiet s s2"
    using assms quiet_trans by (auto simp: emits_def quiet_def frame_def)
  ultimately show ?thesis unfolding emits_def by (intro conjI exI [of _ "o1 @ o2"]) auto
qed

lemma output_emits: "may_send k (s_nextRecv s) x \<Longrightarrow> emits k s (snd (output_seg E x s))"
  using output_seg_cases [of E x s]
  by (auto simp: emits_def quiet_def frame_def intro: exI [of _ "[x]"])

lemma mark_emits: "emits k s (mark_output_err s)"
  by (simp add: emits_def)

lemma retx_iter_emits:
  assumes "sendable x" and "core x \<in> k"
  shows "\<exists>c y v'. retx_iter E v x = (v', y, c) \<and> core y = core x \<and> sendable y \<and> rv_panic v' = rv_panic v \<and>
    emits k (rv_session v) (rv_session v')"
proof -
  let ?early = "seg_ackCount x \<ge> earlyRetransmission \<and> seg_txCount x \<le> earlyRetransmissionLimit"
  consider "seg_txCount x \<ge> txCountLimit"
    | "\<not> seg_txCount x \<ge> txCountLimit" "\<not> (?early \<or> e_now E - seg_txTime x \<ge> micros (seg_txTimeout x))"
    | "\<not> seg_txCount x \<ge> txCountLimit" "?early \<or> e_now E - seg_txTime x \<ge> micros (seg_txTimeout x)"
    by blast
  then show ?thesis
  proof cases
    case 1
    then show ?thesis using assms by (intro exI [of _ False]) (simp add: retx_iter_def mark_emits)
  next
    case 2
    have "retx_iter E v x =
        (v\<lparr>rv_nextTX := Min_go (rv_nextTX v) (seg_txTime x + micros (seg_txTimeout x))\<rparr>, x, True)"
      unfolding retx_iter_def Let_def by (simp only: 2 if_False)
    then show ?thesis using assms by (intro exI [of _ True]) (simp add: emits_refl)
  next
    case 3
    define w where "w = (if ?early then v\<lparr>rv_hasLoss := True\<rparr> else v\<lparr>rv_hasTimeout := True\<rparr>)"
    have w: "rv_session w = rv_session v" "rv_panic w = rv_panic v" by (simp_all add: w_def)
    define x' where "x' = x\<lparr>seg_ackCount := 0, seg_txCount := seg_txCount x + 1, seg_txTime := e_now E,
        seg_txTimeout := tx_timeout E (seg_txCount x + 1) (rv_session v)\<rparr>"
    have "sendable x'" "core x' = core x" unfolding x'_def sendable_update using assms by simp_all
    then obtain y where y: "set_unAckSeq (s_nextRecv (rv_session v)) x' = Some y" "core y = core x" "typed y"
        "ack_ok (s_nextRecv (rv_session v)) y" "checkProtocolType y"
      using set_unAckSeq_ok [of x' "s_nextRecv (rv_session v)"] by (auto simp: sendable_def)
    then have may: "may_send k (s_nextRecv (rv_session v)) y"
      using assms(2) by (simp add: may_send_def)
    obtain err s' where o: "output_seg E y (rv_session v) = (err, s')"
      by (cases "output_seg E y (rv_session v)") auto
    have e: "emits k (rv_session v) s'" using output_emits [OF may, of E] o by simp
    have "retx_iter E v x =
      (if err then (w\<lparr>rv_session := mark_output_err s', rv_closeReason := True\<rparr>, y, False)
       else (w\<lparr>rv_session := s', rv_total := rv_total w + 1,
               rv_nextTX := Min_go (rv_nextTX w) (seg_txTime y + micros (seg_txTimeout y))\<rparr>, y, True))"
      unfolding retx_iter_def Let_def
      by (simp only: 3 if_False if_True w_def [symmetric] w x'_def [symmetric] y(1) o option.case prod.case)
    then show ?thesis
      using w y e emits_trans [OF e mark_emits]
      by (intro exI [of _ "\<not> err"]) (simp add: sendable_def)
  qed
qed

lemma ascend_retx:
  assumes "\<And>x. x \<in> set xs \<Longrightarrow> sendable x" and "core ` set xs \<subseteq> k"
  shows "\<exists>v' ys. ascend_items (retx_iter E) v xs = (v', ys) \<and> map core ys = map core xs \<and>
    (\<forall>y \<in> set ys. sendable y) \<and> rv_panic v' = rv_panic v \<and> emits k (rv_session v) (rv_session v')"
  using assms
proof (induction xs arbitrary: v)
  case Nil
  then show ?case by (simp add: emits_refl)
next
  case (Cons x xs)
  obtain v1 y c where r: "retx_iter E v x = (v1, y, c)" "core y = core x" "sendable y"
      "rv_panic v1 = rv_panic v" "emits k (rv_session v) (rv_session v1)"
    using retx_iter_emits [of x k E v] Cons.prems by auto
  obtain v2 ys where "ascend_items (retx_iter E) v1 xs = (v2, ys)" "map core ys = map core xs"
      "\<forall>y \<in> set ys. sendable y" "rv_panic v2 = rv_panic v1" "emits k (rv_session v1) (rv_session v2)"
    using Cons.IH [of v1] Cons.prems by auto
  then show ?case
    using r Cons.prems(1) emits_trans [OF r(5)] by (cases c) auto
qed

context session_env
begin

lemma retransmit_sends:
  assumes "session_inv s" and "room s"
  shows "\<exists>n s'. retransmit E s = Some (n, s') \<and> sends s s'"
proof (cases "Len (e_bt E) (s_sendBuf s) > 0 \<and> e_now E \<ge> s_nextRetransmissionTime s")
  case False
  then have "retransmit E s = Some (0, s)" unfolding retransmit_def by (rule if_not_P)
  then show ?thesis using sends_refl [OF assms(1)] by blast
next
  case True
  note d = session_invD [OF assms(1)]
  let ?v = "\<lparr>rv_session = s, rv_panic = False, rv_closeReason = False, rv_hasLoss = False,
                rv_hasTimeout = False, rv_total = 0, rv_nextTX = MaxInt64\<rparr>"
  obtain v ys where v: "ascend_items (retx_iter E) ?v (st_tr (s_sendBuf s)) = (v, ys)"
      "map core ys = map core (st_tr (s_sendBuf s))" "\<forall>y \<in> set ys. sendable y" "\<not> rv_panic v"
      "emits (known s) s (rv_session v)"
    using ascend_retx [of "st_tr (s_sendBuf s)" "known s" E ?v] d(11)
    by (auto simp: unacked_def known_def)
  let ?buf = "(s_sendBuf s)\<lparr>st_tr := ys\<rparr>"
  let ?s1 = "(rv_session v)\<lparr>s_sendBuf := ?buf\<rparr>"
  let ?s2 = "if rv_nextTX v \<noteq> MaxInt64 then ?s1\<lparr>s_nextRetransmissionTime := rv_nextTX v\<rparr> else ?s1"
  obtain outs where outs: "s_wire (rv_session v) = s_wire s @ outs"
      "\<And>x. x \<in> set outs \<Longrightarrow> may_send (known s) (s_nextRecv s) x" and qv: "quiet s (rv_session v)"
    using v(5) by (auto simp: emits_def)
  have len: "length ys = length (st_tr (s_sendBuf s))" using map_eq_imp_length_eq [OF v(2)] .
  have fr: "frame s ?s2" using qv by (auto simp: quiet_def frame_def)
  have u: "unacked ?s2 = ys @ st_tr (s_sendQueue s)" using qv by (auto simp: unacked_def quiet_def)
  have "evolves 0 s ?s2 []"
  proof (rule same_cores_evolves [OF assms(1) fr, where outs = outs])
    show "map core (unacked ?s2) = map core (unacked s)" unfolding u using v(2) by (simp add: unacked_def)
    show "sendable x" if "x \<in> set (unacked ?s2)" for x
      using that v(3) d(11) [of x] unfolding u by (auto simp: unacked_def)
  qed (use d(1,2) outs qv len in \<open>auto simp: quiet_def st_inv_def\<close>)
  then have s2: "sends s ?s2" using fr by (auto simp: sends_def intro!: exI [of _ "[]"])
  obtain s3 where s3: "(if rv_closeReason v then closeWithError E False ?s2 else Some ?s2) = Some s3" "sends ?s2 s3"
    using close_sends [OF sends_inv [OF s2] sends_room [OF s2 assms(2)], of False] sends_refl [OF sends_inv [OF s2]]
    by (cases "rv_closeReason v") auto
  let ?s4 = "if rv_hasTimeout v then s3\<lparr>s_cubic := OnTimeout (s_cubic s3)\<rparr>
             else if rv_hasLoss v then s3\<lparr>s_cubic := OnLoss (e_fl E) (e_now E) (s_cubic s3)\<rparr> else s3"
  have "sends s3 ?s4"
    by (rule sends_quiet [OF sends_inv [OF s3(2)]]) (auto simp: quiet_def frame_def)
  then have "sends s ?s4" using s2 s3(2) by (blast intro: sends_trans)
  moreover have "retransmit E s = Some (rv_total v, ?s4)"
    using True v(1,4) s3(1) d(2) unfolding retransmit_def by (simp add: Ascend_eq Let_def)
  ultimately show ?thesis by blast
qed

lemma ack_segment_simps:
  "isAckProtocol (seg_Protocol (ack_segment E s))" "typed (ack_segment E s)"
  "ack_ok (s_nextRecv s) (ack_segment E s)" "seg_payload (ack_segment E s) = []"
  by (simp_all add: ack_segment_def mk_segment_def seg_Protocol_def typed_def ack_ok_def isProtocol_defs)

lemma send_ack_sends:
  assumes "session_inv s" and "room s"
  shows "\<exists>s'. send_ack E s = Some s' \<and> sends s s'"
proof -
  let ?s1 = "s\<lparr>s_ackOnDataRecv := False\<rparr>"
  obtain err s2 where o: "output_seg E (ack_segment E ?s1) ?s1 = (err, s2)"
    by (cases "output_seg E (ack_segment E ?s1) ?s1") auto
  have s1: "sends s ?s1"
    by (rule sends_quiet [OF assms(1)]) (simp_all add: quiet_def frame_def)
  have "may_send (known ?s1) (s_nextRecv ?s1) (ack_segment E ?s1)"
    using ack_segment_simps [of ?s1] by (simp add: may_send_def)
  then have s2: "sends s s2"
    using output_sends(1) [OF sends_inv [OF s1]] o sends_trans [OF s1] by fastforce
  obtain s3 where s3: "(if err then closeWithError E False (mark_output_err s2) else Some s2) = Some s3" "sends s s3"
    using mark_close_sends [OF sends_inv [OF s2] sends_room [OF s2 assms(2)]] s2 sends_trans [OF s2]
    by (cases err) auto
  have "sends s3 (s3\<lparr>s_heartbeatJitter := e_jitter E\<rparr>)"
    by (rule sends_quiet [OF sends_inv [OF s3(2)]]) (simp_all add: quiet_def frame_def)
  then have "sends s (s3\<lparr>s_heartbeatJitter := e_jitter E\<rparr>)" by (rule sends_trans [OF s3(2)])
  then show ?thesis
    using o s3(1) sends_refl [OF assms(1)] unfolding send_ack_def Let_def
    by (auto simp del: if_split)
qed

lemma runOutputOncePacket_sends:
  assumes "session_inv s" and "room s"
  shows "\<exists>s'. runOutputOncePacket E s = Some s' \<and> sends s s'"
proof (cases "s_outputHasErr s")
  case True
  then show ?thesis using sends_refl [OF assms(1)] by (simp add: runOutputOncePacket_def)
next
  case False
  obtain n s1 where s1: "retransmit E s = Some (n, s1)" "sends s s1"
    using retransmit_sends [OF assms] by blast
  let ?new = "if Len (e_bt E) (s_sendQueue s1) > 0 \<and> \<not> sendWindowSize E s1 \<le> 0
               then send_new_loop E n s1 else Some s1"
  obtain s2 where s2: "?new = Some s2" "sends s1 s2"
    using send_new_loop_sends [OF sends_inv [OF s1(2)] sends_room [OF s1(2) assms(2)], of n]
      sends_refl [OF sends_inv [OF s1(2)]] by (cases "Len (e_bt E) (s_sendQueue s1) > 0 \<and> \<not> sendWindowSize E s1 \<le> 0") auto
  have s12: "sends s s2" by (rule sends_trans [OF s1(2) s2(2)])
  obtain s3 where s3: "send_ack E s2 = Some s3" "sends s2 s3"
    using send_ack_sends [OF sends_inv [OF s12] sends_room [OF s12 assms(2)]] by blast
  have "runOutputOncePacket E s = Some s3"
    unfolding runOutputOncePacket_def using False s1(1) s2(1) s3(1) by (simp del: if_split)
  then show ?thesis using sends_trans [OF s12 s3(2)] by blast
qed

end

section \<open>Writing\<close>

lemma data_segment_simps:
  "Seq (data_segment E mode r le i part l s) = s_nextSend s"
  "seg_payload (data_segment E mode r le i part l s) = part"
  "sendable (data_segment E mode r le i part l s)"
  by (simp_all add: data_segment_def mk_segment_def Seq_def sendable_def typed_def checkProtocolType_def
      seg_Protocol_def isProtocol_defs Let_def)

text \<open>
  What a write of \<open>b\<close> that reports \<open>n\<close> bytes and the error \<open>e\<close> put into the queue: all of \<open>b\<close>
  when there is no error.  A write that fails between two fragments reports 0 bytes, and
  the fragments before that are queued.
\<close>

definition queued :: "bytes \<Rightarrow> nat \<Rightarrow> write_error option \<Rightarrow> segment list \<Rightarrow> bool" where
  "queued b n e new \<longleftrightarrow> (\<exists>k. concat (map seg_payload new) = take k b \<and>
     (if e = None then n = length b \<and> k = length b else n = 0))"

text \<open>A client may queue data only after its open session request.\<close>

definition opened :: "session \<Rightarrow> bool" where
  "opened s \<longleftrightarrow> (s_isClient s \<and> s_state s \<le> sessionAttached \<longrightarrow> s_openSessionRequestSent s \<or> s_closeRequested s)"

context session_env
begin

lemma write_fragments_evolves:
  assumes "session_inv s" and "opened s"
    and "length (st_tr (s_sendQueue s)) + n \<le> st_cap (s_sendQueue s)"
    and "unat (s_nextSend s) + n < 2 ^ 32" and "length ptr \<le> n * fs" and "0 < n \<Longrightarrow> (n - 1) * fs < length ptr"
    and "\<And>k. 0 < k \<Longrightarrow> k \<le> fs \<Longrightarrow> le \<Longrightarrow> \<exists>w. lowEntropyEncodedPayloadLen (int k) mode = Inr w"
  shows "\<exists>e s' new k. write_fragments E mode r le fs n ptr s = Some (e, s') \<and> evolves 0 s s' new \<and> frame s s' \<and>
    concat (map seg_payload new) = take k ptr \<and> (e = None \<longrightarrow> k = length ptr)"
  using assms
proof (induction n arbitrary: s ptr)
  case 0
  then show ?case using evolves_refl [of s] by (auto intro!: exI [of _ "[]"])
next
  case (Suc n)
  note d = session_invD [OF Suc.prems(1)]
  let ?l = "min fs (length ptr)"
  let ?part = "take ?l ptr"
  have lpos: "0 < ?l"
    using Suc.prems(5,6) by (cases "fs = 0") auto
  then obtain w where w: "(if le then lowEntropyEncodedPayloadLen (int ?l) mode else Inr (of_nat ?l)) = Inr w"
    using Suc.prems(7) [of ?l] by (cases le) auto
  let ?seg = "data_segment E mode r le n ?part w s"
  let ?s1 = "s\<lparr>s_nextSend := s_nextSend s + 1\<rparr>"
  have seg: "checkProtocolType ?seg" using data_segment_simps(3) by (simp add: sendable_def)
  obtain q where q: "Insert (e_bt E) ?seg (s_sendQueue s) = Some (True, q)"
      "st_tr q = ins_item ?seg (st_tr (s_sendQueue s))" "st_cap q = st_cap (s_sendQueue s)"
    using Suc.prems(3) by (simp add: Insert_eq [OF d(1) seg])
  let ?s2 = "?s1\<lparr>s_sendQueue := q\<rparr>"
  have fr: "frame s ?s2" using q(3) by (simp add: frame_def)
  have e: "evolves 0 s ?s2 [?seg]" and u: "unacked ?s2 = unacked s @ [?seg]"
    by (rule enqueue_evolves [OF Suc.prems(1) data_segment_simps(1,3)];
        use Suc.prems(2,3,4) q fr in \<open>simp add: opened_def\<close>)+
  have lq: "length (st_tr q) = Suc (length (st_tr (s_sendQueue s)))"
    using u by (simp add: unacked_def)
  have ns: "unat (s_nextSend ?s2) = Suc (unat (s_nextSend s))"
    using evolvesD(4) [OF e] by simp
  have "opened ?s2" using Suc.prems(2) by (simp add: opened_def)
  moreover have "length (drop ?l ptr) \<le> n * fs" using Suc.prems(5) by auto
  moreover have "0 < n \<Longrightarrow> (n - 1) * fs < length (drop ?l ptr)"
    using Suc.prems(6) by (cases n) auto
  ultimately obtain e' s' new k where IH: "write_fragments E mode r le fs n (drop ?l ptr) ?s2 = Some (e', s')"
      "evolves 0 ?s2 s' new" "frame ?s2 s'" "concat (map seg_payload new) = take k (drop ?l ptr)"
      "e' = None \<longrightarrow> k = length (drop ?l ptr)"
    using Suc.IH [of ?s2 "drop ?l ptr"] evolves_inv [OF e] Suc.prems(3,4,7) q(3) lq ns by auto
  show ?case
  proof (cases "write_interrupted (E\<lparr>e_now := e_clock E n\<rparr>) s")
    case (Some x)
    then show ?thesis using evolves_refl [OF Suc.prems(1)] by (auto intro!: exI [of _ "[]"] exI [of _ 0])
  next
    case None
    then have "write_fragments E mode r le fs (Suc n) ptr s = Some (e', s')"
      using w q(1) IH(1) by (simp add: Let_def)
    moreover have "evolves 0 s s' (?seg # new)" using evolves_trans0 [OF e IH(2)] by simp
    moreover have "concat (map seg_payload (?seg # new)) = take (?l + k) ptr"
      using IH(4) by (simp add: data_segment_simps(2) take_add)
    ultimately show ?thesis
      using IH(5) frame_trans [OF fr IH(3)]
      by (intro exI [of _ e'] exI [of _ s'] exI [of _ "?seg # new"] exI [of _ "?l + k"]) auto
  qed
qed

end

text \<open>The sizes that a session may use.\<close>

definition mtu_ok :: "session \<Rightarrow> bool" where
  "mtu_ok s \<longleftrightarrow> s_transport s \<noteq> UnknownTransport \<and> packetOverhead < s_mtu s \<and> s_mtu s \<le> 65535"

lemma lowEntropySendConfig_off: "lowEntropySendConfig s = (mode, r, le) \<Longrightarrow> le \<longleftrightarrow> mode \<noteq> LOW_ENTROPY_MODE_OFF"
  by (auto simp: lowEntropySendConfig_def extractLowEntropyConfig_def Let_def split: option.splits if_splits)

lemma maxFragmentSize_pos:
  assumes "mtu_ok s" and "maxFragmentSize (s_mtu s) (s_transport s) mode = Inr fs"
  shows "0 < fs"
proof -
  have "0 < sourceBytesPerChunk ps" if "buildLowEntropyParams mode = Inr ps" for ps
    using buildLowEntropyParams_InrD(1) [OF that] .
  then show ?thesis
    using assms by (auto simp: mtu_ok_def maxFragmentSize_def maxFragmentSizeInternal_def maxPDU_def Let_def
        lowEntropyChunkLen_def split: if_splits sum.splits TransportProtocol.splits)
qed

lemma encodes_fragment:
  assumes "mtu_ok s" and "maxFragmentSize (s_mtu s) (s_transport s) mode = Inr fs"
    and "mode \<noteq> LOW_ENTROPY_MODE_OFF" and "0 < k" and "k \<le> nat fs"
  shows "\<exists>w. lowEntropyEncodedPayloadLen (int k) mode = Inr w"
proof -
  have "int k \<le> fs" using assms(5) maxFragmentSize_pos [OF assms(1,2)] by linarith
  then show ?thesis
    using fragment_fits [OF assms(2,4)] assms(1,3) by (auto simp: mtu_ok_def)
qed

text \<open>The number of fragments of \<^verbatim>\<open>writeChunk\<close> cuts the chunk into non-empty parts.\<close>

lemma fragment_count:
  fixes len :: nat and fs :: int
  assumes "0 < len" and "0 < fs"
  defines "n \<equiv> (if int len > fs then nat (go_div (int len - 1) fs + 1) else 1)"
  shows "0 < n" and "len \<le> n * nat fs" and "(n - 1) * nat fs < len"
proof -
  obtain f where f: "fs = int f" "0 < f" using assms(2) by (metis zero_less_imp_eq_int)
  have n: "n = (len - 1) div f + 1"
  proof (cases "int len > fs")
    case True
    have "go_div (int len - 1) fs = int ((len - 1) div f)"
      using assms(1) f by (simp add: zdiv_int of_nat_diff)
    then show ?thesis using True by (simp add: n_def nat_add_distrib)
  qed (use f assms(1) in \<open>auto simp: n_def\<close>)
  show "0 < n" by (simp add: n)
  have "len - 1 < n * f" unfolding n using f(2) dividend_less_div_times [of f "len - 1"] by simp
  then show "len \<le> n * nat fs" using f by simp
  have "(n - 1) * f \<le> len - 1" unfolding n by simp
  then show "(n - 1) * nat fs < len" using f assms(1) by simp
qed

context session_env
begin

lemma writeChunk_evolves:
  assumes "session_inv s" and "opened s" and "mtu_ok s" and "b \<noteq> []" and "length b \<le> maxPDU"
    and "unat (s_nextSend s) + segmentSendQueueTreeCapacity < 2 ^ 32"
  shows "\<exists>res s' new. writeChunk E b s = Some (res, s') \<and> evolves 0 s s' new \<and> frame s s' \<and>
    (case res of Inl e \<Rightarrow> queued b 0 (Some e) new | Inr n \<Rightarrow> queued b n None new)"
proof -
  note d = session_invD [OF assms(1)]
  obtain mode r le where cfg: "lowEntropySendConfig s = (mode, r, le)" by (metis prod_cases3)
  have unchanged: "\<exists>res s' new. writeChunk E b s = Some (res, s') \<and> evolves 0 s s' new \<and> frame s s' \<and>
      (case res of Inl e \<Rightarrow> queued b 0 (Some e) new | Inr n \<Rightarrow> queued b n None new)"
    if "writeChunk E b s = Some (Inl e, s)" for e
    using that evolves_refl [OF assms(1)] by (auto simp: queued_def intro!: exI [of _ "[]"])
  show ?thesis
  proof (cases "maxFragmentSize (s_mtu s) (s_transport s) mode")
    case (Inl e)
    then have "writeChunk E b s = Some (Inl (ErrFragment e), s)"
      using assms(5) cfg by (simp add: writeChunk_def)
    then show ?thesis by (rule unchanged)
  next
    case (Inr fs)
    have fs: "0 < fs" by (rule maxFragmentSize_pos [OF assms(3) Inr])
    define n where "n = (if int (length b) > fs then nat (go_div (int (length b) - 1) fs + 1) else 1)"
    have n: "0 < n" "length b \<le> n * nat fs" "(n - 1) * nat fs < length b"
      using fragment_count [of "length b" fs] assms(4) fs by (simp_all add: n_def)
    have wc: "writeChunk E b s =
       (if Remaining (e_bt E) (s_sendQueue s) \<le> int n
        then Some (Inl (case write_interrupted E s of Some e \<Rightarrow> e | None \<Rightarrow> WriteBlocked), s)
        else write_fragments E mode r le (nat fs) n b s \<bind> (\<lambda>(e, s1).
          case e of Some e \<Rightarrow> Some (Inl e, s1)
          | None \<Rightarrow> Some (Inr (length b), s1\<lparr>s_sendQueue := (s_sendQueue s1)\<lparr>st_chanEmptyEvent := False\<rparr>\<rparr>)))"
      using assms(5) cfg Inr fs by (simp add: writeChunk_def n_def [symmetric])
    show ?thesis
    proof (cases "Remaining (e_bt E) (s_sendQueue s) \<le> int n")
      case True
      then show ?thesis using wc by (intro unchanged) simp
    next
      case False
      then have q: "length (st_tr (s_sendQueue s)) + n \<le> st_cap (s_sendQueue s)"
        by (simp add: Remaining_eq [OF d(1)])
      have "unat (s_nextSend s) + n < 2 ^ 32" using q d(5) assms(6) by simp
      moreover have "\<exists>w. lowEntropyEncodedPayloadLen (int k) mode = Inr w" if "0 < k" "k \<le> nat fs" "le" for k
        using encodes_fragment [OF assms(3) Inr _ that(1,2)] lowEntropySendConfig_off [OF cfg] that(3) by simp
      ultimately obtain e s1 new k where w: "write_fragments E mode r le (nat fs) n b s = Some (e, s1)"
          "evolves 0 s s1 new" "frame s s1" "concat (map seg_payload new) = take k b" "e = None \<longrightarrow> k = length b"
        using write_fragments_evolves [OF assms(1,2) q _ n(2), of le mode r] n(3) by blast
      show ?thesis
      proof (cases e)
        case (Some x)
        then show ?thesis
          using wc False w by (intro exI [of _ "Inl x"] exI [of _ s1] exI [of _ new]) (auto simp: queued_def)
      next
        case None
        let ?s = "s1\<lparr>s_sendQueue := (s_sendQueue s1)\<lparr>st_chanEmptyEvent := False\<rparr>\<rparr>"
        have qu: "quiet s1 ?s" by (simp add: quiet_def frame_def)
        have "evolves 0 s1 ?s []"
          by (rule evolves_quiet [OF evolves_inv [OF w(2)] qu, where outs = "[]"]) simp_all
        then have "evolves 0 s ?s new" using evolves_trans0 [OF w(2)] by fastforce
        moreover have "frame s ?s" using w(3) qu by (auto simp: quiet_def intro: frame_trans)
        ultimately show ?thesis
          using wc False w None
          by (intro exI [of _ "Inr (length b)"] exI [of _ ?s] exI [of _ new]) (simp add: queued_def)
      qed
    qed
  qed
qed

lemma write_chunks_evolves:
  assumes "session_inv s" and "opened s" and "mtu_ok s" and "b \<noteq> []" and "length b \<le> maxPDU"
    and "unat (s_nextSend s) + segmentSendQueueTreeCapacity < 2 ^ 32"
  shows "\<exists>n e s' new. write_chunks E 0 b s = Some (n, e, s') \<and> evolves 0 s s' new \<and> frame s s' \<and>
    queued b n e new"
proof -
  obtain res s' new where w: "writeChunk E b s = Some (res, s')" "evolves 0 s s' new" "frame s s'"
      "case res of Inl e \<Rightarrow> queued b 0 (Some e) new | Inr n \<Rightarrow> queued b n None new"
    using writeChunk_evolves [OF assms] by blast
  have "write_chunks E 0 b s = Some (case res of Inl e \<Rightarrow> (0, Some e, s') | Inr n \<Rightarrow> (length b, None, s'))"
    using assms(4,5) w(1,4)
    by (subst write_chunks.simps) (auto simp: min_absorb1 write_chunks.simps queued_def split: sum.splits)
  then show ?thesis using w by (cases res) (auto simp: queued_def intro!: exI [of _ new])
qed

lemma open_request_simps:
  "Seq (open_request s b) = s_nextSend s" "sendable (open_request s b)"
  "seg_payload (open_request s b) = b \<or> seg_payload (open_request s b) = []"
  by (auto simp: open_request_def mk_segment_def Seq_def sendable_def typed_def checkProtocolType_def
      seg_Protocol_def isProtocol_defs Let_def split: prod.splits)

lemma Write_rest_evolves:
  assumes "session_inv s" and "opened s" and "mtu_ok s" and "b \<noteq> []" and "length b \<le> maxPDU"
    and "unat (s_nextSend s) + segmentSendQueueTreeCapacity < 2 ^ 32"
  shows "\<exists>n e s' new. write_chunks E 0 b s \<bind> (\<lambda>(n, e, s1).
      Some (n, e, clear_write_deadline (if e = None then finish_write n s1 else s1))) = Some (n, e, s') \<and>
    evolves 0 s s' new \<and> frame s s' \<and> queued b n e new"
proof -
  obtain n e s1 new where w: "write_chunks E 0 b s = Some (n, e, s1)" "evolves 0 s s1 new" "frame s s1"
      "queued b n e new"
    using write_chunks_evolves [OF assms] by blast
  let ?s = "clear_write_deadline (if e = None then finish_write n s1 else s1)"
  have q: "quiet s1 ?s" "s_wire ?s = s_wire s1"
    by (simp_all add: clear_write_deadline_def finish_write_def quiet_def frame_def)
  have "evolves 0 s1 ?s []"
    by (rule evolves_quiet [OF evolves_inv [OF w(2)] q(1), where outs = "[]"]) (simp_all add: q(2))
  then have "evolves 0 s ?s new" using evolves_trans0 [OF w(2)] by fastforce
  moreover have "frame s ?s" using w(3) q(1) by (auto simp: quiet_def intro: frame_trans)
  ultimately show ?thesis using w by (intro exI [of _ n] exI [of _ e] exI [of _ ?s] exI [of _ new]) simp
qed

lemma Write_cases:
  obtains (err) e where "Write E b s = Some (0, Some e, s)"
    | (first) "\<not> s_closeRequested s" "s_isClient s" "isState s sessionAttached" "\<not> s_openSessionRequestSent s"
    | (writing) "Write E b s = write_chunks E 0 b s \<bind> (\<lambda>(n, e, s1).
        Some (n, e, clear_write_deadline (if e = None then finish_write n s1 else s1)))" "opened s"
proof (cases "s_closeRequested s \<or> isStateBefore s sessionAttached False \<or> isStateAfter s sessionClosed True")
  case True
  then have "\<exists>e. Write E b s = Some (0, Some e, s)" by (auto simp: Write_def)
  then show ?thesis using err by blast
next
  case False
  show ?thesis
  proof (cases "s_isClient s \<and> isState s sessionAttached \<and> \<not> s_openSessionRequestSent s")
    case True
    then show ?thesis using first False by blast
  next
    case nopen: False
    have "Write E b s = write_chunks E 0 b s \<bind> (\<lambda>(n, e, s1).
        Some (n, e, clear_write_deadline (if e = None then finish_write n s1 else s1)))"
      unfolding Write_def Let_def if_not_P [OF nopen] using False by (simp del: if_split)
    moreover have "opened s"
      using False nopen by (auto simp: opened_def isState_def isStateBefore_def sessionState_defs)
    ultimately show ?thesis using writing by blast
  qed
qed

lemma Write_evolves:
  assumes "session_inv s" and "mtu_ok s" and "b \<noteq> []" and "length b \<le> maxPDU"
    and "Suc (unat (s_nextSend s)) + segmentSendQueueTreeCapacity < 2 ^ 32"
  shows "\<exists>n e s' new. Write E b s = Some (n, e, s') \<and> evolves 0 s s' new \<and> frame s s' \<and>
    queued b n e new"
proof -
  note d = session_invD [OF assms(1)]
  show ?thesis
  proof (cases rule: Write_cases [of b s])
    case (err e)
    then show ?thesis using evolves_refl [OF assms(1)] by (auto simp: queued_def intro!: exI [of _ "[]"])
  next
    case writing
    then show ?thesis using Write_rest_evolves [OF assms(1) writing(2) assms(2-4)] assms(5) by simp
  next
    case first
    let ?seg = "open_request s b"
    let ?s1 = "s\<lparr>s_openSessionRequestSent := True, s_nextSend := s_nextSend s + 1\<rparr>"
    have "unacked s = []" using first d(12) by (simp add: isState_def)
    then have e: "st_tr (s_sendQueue s) = []" by (simp add: unacked_def)
    have "checkProtocolType ?seg" using open_request_simps(2) by (simp add: sendable_def)
    then obtain q where q: "Insert (e_bt E) ?seg (s_sendQueue s) = Some (True, q)"
        "st_tr q = ins_item ?seg (st_tr (s_sendQueue s))" "st_cap q = st_cap (s_sendQueue s)"
      using e d(5) by (simp add: Insert_eq [OF d(1)] segmentSendQueueTreeCapacity_def)
    let ?s2 = "?s1\<lparr>s_sendQueue := q\<rparr>"
    have fr: "frame s ?s2" using q(3) by (simp add: frame_def)
    have ev: "evolves 0 s ?s2 [?seg]"
      by (rule enqueue_evolves [OF assms(1) open_request_simps(1,2)])
         (use assms(5) e d(5) q fr in \<open>simp_all add: segmentSendQueueTreeCapacity_def\<close>)
    have st: "\<not> isStateBefore s sessionAttached False" "\<not> isStateAfter s sessionClosed True"
      using first by (simp_all add: isState_def isStateBefore_def isStateAfter_def sessionState_defs)
    show ?thesis
    proof (cases "seg_payload ?seg = []")
      case False
      let ?s3 = "clear_write_deadline ?s2"
      have "Write E b s = Some (length (seg_payload ?seg), None, ?s3)"
        using first st q(1) False unfolding Write_def by (simp add: Let_def)
      moreover have "seg_payload ?seg = b" using False open_request_simps(3) by blast
      moreover have q3: "quiet ?s2 ?s3" by (simp add: clear_write_deadline_def quiet_def frame_def)
      moreover have "evolves 0 ?s2 ?s3 []"
        by (rule evolves_quiet [OF evolves_inv [OF ev] q3, where outs = "[]"])
           (simp_all add: clear_write_deadline_def)
      then have "evolves 0 s ?s3 [?seg]" using evolves_trans0 [OF ev] by fastforce
      moreover have "frame s ?s3" using fr q3 by (auto simp: quiet_def intro: frame_trans)
      ultimately show ?thesis by (intro exI [of _ "length b"] exI [of _ None] exI [of _ ?s3] exI [of _ "[?seg]"]) (simp add: queued_def)
    next
      case True
      have w: "Write E b s = write_chunks E 0 b ?s2 \<bind> (\<lambda>(n, e, s1).
          Some (n, e, clear_write_deadline (if e = None then finish_write n s1 else s1)))"
        using first st q(1) True unfolding Write_def by (simp add: Let_def)
      have "opened ?s2" "mtu_ok ?s2" using assms(2) by (simp_all add: opened_def mtu_ok_def)
      moreover have "unat (s_nextSend ?s2) + segmentSendQueueTreeCapacity < 2 ^ 32"
        using evolvesD(4) [OF ev] assms(5) by simp
      ultimately obtain n e s' new where r: "Write E b s = Some (n, e, s')" "evolves 0 ?s2 s' new" "frame ?s2 s'"
          "queued b n e new"
        using Write_rest_evolves [OF evolves_inv [OF ev] _ _ assms(3,4)] w by auto
      have "evolves 0 s s' (?seg # new)" using evolves_trans0 [OF ev r(2)] by simp
      then show ?thesis
        using r True frame_trans [OF fr r(3)]
        by (intro exI [of _ n] exI [of _ e] exI [of _ s'] exI [of _ "?seg # new"]) (simp add: queued_def)
    qed
  qed
qed

end

end
