(* ===== verification/Session_Recv.thy ===== *)
theory Session_Recv
  imports Session_Send
begin

text \<open>
  The receiving side of a packet session: what \<open>input_loop_step\<close> takes from the underlay into the
  receive buffer and the receive queue (\<open>takes_in\<close>), that it forgets no unacknowledged segment
  (\<open>handles\<close>), and that \<open>Read\<close> returns exactly the bytes that are pending, in order.
\<close>

section \<open>The contract\<close>

definition takes_in :: "segment \<Rightarrow> session \<Rightarrow> session \<Rightarrow> bool" where
  "takes_in seg s s' \<longleftrightarrow> (\<exists>moved.
     st_tr (s_recvQueue s') = st_tr (s_recvQueue s) @ moved \<and>
     set moved \<union> set (st_tr (s_recvBuf s')) \<subseteq> insert seg (set (st_tr (s_recvBuf s))) \<and>
     (\<forall>i < length moved. unat (Seq (moved ! i)) = unat (s_nextRecv s) + i) \<and>
     unat (s_nextRecv s') = unat (s_nextRecv s) + length moved \<and>
     s_unreadBuf s' = s_unreadBuf s)"

lemma takes_in_frame: "frame s s' \<Longrightarrow> takes_in seg s s'"
  by (auto simp: takes_in_def frame_def)

lemma takes_in_trans:
  assumes "takes_in seg s s1" and "takes_in seg s1 s2"
  shows "takes_in seg s s2"
proof -
  obtain m1 m2 where m: "st_tr (s_recvQueue s1) = st_tr (s_recvQueue s) @ m1"
      "set m1 \<union> set (st_tr (s_recvBuf s1)) \<subseteq> insert seg (set (st_tr (s_recvBuf s)))"
      "\<forall>i < length m1. unat (Seq (m1 ! i)) = unat (s_nextRecv s) + i"
      "unat (s_nextRecv s1) = unat (s_nextRecv s) + length m1" "s_unreadBuf s1 = s_unreadBuf s"
      "st_tr (s_recvQueue s2) = st_tr (s_recvQueue s1) @ m2"
      "set m2 \<union> set (st_tr (s_recvBuf s2)) \<subseteq> insert seg (set (st_tr (s_recvBuf s1)))"
      "\<forall>i < length m2. unat (Seq (m2 ! i)) = unat (s_nextRecv s1) + i"
      "unat (s_nextRecv s2) = unat (s_nextRecv s1) + length m2" "s_unreadBuf s2 = s_unreadBuf s1"
    using assms unfolding takes_in_def by blast
  have "\<forall>i < length (m1 @ m2). unat (Seq ((m1 @ m2) ! i)) = unat (s_nextRecv s) + i"
    using m(3,4,8) by (auto simp: nth_append)
  moreover have "set (m1 @ m2) \<union> set (st_tr (s_recvBuf s2)) \<subseteq> insert seg (set (st_tr (s_recvBuf s)))"
    using m(2,7) by auto
  ultimately show ?thesis
    unfolding takes_in_def using m(1,4,5,6,9,10) by (intro exI [of _ "m1 @ m2"]) simp
qed

text \<open>
  The receiving side is in order: the queue holds what is below the next expected sequence
  number, and no sequence number is the last one of its type.
\<close>

definition recv_ok :: "session \<Rightarrow> bool" where
  "recv_ok s \<longleftrightarrow> (\<forall>x \<in> set (st_tr (s_recvQueue s)). Seq x < s_nextRecv s) \<and>
     (\<forall>x \<in> set (st_tr (s_recvBuf s)). Suc (unat (Seq x)) < 2 ^ 32)"

lemma takes_in_recv_ok:
  assumes "takes_in seg s s'" and "recv_ok s" and "Suc (unat (Seq seg)) < 2 ^ 32"
  shows "recv_ok s'"
proof -
  obtain m where m: "st_tr (s_recvQueue s') = st_tr (s_recvQueue s) @ m"
      "set m \<union> set (st_tr (s_recvBuf s')) \<subseteq> insert seg (set (st_tr (s_recvBuf s)))"
      "\<forall>i < length m. unat (Seq (m ! i)) = unat (s_nextRecv s) + i"
      "unat (s_nextRecv s') = unat (s_nextRecv s) + length m"
    using assms(1) unfolding takes_in_def by blast
  have "Seq x < s_nextRecv s'" if x: "x \<in> set m" for x
    using x m(3,4) by (auto simp: in_set_conv_nth word_less_nat_alt)
  moreover have "s_nextRecv s \<le> s_nextRecv s'" using m(4) by (simp add: word_le_nat_alt)
  ultimately show ?thesis using assms(2,3) m(1,2) unfolding recv_ok_def by fastforce
qed

text \<open>The acknowledgement that a segment carries.\<close>

definition ack_of :: "segment \<Rightarrow> nat" where
  "ack_of seg = (case seg_metadata seg of DataAckMD das \<Rightarrow> unat (das_unAckSeq das) | SessionMD _ \<Rightarrow> 0)"

definition handles :: "nat \<Rightarrow> nat \<Rightarrow> segment \<Rightarrow> session \<Rightarrow> session \<Rightarrow> bool" where
  "handles k u seg s s' \<longleftrightarrow> (\<exists>new. evolves u s s' new \<and> length new \<le> k \<and>
     (\<forall>x \<in> set new. seg_payload x = [])) \<and> takes_in seg s s'"

lemma handles_inv: "handles k u seg s s' \<Longrightarrow> session_inv s'"
  by (auto simp: handles_def dest: evolves_inv)

lemma handles_trans:
  assumes "handles k u seg s s1" and "handles l v seg s1 s2"
  shows "handles (k + l) (max u v) seg s s2"
proof -
  obtain n1 n2 where n: "evolves u s s1 n1" "length n1 \<le> k" "\<forall>x \<in> set n1. seg_payload x = []"
      "evolves v s1 s2 n2" "length n2 \<le> l" "\<forall>x \<in> set n2. seg_payload x = []"
    using assms unfolding handles_def by blast
  have "length (n1 @ n2) \<le> k + l" "\<forall>x \<in> set (n1 @ n2). seg_payload x = []"
    using n by auto
  then have "\<exists>new. evolves (max u v) s s2 new \<and> length new \<le> k + l \<and> (\<forall>x \<in> set new. seg_payload x = [])"
    using evolves_trans [OF n(1,4)] by blast
  then show ?thesis
    using assms takes_in_trans unfolding handles_def by blast
qed

lemma handles_trans0: "handles k u seg s s1 \<Longrightarrow> handles 0 0 seg s1 s2 \<Longrightarrow> handles k u seg s s2"
  using handles_trans [of k u seg s s1 0 0 s2] by simp

lemma handles_mono: "handles k u seg s s' \<Longrightarrow> k \<le> l \<Longrightarrow> u \<le> v \<Longrightarrow> handles l v seg s s'"
  unfolding handles_def by (meson evolves_mono le_trans)

lemma handles_closing: "handles k u seg s s' \<Longrightarrow> s_closeRequested s' \<Longrightarrow> handles k v seg s s'"
  unfolding handles_def by (meson evolves_closing)

lemma handles_frame: "evolves u s s' [] \<Longrightarrow> frame s s' \<Longrightarrow> handles 0 u seg s s'"
  by (auto simp: handles_def takes_in_frame intro!: exI [of _ "[]"])

lemma handles_quiet: "session_inv s \<Longrightarrow> quiet s s' \<Longrightarrow> s_wire s' = s_wire s \<Longrightarrow> handles 0 u seg s s'"
  by (rule handles_frame, rule evolves_quiet [where outs = "[]"]) (simp_all add: quiet_def)

lemma handles_refl: "session_inv s \<Longrightarrow> handles 0 u seg s s"
  by (simp add: handles_frame evolves_refl)

lemma handles_sends: "sends s s' \<Longrightarrow> handles 1 0 seg s s'"
  unfolding sends_def handles_def by (metis le_numeral_extra(4) list.size(3) takes_in_frame zero_le)

lemma handles_nextSend:
  assumes "handles k u seg s s'"
  shows "unat (s_nextSend s') \<le> unat (s_nextSend s) + k"
  using assms by (auto simp: handles_def dest: evolvesD(4))

section \<open>From the receive buffer to the receive queue\<close>

lemma recv_evolves:
  assumes "session_inv s"
    and "st_inv (s_recvBuf s')" and "st_cap (s_recvBuf s') = segmentTreeCapacity"
    and "st_inv (s_recvQueue s')" and "st_cap (s_recvQueue s') = segmentTreeCapacity"
    and "\<And>x. x \<in> set (st_tr (s_recvBuf s') @ st_tr (s_recvQueue s')) \<Longrightarrow> checkProtocolType x"
    and "s_nextRecv s \<le> s_nextRecv s'"
    and "s_sendQueue s' = s_sendQueue s" and "s_sendBuf s' = s_sendBuf s" and "s_nextSend s' = s_nextSend s"
    and "s_isClient s' = s_isClient s" and "s_transport s' = s_transport s" and "s_wire s' = s_wire s"
    and "s_state s' = s_state s" and "s_closed s' = s_closed s" and "s_closeRequested s' = s_closeRequested s"
    and "s_openSessionRequestSent s' = s_openSessionRequestSent s" and "s_closePending s' = s_closePending s"
  shows "evolves u s s' []"
proof -
  have u: "unacked s' = unacked s" "known s' = known s" by (simp_all add: unacked_def known_def assms)
  have "session_inv s'"
    using assms(1-6) unfolding session_inv_def u by (simp add: assms(8-18))
  then show ?thesis unfolding evolves_def u using assms(7) by (simp add: assms(8-18))
qed

lemmas recv_parts = frame_def unacked_def

context session_env
begin

text \<open>The two ways in which a segment leaves the receive buffer.\<close>

lemma drop_old_handles:
  assumes "session_inv s" and "st_tr (s_recvBuf s) = x # xs" and "st_tr t = xs"
    and "st_cap t = st_cap (s_recvBuf s)"
  shows "handles 0 0 seg s (s\<lparr>s_recvBuf := t\<rparr>)"
proof -
  note d = session_invD [OF assms(1)]
  have "st_inv t" using d(3) assms(2-4) by (simp add: st_inv_def sorted_items_def)
  then have "evolves 0 s (s\<lparr>s_recvBuf := t\<rparr>) []"
    using d(4,7,8,13) assms(2-4) by (intro recv_evolves [OF assms(1)]) auto
  then show ?thesis
    using assms(2,3) by (auto simp: handles_def takes_in_def intro!: exI [of _ "[]"])
qed

lemma deliver_handles:
  assumes "session_inv s" and "recv_ok s" and "st_tr (s_recvBuf s) = x # xs" and "st_tr t = xs"
    and "st_cap t = st_cap (s_recvBuf s)" and "Seq x = s_nextRecv s"
    and "st_tr q = st_tr (s_recvQueue s) @ [x]" and "st_cap q = st_cap (s_recvQueue s)"
    and "length (st_tr (s_recvQueue s)) < st_cap (s_recvQueue s)"
  shows "handles 0 0 seg s (s\<lparr>s_recvBuf := t, s_recvQueue := q, s_nextRecv := s_nextRecv s + 1,
    s_remoteWindowSize := w\<rparr>)" (is "handles 0 0 seg s ?s")
proof -
  note d = session_invD [OF assms(1)]
  have n: "unat (s_nextRecv s + 1) = Suc (unat (s_nextRecv s))"
    using assms(2,3,6) by (auto simp: recv_ok_def unat_word_ariths)
  have "st_inv t" using d(3) assms(3-5) by (simp add: st_inv_def sorted_items_def)
  moreover have "st_inv q"
    using d(4) assms(2,6-9) by (auto simp: st_inv_def sorted_items_def sorted_wrt_append recv_ok_def Less_def)
  moreover have "s_nextRecv s \<le> s_nextRecv s + 1" using n by (simp add: word_le_nat_alt)
  ultimately have "evolves 0 s ?s []"
    using d(7,8,13) assms(3-8) by (intro recv_evolves [OF assms(1)]) auto
  then show ?thesis
    using assms(3,4,6,7) n by (auto simp: handles_def takes_in_def intro!: exI [of _ "[]"] exI [of _ "[x]"])
qed

lemma moveRecvBufToRecvQueue_handles:
  assumes "session_inv s" and "recv_ok s"
  shows "\<exists>s'. moveRecvBufToRecvQueue E s = Some (False, s') \<and> handles 0 0 seg s s'"
  using assms
proof (induction "st_tr (s_recvBuf s)" arbitrary: s)
  case Nil
  note d = session_invD [OF Nil.prems(1)]
  show ?case
    using Nil.hyps [symmetric] d(3,4) handles_refl [OF Nil.prems(1)]
    by (subst moveRecvBufToRecvQueue.simps) (simp add: Remaining_eq DeleteMinIf_eq)
next
  case (Cons x xs)
  note d = session_invD [OF Cons.prems(1)] and buf = Cons.hyps(2) [symmetric]
  let ?t = "(if xs = [] then notifyEmpty else notifyNotEmpty) ((s_recvBuf s)\<lparr>st_tr := xs\<rparr>)"
  have t: "st_tr ?t = xs" "st_cap ?t = st_cap (s_recvBuf s)" by simp_all
  have go: "\<exists>s'. moveRecvBufToRecvQueue E s1 = Some (False, s') \<and> handles 0 0 seg s s'"
    if s1: "\<And>y. handles 0 0 y s s1" "xs = st_tr (s_recvBuf s1)" for s1
  proof -
    have "takes_in x s s1" using s1(1) [of x] by (simp add: handles_def)
    moreover have "Suc (unat (Seq x)) < 2 ^ 32" using Cons.prems(2) buf by (simp add: recv_ok_def)
    ultimately have "recv_ok s1" using takes_in_recv_ok Cons.prems(2) by blast
    from Cons.hyps(1) [OF s1(2) handles_inv [OF s1(1)] this] show ?thesis
      using handles_trans [OF s1(1) [of seg], of 0 0] by auto
  qed
  consider (full) "Remaining (e_bt E) (s_recvQueue s) \<le> 0"
    | (later) "\<not> Remaining (e_bt E) (s_recvQueue s) \<le> 0" "s_nextRecv s < Seq x"
    | (old) "\<not> Remaining (e_bt E) (s_recvQueue s) \<le> 0" "Seq x < s_nextRecv s"
    | (exact) "\<not> Remaining (e_bt E) (s_recvQueue s) \<le> 0" "Seq x = s_nextRecv s"
    using linorder_less_linear [of "Seq x" "s_nextRecv s"] by blast
  then show ?case
  proof cases
    case full
    then show ?thesis
      using handles_refl [OF Cons.prems(1)] by (subst moveRecvBufToRecvQueue.simps) simp
  next
    case later
    let ?s = "s\<lparr>s_recvBuf := notifyNotEmpty (s_recvBuf s)\<rparr>"
    have "moveRecvBufToRecvQueue E s = Some (False, ?s)"
      using later d(3) buf by (subst moveRecvBufToRecvQueue.simps) (simp add: DeleteMinIf_eq Let_def linorder_not_less [symmetric])
    moreover have "quiet s ?s" by (simp add: quiet_def frame_def)
    ultimately show ?thesis using handles_quiet [OF Cons.prems(1)] by auto
  next
    case old
    have "moveRecvBufToRecvQueue E s = moveRecvBufToRecvQueue E (s\<lparr>s_recvBuf := ?t\<rparr>)"
      using old d(3) buf by (subst moveRecvBufToRecvQueue.simps) (simp add: DeleteMinIf_eq Let_def less_imp_le)
    then show ?thesis
      using go [OF drop_old_handles [OF Cons.prems(1) buf t]] t(1) by simp
  next
    case exact
    let ?q = "(if find (\<lambda>y. Seq y = Seq x) (st_tr (s_recvQueue s)) = None then notifyNotEmpty else id)
                  ((s_recvQueue s)\<lparr>st_tr := ins_item x (st_tr (s_recvQueue s))\<rparr>)"
    define w where "w = (case seg_metadata x of DataAckMD das \<Rightarrow> ucast (das_windowSize das)
      | SessionMD _ \<Rightarrow> s_remoteWindowSize s)"
    have q: "st_tr ?q = st_tr (s_recvQueue s) @ [x]" "st_cap ?q = st_cap (s_recvQueue s)"
      using Cons.prems(2) exact by (simp_all add: ins_item_last recv_ok_def)
    have len: "length (st_tr (s_recvQueue s)) < st_cap (s_recvQueue s)"
      using exact(1) d(4) by (simp add: Remaining_eq)
    have "moveRecvBufToRecvQueue E s = moveRecvBufToRecvQueue E
        (s\<lparr>s_recvBuf := ?t, s_recvQueue := ?q, s_nextRecv := s_nextRecv s + 1, s_remoteWindowSize := w\<rparr>)"
      using exact d(3,4,13) buf len
      by (subst moveRecvBufToRecvQueue.simps)
         (simp add: DeleteMinIf_eq Insert_eq Let_def w_def split: metadata.split del: if_split)
    then show ?thesis
      using go [OF deliver_handles [OF Cons.prems buf t exact(2) q len]] t(1) by simp
  qed
qed

section \<open>The handlers\<close>

lemma insert_recv_handles:
  assumes "session_inv s" and "checkProtocolType seg" and "st_inv t"
    and "st_tr t = ins_item seg (st_tr (s_recvBuf s))" and "st_cap t = st_cap (s_recvBuf s)"
  shows "handles 0 0 seg s (s\<lparr>s_recvBuf := t\<rparr>)"
proof -
  note d = session_invD [OF assms(1)]
  have sub: "set (st_tr t) \<subseteq> insert seg (set (st_tr (s_recvBuf s)))"
    using assms(4) d(3) by (auto simp: set_ins_item st_inv_def)
  then have "evolves 0 s (s\<lparr>s_recvBuf := t\<rparr>) []"
    using d(4,7,8,13) assms(2,3,5) by (intro recv_evolves [OF assms(1)]) auto
  then show ?thesis
    using sub by (auto simp: handles_def takes_in_def intro!: exI [of _ "[]"])
qed

lemma wake_handles: "session_inv s \<Longrightarrow> handles 0 u seg s (requestPacketAck E s)"
    "session_inv s \<Longrightarrow> handles 0 u seg s (wakePacketOutput s)"
  by (auto simp: requestPacketAck_def wakePacketOutput_def quiet_def frame_def intro!: handles_quiet)

lemma wake_if_handles: "session_inv s \<Longrightarrow> handles 0 u seg s (if b then wakePacketOutput s else s)"
  using wake_handles(2) handles_refl by simp

lemma ack_part_handles:
  assumes "session_inv s"
  shows "\<exists>s'. (case seg_metadata seg of
             DataAckMD das \<Rightarrow> do {
               s' \<leftarrow> delete_acked E (das_unAckSeq das) s;
               Some (s'\<lparr>s_remoteWindowSize := ucast (das_windowSize das)\<rparr>) }
           | SessionMD _ \<Rightarrow> Some s) = Some s' \<and> handles 0 (ack_of seg) y s s' \<and> frame s s' \<and> s_closed s' = s_closed s"
proof (cases "seg_metadata seg")
  case (SessionMD ss)
  then show ?thesis using handles_refl [OF assms] by simp
next
  case (DataAckMD das)
  obtain s1 where s1: "delete_acked E (das_unAckSeq das) s = Some s1"
      "evolves (unat (das_unAckSeq das)) s s1 []" "frame s s1"
    using delete_acked_evolves [OF assms] by blast
  have cl: "s_closed s1 = s_closed s"
    using delete_acked_eq [OF session_invD(2) [OF assms], of "das_unAckSeq das"] s1(1) by auto
  let ?s = "s1\<lparr>s_remoteWindowSize := ucast (das_windowSize das)\<rparr>"
  have q: "frame s1 ?s" by (simp add: frame_def)
  have "handles 0 0 y s1 ?s"
    by (rule handles_quiet [OF evolves_inv [OF s1(2)]]) (simp_all add: quiet_def frame_def)
  from handles_trans [OF handles_frame [OF s1(2,3)] this] show ?thesis
    using DataAckMD s1(1) cl frame_trans [OF s1(3) q] by (simp add: ack_of_def)
qed

text \<open>The part of \<^verbatim>\<open>inputData\<close> before the segment enters the receive buffer.\<close>

lemma input_packet_data_split:
  assumes "session_inv s"
  shows "\<exists>s3. input_packet_data E seg s = (if receiveWindowSize E s3 \<le> 0 then Some (InOK, s3, True)
     else do {
       (ok, buf) \<leftarrow> Insert (e_bt E) seg (s_recvBuf s3);
       let s4 = s3\<lparr>s_recvBuf := buf\<rparr>;
       if \<not> ok then Some (InOK, s4, True)
       else (case waitForRecvQueueSpace E s4 of
               NoSpace \<Rightarrow> Some (InBlocked, s4, True)
             | SessionGone \<Rightarrow> Some (InOK, requestPacketAck E s4, False)
             | HasSpace \<Rightarrow> do {
                 (err, s5) \<leftarrow> moveRecvBufToRecvQueue E s4;
                 Some (if err then (InErr ErrInsertBack, s5, True)
                       else (InOK, requestPacketAck E s5, False)) }) }) \<and>
    handles 0 (ack_of seg) seg s s3 \<and> frame s s3 \<and> s_closed s3 = s_closed s"
proof -
  obtain s1 where s1: "(case seg_metadata seg of
             DataAckMD das \<Rightarrow> do {
               s' \<leftarrow> delete_acked E (das_unAckSeq das) s;
               Some (s'\<lparr>s_remoteWindowSize := ucast (das_windowSize das)\<rparr>) }
           | SessionMD _ \<Rightarrow> Some s) = Some s1" "handles 0 (ack_of seg) seg s s1" "frame s s1" "s_closed s1 = s_closed s"
    using ack_part_handles [OF assms(1)] by blast
  define s2 where "s2 = (if Len (e_bt E) (s_sendQueue s1) > 0 then wakePacketOutput s1 else s1)"
  define s3 where "s3 = requestPacketAck E s2"
  have h2: "handles 0 (ack_of seg) seg s s2"
    unfolding s2_def by (rule handles_trans0 [OF s1(2) wake_if_handles [OF handles_inv [OF s1(2)]]])
  have h3: "handles 0 (ack_of seg) seg s s3"
    unfolding s3_def by (rule handles_trans0 [OF h2 wake_handles(1) [OF handles_inv [OF h2]]])
  have f3: "frame s s3" "s_closed s3 = s_closed s"
    using s1(3,4) by (auto simp: s3_def s2_def requestPacketAck_def wakePacketOutput_def frame_def)
  show ?thesis
    unfolding input_packet_data_def s1(1) using h3 f3
    by (intro exI [of _ s3]) (simp add: s2_def s3_def Let_def)
qed

lemma input_packet_data_handles:
  assumes "session_inv s" and "recv_ok s" and "checkProtocolType seg" and "Suc (unat (Seq seg)) < 2 ^ 32"
  shows "\<exists>s' returned. input_packet_data E seg s = Some (InOK, s', returned) \<and>
    handles 0 (ack_of seg) seg s s' \<and>
    (\<not> s_closed s \<and> 0 < receiveWindowSize E s \<longrightarrow> \<not> returned \<and>
      (\<exists>t err s5. session_inv t \<and> recv_ok t \<and> seg \<in> set (st_tr (s_recvBuf t)) \<and> s_nextRecv t = s_nextRecv s \<and>
        0 < Remaining (e_bt E) (s_recvQueue t) \<and> moveRecvBufToRecvQueue E t = Some (err, s5) \<and>
        s_nextRecv s' = s_nextRecv s5))"
proof -
  obtain s3 where eq: "input_packet_data E seg s = (if receiveWindowSize E s3 \<le> 0 then Some (InOK, s3, True)
     else do {
       (ok, buf) \<leftarrow> Insert (e_bt E) seg (s_recvBuf s3);
       let s4 = s3\<lparr>s_recvBuf := buf\<rparr>;
       if \<not> ok then Some (InOK, s4, True)
       else (case waitForRecvQueueSpace E s4 of
               NoSpace \<Rightarrow> Some (InBlocked, s4, True)
             | SessionGone \<Rightarrow> Some (InOK, requestPacketAck E s4, False)
             | HasSpace \<Rightarrow> do {
                 (err, s5) \<leftarrow> moveRecvBufToRecvQueue E s4;
                 Some (if err then (InErr ErrInsertBack, s5, True)
                       else (InOK, requestPacketAck E s5, False)) }) })"
    and h3: "handles 0 (ack_of seg) seg s s3" and f3: "frame s s3" "s_closed s3 = s_closed s"
    using input_packet_data_split [OF assms(1)] by blast
  note d = session_invD [OF handles_inv [OF h3]]
  have win: "receiveWindowSize E s3 = receiveWindowSize E s"
    using f3(1) session_invD(3,4) [OF assms(1)] d(3,4) by (simp add: receiveWindowSize_def Len_eq frame_def)
  show ?thesis
  proof (cases "receiveWindowSize E s3 \<le> 0")
    case True
    then show ?thesis using eq h3 win by auto
  next
    case False
    let ?t = "(if find (\<lambda>y. Seq y = Seq seg) (st_tr (s_recvBuf s3)) = None then notifyNotEmpty else id)
                  ((s_recvBuf s3)\<lparr>st_tr := ins_item seg (st_tr (s_recvBuf s3))\<rparr>)"
    let ?s4 = "s3\<lparr>s_recvBuf := ?t\<rparr>"
    have len: "length (st_tr (s_recvBuf s3)) < st_cap (s_recvBuf s3)"
        "length (st_tr (s_recvQueue s3)) < st_cap (s_recvQueue s3)"
      using False d(3,4,7,8) by (auto simp: receiveWindowSize_def Len_eq Max_go_def)
    have ins: "Insert (e_bt E) seg (s_recvBuf s3) = Some (True, ?t)"
      using d(3) assms(3) len(1) by (simp add: Insert_eq)
    have "st_inv ?t" using st_inv_ins [OF d(3) len(1)] by simp
    then have "handles 0 0 seg s3 ?s4"
      by (intro insert_recv_handles [OF handles_inv [OF h3] assms(3)]) simp_all
    from handles_trans0 [OF h3 this] have h4: "handles 0 (ack_of seg) seg s ?s4" .
    have "takes_in seg s ?s4" using h4 by (simp add: handles_def)
    then have ok4: "recv_ok ?s4" by (rule takes_in_recv_ok [OF _ assms(2,4)])
    have gone: "handles 0 (ack_of seg) seg s (requestPacketAck E s5)" if "handles 0 (ack_of seg) seg s s5" for s5
      by (rule handles_trans0 [OF that wake_handles(1) [OF handles_inv [OF that]]])
    obtain s5 where s5: "moveRecvBufToRecvQueue E ?s4 = Some (False, s5)" "handles 0 0 seg ?s4 s5"
      using moveRecvBufToRecvQueue_handles [OF handles_inv [OF h4] ok4] by blast
    have h5: "handles 0 (ack_of seg) seg s s5" by (rule handles_trans0 [OF h4 s5(2)])
    have rem: "0 < Remaining (e_bt E) (s_recvQueue ?s4)" using len(2) d(4) by (simp add: Remaining_eq)
    show ?thesis
    proof (cases "s_closed s")
      case True
      then have "input_packet_data E seg s = Some (InOK, requestPacketAck E ?s4, False)"
        using eq False ins f3(2) by (simp add: waitForRecvQueueSpace_def)
      then show ?thesis using gone [OF h4] True by blast
    next
      case open': False
      have "input_packet_data E seg s = Some (InOK, requestPacketAck E s5, False)"
        using eq False ins f3(2) open' rem s5(1) by (simp add: waitForRecvQueueSpace_def)
      moreover have "s_nextRecv (requestPacketAck E s5) = s_nextRecv s5"
        by (simp add: requestPacketAck_def wakePacketOutput_def)
      moreover have "seg \<in> set (st_tr (s_recvBuf ?s4))" "s_nextRecv ?s4 = s_nextRecv s"
        using d(3) f3(1) by (simp_all add: set_ins_item st_inv_def frame_def)
      ultimately show ?thesis
        using gone [OF h5] handles_inv [OF h4] ok4 rem s5(1)
        by blast
    qed
  qed
qed

end

text \<open>
  What may be forgotten after an answer of \<open>input\<close>: everything when it is an error, because the
  session is then closed, and otherwise what the segment acknowledges.
\<close>

definition forgets :: "input_result \<Rightarrow> segment \<Rightarrow> nat" where
  "forgets r seg = (case r of InErr _ \<Rightarrow> 2 ^ 32 | _ \<Rightarrow> ack_of seg)"

lemma ack_of_less: "ack_of seg < 2 ^ 32"
  using unsigned_less [of "das_unAckSeq das" for das, where 'a = nat]
  by (auto simp: ack_of_def split: metadata.split)

lemma forgets_ge: "ack_of seg \<le> forgets r seg"
  using ack_of_less [of seg] by (auto simp: forgets_def split: input_result.split)

lemma handles_direct:
  assumes "evolves u s s' [seg]" and "frame s s'" and "seg_payload seg = []"
  shows "handles 1 u y s s'"
  using assms takes_in_frame by (auto simp: handles_def intro!: exI [of _ "[seg]"])

context session_env
begin

lemma answer_open_handles:
  assumes "session_inv s" and "\<not> s_isClient s" and "Suc (Suc (unat (s_nextSend s))) < 2 ^ 32"
  shows "\<exists>r s'. answer_open E s = Some (r, s') \<and> handles 1 (forgets r seg) seg s s'"
proof (cases "UserName s \<noteq> '''' \<and> \<not> checkQuota E (UserName s) s")
  case True
  let ?q = "s\<lparr>s_status := statusQuotaExhausted\<rparr>"
  have q: "handles 0 0 seg s ?q" by (rule handles_quiet [OF assms(1)]) (simp_all add: quiet_def frame_def)
  obtain s' where s': "closeWithError E True ?q = Some s'" "sends ?q s'"
    using close_sends [OF handles_inv [OF q], of True] assms(3) by (auto simp: room_def)
  have "handles 1 0 seg s s'" using handles_trans [OF q handles_sends [OF s'(2)]] by simp
  then show ?thesis
    using True s'(1) handles_mono forgets_ge by (auto simp: answer_open_def Close_def)
next
  case False
  note d = session_invD [OF assms(1)]
  let ?seg = "session_seg openSessionResponse 0 s"
  let ?n = "s\<lparr>s_nextSend := s_nextSend s + 1\<rparr>"
  have seg: "Seq ?seg = s_nextSend s" "typed ?seg" "ack_ok 0 ?seg" "checkProtocolType ?seg" "sendable ?seg"
    by (simp_all add: checkProtocolType_def isProtocol_defs sendable_def)
  show ?thesis
  proof (cases "length (st_tr (s_sendQueue s)) < st_cap (s_sendQueue s)")
    case full: False
    let ?s = "?n\<lparr>s_sendQueue := notifyNotEmpty (s_sendQueue s)\<rparr>"
    have fr: "frame s ?s" by (simp add: frame_def)
    have "evolves (2 ^ 32) s ?s [?seg]"
      using assms(3) by (intro direct_evolves [OF assms(1) fr _ _ seg(1-3)]) (simp_all add: unacked_def)
    from handles_direct [OF this fr] have "handles 1 (2 ^ 32) seg s ?s" by simp
    moreover have "answer_open E s = Some (InErr ErrInsertSendQueue, ?s)"
      using False full d(1) seg(4) by (auto simp: answer_open_def Let_def Insert_eq)
    ultimately show ?thesis by (simp add: forgets_def)
  next
    case True
    let ?t = "(if find (\<lambda>y. Seq y = Seq ?seg) (st_tr (s_sendQueue s)) = None then notifyNotEmpty else id)
                  ((s_sendQueue s)\<lparr>st_tr := ins_item ?seg (st_tr (s_sendQueue s))\<rparr>)"
    let ?s = "forwardStateTo sessionEstablished (?n\<lparr>s_sendQueue := ?t\<rparr>)"
    have fr: "frame s ?s" by (simp add: frame_def forwardStateTo_def)
    have "evolves 0 s ?s [?seg]"
      using assms(2,3)
      by (intro enqueue_evolves(1) [OF assms(1) seg(1,5) _ True fr]) (simp_all add: forwardStateTo_def)
    from handles_direct [OF this fr] have "handles 1 0 seg s ?s" by simp
    moreover have "answer_open E s = Some (InOK, ?s)"
      using False True d(1) seg(4) by (auto simp: answer_open_def Let_def Insert_eq)
    ultimately show ?thesis by (auto simp: forgets_def intro: handles_mono)
  qed
qed

lemma inputData_handles:
  assumes "session_inv s" and "recv_ok s" and "s_transport s = PacketTransport"
    and "checkProtocolType seg" and "Suc (unat (Seq seg)) < 2 ^ 32"
    and "Suc (Suc (unat (s_nextSend s))) < 2 ^ 32"
  shows "\<exists>r s'. inputData E seg s = Some (r, s') \<and> handles 1 (forgets r seg) seg s s'"
proof -
  obtain s1 ret where s1: "input_packet_data E seg s = Some (InOK, s1, ret)" "handles 0 (ack_of seg) seg s s1"
    using input_packet_data_handles [OF assms(1,2,4,5)] by blast
  have ok: "handles 1 (forgets InOK seg) seg s s1"
    using s1(2) by (auto simp: forgets_def intro: handles_mono)
  show ?thesis
  proof (cases "ret \<or> \<not> (\<not> s_isClient s1 \<and> seg_Protocol seg = openSessionRequest \<and> isState s1 sessionAttached)")
    case True
    then show ?thesis using ok s1(1) assms(3) by (auto simp: inputData_def)
  next
    case False
    have "Suc (Suc (unat (s_nextSend s1))) < 2 ^ 32"
      using assms(6) handles_nextSend [OF s1(2)] by simp
    then obtain r s2 where s2: "answer_open E s1 = Some (r, s2)" "handles 1 (forgets r seg) seg s1 s2"
      using answer_open_handles [OF handles_inv [OF s1(2)]] False by blast
    have "handles 1 (forgets r seg) seg s s2"
      using handles_trans [OF s1(2) s2(2)] forgets_ge [of seg r] by (simp add: max_absorb2)
    then show ?thesis using False s1(1) s2(1) assms(3) by (auto simp: inputData_def)
  qed
qed

end

lemma ascend_count:
  assumes "\<And>x. x \<in> set xs \<Longrightarrow> sendable x"
  shows "map core (snd (ascend_items (count_ack u) () xs)) = map core xs \<and>
    (\<forall>y \<in> set (snd (ascend_items (count_ack u) () xs)). sendable y)"
  using assms
proof (induction xs)
  case (Cons x xs)
  have "core (x\<lparr>seg_ackCount := n\<rparr>) = core x" "sendable (x\<lparr>seg_ackCount := n\<rparr>) = sendable x" for n
    by (simp_all add: core_def sendable_def typed_def Seq_def seg_Protocol_def checkProtocolType_def)
  then show ?case
    using Cons by (auto simp: count_ack_def split: prod.split)
qed simp

context session_env
begin

lemma inputAck_handles:
  assumes "session_inv s" and "s_transport s = PacketTransport" and "seg_metadata seg = DataAckMD das"
  shows "\<exists>s'. inputAck E seg s = Some (InOK, s') \<and> handles 0 (ack_of seg) seg s s'"
proof -
  let ?u = "das_unAckSeq das"
  obtain s1 where s1: "delete_acked E ?u s = Some s1" "evolves (unat ?u) s s1 []" "frame s s1"
    using delete_acked_evolves [OF assms(1)] by blast
  have h1: "handles 0 (ack_of seg) seg s s1"
    using handles_frame [OF s1(2,3)] assms(3) by (simp add: ack_of_def)
  note d = session_invD [OF handles_inv [OF h1]]
  let ?s2 = "s1\<lparr>s_remoteWindowSize := ucast (das_windowSize das)\<rparr>"
  let ?ys = "snd (ascend_items (count_ack ?u) () (st_tr (s_sendBuf s1)))"
  let ?s3 = "?s2\<lparr>s_sendBuf := (s_sendBuf s1)\<lparr>st_tr := ?ys\<rparr>\<rparr>"
  have ys: "map core ?ys = map core (st_tr (s_sendBuf s1))" "\<forall>y \<in> set ?ys. sendable y"
    using ascend_count [of "st_tr (s_sendBuf s1)" ?u] d(11) by (simp_all add: unacked_def)
  have fr: "frame s1 ?s3" by (simp add: frame_def)
  have len: "length ?ys = length (st_tr (s_sendBuf s1))" using map_eq_imp_length_eq [OF ys(1)] .
  have "evolves 0 s1 ?s3 []"
    by (rule same_cores_evolves [OF handles_inv [OF h1] fr, where outs = "[]"])
       (use ys len d(1,2,11) in \<open>auto simp: unacked_def st_inv_def\<close>)
  then have h3: "handles 0 (ack_of seg) seg s ?s3"
    using handles_trans0 [OF h1 handles_frame [OF _ fr]] by simp
  let ?s4 = "if Len (e_bt E) (s_sendQueue ?s3) > 0 then wakePacketOutput ?s3 else ?s3"
  have "handles 0 (ack_of seg) seg s ?s4"
    by (rule handles_trans0 [OF h3 wake_if_handles [OF handles_inv [OF h3]]])
  moreover have "inputAck E seg s = Some (InOK, ?s4)"
    using assms(2,3) s1(1) d(2) by (simp add: inputAck_def Ascend_eq Let_def case_prod_beta)
  ultimately show ?thesis by blast
qed

lemma inputClose_handles:
  assumes "session_inv s" and "seg_metadata seg = SessionMD ss" and "Suc (Suc (unat (s_nextSend s))) < 2 ^ 32"
  shows "\<exists>r s'. inputClose E seg s = Some (r, s') \<and> handles (if r = InOK then 2 else 1) (forgets r seg) seg s s'"
proof (cases "seg_Protocol seg = closeSessionRequest")
  case True
  let ?seg = "session_seg closeSessionResponse statusOK s"
  let ?n = "s\<lparr>s_nextSend := s_nextSend s + 1\<rparr>"
  obtain err s2 where o: "output_seg E ?seg ?n = (err, s2)" by fastforce
  have seg: "Seq ?seg = s_nextSend s" "typed ?seg" "ack_ok 0 ?seg"
    by (simp_all add: isProtocol_defs)
  have s2: "s2 = ?n \<or> s2 = ?n\<lparr>s_wire := s_wire s @ [?seg], s_lastSend := Seq ?seg, s_lastTXTime := e_now E\<rparr>"
    using output_seg_cases [of E ?seg ?n] by (simp add: o)
  have fr: "frame s s2" using s2 by (auto simp: frame_def)
  have "evolves (2 ^ 32) s s2 [?seg]"
    using assms(3) s2 by (intro direct_evolves [OF assms(1) fr _ _ seg]) (auto simp: unacked_def)
  from handles_direct [OF this fr] have h2: "handles 1 (2 ^ 32) seg s s2" by simp
  obtain s3 where s3: "closeWithError E True s2 = Some s3" "sends s2 s3" "s_closeRequested s3"
    using close_sends [OF handles_inv [OF h2], of True] handles_nextSend [OF h2] assms(3) by (auto simp: room_def)
  have "handles 2 (2 ^ 32) seg s s3"
    using handles_trans [OF h2 handles_sends [OF s3(2)]] by (simp add: numeral_2_eq_2)
  then have h3: "handles 2 (forgets InOK seg) seg s s3" using s3(3) by (rule handles_closing)
  show ?thesis
    using True o h2 h3 s3(1) assms(2) by (cases err) (auto simp: inputClose_def Close_def Let_def forgets_def)
next
  case False
  obtain s1 where s1: "closeWithError E True s = Some s1" "sends s s1"
    using close_sends [OF assms(1), of True] assms(3) by (auto simp: room_def)
  then have "handles 2 (forgets InOK seg) seg s s1"
    using handles_mono [OF handles_sends [OF s1(2)]] by simp
  moreover have "handles 2 (forgets InOK seg) seg s s"
    using handles_mono [OF handles_refl [OF assms(1), of 0]] by simp
  ultimately show ?thesis
    using False s1(1) by (auto simp: inputClose_def Close_def)
qed

end

text \<open>The fields that the identification of the user sets are of no concern to the queues.\<close>

definition same_traffic :: "session \<Rightarrow> session \<Rightarrow> bool" where
  "same_traffic s s' \<longleftrightarrow> quiet s s' \<and> s_wire s' = s_wire s"

lemma same_traffic_updates:
  "same_traffic s s"
  "same_traffic s (s'\<lparr>s_block := b\<rparr>) = same_traffic s s'"
  "same_traffic s (s'\<lparr>s_pendingServerUserPolicies := m\<rparr>) = same_traffic s s'"
  "same_traffic s (s'\<lparr>s_userPolicy := p\<rparr>) = same_traffic s s'"
  "same_traffic s (s'\<lparr>s_userName := n\<rparr>) = same_traffic s s'"
  "same_traffic s (s'\<lparr>s_uploadBytes := up, s_downloadBytes := down\<rparr>) = same_traffic s s'"
  by (simp_all add: same_traffic_def quiet_def frame_def)

lemma same_traffic_trans: "same_traffic s s1 \<Longrightarrow> same_traffic s1 s2 \<Longrightarrow> same_traffic s s2"
  by (auto simp: same_traffic_def intro: quiet_trans)

lemma input_policy_traffic:
  assumes "input_policy u seg s = Some s'"
  shows "same_traffic s s'"
proof -
  have *: "P s2"
    if "(case p of Some c \<Rightarrow> if a1 c then None else if a2 c then None else Some t
         | None \<Rightarrow> if b1 then (if b2 then None else Some t') else Some t) = Some s2" "P t" "P t'"
    for p :: "Policy option" and a1 a2 b1 b2 and s2 t t' :: session and P
    using that by (auto split: option.splits if_splits)
  show ?thesis
    by (rule * [OF assms [unfolded input_policy_def Let_def]])
       (simp_all only: same_traffic_updates)
qed

lemma input_block_traffic:
  assumes "input_block seg s = Some s'"
  shows "same_traffic s s'"
proof (cases "seg_block seg")
  case None
  then show ?thesis using assms by (simp add: input_block_def same_traffic_updates)
next
  case (Some u)
  let ?s1 = "s\<lparr>s_block := Some u\<rparr>"
  have if_same: "same_traffic s (if c then x else y)" if "same_traffic s x" "same_traffic s y" for c x y
    using that by simp
  obtain s2 where s2: "(if \<not> s_isClient ?s1 then input_policy u seg ?s1 else Some ?s1) = Some s2"
    and s': "s' = (let s3 = (if UserName s2 = '''' \<and> u \<noteq> '''' then s2\<lparr>s_userName := Some u\<rparr> else s2)
      in if s_isClient s3 then s3
         else s3\<lparr>s_uploadBytes := (case s_uploadBytes s3 of None \<Rightarrow> Some 0 | x \<Rightarrow> x),
                 s_downloadBytes := (case s_downloadBytes s3 of None \<Rightarrow> Some 0 | x \<Rightarrow> x)\<rparr>)"
    using assms unfolding input_block_def Some option.case Let_def
    by (auto simp del: if_split split: if_split_asm elim!: bind_eq_Some_conv [THEN iffD1, elim_format])
  have "same_traffic s ?s1" by (simp only: same_traffic_updates)
  then have "same_traffic s s2"
    using s2 input_policy_traffic same_traffic_trans by (cases "s_isClient ?s1") auto
  then show ?thesis
    unfolding s' Let_def by (simp only: if_same same_traffic_updates)
qed

context session_env
begin

lemma input_handles:
  assumes "session_inv s" and "recv_ok s" and "s_transport s = PacketTransport" and "typed seg"
    and "checkProtocolType seg \<Longrightarrow> Suc (unat (Seq seg)) < 2 ^ 32" and "Suc (Suc (unat (s_nextSend s))) < 2 ^ 32"
    and "accepts_protocol (s_isClient s) (seg_Protocol seg) \<Longrightarrow> input_block seg s = Some s1"
  shows "\<exists>r s'. input E seg s = Some (r, s') \<and> handles (if r = InOK then 2 else 1) (forgets r seg) seg s s'"
proof (cases "accepts_protocol (s_isClient s) (seg_Protocol seg)")
  case False
  then show ?thesis
    using handles_mono [OF handles_refl [OF assms(1), of 0]] by (auto simp: input_def forgets_def)
next
  case True
  let ?p = "seg_Protocol seg"
  let ?s2 = "s1\<lparr>s_lastRXTime := e_now E\<rparr>"
  define s3 where "s3 = (if \<not> s_isClient ?s2 \<and> ?p = dataClientToServerLowEntropy
    then ?s2\<lparr>s_clientUseLowEntropy := True\<rparr> else ?s2)"
  have q: "quiet s s3" "s_wire s3 = s_wire s"
    using input_block_traffic [OF assms(7) [OF True]] by (auto simp: s3_def same_traffic_def quiet_def frame_def)
  have h3: "handles 0 0 seg s s3" by (rule handles_quiet [OF assms(1) q])
  have ok3: "recv_ok s3" "s_transport s3 = PacketTransport" "Suc (Suc (unat (s_nextSend s3))) < 2 ^ 32"
    using q(1) assms(2,3,6) by (simp_all add: recv_ok_def quiet_def frame_def)
  have via: "handles k u seg s s'" if "handles k u seg s3 s'" for k u s'
    using handles_trans [OF h3 that] by simp
  have eq: "input E seg s =
     (if ?p = openSessionRequest \<or> ?p = openSessionResponse \<or> isDataProtocol ?p then do {
             (r, s4) \<leftarrow> inputData E seg s3;
             Some (r, if r = InOK \<and> isClientPacketSessionOpenResponse s4 seg
                      then wakePacketOutput (forwardStateTo sessionEstablished s4) else s4) }
           else if isAckProtocol ?p then inputAck E seg s3
           else if ?p = closeSessionRequest \<or> ?p = closeSessionResponse then inputClose E seg s3
           else Some (InOK, s3))"
    using True assms(7) [OF True] unfolding input_def Let_def s3_def by (simp del: if_split)
  consider (data) "?p = openSessionRequest \<or> ?p = openSessionResponse \<or> isDataProtocol ?p"
    | (ack) "\<not> (?p = openSessionRequest \<or> ?p = openSessionResponse \<or> isDataProtocol ?p)" "isAckProtocol ?p"
    | (close) "\<not> (?p = openSessionRequest \<or> ?p = openSessionResponse \<or> isDataProtocol ?p)" "\<not> isAckProtocol ?p"
        "?p = closeSessionRequest \<or> ?p = closeSessionResponse"
    using True by (auto simp: accepts_protocol_def isProtocol_defs split: if_split_asm)
  then show ?thesis
  proof cases
    case data
    then have c: "checkProtocolType seg" by (auto simp: checkProtocolType_def isProtocol_defs)
    obtain r s4 where s4: "inputData E seg s3 = Some (r, s4)" "handles 1 (forgets r seg) seg s3 s4"
      using inputData_handles [OF handles_inv [OF h3] ok3(1,2) c assms(5) [OF c] ok3(3)] by blast
    let ?s5 = "if r = InOK \<and> isClientPacketSessionOpenResponse s4 seg
                      then wakePacketOutput (forwardStateTo sessionEstablished s4) else s4"
    have "handles 0 0 seg s4 ?s5"
      by (rule handles_quiet [OF handles_inv [OF s4(2)]])
         (simp_all add: quiet_def frame_def wakePacketOutput_def forwardStateTo_def)
    then have "handles 1 (forgets r seg) seg s ?s5" by (intro via handles_trans0 [OF s4(2)])
    then have "handles (if r = InOK then 2 else 1) (forgets r seg) seg s ?s5" by (auto intro: handles_mono)
    moreover have "input E seg s = Some (r, ?s5)" unfolding eq using data s4(1) by (simp del: if_split)
    ultimately show ?thesis by blast
  next
    case ack
    obtain das where das: "seg_metadata seg = DataAckMD das"
      using ack(2) assms(4) by (auto simp: typed_def seg_Protocol_def isProtocol_defs protocolType_defs split: metadata.splits)
    obtain s4 where s4: "inputAck E seg s3 = Some (InOK, s4)" "handles 0 (ack_of seg) seg s3 s4"
      using inputAck_handles [OF handles_inv [OF h3] ok3(2) das] by blast
    have "handles 2 (ack_of seg) seg s s4" using handles_mono [OF via [OF s4(2)]] by simp
    moreover have "input E seg s = Some (InOK, s4)" unfolding eq using ack s4(1) by simp
    ultimately show ?thesis by (auto simp: forgets_def)
  next
    case close
    obtain ss where ss: "seg_metadata seg = SessionMD ss"
      using close(3) assms(4) by (auto simp: typed_def seg_Protocol_def isProtocol_defs protocolType_defs split: metadata.splits)
    obtain r s4 where s4: "inputClose E seg s3 = Some (r, s4)"
        "handles (if r = InOK then 2 else 1) (forgets r seg) seg s3 s4"
      using inputClose_handles [OF handles_inv [OF h3] ss ok3(3)] by blast
    moreover have "input E seg s = inputClose E seg s3" unfolding eq using close by simp
    ultimately show ?thesis using via by auto
  qed
qed

lemma input_loop_step_handles:
  assumes "session_inv s" and "recv_ok s" and "s_transport s = PacketTransport" and "typed seg"
    and "checkProtocolType seg \<Longrightarrow> Suc (unat (Seq seg)) < 2 ^ 32" and "Suc (Suc (unat (s_nextSend s))) < 2 ^ 32"
    and "accepts_protocol (s_isClient s) (seg_Protocol seg) \<Longrightarrow> input_block seg s = Some s1"
  shows "\<exists>r s'. input_loop_step E seg s = Some (r, s') \<and> handles 2 (ack_of seg) seg s s'"
proof (cases "s_closed s")
  case True
  then show ?thesis
    using handles_mono [OF handles_refl [OF assms(1), of 0]] by (auto simp: input_loop_step_def)
next
  case False
  obtain r s2 where s2: "input E seg s = Some (r, s2)" "handles (if r = InOK then 2 else 1) (forgets r seg) seg s s2"
    using input_handles [OF assms] by blast
  show ?thesis
  proof (cases r)
    case (InErr e)
    let ?m = "s2\<lparr>s_inputHasErr := True\<rparr>"
    have h2: "handles 1 (2 ^ 32) seg s s2" using s2(2) InErr by (simp add: forgets_def)
    have "handles 0 0 seg s2 ?m"
      by (rule handles_quiet [OF handles_inv [OF h2]]) (simp_all add: quiet_def frame_def)
    from handles_trans0 [OF h2 this] have hm: "handles 1 (2 ^ 32) seg s ?m" .
    have "room ?m" using handles_nextSend [OF hm] assms(6) by (simp add: room_def)
    then obtain s3 where s3: "closeWithError E False ?m = Some s3" "sends ?m s3" "s_closeRequested s3"
      using close_sends [OF handles_inv [OF hm], of False] by blast
    have "handles 2 (2 ^ 32) seg s s3"
      using handles_trans [OF hm handles_sends [OF s3(2)]] by (simp add: numeral_2_eq_2)
    then have "handles 2 (ack_of seg) seg s s3" using s3(3) by (rule handles_closing)
    then show ?thesis using False s2(1) InErr s3(1) by (auto simp: input_loop_step_def)
  qed (use False s2 handles_mono in \<open>auto simp: input_loop_step_def forgets_def\<close>)
qed

end

section \<open>Reading\<close>

text \<open>The bytes that the application has not read yet.\<close>

definition pending :: "session \<Rightarrow> bytes" where
  "pending s = s_unreadBuf s @ concat (map seg_payload (st_tr (s_recvQueue s)))"

definition reads :: "session \<Rightarrow> session \<Rightarrow> bool" where
  "reads s s' \<longleftrightarrow> evolves 0 s s' [] \<and> s_nextRecv s' = s_nextRecv s \<and>
     st_tr (s_recvBuf s') = st_tr (s_recvBuf s) \<and> (\<exists>k. st_tr (s_recvQueue s') = drop k (st_tr (s_recvQueue s)))"

lemma reads_trans: "reads s s1 \<Longrightarrow> reads s1 s2 \<Longrightarrow> reads s s2"
  using evolves_trans0 [of s s1 "[]" s2 "[]"] unfolding reads_def by (auto simp: drop_drop)

lemma reads_inv: "reads s s' \<Longrightarrow> session_inv s'"
  by (auto simp: reads_def dest: evolves_inv)

lemma reads_refl: "session_inv s \<Longrightarrow> reads s s"
  by (auto simp: reads_def evolves_refl intro!: exI [of _ 0])

lemma reads_quiet: "session_inv s \<Longrightarrow> quiet s s' \<Longrightarrow> s_wire s' = s_wire s \<Longrightarrow> reads s s'"
  using evolves_quiet [of s s' "[]" 0] by (auto simp: reads_def quiet_def frame_def intro!: exI [of _ 0])

lemma reads_recv_ok: "reads s s' \<Longrightarrow> recv_ok s \<Longrightarrow> recv_ok s'"
  using in_set_dropD by (fastforce simp: reads_def recv_ok_def)

lemma reads_unread: "session_inv s \<Longrightarrow> reads s (s\<lparr>s_unreadBuf := u\<rparr>)"
  unfolding reads_def using session_invD [of s]
  by (auto intro!: recv_evolves exI [of _ 0])

lemma reads_pop:
  assumes "session_inv s" and "st_tr (s_recvQueue s) = x # xs" and "st_tr q = xs"
    and "st_cap q = st_cap (s_recvQueue s)"
  shows "reads s (s\<lparr>s_recvQueue := q\<rparr>)"
proof -
  note d = session_invD [OF assms(1)]
  have "st_inv q" using d(4) assms(2-4) by (simp add: st_inv_def sorted_items_def)
  then have "evolves 0 s (s\<lparr>s_recvQueue := q\<rparr>) []"
    using d(3,7,8,13) assms(2-4) by (intro recv_evolves [OF assms(1)]) auto
  then show ?thesis using assms(2,3) by (auto simp: reads_def intro!: exI [of _ 1])
qed

text \<open>What a pass of \<^verbatim>\<open>Read\<close> returns: the next bytes, at least one if any is pending.\<close>

definition read_ok :: "nat \<Rightarrow> bytes \<Rightarrow> session \<Rightarrow> bytes option \<Rightarrow> session \<Rightarrow> bool" where
  "read_ok m acc s r s' \<longleftrightarrow> reads s s' \<and>
     (case r of
        None \<Rightarrow> acc = [] \<and> pending s = [] \<and> pending s' = []
      | Some b \<Rightarrow> (\<exists>d. b = acc @ d \<and> length d \<le> m \<and> d @ pending s' = pending s \<and>
          (d = [] \<longrightarrow> acc \<noteq> [] \<and> pending s = [])))"

lemma read_ok_cons:
  assumes "read_ok (m - length c) (acc @ c) s1 r s'" and "reads s s1" and "pending s = c @ pending s1"
    and "length c \<le> m"
  shows "read_ok m acc s r s'"
  using assms reads_trans [OF assms(2)]
  by (fastforce simp: read_ok_def split: option.splits)

context session_env
begin

lemma read_queue:
  assumes "session_inv s" and "s_unreadBuf s = []" and "0 < m"
  shows "\<exists>r s'. read_loop E m acc s = Some (r, s') \<and> read_ok m acc s r s'"
  using assms
proof (induction "st_tr (s_recvQueue s)" arbitrary: s m acc)
  case Nil
  note d = session_invD [OF Nil.prems(1)]
  have "read_loop E m acc s = Some (if acc \<noteq> [] then Some acc else None, s)"
    using Nil.prems Nil.hyps d(4) by (subst read_loop.simps) (simp add: Len_eq)
  moreover have "pending s = []" using Nil by (simp add: pending_def)
  ultimately show ?case using reads_refl [OF Nil.prems(1)] by (auto simp: read_ok_def)
next
  case (Cons x xs)
  note d = session_invD [OF Cons.prems(1)] and queue = Cons.hyps(2) [symmetric]
  let ?q = "(if xs = [] then notifyEmpty else notifyNotEmpty) ((s_recvQueue s)\<lparr>st_tr := xs\<rparr>)"
  let ?p = "s\<lparr>s_recvQueue := ?q\<rparr>"
  let ?f = "if s_isClient ?p \<and> seg_Protocol x = openSessionResponse \<and> isState ?p sessionAttached
            then forwardStateTo sessionEstablished ?p else ?p"
  let ?c = "take m (seg_payload x)"
  let ?u = "if length ?c < length (seg_payload x) then ?f\<lparr>s_unreadBuf := drop (length ?c) (seg_payload x)\<rparr> else ?f"
  have del: "DeleteMin (e_bt E) (s_recvQueue s) = Some (Some x, ?q)" using d(4) queue by (simp add: DeleteMin_eq)
  have eq: "read_loop E m acc s =
      (if m - length ?c = 0 then Some (Some (acc @ ?c), ?u) else read_loop E (m - length ?c) (acc @ ?c) ?u)"
    using Cons.prems(2) queue d(4) by (subst read_loop.simps) (simp add: Len_eq del Let_def del: if_split)
  have "reads s ?p" by (rule reads_pop [OF Cons.prems(1) queue]) simp_all
  moreover have "reads ?p ?f"
    using reads_inv [OF calculation]
    by (intro reads_quiet) (simp_all add: quiet_def frame_def forwardStateTo_def)
  ultimately have f: "reads s ?f" by (rule reads_trans)
  have "reads ?f ?u" using reads_unread [OF reads_inv [OF f]] reads_refl [OF reads_inv [OF f]] by simp
  with f have u: "reads s ?u" by (rule reads_trans)
  have pu: "pending s = ?c @ pending ?u"
    using Cons.prems(2) queue by (auto simp: pending_def forwardStateTo_def)
  show ?case
  proof (cases "m - length ?c = 0")
    case True
    have "?c \<noteq> []" using True Cons.prems(3) by auto
    then have "read_ok m acc s (Some (acc @ ?c)) ?u" using u pu by (auto simp: read_ok_def)
    then show ?thesis using eq True by auto
  next
    case False
    have "xs = st_tr (s_recvQueue ?u)" "s_unreadBuf ?u = []"
      using False Cons.prems(2) by (auto simp: forwardStateTo_def)
    then obtain r s' where r: "read_loop E (m - length ?c) (acc @ ?c) ?u = Some (r, s')"
        "read_ok (m - length ?c) (acc @ ?c) ?u r s'"
      using Cons.hyps(1) [of ?u "m - length ?c" "acc @ ?c"] reads_inv [OF u] False by blast
    then show ?thesis using eq False read_ok_cons [OF r(2) u pu] by auto
  qed
qed

lemma read_loop_ok:
  assumes "session_inv s" and "0 < m"
  shows "\<exists>r s'. read_loop E m [] s = Some (r, s') \<and> read_ok m [] s r s'"
proof (cases "s_unreadBuf s = []")
  case True
  then show ?thesis using read_queue assms by blast
next
  case False
  let ?c = "take m (s_unreadBuf s)"
  let ?s1 = "s\<lparr>s_unreadBuf := drop m (s_unreadBuf s)\<rparr>"
  have u: "reads s ?s1" by (rule reads_unread [OF assms(1)])
  have p: "pending s = ?c @ pending ?s1" by (simp add: pending_def)
  have c: "?c \<noteq> []" using False assms(2) by simp
  show ?thesis
  proof (cases "m - length ?c = 0 \<or> drop m (s_unreadBuf s) \<noteq> []")
    case True
    have "read_loop E m [] s = Some (Some ?c, ?s1)"
      using False True by (subst read_loop.simps) (simp add: Let_def)
    moreover have "read_ok m [] s (Some ?c) ?s1" using u p c by (auto simp: read_ok_def)
    ultimately show ?thesis by blast
  next
    case cont: False
    then have len: "length (s_unreadBuf s) < m" "?c = s_unreadBuf s" "drop m (s_unreadBuf s) = []" by auto
    have "read_loop E m [] s = read_loop E (m - length (s_unreadBuf s)) (s_unreadBuf s) (s\<lparr>s_unreadBuf := []\<rparr>)"
      using False len
      unfolding read_loop.simps [of E m "[]" s]
        read_loop.simps [of E "m - length (s_unreadBuf s)" "s_unreadBuf s" "s\<lparr>s_unreadBuf := []\<rparr>"]
        Let_def len(2,3) append_Nil
      by (simp del: if_split)
    moreover obtain r s' where "read_loop E (m - length ?c) ?c ?s1 = Some (r, s')"
        "read_ok (m - length ?c) ([] @ ?c) ?s1 r s'"
      using read_queue [of ?s1 "m - length ?c" ?c] reads_inv [OF u] cont by auto
    ultimately show ?thesis using read_ok_cons [OF _ u p] len cont by auto
  qed
qed

lemma Read_ok:
  assumes "session_inv s"
  shows "\<exists>res s'. Read E n s = Some (res, s') \<and> reads s s' \<and>
    (case res of
       ReadOK b \<Rightarrow> length b \<le> n \<and> b @ pending s' = pending s \<and> (b = [] \<longrightarrow> n = 0)
     | ReadBlocked \<Rightarrow> 0 < n \<and> pending s = [] \<and> pending s' = []
     | _ \<Rightarrow> False)"
proof (cases "n = 0")
  case True
  have "reads s (s\<lparr>s_readDeadline := 0\<rparr>)"
    by (rule reads_quiet [OF assms]) (simp_all add: quiet_def frame_def)
  then show ?thesis using True by (simp add: Read_def pending_def)
next
  case False
  obtain r s1 where r: "read_loop E n [] s = Some (r, s1)" "read_ok n [] s r s1"
    using read_loop_ok [OF assms, of n] False by auto
  have rd: "reads s s1" using r(2) by (simp add: read_ok_def)
  show ?thesis
  proof (cases r)
    case None
    then show ?thesis using r False rd by (auto simp: Read_def read_ok_def)
  next
    case (Some b)
    have "reads s1 (finish_read b s1)"
      by (rule reads_quiet [OF reads_inv [OF rd]]) (simp_all add: finish_read_def quiet_def frame_def)
    moreover have "pending (finish_read b s1) = pending s1" by (simp add: pending_def finish_read_def)
    ultimately show ?thesis using r False Some reads_trans [OF rd] by (auto simp: Read_def read_ok_def)
  qed
qed

end

end
