(* ===== verification/Session_Example.thy ===== *)
theory Session_Example
  imports Session_Recv
begin

text \<open>
  A concrete environment and two concrete sessions, with the run of one message through them: the
  client writes three bytes, its output loop sends them with the open session request, and the
  server takes them in and reads them.  The witnesses of the session theories evaluate on this run.
\<close>

text \<open>Fixed-point numbers with three decimals in place of IEEE arithmetic.\<close>

definition sample_floats :: float_ops where
  "sample_floats =
    \<lparr>f64_lit = \<lambda>n d. word_of_int (n * 1000 div d), f64_of_int = \<lambda>n. word_of_int (n * 1000),
     f64_add = (+), f64_sub = (-), f64_mul = \<lambda>x y. x * y div 1000, f64_div = \<lambda>x y. x * 1000 div y,
     f64_Cbrt = id, f64_to_uint32 = \<lambda>x. ucast (x div 1000), f64_to_int = \<lambda>x. sint x div 1000,
     f64_le_0 = \<lambda>x. sint x \<le> 0, f32_lit = \<lambda>n d. word_of_int (n * 1000 div d),
     f32_of_int = \<lambda>n. word_of_int (n * 1000), f32_add = (+), f32_mul = \<lambda>x y. x * y div 1000,
     f32_to_int = \<lambda>x. sint x div 1000\<rparr>"
definition sample_env :: env where
  "sample_env =
    \<lparr>e_bt = list_btree, e_fl = sample_floats, e_now = 0, e_clock = \<lambda>_. 0, e_write = \<lambda>_. WriteOK,
     e_jitter = 0, e_pick = 0, e_metrics = \<lambda>_. None\<rparr>"

lemma sample_env_simps:
  "e_bt sample_env = list_btree" "e_now sample_env = 0" "e_write sample_env x = WriteOK"
  "e_jitter sample_env = 0" "e_fl sample_env = sample_floats"
  by (simp_all add: sample_env_def)

interpretation sample: session_env sample_env
  by unfold_locales (auto simp: sample_env_simps list_btree_def set_ins_item sorted_ins_item)

definition sample_tree :: "nat \<Rightarrow> segment list \<Rightarrow> segmentTree" where
  "sample_tree c xs = \<lparr>st_tr = xs, st_cap = c, st_chanEmptyEvent = False, st_chanNotEmptyEvent = xs \<noteq> []\<rparr>"

definition sample_session :: "bool \<Rightarrow> session" where
  "sample_session c = (the (newSessionWithServerUserPolicy sample_env 1 c 1400 zeroPolicy None None))
     \<lparr>s_transport := PacketTransport, s_state := sessionAttached\<rparr>"

lemma sample_session_simps:
  "s_block (sample_session c) = None" "s_id (sample_session c) = 1" "s_isClient (sample_session c) = c"
  "s_mtu (sample_session c) = 1400" "s_transport (sample_session c) = PacketTransport"
  "s_state (sample_session c) = sessionAttached" "s_trafficPattern (sample_session c) = None"
  "s_closeRequested (sample_session c) = False" "s_closed (sample_session c) = False"
  "s_writeDeadline (sample_session c) = 0" "s_readDeadline (sample_session c) = 0"
  "s_outputHasErr (sample_session c) = False"
  "s_sendQueue (sample_session c) = sample_tree 1024 []" "s_sendBuf (sample_session c) = sample_tree 4096 []"
  "s_recvBuf (sample_session c) = sample_tree 4096 []" "s_recvQueue (sample_session c) = sample_tree 4096 []"
  "s_nextSend (sample_session c) = 0" "s_nextRecv (sample_session c) = 0" "s_lastTXTime (sample_session c) = 0"
  "s_heartbeatJitter (sample_session c) = 0" "s_ackOnDataRecv (sample_session c) = False"
  "s_nextRetransmissionTime (sample_session c) = 0" "s_unreadBuf (sample_session c) = []"
  "s_cubic (sample_session c) = the (NewCubicSendAlgorithm 16 4096)" "s_remoteWindowSize (sample_session c) = 16"
  "rt_smoothedRTT (s_rttStat (sample_session c)) = 0"
  "s_openSessionRequestSent (sample_session c) = False" "s_userName (sample_session c) = None"
  "s_uploadBytes (sample_session c) = None" "s_wire (sample_session c) = []"
  by (simp_all add: sample_session_def newSessionWithServerUserPolicy_def sample_env_simps newSegmentTree_def
      segmentTreeCapacity_def segmentSendQueueTreeCapacity_def NewCubicSendAlgorithm_def SetRTOMultiplier_def
      SetMaxAckDelay_def NewRTTStats_def
      sample_floats_def Let_def minWindowSize_def maxWindowSize_def sample_tree_def zeroPolicy_def)

lemma sample_tree_simps: "st_tr (sample_tree c xs) = xs" "st_cap (sample_tree c xs) = c" "st_inv (sample_tree c xs) = (sorted_items xs \<and> length xs \<le> c)"
    "notifyNotEmpty ((sample_tree c xs)\<lparr>st_tr := y # ys\<rparr>) = sample_tree c (y # ys)"
  by (simp_all add: sample_tree_def notifyNotEmpty_def st_inv_def)

definition sample_open :: segment where
 "sample_open = mk_segment (SessionMD \<lparr>ss_protocol = openSessionRequest, ss_timestamp = 0, ss_sessionID = 1,
           ss_seq = 0, ss_statusCode = 0, ss_payloadLen = 3, ss_suffixLen = 0\<rparr>) [1,2,3] PacketTransport"

lemma sample_open_simps: "seg_payload sample_open = [1, 2, 3]" "seg_Protocol sample_open = openSessionRequest"
  "Seq sample_open = 0" "checkProtocolType sample_open" "seg_txCount sample_open = 0" "seg_block sample_open = None"
  by (simp_all add: sample_open_def mk_segment_def seg_Protocol_def Seq_def checkProtocolType_def isProtocol_defs)

definition sample_written :: session where
  "sample_written = (sample_session True)\<lparr>s_openSessionRequestSent := True, s_nextSend := 1,
     s_sendQueue := sample_tree 1024 [sample_open]\<rparr>"

lemma sample_write: "Write sample_env [1, 2, 3] (sample_session True) = Some (3, None, sample_written)"
proof -
  have o: "open_request (sample_session True) [1, 2, 3] = sample_open"
    by (simp add: open_request_def sample_open_def sample_session_simps lowEntropySendConfig_def extractLowEntropyConfig_def
      MaxSessionOpenPayload_def)
  show ?thesis
    by (simp add: Write_def o sample_session_simps isStateBefore_def isStateAfter_def isState_def sessionState_defs
       sample_env_simps sample_open_simps lb.Insert_eq sample_tree_simps sample_written_def clear_write_deadline_def)
qed

definition sample_sent_open :: segment where
  "sample_sent_open = sample_open\<lparr>seg_txCount := 1, seg_txTime := 0, seg_txTimeout := 2000000000\<rparr>"

lemma sample_sent_open_simps: "seg_payload sample_sent_open = [1, 2, 3]" "seg_Protocol sample_sent_open = openSessionRequest"
  "Seq sample_sent_open = 0" "checkProtocolType sample_sent_open" "seg_block sample_sent_open = None" "typed sample_sent_open"
  "seg_txTime sample_sent_open = 0" "seg_txTimeout sample_sent_open = 2000000000"
  "set_unAckSeq n sample_sent_open = Some sample_sent_open"
  by (simp_all add: sample_sent_open_def sample_open_def mk_segment_def seg_Protocol_def Seq_def checkProtocolType_def
      isProtocol_defs typed_def set_unAckSeq_def protocolType_defs)

lemma sample_tx_timeout: "tx_timeout sample_env 1 s = 2000000000" if "rt_smoothedRTT (s_rttStat s) = 0"
  using that by (simp add: tx_timeout_def RTO_def backOff_def second_def maxBackOffDuration_def Min_go_def)

lemma sample_output:
  "\<exists>s. runOutputOncePacket sample_env sample_written = Some s \<and> s_wire s = [sample_sent_open]"
proof -
  have w: "sendWindowSize sample_env s = 16" if "s_cubic s = the (NewCubicSendAlgorithm 16 4096)"
     "s_remoteWindowSize s = 16" "st_tr (s_sendBuf s) = []" for s
    using that by (simp add: sendWindowSize_def CongestionWindowSize_def NewCubicSendAlgorithm_def Len_def
        sample_env_simps list_btree_def Max_go_def Min_go_def)
  note defs = sample_written_def sample_session_simps sample_env_simps sample_tree_simps lb.tree_eqs
    shouldDeferNextPacketData_def isClientPacketSessionOpening_def isState_def sample_open_simps isProtocol_defs
    protocolType_defs w Let_def sample_tx_timeout sample_sent_open_simps schedule_check_def output_seg_def
    sample_sent_open_def [symmetric]
  have "\<exists>s. send_new_loop sample_env 0 sample_written = Some s \<and> s_wire s = [sample_sent_open] \<and>
      isClientPacketSessionOpening s"
    unfolding send_new_loop.simps [of _ 0]
    by (simp add: defs, subst send_new_loop.simps) (simp add: defs notifyEmpty_def sample_tree_def st_inv_def)
  then obtain s where s: "send_new_loop sample_env 0 sample_written = Some s" "s_wire s = [sample_sent_open]"
      "isClientPacketSessionOpening s" by blast
  moreover have "retransmit sample_env sample_written = Some (0, sample_written)"
    by (simp add: retransmit_def defs)
  moreover have "Len list_btree (s_sendQueue sample_written) > 0" "sendWindowSize sample_env sample_written = 16"
      "\<not> s_outputHasErr sample_written"
    by (simp_all add: defs)
  ultimately show ?thesis by (simp add: runOutputOncePacket_def sample_env_simps send_ack_def Let_def)
qed

lemma sample_sent_open_metadata: "\<exists>ss. seg_metadata sample_sent_open = SessionMD ss"
  by (simp add: sample_sent_open_def sample_open_def mk_segment_def)

lemma sample_move:
  assumes "s_nextRecv s = 0" and "st_tr (s_recvBuf s) = [sample_sent_open]" and "st_cap (s_recvBuf s) = 4096"
    and "s_recvQueue s = sample_tree 4096 []"
  shows "moveRecvBufToRecvQueue sample_env s = Some (False,
    s\<lparr>s_recvBuf := notifyEmpty ((s_recvBuf s)\<lparr>st_tr := []\<rparr>),
      s_recvQueue := sample_tree 4096 [sample_sent_open], s_nextRecv := 1\<rparr>)"
proof -
  obtain ss where ss: "seg_metadata sample_sent_open = SessionMD ss" using sample_sent_open_metadata by blast
  show ?thesis
    by (subst moveRecvBufToRecvQueue.simps, subst (2) moveRecvBufToRecvQueue.simps)
       (simp add: sample_env_simps assms lb.tree_eqs sample_tree_simps st_inv_def sample_sent_open_simps ss Let_def)
qed

lemma sample_input:
  "\<exists>s. input_loop_step sample_env sample_sent_open (sample_session False) = Some (InOK, s) \<and>
     s_recvQueue s = sample_tree 4096 [sample_sent_open] \<and> s_unreadBuf s = [] \<and> \<not> s_isClient s"
proof -
  obtain ss where ss: "seg_metadata sample_sent_open = SessionMD ss" using sample_sent_open_metadata by blast
  have "checkProtocolType (session_seg openSessionResponse 0 s)" for s
    by (simp add: checkProtocolType_def isProtocol_defs)
  then show ?thesis
    by (simp add: input_loop_step_def input_def sample_session_simps accepts_protocol_def sample_sent_open_simps input_block_def
      inputData_def input_packet_data_def ss sample_env_simps lb.tree_eqs sample_tree_simps requestPacketAck_def wakePacketOutput_def Let_def
      receiveWindowSize_def Max_go_def segmentTreeCapacity_def waitForRecvQueueSpace_def sample_move
      isState_def answer_open_def UserName_def isClientPacketSessionOpenResponse_def isClientPacketSessionOpening_def
      forwardStateTo_def protocolType_defs)
qed

lemma sample_read:
  assumes "s_recvQueue s = sample_tree 4096 [sample_sent_open]" and "s_unreadBuf s = []" and "\<not> s_isClient s"
  shows "\<exists>s'. Read sample_env 3 s = Some (ReadOK [1, 2, 3], s')"
  unfolding Read_def read_loop.simps [of _ 3 "[]" s]
  using assms by (simp add: sample_env_simps lb.tree_eqs sample_tree_simps sample_sent_open_simps Let_def)

lemma sample_session_inv: "session_inv (sample_session c)" "recv_ok (sample_session c)"
  by (simp_all add: session_inv_def recv_ok_def unacked_def sample_session_simps sample_tree_simps
      segmentTreeCapacity_def segmentSendQueueTreeCapacity_def sample_session_def newSessionWithServerUserPolicy_def
      sample_env_simps newSegmentTree_def NewCubicSendAlgorithm_def SetRTOMultiplier_def sample_floats_def
      minWindowSize_def maxWindowSize_def st_inv_def)

end
