(* ===== verification/Link.thy ===== *)
theory Link
  imports Session_Example "HOL-Library.Sublist"
begin

text \<open>
  Two packet sessions and the network between them.  Each side runs the handlers of \<open>Session\<close> in any
  order and in any environment; the network may lose, repeat and reorder every segment that was
  handed to the underlay.  The invariant relates the two ends through the log of the segments
  that a side has created.
\<close>

section \<open>The transition system\<close>

text \<open>
  A side is a session, the writes of its application with their success, and the bytes that its
  application has read.
\<close>

record side =
  d_session :: session
  d_writes :: "(bytes \<times> bool) list"
  d_read :: bytes

text \<open>
  What arrives is a segment with the protocol, sequence number, payload and acknowledgement of the
  one that was sent; the underlays fill in the rest.
\<close>

definition arrives_as :: "segment \<Rightarrow> segment \<Rightarrow> bool" where
  "arrives_as x y \<longleftrightarrow> core y = core x \<and> typed y \<and> ack_of y = ack_of x"

text \<open>The sequence numbers of the session do not run out.\<close>

definition numbers_left :: "session \<Rightarrow> bool" where
  "numbers_left s \<longleftrightarrow> Suc (unat (s_nextSend s)) + segmentSendQueueTreeCapacity < 2 ^ 32"

inductive side_step :: "segment set \<Rightarrow> side \<Rightarrow> side \<Rightarrow> bool" for net where
  do_write: "side_step net d (d\<lparr>d_session := s', d_writes := d_writes d @ [(b, e = None)]\<rparr>)"
    if "session_env E" and "numbers_left (d_session d)" and "mtu_ok (d_session d)"
    and "b \<noteq> []" and "length b \<le> maxPDU" and "Write E b (d_session d) = Some (n, e, s')"
| do_out: "side_step net d (d\<lparr>d_session := s'\<rparr>)"
    if "session_env E" and "numbers_left (d_session d)" and "runOutputOncePacket E (d_session d) = Some s'"
| do_close: "side_step net d (d\<lparr>d_session := s'\<rparr>)"
    if "session_env E" and "numbers_left (d_session d)" and "Close E (d_session d) = Some s'"
| do_poll: "side_step net d (d\<lparr>d_session := close_poll E (d_session d)\<rparr>)"
    if "session_env E"
| do_deliver: "side_step net d (d\<lparr>d_session := s'\<rparr>)"
    if "session_env E" and "numbers_left (d_session d)" and "x \<in> net" and "arrives_as x y"
    and "input_loop_step E y (d_session d) = Some (r, s')"
| do_read: "side_step net d (d\<lparr>d_session := s', d_read := d_read d @ (case r of ReadOK b \<Rightarrow> b | _ \<Rightarrow> [])\<rparr>)"
    if "session_env E" and "Read E n (d_session d) = Some (r, s')"
| do_wait: "side_step net d (d\<lparr>d_session := s'\<rparr>)"
    if "session_env E" and "read_select E (d_session d) = (r, s')"

inductive_cases side_stepE: "side_step net d d'"

inductive link_step :: "side \<times> side \<Rightarrow> side \<times> side \<Rightarrow> bool" where
  left: "link_step (a, b) (a', b)" if "side_step (set (s_wire (d_session b))) a a'"
| right: "link_step (a, b) (a, b')" if "side_step (set (s_wire (d_session a))) b b'"

section \<open>One side\<close>

text \<open>What an application may rely on: a successful write is carried whole, a failed one in part.\<close>

definition carried :: "bytes \<times> bool \<Rightarrow> bytes \<Rightarrow> bool" where
  "carried w part = (if snd w then part = fst w else prefix part (fst w))"

definition carries :: "(bytes \<times> bool) list \<Rightarrow> bytes \<Rightarrow> bool" where
  "carries ws bs \<longleftrightarrow> (\<exists>parts. list_all2 carried ws parts \<and> bs = concat parts)"

lemma carries_Nil [simp]: "carries [] bs \<longleftrightarrow> bs = []"
  by (simp add: carries_def)

lemma carries_snoc: "carries ws bs \<Longrightarrow> carried w p \<Longrightarrow> carries (ws @ [w]) (bs @ p)"
  unfolding carries_def
proof (elim exE conjE)
  fix parts assume "list_all2 carried ws parts" "bs = concat parts" "carried w p"
  then show "\<exists>parts. list_all2 carried (ws @ [w]) parts \<and> bs @ p = concat parts"
    by (intro exI [of _ "parts @ [p]"]) (simp add: list_all2_appendI)
qed

lemma carries_all_ok: "carries ws bs \<Longrightarrow> (\<And>w. w \<in> set ws \<Longrightarrow> snd w) \<Longrightarrow> bs = concat (map fst ws)"
proof -
  have "list_all2 carried ws parts \<Longrightarrow> \<forall>w \<in> set ws. snd w \<Longrightarrow> parts = map fst ws" for parts
    by (induction rule: list_all2_induct) (auto simp: carried_def)
  then show "carries ws bs \<Longrightarrow> (\<And>w. w \<in> set ws \<Longrightarrow> snd w) \<Longrightarrow> bs = concat (map fst ws)"
    by (auto simp: carries_def)
qed

text \<open>
  The effect of a step on the receiving side of a session: the segments \<open>moved\<close> went to the receive
  queue and the bytes \<open>b\<close> to the application.
\<close>

definition receives :: "segment set \<Rightarrow> session \<Rightarrow> session \<Rightarrow> bytes \<Rightarrow> bool" where
  "receives net s s' b \<longleftrightarrow> (\<exists>moved.
     b @ pending s' = pending s @ concat (map seg_payload moved) \<and>
     set moved \<union> set (st_tr (s_recvBuf s')) \<subseteq> net \<union> set (st_tr (s_recvBuf s)) \<and>
     set (st_tr (s_recvQueue s')) \<subseteq> set (st_tr (s_recvQueue s)) \<union> set moved \<and>
     (\<forall>x \<in> set moved. checkProtocolType x) \<and>
     (\<forall>i < length moved. unat (Seq (moved ! i)) = unat (s_nextRecv s) + i) \<and>
     unat (s_nextRecv s') = unat (s_nextRecv s) + length moved)"

lemma receives_frame: "frame s s' \<Longrightarrow> receives net s s' []"
  by (auto simp: receives_def frame_def pending_def intro!: exI [of _ "[]"])

lemma receives_reads:
  assumes "reads s s'" and "b @ pending s' = pending s"
  shows "receives net s s' b"
  using assms in_set_dropD by (fastforce simp: receives_def reads_def intro!: exI [of _ "[]"])

lemma receives_takes_in:
  assumes "takes_in y s s'" and "session_inv s'"
  shows "receives {y} s s' []"
proof -
  obtain m where m: "st_tr (s_recvQueue s') = st_tr (s_recvQueue s) @ m"
      "set m \<union> set (st_tr (s_recvBuf s')) \<subseteq> insert y (set (st_tr (s_recvBuf s)))"
      "\<forall>i < length m. unat (Seq (m ! i)) = unat (s_nextRecv s) + i"
      "unat (s_nextRecv s') = unat (s_nextRecv s) + length m" "s_unreadBuf s' = s_unreadBuf s"
    using assms(1) unfolding takes_in_def by blast
  have "\<forall>x \<in> set m. checkProtocolType x" using session_invD(13) [OF assms(2)] m(1) by auto
  then show ?thesis using m unfolding receives_def by (intro exI [of _ m]) (auto simp: pending_def)
qed

text \<open>The effect on the sending side, as in \<open>evolves\<close>; a waiting close may send its request again.\<close>

definition advances :: "nat \<Rightarrow> session \<Rightarrow> session \<Rightarrow> segment list \<Rightarrow> bool" where
  "advances u s s' new \<longleftrightarrow>
     session_inv s' \<and> s_transport s' = s_transport s \<and>
     unat (s_nextSend s') = unat (s_nextSend s) + length new \<and>
     (\<forall>i < length new. unat (Seq (new ! i)) = unat (s_nextSend s) + i) \<and>
     known s' \<subseteq> known s \<union> core ` set new \<and>
     (\<exists>outs. s_wire s' = s_wire s @ outs \<and> (\<forall>x \<in> set outs.
        may_send (known s \<union> core ` set new \<union> core ` set_option (s_closePending s)) (s_nextRecv s') x)) \<and>
     s_nextRecv s \<le> s_nextRecv s' \<and> (s_closeRequested s \<longrightarrow> s_closeRequested s') \<and>
     (\<not> s_closeRequested s' \<longrightarrow>
        (\<forall>c \<in> known s \<union> core ` set new. unat (fst c) < u \<or> c \<in> known s')) \<and>
     (\<forall>p. s_closePending s' = Some p \<longrightarrow> s_closePending s = Some p \<or> fresh new p)"

lemma advances_evolves:
  assumes "evolves u s s' new"
  shows "advances u s s' new"
  unfolding advances_def
proof (intro conjI)
  show "\<exists>outs. s_wire s' = s_wire s @ outs \<and> (\<forall>x \<in> set outs.
        may_send (known s \<union> core ` set new \<union> core ` set_option (s_closePending s)) (s_nextRecv s') x)"
    using evolvesD(7) [OF assms] may_send_mono [OF _ Un_upper1 order_refl] by blast
qed (use evolvesD [OF assms] in blast)+

context session_env
begin

lemma close_poll_advances:
  assumes "session_inv s" and "\<And>p. s_closePending s = Some p \<Longrightarrow> typed p \<and> ack_ok 0 p"
  shows "advances 0 s (close_poll E s) []" and "frame s (close_poll E s)"
proof -
  have "advances 0 s (close_poll E s) [] \<and> frame s (close_poll E s)"
  proof (cases "s_closePending s")
    case None
    then show ?thesis
      using advances_evolves [OF evolves_refl [OF assms(1)]] by (simp add: close_poll_def)
  next
    case (Some seg)
    let ?n = "s\<lparr>s_closePending := None\<rparr>"
    define o' where "o' = (if s_lastSend s \<ge> Seq seg then ?n else snd (output_seg E seg ?n))"
    have o: "o' = ?n \<or> o' = ?n\<lparr>s_wire := s_wire s @ [seg], s_lastSend := Seq seg, s_lastTXTime := e_now E\<rparr>"
      using output_seg_cases [of E seg ?n] by (auto simp: o'_def)
    have fr: "frame s o'" using o by (auto simp: frame_def)
    have st: "unacked o' = unacked s" "s_nextSend o' = s_nextSend s" "s_closeRequested o'"
        "s_closePending o' = None" "s_wire o' = s_wire s \<or> s_wire o' = s_wire s @ [seg]"
        "st_tr (s_sendQueue o') = st_tr (s_sendQueue s)" "st_tr (s_sendBuf o') = st_tr (s_sendBuf s)"
      using o session_invD(14) [OF assms(1)] Some by (auto simp: unacked_def)
    have inv: "session_inv o'"
      by (rule session_invI [OF assms(1) fr]) (use st session_invD [OF assms(1)] in \<open>auto simp: st_inv_def\<close>)
    note t = close_tail_evolves [OF inv st(3)]
    have eq: "close_poll E s = close_tail E o'" by (simp add: close_poll_def Some close_finish_def o'_def)
    note e = evolvesD [OF t(1)]
    have outs: "\<exists>outs. s_wire (close_tail E o') = s_wire s @ outs \<and> (\<forall>x \<in> set outs.
        may_send (known s \<union> core ` set [] \<union> core ` set_option (s_closePending s)) (s_nextRecv (close_tail E o')) x)"
    proof -
      have "s_wire (close_tail E o') = s_wire o'" by (simp add: close_tail_def forwardStateTo_def)
      moreover have "may_send (known s \<union> core ` set [] \<union> core ` set_option (s_closePending s)) n seg" for n
        using assms(2) [OF Some] Some ack_ok_mono [of 0 seg n] by (simp add: may_send_def)
      ultimately show ?thesis using st(5) by auto
    qed
    have "advances 0 s (close_tail E o') []"
      unfolding advances_def
    proof (intro conjI)
      show "s_nextRecv s \<le> s_nextRecv (close_tail E o')" using e(8) fr by (simp add: frame_def)
    qed (use e(1-6,11,13) st outs fr in \<open>auto simp: frame_def known_def\<close>)
    then show ?thesis unfolding eq using frame_trans [OF fr t(2)] by blast
  qed
  then show "advances 0 s (close_poll E s) []" and "frame s (close_poll E s)" by blast+
qed

end

lemma advances_mono: "advances u s s' new \<Longrightarrow> u \<le> v \<Longrightarrow> advances v s s' new"
  unfolding advances_def by (elim conjE, intro conjI) (assumption | blast intro: order.strict_trans2)+

lemma receives_mono: "receives net s s' b \<Longrightarrow> net \<subseteq> net' \<Longrightarrow> receives net' s s' b"
  unfolding receives_def by blast

text \<open>Everything that the network may hand to a side, given what was sent.\<close>

definition arrivals :: "segment set \<Rightarrow> segment set" where
  "arrivals net = {y. \<exists>x \<in> net. arrives_as x y}"

text \<open>What the proof asks of a side before a step.\<close>

definition side_inv :: "session \<Rightarrow> bool" where
  "side_inv s \<longleftrightarrow> session_inv s \<and> recv_ok s \<and> s_transport s = PacketTransport \<and>
     (\<forall>p. s_closePending s = Some p \<longrightarrow> typed p \<and> ack_ok 0 p)"

definition steps_to :: "segment set \<Rightarrow> nat \<Rightarrow> side \<Rightarrow> side \<Rightarrow> segment list \<Rightarrow> bool" where
  "steps_to net u d d' new \<longleftrightarrow>
     advances u (d_session d) (d_session d') new \<and>
     (\<exists>b. receives (arrivals net) (d_session d) (d_session d') b \<and> d_read d' = d_read d @ b) \<and>
     (\<forall>bs. carries (d_writes d) bs \<longrightarrow> carries (d_writes d') (bs @ concat (map seg_payload new)))"

lemma steps_frame:
  assumes "advances 0 (d_session d) s' new" and "frame (d_session d) s'" and "\<forall>x \<in> set new. seg_payload x = []"
  shows "steps_to net u d (d\<lparr>d_session := s'\<rparr>) new"
proof -
  have nil: "concat (map seg_payload new) = []" using assms(3) by simp
  show ?thesis
    unfolding steps_to_def nil using advances_mono [OF assms(1)] receives_frame [OF assms(2)] by simp
qed

lemma steps_sends: "sends (d_session d) s' \<Longrightarrow> \<exists>new. steps_to net u d (d\<lparr>d_session := s'\<rparr>) new"
  using steps_frame [OF advances_evolves] unfolding sends_def by blast

lemma steps_reads:
  assumes "reads (d_session d) s'" and "b @ pending s' = pending (d_session d)"
  shows "steps_to net u d (d\<lparr>d_session := s', d_read := d_read d @ b\<rparr>) []"
proof -
  have "advances u (d_session d) s' []"
    using assms(1) advances_evolves advances_mono by (fastforce simp: reads_def)
  then show ?thesis using receives_reads [OF assms] by (auto simp: steps_to_def)
qed

lemma arrival_handles:
  assumes "session_env E" and "side_inv s" and "numbers_left s" and "arrives_as x y"
    and "checkProtocolType x \<longrightarrow> Suc (unat (Seq x)) < 2 ^ 32"
    and "input_loop_step E y s = Some (r, s')"
  shows "handles 2 (ack_of x) y s s'"
proof (cases "s_closed s")
  case True
  then have "s' = s" using assms(6) by (simp add: input_loop_step_def)
  then show ?thesis
    using handles_mono [OF handles_refl [of s 0]] assms(2) by (simp add: side_inv_def)
next
  case False
  have y: "Seq y = Seq x" "checkProtocolType y = checkProtocolType x" "typed y" "ack_of y = ack_of x"
    using assms(4) by (simp_all add: arrives_as_def core_def checkProtocolType_def)
  have "input E y s \<noteq> None"
    using assms(6) False by (cases "input E y s") (auto simp: input_loop_step_def)
  then have "\<exists>s1. accepts_protocol (s_isClient s) (seg_Protocol y) \<longrightarrow> input_block y s = Some s1"
    by (cases "input_block y s") (auto simp: input_def Let_def)
  then obtain s1 where "accepts_protocol (s_isClient s) (seg_Protocol y) \<longrightarrow> input_block y s = Some s1" by blast
  moreover have "Suc (Suc (unat (s_nextSend s))) < 2 ^ 32"
    using assms(3) by (simp add: numbers_left_def segmentSendQueueTreeCapacity_def)
  ultimately show ?thesis
    using session_env.input_loop_step_handles [OF assms(1), of s y s1] assms(2,5,6) y
    by (auto simp: side_inv_def)
qed

lemma steps_deliver:
  assumes "handles 2 (ack_of x) y (d_session d) s'" and "x \<in> net" and "arrives_as x y" and "ack_of x \<le> u"
  shows "\<exists>new. steps_to net u d (d\<lparr>d_session := s'\<rparr>) new"
proof -
  obtain new where new: "evolves (ack_of x) (d_session d) s' new" "\<forall>x \<in> set new. seg_payload x = []"
      "takes_in y (d_session d) s'"
    using assms(1) by (auto simp: handles_def)
  have nil: "concat (map seg_payload new) = []" using new(2) by simp
  have "receives (arrivals net) (d_session d) s' []"
    by (rule receives_mono [OF receives_takes_in [OF new(3) evolves_inv [OF new(1)]]])
       (use assms(2,3) in \<open>auto simp: arrivals_def\<close>)
  then have "steps_to net u d (d\<lparr>d_session := s'\<rparr>) new"
    unfolding steps_to_def nil using advances_mono [OF advances_evolves [OF new(1)] assms(4)] by simp
  then show ?thesis ..
qed

lemma carried_queued: "queued b n e new \<Longrightarrow> carried (b, e = None) (concat (map seg_payload new))"
  by (auto simp: queued_def carried_def take_is_prefix split: if_splits)

lemma side_step_facts:
  assumes "side_step net d d'" and "side_inv (d_session d)"
    and "\<And>x. x \<in> net \<Longrightarrow> ack_of x \<le> u \<and> (checkProtocolType x \<longrightarrow> Suc (unat (Seq x)) < 2 ^ 32)"
  shows "\<exists>new. steps_to net u d d' new"
proof -
  have inv: "session_inv (d_session d)" using assms(2) by (simp add: side_inv_def)
  have left: "room (d_session d)" if "numbers_left (d_session d)"
    using that by (simp add: room_def numbers_left_def segmentSendQueueTreeCapacity_def)
  from assms(1) show ?thesis
  proof cases
    case (do_write E b n e s')
    then obtain new where new: "evolves 0 (d_session d) s' new" "frame (d_session d) s'" "queued b n e new"
      using session_env.Write_evolves [OF _ inv, of E b] by (auto simp: numbers_left_def)
    have "steps_to net u d d' new"
      unfolding steps_to_def do_write(1)
      using advances_mono [OF advances_evolves [OF new(1)]] receives_frame [OF new(2)] carried_queued [OF new(3)]
      by (simp add: carries_snoc)
    then show ?thesis ..
  next
    case (do_out E s')
    then show ?thesis
      using session_env.runOutputOncePacket_sends [OF _ inv left, of E] steps_sends by auto
  next
    case (do_close E s')
    then show ?thesis
      using session_env.close_sends [OF _ inv left, of E True] steps_sends by (auto simp: Close_def)
  next
    case (do_poll E)
    have "\<And>p. s_closePending (d_session d) = Some p \<Longrightarrow> typed p \<and> ack_ok 0 p"
      using assms(2) by (simp add: side_inv_def)
    then have "steps_to net u d d' []"
      unfolding do_poll(1) using session_env.close_poll_advances [OF do_poll(2) inv] by (intro steps_frame) auto
    then show ?thesis ..
  next
    case (do_deliver E x y r s')
    have "handles 2 (ack_of x) y (d_session d) s'"
      using arrival_handles [OF do_deliver(2) assms(2) do_deliver(3,5) _ do_deliver(6)] assms(3) do_deliver(4) by blast
    then show ?thesis using steps_deliver do_deliver(1,4,5) assms(3) by blast
  next
    case (do_read E n r s')
    have "reads (d_session d) s'" "(case r of ReadOK b \<Rightarrow> b | _ \<Rightarrow> []) @ pending s' = pending (d_session d)"
      using session_env.Read_ok [OF do_read(2) inv, of n] do_read(3) by (auto split: read_result.splits)
    then show ?thesis using steps_reads do_read(1) by blast
  next
    case (do_wait E r s')
    have "quiet (d_session d) s'" "s_wire s' = s_wire (d_session d)" "pending s' = pending (d_session d)"
      using do_wait(3) by (auto simp: read_select_def pending_def quiet_def frame_def split: option.splits read_result.splits)
    then have "reads (d_session d) s'" "[] @ pending s' = pending (d_session d)"
      using reads_quiet [OF inv] by auto
    then have "steps_to net u d (d\<lparr>d_session := s', d_read := d_read d @ []\<rparr>) []" by (rule steps_reads)
    then show ?thesis using do_wait(1) by auto
  qed
qed

section \<open>Two sides\<close>

text \<open>The log of the segments that a side has created, in the order of their sequence numbers.\<close>

definition log_ok :: "segment list \<Rightarrow> bool" where
  "log_ok log \<longleftrightarrow> (\<forall>i < length log. unat (Seq (log ! i)) = i)"

lemma log_lookup:
  assumes "log_ok log" and "core x \<in> core ` set log"
  shows "unat (Seq x) < length log" and "core x = core (log ! unat (Seq x))"
proof -
  obtain i where i: "i < length log" "core x = core (log ! i)"
    using assms(2) by (auto simp: in_set_conv_nth)
  then have "unat (Seq x) = i" using assms(1) by (auto simp: log_ok_def core_def)
  then show "unat (Seq x) < length log" "core x = core (log ! unat (Seq x))" using i by auto
qed

definition sent_inv :: "segment list \<Rightarrow> side \<Rightarrow> bool" where
  "sent_inv log d \<longleftrightarrow>
     log_ok log \<and> length log = unat (s_nextSend (d_session d)) \<and> known (d_session d) \<subseteq> core ` set log \<and>
     (\<forall>x \<in> set (s_wire (d_session d)). may_send (core ` set log) (s_nextRecv (d_session d)) x) \<and>
     (\<forall>p. s_closePending (d_session d) = Some p \<longrightarrow> fresh log p) \<and>
     carries (d_writes d) (concat (map seg_payload log))"

definition received_inv :: "segment list \<Rightarrow> side \<Rightarrow> bool" where
  "received_inv log d \<longleftrightarrow>
     core ` set (st_tr (s_recvBuf (d_session d))) \<subseteq> core ` set log \<and>
     (\<forall>x \<in> set (st_tr (s_recvQueue (d_session d))). Seq x < s_nextRecv (d_session d)) \<and>
     unat (s_nextRecv (d_session d)) \<le> length log \<and>
     d_read d @ pending (d_session d) =
       concat (map seg_payload (take (unat (s_nextRecv (d_session d))) log))"

text \<open>Unless it is closing, a side still holds what the other side has not received.\<close>

definition held :: "segment list \<Rightarrow> side \<Rightarrow> side \<Rightarrow> bool" where
  "held log p q \<longleftrightarrow> (\<not> s_closeRequested (d_session p) \<longrightarrow>
     (\<forall>i < length log. unat (s_nextRecv (d_session q)) \<le> i \<longrightarrow> core (log ! i) \<in> known (d_session p)))"

definition dir_inv :: "segment list \<Rightarrow> side \<Rightarrow> side \<Rightarrow> bool" where
  "dir_inv log p q \<longleftrightarrow> sent_inv log p \<and> received_inv log q \<and> held log p q"

lemma sent_step:
  assumes "sent_inv log d" and "steps_to net u d d' new"
  shows "sent_inv (log @ new) d'"
proof -
  let ?s = "d_session d" and ?t = "d_session d'"
  have i: "log_ok log" "length log = unat (s_nextSend ?s)" "known ?s \<subseteq> core ` set log"
      "\<And>x. x \<in> set (s_wire ?s) \<Longrightarrow> may_send (core ` set log) (s_nextRecv ?s) x"
      "\<And>p. s_closePending ?s = Some p \<Longrightarrow> fresh log p" "carries (d_writes d) (concat (map seg_payload log))"
    using assms(1) by (auto simp: sent_inv_def)
  obtain outs where a: "unat (s_nextSend ?t) = unat (s_nextSend ?s) + length new"
      "\<forall>i < length new. unat (Seq (new ! i)) = unat (s_nextSend ?s) + i"
      "known ?t \<subseteq> known ?s \<union> core ` set new" "s_wire ?t = s_wire ?s @ outs"
      "\<forall>x \<in> set outs. may_send (known ?s \<union> core ` set new \<union> core ` set_option (s_closePending ?s)) (s_nextRecv ?t) x"
      "s_nextRecv ?s \<le> s_nextRecv ?t"
      "\<forall>p. s_closePending ?t = Some p \<longrightarrow> s_closePending ?s = Some p \<or> fresh new p"
    using assms(2) by (auto simp: steps_to_def advances_def)
  have "log_ok (log @ new)" using i(1,2) a(2) by (auto simp: log_ok_def nth_append)
  moreover have "may_send (core ` set (log @ new)) (s_nextRecv ?t) x" if "x \<in> set (s_wire ?t)" for x
  proof (cases "x \<in> set (s_wire ?s)")
    case True
    then show ?thesis by (intro may_send_mono [OF i(4) _ a(6)]) auto
  next
    case False
    then have "x \<in> set outs" using that a(4) by simp
    moreover have "known ?s \<union> core ` set new \<union> core ` set_option (s_closePending ?s) \<subseteq> core ` set (log @ new)"
      using i(3,5) by (cases "s_closePending ?s") (auto simp: fresh_def)
    ultimately show ?thesis using may_send_mono [OF a(5) [rule_format]] by blast
  qed
  moreover have "fresh (log @ new) p" if "s_closePending ?t = Some p" for p
    using that a(7) i(5) by (auto simp: fresh_def)
  moreover have "known ?t \<subseteq> core ` set (log @ new)" using i(3) a(3) by (auto simp: image_Un)
  ultimately show ?thesis
    using assms(2) i(2,6) a(1) by (simp add: sent_inv_def steps_to_def)
qed

lemma received_more: "received_inv log d \<Longrightarrow> received_inv (log @ new) d"
  by (auto simp: received_inv_def)

lemma held_step:
  assumes "held log p q" and "sent_inv log p" and "steps_to net (unat (s_nextRecv (d_session q))) p p' new"
  shows "held (log @ new) p' q"
  unfolding held_def
proof (intro impI allI)
  let ?n = "unat (s_nextRecv (d_session q))"
  fix i assume nc: "\<not> s_closeRequested (d_session p')" and i: "i < length (log @ new)" "?n \<le> i"
  have a: "\<not> s_closeRequested (d_session p)"
      "\<And>c. c \<in> known (d_session p) \<union> core ` set new \<Longrightarrow> unat (fst c) < ?n \<or> c \<in> known (d_session p')"
    using assms(3) nc by (auto simp: steps_to_def advances_def)
  have "log_ok (log @ new)" using sent_step [OF assms(2,3)] by (simp add: sent_inv_def)
  then have "unat (fst (core ((log @ new) ! i))) = i" using i(1) by (simp add: log_ok_def core_def)
  moreover have "core ((log @ new) ! i) \<in> known (d_session p) \<union> core ` set new"
    using assms(1) a(1) i by (auto simp: held_def nth_append)
  ultimately show "core ((log @ new) ! i) \<in> known (d_session p')" using a(2) i(2) by fastforce
qed

lemma take_moved:
  assumes "log_ok log" and "\<And>x. x \<in> set moved \<Longrightarrow> core x \<in> core ` set log"
    and "\<forall>i < length moved. unat (Seq (moved ! i)) = n + i"
  shows "n + length moved \<le> length log \<or> moved = []"
    and "moved \<noteq> [] \<Longrightarrow> map core (take (n + length moved) log) = map core (take n log) @ map core moved"
proof -
  have nth: "n + i < length log \<and> core (moved ! i) = core (log ! (n + i))" if "i < length moved" for i
    using log_lookup [OF assms(1), of "moved ! i"] assms(2) [of "moved ! i"] assms(3) that by auto
  show "n + length moved \<le> length log \<or> moved = []"
    using nth [of "length moved - 1"] by (cases moved) auto
  then show "map core (take (n + length moved) log) = map core (take n log) @ map core moved" if "moved \<noteq> []"
    using that nth by (intro nth_equalityI) (auto simp: nth_append min_absorb2)
qed

lemma payloads_of_cores: "map core xs = map core ys \<Longrightarrow> map seg_payload xs = map seg_payload ys"
proof -
  assume "map core xs = map core ys"
  then have "map (\<lambda>c. snd (snd c)) (map core xs) = map (\<lambda>c. snd (snd c)) (map core ys)" by (rule arg_cong)
  then show ?thesis by (simp add: core_def comp_def)
qed

lemma received_step:
  assumes "received_inv log d" and "log_ok log" and "steps_to net u d d' new" and "session_inv (d_session d)"
    and "\<And>y. y \<in> net \<Longrightarrow> checkProtocolType y \<Longrightarrow> core y \<in> core ` set log"
  shows "received_inv log d'"
proof -
  let ?s = "d_session d" and ?t = "d_session d'"
  have i: "core ` set (st_tr (s_recvBuf ?s)) \<subseteq> core ` set log"
      "\<forall>x \<in> set (st_tr (s_recvQueue ?s)). Seq x < s_nextRecv ?s" "unat (s_nextRecv ?s) \<le> length log"
      "d_read d @ pending ?s = concat (map seg_payload (take (unat (s_nextRecv ?s)) log))"
    using assms(1) by (auto simp: received_inv_def)
  obtain b m where m: "d_read d' = d_read d @ b" "b @ pending ?t = pending ?s @ concat (map seg_payload m)"
      "set m \<union> set (st_tr (s_recvBuf ?t)) \<subseteq> arrivals net \<union> set (st_tr (s_recvBuf ?s))"
      "set (st_tr (s_recvQueue ?t)) \<subseteq> set (st_tr (s_recvQueue ?s)) \<union> set m"
      "\<forall>x \<in> set m. checkProtocolType x" "\<forall>i < length m. unat (Seq (m ! i)) = unat (s_nextRecv ?s) + i"
      "unat (s_nextRecv ?t) = unat (s_nextRecv ?s) + length m"
    using assms(3) unfolding steps_to_def receives_def by blast
  have inv: "session_inv ?t" using assms(3) by (simp add: steps_to_def advances_def)
  have net: "core y \<in> core ` set log" if "y \<in> arrivals net" "checkProtocolType y" for y
    using that assms(5) by (fastforce simp: arrivals_def arrives_as_def core_def checkProtocolType_def)
  have buf: "core x \<in> core ` set log" if "x \<in> set (st_tr (s_recvBuf ?t))" for x
  proof -
    have "checkProtocolType x" using session_invD(13) [OF inv, of x] that by simp
    moreover have "x \<in> arrivals net \<or> x \<in> set (st_tr (s_recvBuf ?s))" using that m(3) by blast
    ultimately show ?thesis using i(1) net by blast
  qed
  have mv: "core x \<in> core ` set log" if "x \<in> set m" for x
  proof -
    have "x \<in> arrivals net \<or> x \<in> set (st_tr (s_recvBuf ?s))" using that m(3) by blast
    then show ?thesis using that m(5) i(1) net by blast
  qed
  have tm: "unat (s_nextRecv ?s) + length m \<le> length log \<or> m = []"
      "m \<noteq> [] \<Longrightarrow> map core (take (unat (s_nextRecv ?s) + length m) log) =
        map core (take (unat (s_nextRecv ?s)) log) @ map core m"
    using take_moved [OF assms(2) _ m(6)] mv by blast+
  have le: "s_nextRecv ?s \<le> s_nextRecv ?t" using m(7) by (simp add: word_le_nat_alt)
  have "Seq x < s_nextRecv ?t" if "x \<in> set (st_tr (s_recvQueue ?t))" for x
  proof (cases "x \<in> set m")
    case True
    then show ?thesis using m(6,7) by (auto simp: in_set_conv_nth word_less_nat_alt)
  next
    case False
    then show ?thesis using that m(4) i(2) le by (meson UnE less_le_trans subsetD)
  qed
  moreover have "concat (map seg_payload (take (unat (s_nextRecv ?t)) log)) =
      concat (map seg_payload (take (unat (s_nextRecv ?s)) log)) @ concat (map seg_payload m)"
  proof (cases "m = []")
    case False
    have "map core (take (unat (s_nextRecv ?t)) log) = map core (take (unat (s_nextRecv ?s)) log @ m)"
      using tm(2) [OF False] m(7) by simp
    from payloads_of_cores [OF this] show ?thesis by simp
  qed (use m(7) in simp)
  moreover have "unat (s_nextRecv ?t) \<le> length log" using tm(1) m(7) i(3) by auto
  ultimately show ?thesis
    using buf m(1,2) i(4) by (auto simp: received_inv_def)
qed

lemma held_mono:
  assumes "held log p q" and "steps_to net u q q' new"
  shows "held log p q'"
  using assms by (auto simp: held_def steps_to_def advances_def word_le_nat_alt)

text \<open>The invariant of the link.\<close>

definition packet_side :: "side \<Rightarrow> bool" where
  "packet_side d \<longleftrightarrow> session_inv (d_session d) \<and> s_transport (d_session d) = PacketTransport"

definition link_inv :: "side \<Rightarrow> side \<Rightarrow> bool" where
  "link_inv a b \<longleftrightarrow> packet_side a \<and> packet_side b \<and> (\<exists>la lb. dir_inv la a b \<and> dir_inv lb b a)"

lemma link_inv_sym: "link_inv a b \<Longrightarrow> link_inv b a"
  by (auto simp: link_inv_def)

lemma net_facts:
  assumes "sent_inv log d" and "x \<in> set (s_wire (d_session d))"
  shows "ack_of x \<le> unat (s_nextRecv (d_session d))"
    and "checkProtocolType x \<Longrightarrow> core x \<in> core ` set log"
    and "checkProtocolType x \<Longrightarrow> Suc (unat (Seq x)) < 2 ^ 32"
proof -
  have m: "may_send (core ` set log) (s_nextRecv (d_session d)) x" using assms by (simp add: sent_inv_def)
  then show "ack_of x \<le> unat (s_nextRecv (d_session d))"
    by (auto simp: may_send_def ack_ok_def ack_of_def word_le_nat_alt split: metadata.splits)
  show c: "core x \<in> core ` set log" if "checkProtocolType x"
    using m that data_not_ack [of "seg_Protocol x"] by (auto simp: may_send_def checkProtocolType_def)
  show "Suc (unat (Seq x)) < 2 ^ 32" if "checkProtocolType x"
  proof -
    have "unat (Seq x) < unat (s_nextSend (d_session d))"
      using log_lookup(1) [OF _ c [OF that]] assms(1) by (simp add: sent_inv_def)
    then show ?thesis using unsigned_less [of "s_nextSend (d_session d)", where 'a = nat] by simp
  qed
qed

lemma side_invI:
  assumes "session_inv (d_session d)" and "s_transport (d_session d) = PacketTransport"
    and "sent_inv log d" and "received_inv log' d" and "log_ok log'" and "length log' < 2 ^ 32"
  shows "side_inv (d_session d)"
proof -
  have "Suc (unat (Seq x)) < 2 ^ 32" if "x \<in> set (st_tr (s_recvBuf (d_session d)))" for x
    using log_lookup(1) [OF assms(5), of x] that assms(4,6) by (fastforce simp: received_inv_def)
  then show ?thesis
    using assms by (auto simp: side_inv_def recv_ok_def received_inv_def sent_inv_def fresh_def)
qed

lemma link_inv_step:
  assumes "link_inv a b" and "side_step (set (s_wire (d_session b))) a a'"
  shows "link_inv a' b"
proof -
  obtain la lb where "dir_inv la a b" "dir_inv lb b a" and ps: "packet_side a" "packet_side b"
    using assms(1) by (auto simp: link_inv_def)
  then have i: "sent_inv la a" "received_inv la b" "held la a b" "sent_inv lb b" "received_inv lb a" "held lb b a"
    by (simp_all add: dir_inv_def)
  note inv = ps(1) [unfolded packet_side_def]
  have lb: "length lb < 2 ^ 32" "log_ok lb"
    using i(4) unsigned_less [of "s_nextSend (d_session b)", where 'a = nat] by (simp_all add: sent_inv_def)
  then have side: "side_inv (d_session a)" using side_invI i(1,5) inv by blast
  obtain new where new: "steps_to (set (s_wire (d_session b))) (unat (s_nextRecv (d_session b))) a a' new"
    using side_step_facts [OF assms(2) side] net_facts [OF i(4)] by blast
  have "dir_inv (la @ new) a' b"
    using sent_step [OF i(1) new] received_more [OF i(2)] held_step [OF i(3,1) new] by (simp add: dir_inv_def)
  moreover have "received_inv lb a'"
    using received_step [OF i(5) lb(2) new] inv net_facts(2) [OF i(4)] by blast
  then have "dir_inv lb b a'" using i(4) held_mono [OF i(6) new] by (simp add: dir_inv_def)
  moreover have "packet_side a'" using new inv by (simp add: packet_side_def steps_to_def advances_def)
  ultimately show ?thesis using ps(2) by (auto simp: link_inv_def)
qed

lemma link_steps_inv:
  assumes "link_step\<^sup>*\<^sup>* (a, b) (a', b')" and "link_inv a b"
  shows "link_inv a' b'"
proof -
  have step: "link_inv (fst l') (snd l')" if "link_step l l'" "link_inv (fst l) (snd l)" for l l'
    using that by (induction rule: link_step.induct) (metis fst_conv snd_conv link_inv_step link_inv_sym)+
  have "link_inv (fst (a', b')) (snd (a', b'))"
    using assms by (induction rule: rtranclp_induct) (auto intro: step)
  then show ?thesis by simp
qed

text \<open>A side at the start: a new session that was attached to a packet underlay.\<close>

definition new_side :: "side \<Rightarrow> bool" where
  "new_side d \<longleftrightarrow> d_writes d = [] \<and> d_read d = [] \<and>
     (\<exists>E sid c mtu policy pol tp s. newSessionWithServerUserPolicy E sid c mtu policy pol tp = Some s \<and>
        d_session d = s\<lparr>s_transport := PacketTransport, s_state := sessionAttached\<rparr>)"

lemma newSegmentTree_Some: "newSegmentTree (int c) = Some t \<Longrightarrow> st_tr t = [] \<and> st_cap t = c \<and> st_inv t"
  by (auto simp: newSegmentTree_def st_inv_def sorted_items_def split: if_splits)

lemma new_session_empty:
  assumes "newSessionWithServerUserPolicy E sid c mtu policy pol tp = Some s"
  shows "st_inv (s_sendQueue s)" "st_cap (s_sendQueue s) = segmentSendQueueTreeCapacity"
    "st_inv (s_sendBuf s)" "st_cap (s_sendBuf s) = segmentTreeCapacity"
    "st_inv (s_recvBuf s)" "st_cap (s_recvBuf s) = segmentTreeCapacity"
    "st_inv (s_recvQueue s)" "st_cap (s_recvQueue s) = segmentTreeCapacity"
    "st_tr (s_sendQueue s) = []" "st_tr (s_sendBuf s) = []" "st_tr (s_recvBuf s) = []" "st_tr (s_recvQueue s) = []"
    "s_unreadBuf s = []" "s_wire s = []" "s_nextSend s = 0" "s_nextRecv s = 0" "s_closePending s = None"
  using assms
  unfolding newSessionWithServerUserPolicy_def Let_def
  by (auto simp: bind_eq_Some_conv dest!: newSegmentTree_Some)

lemma new_side_inv:
  assumes "new_side a" and "new_side b"
  shows "link_inv a b"
proof -
  have e: "st_tr (s_sendQueue (d_session d)) = []" "st_tr (s_sendBuf (d_session d)) = []"
      "st_tr (s_recvBuf (d_session d)) = []" "st_tr (s_recvQueue (d_session d)) = []"
      "s_unreadBuf (d_session d) = []" "s_wire (d_session d) = []" "s_nextSend (d_session d) = 0"
      "s_nextRecv (d_session d) = 0" "s_closePending (d_session d) = None"
      "d_writes d = []" "d_read d = []" "packet_side d"
    if "new_side d" for d
    using that
    by (auto simp: new_side_def new_session_empty packet_side_def session_inv_def unacked_def)
  show ?thesis
    using e [OF assms(1)] e [OF assms(2)]
    by (auto simp: link_inv_def dir_inv_def sent_inv_def received_inv_def held_def log_ok_def known_def
        unacked_def pending_def intro!: exI [of _ "[]"])
qed

section \<open>What the applications see\<close>

lemma sorted_cores_eq:
  assumes "sorted_wrt (\<lambda>x y. Seq x < Seq y) xs" and "sorted_wrt (\<lambda>x y. Seq x < Seq y) ys"
    and "core ` set xs = core ` set ys"
  shows "map core xs = map core ys"
proof -
  have s: "sorted_wrt (\<lambda>c d. fst c < fst d) (map core zs)" if "sorted_wrt (\<lambda>x y. Seq x < Seq y) zs" for zs
    using that by (simp add: sorted_wrt_map core_def)
  have eq: "cs = ds" if "sorted_wrt (\<lambda>c d. fst c < fst d) cs" "sorted_wrt (\<lambda>c d. fst c < fst d) ds"
      "set cs = set ds" for cs ds :: "(u32 \<times> u8 \<times> bytes) list"
    using that
  proof (induction cs arbitrary: ds)
    case (Cons c cs)
    then obtain d ds' where ds: "ds = d # ds'" by (cases ds) auto
    have cd: "c = d"
    proof (rule ccontr)
      assume "c \<noteq> d"
      then have "c \<in> set ds'" "d \<in> set cs" using Cons.prems(3) ds by auto
      then have "fst d < fst c" "fst c < fst d" using Cons.prems(1,2) ds by auto
      then show False by simp
    qed
    have "c \<notin> set cs" "d \<notin> set ds'" using Cons.prems ds by auto
    then have "set cs = set ds'" using Cons.prems(3) unfolding ds cd by auto
    then show ?case using Cons ds cd by simp
  qed simp
  show ?thesis by (rule eq) (use assms s in auto)
qed

lemma log_sorted: "log_ok log \<Longrightarrow> sorted_wrt (\<lambda>x y. Seq x < Seq y) log"
  by (simp add: sorted_wrt_iff_nth_less log_ok_def word_less_nat_alt)

lemma held_exactly:
  assumes "dir_inv log p q" and "session_inv (d_session p)" and "\<not> s_closeRequested (d_session p)"
  shows "map core (filter (\<lambda>x. s_nextRecv (d_session q) \<le> Seq x) (unacked (d_session p))) =
    map core (drop (unat (s_nextRecv (d_session q))) log)"
proof (rule sorted_cores_eq)
  let ?n = "s_nextRecv (d_session q)" and ?u = "unacked (d_session p)"
  have i: "log_ok log" "known (d_session p) \<subseteq> core ` set log" "held log p q"
    using assms(1) by (simp_all add: dir_inv_def sent_inv_def)
  show "sorted_wrt (\<lambda>x y. Seq x < Seq y) (filter (\<lambda>x. ?n \<le> Seq x) ?u)"
    using session_invD(9) [OF assms(2)] by (rule sorted_wrt_filter)
  show "sorted_wrt (\<lambda>x y. Seq x < Seq y) (drop (unat ?n) log)"
    using log_sorted [OF i(1)] by (rule sorted_wrt_drop)
  show "core ` set (filter (\<lambda>x. ?n \<le> Seq x) ?u) = core ` set (drop (unat ?n) log)"
  proof (intro equalityI subsetI)
    fix c assume "c \<in> core ` set (filter (\<lambda>x. ?n \<le> Seq x) ?u)"
    then obtain x where x: "x \<in> set ?u" "?n \<le> Seq x" "c = core x" by auto
    then have "core x \<in> core ` set log" using i(2) by (auto simp: known_def)
    note l = log_lookup [OF i(1) this]
    have "log ! unat (Seq x) \<in> set (drop (unat ?n) log)"
      using l(1) x(2) by (auto simp: in_set_conv_nth word_le_nat_alt intro!: exI [of _ "unat (Seq x) - unat ?n"])
    then show "c \<in> core ` set (drop (unat ?n) log)" using l(2) x(3) by auto
  next
    fix c assume "c \<in> core ` set (drop (unat ?n) log)"
    then obtain j where "j < length (drop (unat ?n) log)" "c = core (drop (unat ?n) log ! j)"
      by (auto simp: in_set_conv_nth)
    then have j: "unat ?n + j < length log" "c = core (log ! (unat ?n + j))" by simp_all
    then have "c \<in> known (d_session p)" using i(3) assms(3) by (simp add: held_def)
    then obtain x where x: "x \<in> set ?u" "c = core x" by (auto simp: known_def)
    have "Seq x = Seq (log ! (unat ?n + j))" using x(2) j(2) by (simp add: core_def)
    then have "unat (Seq x) = unat ?n + j" using j(1) i(1) by (simp add: log_ok_def)
    then show "c \<in> core ` set (filter (\<lambda>x. ?n \<le> Seq x) ?u)" using x by (auto simp: word_le_nat_alt)
  qed
qed

definition delivers_in_order :: "side \<Rightarrow> side \<Rightarrow> bool" where
  "delivers_in_order p q \<longleftrightarrow> (\<exists>bs. carries (d_writes p) bs \<and> prefix (d_read q) bs)"

definition holds_the_rest :: "side \<Rightarrow> side \<Rightarrow> bool" where
  "holds_the_rest p q \<longleftrightarrow> s_closeRequested (d_session p) \<or>
     carries (d_writes p) (d_read q @ pending (d_session q) @ concat (map seg_payload
       (filter (\<lambda>x. s_nextRecv (d_session q) \<le> Seq x) (unacked (d_session p)))))"

lemma link_inv_delivers:
  assumes "link_inv a b"
  shows "delivers_in_order a b" and "holds_the_rest a b"
proof -
  obtain la where la: "dir_inv la a b" and inv: "session_inv (d_session a)"
    using assms by (auto simp: link_inv_def packet_side_def)
  let ?n = "unat (s_nextRecv (d_session b))"
  have c: "carries (d_writes a) (concat (map seg_payload la))"
    and r: "d_read b @ pending (d_session b) = concat (map seg_payload (take ?n la))"
    using la by (simp_all add: dir_inv_def sent_inv_def received_inv_def)
  have split: "concat (map seg_payload la) = d_read b @ pending (d_session b) @ concat (map seg_payload (drop ?n la))"
    using r by (metis append.assoc append_take_drop_id concat_append map_append)
  show "delivers_in_order a b" using c split by (auto simp: delivers_in_order_def)
  show "holds_the_rest a b"
  proof (cases "s_closeRequested (d_session a)")
    case False
    show ?thesis
      using payloads_of_cores [OF held_exactly [OF la inv False]] c split by (simp add: holds_the_rest_def)
  qed (simp add: holds_the_rest_def)
qed

text \<open>One message through the link, from the run of \<open>Session_Example\<close>.\<close>

definition sample_side :: "bool \<Rightarrow> side" where
  "sample_side c = \<lparr>d_session = sample_session c, d_writes = [], d_read = []\<rparr>"

lemma sample_side_new: "new_side (sample_side c)"
proof -
  have "\<exists>s. newSessionWithServerUserPolicy sample_env 1 c 1400 zeroPolicy None None = Some s"
    by (simp add: newSessionWithServerUserPolicy_def sample_env_simps newSegmentTree_def
        segmentTreeCapacity_def segmentSendQueueTreeCapacity_def NewCubicSendAlgorithm_def SetRTOMultiplier_def
        sample_floats_def Let_def minWindowSize_def maxWindowSize_def)
  then show ?thesis by (auto simp: new_side_def sample_side_def sample_session_def) blast
qed

lemma sample_run:
  "\<exists>a b. link_step\<^sup>*\<^sup>* (sample_side True, sample_side False) (a, b) \<and>
     d_writes a = [([1, 2, 3], True)] \<and> d_read b = [1, 2, 3]"
proof -
  let ?a = "sample_side True" and ?b = "sample_side False"
  let ?a1 = "?a\<lparr>d_session := sample_written, d_writes := d_writes ?a @ [([1, 2, 3], True)]\<rparr>"
  have s1: "link_step (?a, ?b) (?a1, ?b)"
    using side_step.do_write [OF sample.session_env_axioms, of ?a "[1, 2, 3]" 3 None sample_written] sample_write
    by (intro link_step.left)
       (simp add: sample_side_def numbers_left_def mtu_ok_def sample_session_simps maxPDU_def packetOverhead_def
         segmentSendQueueTreeCapacity_def)
  obtain s where s: "runOutputOncePacket sample_env sample_written = Some s" "s_wire s = [sample_sent_open]"
    using sample_output by blast
  let ?a2 = "?a1\<lparr>d_session := s\<rparr>"
  have s2: "link_step (?a1, ?b) (?a2, ?b)"
    using side_step.do_out [OF sample.session_env_axioms, of ?a1 s] s(1)
    by (intro link_step.left)
       (simp add: numbers_left_def sample_written_def segmentSendQueueTreeCapacity_def)
  obtain t where t: "input_loop_step sample_env sample_sent_open (sample_session False) = Some (InOK, t)"
      "s_recvQueue t = sample_tree 4096 [sample_sent_open]" "s_unreadBuf t = []" "\<not> s_isClient t"
    using sample_input by blast
  let ?b1 = "?b\<lparr>d_session := t\<rparr>"
  have s3: "link_step (?a2, ?b) (?a2, ?b1)"
    using side_step.do_deliver [OF sample.session_env_axioms, of ?b sample_sent_open "set (s_wire s)" sample_sent_open InOK t]
      t(1) s(2)
    by (intro link_step.right)
       (simp add: sample_side_def numbers_left_def sample_session_simps segmentSendQueueTreeCapacity_def
         arrives_as_def sample_sent_open_simps)
  obtain t' where t': "Read sample_env 3 t = Some (ReadOK [1, 2, 3], t')" using sample_read [OF t(2-4)] by blast
  let ?b2 = "?b1\<lparr>d_session := t', d_read := d_read ?b1 @ [1, 2, 3]\<rparr>"
  have s4: "link_step (?a2, ?b1) (?a2, ?b2)"
    using side_step.do_read [OF sample.session_env_axioms, of 3 ?b1 "ReadOK [1, 2, 3]" t'] t'
    by (intro link_step.right) simp
  have "link_step\<^sup>*\<^sup>* (?a, ?b) (?a2, ?b2)" using s1 s2 s3 s4 by (meson converse_rtranclp_into_rtranclp rtranclp.rtrancl_refl)
  then show ?thesis by (intro exI [of _ ?a2] exI [of _ ?b2]) (simp add: sample_side_def)
qed

text \<open>
  C1.  Two packet sessions over a network that loses, repeats and reorders segments deliver in order:
  after any run from two new sessions, what the application has read at either end is a
  prefix of what was written at the other end, where a write that failed counts with some prefix of its bytes.
\<close>

theorem link_delivers_in_order:
  assumes "new_side a" and "new_side b" and "link_step\<^sup>*\<^sup>* (a, b) (a', b')"
  shows "delivers_in_order a' b' \<and> delivers_in_order b' a'"
  using link_inv_delivers(1) link_inv_sym link_steps_inv [OF assms(3) new_side_inv [OF assms(1,2)]] by blast

theorem link_delivers_in_order_witness:
  "\<exists>a b. link_step\<^sup>*\<^sup>* (sample_side True, sample_side False) (a, b) \<and> d_writes a = [([1, 2, 3], True)] \<and>
     d_read b = [1, 2, 3] \<and> delivers_in_order a b \<and> delivers_in_order b a"
  using sample_run link_delivers_in_order [OF sample_side_new sample_side_new] by blast

text \<open>
  C2.  Nothing is lost: after any run from two new sessions, unless a session is being closed, its
  writes are exactly what the other application has read, what is ready for it to read, and what its
  own queues still hold for retransmission beyond the next expected sequence number.
\<close>

theorem link_loses_nothing:
  assumes "new_side a" and "new_side b" and "link_step\<^sup>*\<^sup>* (a, b) (a', b')"
  shows "holds_the_rest a' b' \<and> holds_the_rest b' a'"
  using link_inv_delivers(2) link_inv_sym link_steps_inv [OF assms(3) new_side_inv [OF assms(1,2)]] by blast

theorem link_loses_nothing_witness:
  "\<exists>a b. link_step\<^sup>*\<^sup>* (sample_side True, sample_side False) (a, b) \<and> d_writes a = [([1, 2, 3], True)] \<and>
     holds_the_rest a b \<and> holds_the_rest b a"
  using sample_run link_loses_nothing [OF sample_side_new sample_side_new] by blast

end
