(* ===== verification/Session_Props.thy ===== *)
theory Session_Props
  imports Session_Example
begin

text \<open>
  What the handlers of a packet session guarantee to their callers, one handler at a time: they return,
  keep the invariant, forget nothing that is not acknowledged, and deliver in order.
\<close>

section \<open>Progress of the receiver\<close>

lemma evolves_nextRecv: "handles k u seg s s' \<Longrightarrow> s_nextRecv s \<le> s_nextRecv s'"
  by (auto simp: handles_def dest: evolvesD(8))

context session_env
begin

lemma moveRecvBufToRecvQueue_advances:
  assumes "session_inv s" and "recv_ok s" and "x \<in> set (st_tr (s_recvBuf s))" and "Seq x = s_nextRecv s"
    and "0 < Remaining (e_bt E) (s_recvQueue s)" and "moveRecvBufToRecvQueue E s = Some (err, s')"
  shows "s_nextRecv s < s_nextRecv s'"
  using assms
proof (induction "st_tr (s_recvBuf s)" arbitrary: s)
  case (Cons h t)
  note d = session_invD [OF Cons.prems(1)] and buf = Cons.hyps(2) [symmetric]
  let ?t = "(if t = [] then notifyEmpty else notifyNotEmpty) ((s_recvBuf s)\<lparr>st_tr := t\<rparr>)"
  have tr: "st_tr ?t = t" "st_cap ?t = st_cap (s_recvBuf s)" by simp_all
  have srt: "\<forall>y \<in> set t. Seq h < Seq y" using d(3) buf by (simp add: st_inv_def)
  then have le: "Seq h \<le> s_nextRecv s" using Cons.prems(3,4) buf by auto
  show ?case
  proof (cases "Seq h < s_nextRecv s")
    case True
    let ?s = "s\<lparr>s_recvBuf := ?t\<rparr>"
    have eq: "moveRecvBufToRecvQueue E s = moveRecvBufToRecvQueue E ?s"
      using True Cons.prems(5) d(3) buf
      by (subst moveRecvBufToRecvQueue.simps) (simp add: DeleteMinIf_eq Let_def less_imp_le)
    have "session_inv ?s" by (rule handles_inv [OF drop_old_handles [OF Cons.prems(1) buf tr]])
    moreover have "recv_ok ?s" using Cons.prems(2) buf by (simp add: recv_ok_def)
    moreover have "x \<in> set (st_tr (s_recvBuf ?s))" using Cons.prems(3,4) buf True by auto
    ultimately have "s_nextRecv ?s < s_nextRecv s'"
      using Cons.hyps(1) [of ?s] Cons.prems(4-6) eq tr(1) by simp
    then show ?thesis by simp
  next
    case False
    then have hx: "Seq h = s_nextRecv s" using le by simp
    let ?q = "(if find (\<lambda>y. Seq y = Seq h) (st_tr (s_recvQueue s)) = None then notifyNotEmpty else id)
                  ((s_recvQueue s)\<lparr>st_tr := ins_item h (st_tr (s_recvQueue s))\<rparr>)"
    define w where "w = (case seg_metadata h of DataAckMD das \<Rightarrow> ucast (das_windowSize das)
      | SessionMD _ \<Rightarrow> s_remoteWindowSize s)"
    let ?s = "s\<lparr>s_recvBuf := ?t, s_recvQueue := ?q, s_nextRecv := s_nextRecv s + 1, s_remoteWindowSize := w\<rparr>"
    have q: "st_tr ?q = st_tr (s_recvQueue s) @ [h]" "st_cap ?q = st_cap (s_recvQueue s)"
      using Cons.prems(2) hx by (simp_all add: ins_item_last recv_ok_def)
    have len: "length (st_tr (s_recvQueue s)) < st_cap (s_recvQueue s)"
      using Cons.prems(5) d(4) by (simp add: Remaining_eq)
    have eq: "moveRecvBufToRecvQueue E s = moveRecvBufToRecvQueue E ?s"
      using Cons.prems(5) hx d(3,4,13) buf len
      by (subst moveRecvBufToRecvQueue.simps)
         (simp add: DeleteMinIf_eq Insert_eq Let_def w_def split: metadata.split del: if_split)
    have h: "handles 0 0 h s ?s" by (rule deliver_handles [OF Cons.prems(1,2) buf tr hx q len])
    have hok: "Suc (unat (Seq h)) < 2 ^ 32" using Cons.prems(2) buf by (simp add: recv_ok_def)
    have "takes_in h s ?s" using h by (simp add: handles_def)
    then have "recv_ok ?s" by (rule takes_in_recv_ok [OF _ Cons.prems(2) hok])
    then obtain s'' where "moveRecvBufToRecvQueue E ?s = Some (False, s'')" "handles 0 0 h ?s s''"
      using moveRecvBufToRecvQueue_handles [OF handles_inv [OF h]] by blast
    then have "s_nextRecv s + 1 \<le> s_nextRecv s'" using Cons.prems(6) eq evolves_nextRecv [of 0 0 h ?s s''] by simp
    moreover have "s_nextRecv s < s_nextRecv s + 1" using hok hx by (simp add: word_less_nat_alt unat_word_ariths)
    ultimately show ?thesis by (rule order.strict_trans2 [rotated])
  qed
qed simp

end

context session_env
begin

lemma inputData_advances:
  assumes "session_inv s" and "recv_ok s" and "s_transport s = PacketTransport" and "\<not> s_closed s"
    and "checkProtocolType seg" and "Seq seg = s_nextRecv s" and "Suc (unat (Seq seg)) < 2 ^ 32"
    and "Suc (Suc (unat (s_nextSend s))) < 2 ^ 32" and "0 < receiveWindowSize E s"
  shows "\<exists>r s'. inputData E seg s = Some (r, s') \<and> s_nextRecv s < s_nextRecv s'"
proof -
  obtain s1 ret t err s5 where "input_packet_data E seg s = Some (InOK, s1, ret)" "\<not> ret"
    and h1: "handles 0 (ack_of seg) seg s s1"
    and t: "session_inv t" "recv_ok t" "seg \<in> set (st_tr (s_recvBuf t))" "s_nextRecv t = s_nextRecv s"
      "0 < Remaining (e_bt E) (s_recvQueue t)" "moveRecvBufToRecvQueue E t = Some (err, s5)"
      "s_nextRecv s1 = s_nextRecv s5"
    using input_packet_data_handles [OF assms(1,2,5,7)] assms(4,9) by blast
  then have s1: "input_packet_data E seg s = Some (InOK, s1, False)" "handles 0 (ack_of seg) seg s s1" by simp_all
  have adv: "s_nextRecv s < s_nextRecv s1"
    using moveRecvBufToRecvQueue_advances [OF t(1-3) _ t(5,6)] t(4,7) assms(6) by simp
  show ?thesis
  proof (cases "\<not> s_isClient s1 \<and> seg_Protocol seg = openSessionRequest \<and> isState s1 sessionAttached")
    case True
    then obtain r s2 where "answer_open E s1 = Some (r, s2)" "handles 1 (forgets r seg) seg s1 s2"
      using answer_open_handles [OF handles_inv [OF s1(2)], of seg] handles_nextSend [OF s1(2)] assms(8) by auto
    then show ?thesis
      using True s1(1) assms(3) adv evolves_nextRecv [of 1 "forgets r seg" seg s1 s2] by (auto simp: inputData_def)
  next
    case False
    then show ?thesis using s1(1) assms(3) adv by (auto simp: inputData_def)
  qed
qed

end

section \<open>Closing\<close>

context session_env
begin

lemma close_tail_ends:
  "s_closed (close_tail E t)" "s_state (close_tail E t) = max (s_state t) sessionClosed"
  "unacked (close_tail E t) = []" "st_tr (s_recvQueue (close_tail E t)) = st_tr (s_recvQueue t)"
  "s_unreadBuf (close_tail E t) = s_unreadBuf t"
  by (simp_all add: close_tail_def forwardStateTo_def DeleteAll_eq unacked_def)

lemma closeWithError_tail:
  assumes "\<not> s_closeRequested s"
  shows "\<exists>s'. closeWithError E False s = Some s' \<and> s_closed s' \<and> s_state s' = max (s_state s) sessionClosed \<and>
    unacked s' = [] \<and> st_tr (s_recvQueue s') = st_tr (s_recvQueue s) \<and> s_unreadBuf s' = s_unreadBuf s"
proof -
  have o: "s_state (snd (output_seg E seg t)) = s_state t" "s_recvQueue (snd (output_seg E seg t)) = s_recvQueue t"
      "s_unreadBuf (snd (output_seg E seg t)) = s_unreadBuf t" for seg t
    using output_seg_cases [of E seg t] by auto
  show ?thesis
    using assms by (simp add: closeWithError_def Let_def close_finish_def close_tail_ends o)
qed

end

section \<open>Properties\<close>

lemma evolves_known:
  assumes "evolves 0 s s' new" and "\<not> s_closeRequested s'"
  shows "core ` set (unacked s') = core ` set (unacked s) \<union> core ` set new"
  unfolding known_def [symmetric] using evolvesD(6,12) [OF assms(1)] assms(2) by blast

text \<open>
  C4.  \<^verbatim>\<open>Read\<close> with a buffer of \<open>n\<close> bytes returns, keeps the invariant, and hands out the next
  pending bytes: at most \<open>n\<close>, at least one unless \<open>n\<close> is 0, and the rest stays pending in order.
  It blocks only when nothing is pending.
\<close>

theorem read_returns_pending:
  assumes "session_env E" and "session_inv s"
  shows "\<exists>res s'. Read E n s = Some (res, s') \<and> session_inv s' \<and>
    (case res of
       ReadOK b \<Rightarrow> length b \<le> n \<and> b @ pending s' = pending s \<and> (b = [] \<longrightarrow> n = 0)
     | ReadBlocked \<Rightarrow> 0 < n \<and> pending s = [] \<and> pending s' = []
     | _ \<Rightarrow> False)"
  using session_env.Read_ok [OF assms, of n] reads_inv by blast

theorem read_returns_pending_witness:
  "\<exists>s'. Read sample_env 3 (sample_session False) = Some (ReadBlocked, s') \<and> session_inv s'"
proof -
  have "pending (sample_session False) = []" by (simp add: pending_def sample_session_simps sample_tree_simps)
  moreover obtain res s' where "Read sample_env 3 (sample_session False) = Some (res, s')" "session_inv s'"
      "case res of ReadOK b \<Rightarrow> length b \<le> 3 \<and> b @ pending s' = pending (sample_session False) \<and> (b = [] \<longrightarrow> (3::nat) = 0)
       | ReadBlocked \<Rightarrow> (0::nat) < 3 \<and> pending (sample_session False) = [] \<and> pending s' = [] | _ \<Rightarrow> False"
    using read_returns_pending [OF sample.session_env_axioms sample_session_inv(1) [of False], of 3] by blast
  ultimately show ?thesis by (cases res) auto
qed

text \<open>
  C3.  \<^verbatim>\<open>Write\<close> of at most \<^verbatim>\<open>maxPDU\<close> bytes returns and keeps the invariant.  When it reports no
  error, it reports all bytes and the new segments carry exactly these bytes, in order,
  behind everything that was queued before.
\<close>

theorem write_queues_everything:
  assumes "session_env E" and "session_inv s" and "mtu_ok s" and "b \<noteq> []" and "length b \<le> maxPDU"
    and "Suc (unat (s_nextSend s)) + segmentSendQueueTreeCapacity < 2 ^ 32"
  shows "\<exists>n e s' new. Write E b s = Some (n, e, s') \<and> session_inv s' \<and>
    (\<not> s_closeRequested s' \<longrightarrow> core ` set (unacked s') = core ` set (unacked s) \<union> core ` set new) \<and>
    (\<forall>i < length new. unat (Seq (new ! i)) = unat (s_nextSend s) + i) \<and>
    (case e of None \<Rightarrow> n = length b \<and> concat (map seg_payload new) = b
     | Some _ \<Rightarrow> n = 0 \<and> (\<exists>k. concat (map seg_payload new) = take k b))"
proof -
  obtain n e s' new where w: "Write E b s = Some (n, e, s')" "evolves 0 s s' new" "queued b n e new"
    using session_env.Write_evolves [OF assms] by blast
  then show ?thesis
    using evolvesD(1,5) [OF w(2)] evolves_known [OF w(2)]
    by (intro exI [of _ n] exI [of _ e] exI [of _ s'] exI [of _ new]) (auto simp: queued_def split: option.splits)
qed

theorem write_queues_everything_witness:
  "\<exists>n e s'. Write sample_env [1, 2, 3] (sample_session True) = Some (n, e, s') \<and> session_inv s' \<and> n = 3"
proof -
  have "mtu_ok (sample_session True)" by (simp add: mtu_ok_def sample_session_simps packetOverhead_def)
  then show ?thesis
    using write_queues_everything [OF sample.session_env_axioms sample_session_inv(1) [of True], of "[1, 2, 3]"]
    by (auto simp: sample_write sample_session_simps maxPDU_def segmentSendQueueTreeCapacity_def)
qed

text \<open>
  C7.  The packet output loop body always returns and keeps the invariant.  Unless the session
  starts to close, it neither drops nor adds an unacknowledged segment: everything queued or
  sent before is still queued or in the send buffer.
\<close>

theorem output_keeps_unacked:
  assumes "session_env E" and "session_inv s" and "s_closeRequested s \<or> Suc (unat (s_nextSend s)) < 2 ^ 32"
  shows "\<exists>s'. runOutputOncePacket E s = Some s' \<and> session_inv s' \<and>
    (s_closeRequested s' \<or> core ` set (unacked s') = core ` set (unacked s))"
proof -
  obtain s' where s': "runOutputOncePacket E s = Some s'" "sends s s'"
    using session_env.runOutputOncePacket_sends [OF assms(1,2)] assms(3) by (auto simp: room_def)
  obtain new where new: "evolves 0 s s' new" "new \<noteq> [] \<longrightarrow> s_closeRequested s'"
    using s'(2) by (auto simp: sends_def)
  have "core ` set (unacked s') = core ` set (unacked s)" if "\<not> s_closeRequested s'"
    using that new(2) evolves_known [OF new(1)] by auto
  then show ?thesis using s' evolves_inv [OF new(1)] by blast
qed

theorem output_keeps_unacked_witness:
  "\<exists>s'. runOutputOncePacket sample_env (sample_session True) = Some s' \<and> session_inv s'"
  using output_keeps_unacked [OF sample.session_env_axioms sample_session_inv(1) [of True]]
  by (auto simp: sample_session_simps)






text \<open>
  C5.  Progress: when the segment with the next expected sequence number arrives at an open packet
  session with room in its receive window, \<^verbatim>\<open>inputData\<close> returns and the next expected
  sequence number has grown, so the segment went to the receive queue.
\<close>

theorem next_segment_is_delivered:
  assumes "session_env E" and "session_inv s" and "recv_ok s" and "s_transport s = PacketTransport"
    and "\<not> s_closed s" and "checkProtocolType seg" and "Seq seg = s_nextRecv s"
    and "Suc (unat (Seq seg)) < 2 ^ 32" and "Suc (Suc (unat (s_nextSend s))) < 2 ^ 32"
    and "0 < receiveWindowSize E s"
  shows "\<exists>r s'. inputData E seg s = Some (r, s') \<and> s_nextRecv s < s_nextRecv s'"
  by (rule session_env.inputData_advances [OF assms])

theorem next_segment_is_delivered_witness:
  "\<exists>r s'. inputData sample_env sample_sent_open (sample_session False) = Some (r, s') \<and> 0 < s_nextRecv s'"
  using next_segment_is_delivered [OF sample.session_env_axioms sample_session_inv [of False], of sample_sent_open]
  by (simp add: sample_session_simps sample_sent_open_simps receiveWindowSize_def Max_go_def lb.Len_eq
      sample_env_simps sample_tree_simps segmentTreeCapacity_def)

text \<open>
  A close with an error ends the session at once: the send queue and the send buffer are
  empty and the state is closed, and what was received stays readable.
\<close>

theorem close_with_error_ends:
  assumes "session_env E" and "\<not> s_closeRequested s" and "s_state s \<le> sessionClosed"
  shows "\<exists>s'. closeWithError E False s = Some s' \<and> s_closed s' \<and> s_state s' = sessionClosed \<and>
    unacked s' = [] \<and> st_tr (s_recvQueue s') = st_tr (s_recvQueue s) \<and> s_unreadBuf s' = s_unreadBuf s"
  using session_env.closeWithError_tail [OF assms(1,2)] assms(3) by (auto simp: max_def)

theorem close_with_error_ends_witness:
  "\<exists>s'. closeWithError sample_env False (sample_session True) = Some s' \<and> s_closed s' \<and> unacked s' = []"
  using close_with_error_ends [OF sample.session_env_axioms, of "sample_session True"]
  by (auto simp: sample_session_simps sessionState_defs)

text \<open>
  The loop over the fragments stops at the first one that finds the deadline passed.  The fragments have the numbers \<open>n - 1\<close> down to 0.
\<close>

lemma write_fragments_timeout:
  assumes "session_env E" and "session_inv s" and "opened s"
    and "length (st_tr (s_sendQueue s)) + n \<le> st_cap (s_sendQueue s)" and "unat (s_nextSend s) + n < 2 ^ 32"
    and "length ptr \<le> n * fs" and "0 < n \<Longrightarrow> (n - 1) * fs < length ptr"
    and "\<And>k. 0 < k \<Longrightarrow> k \<le> fs \<Longrightarrow> le \<Longrightarrow> \<exists>w. lowEntropyEncodedPayloadLen (int k) mode = Inr w"
    and "k < n" and "\<And>i. n - k \<le> i \<Longrightarrow> i < n \<Longrightarrow> write_interrupted (E\<lparr>e_now := e_clock E i\<rparr>) s = None"
    and "write_interrupted (E\<lparr>e_now := e_clock E (n - k - 1)\<rparr>) s = Some ErrTimeout"
  shows "\<exists>s' new. write_fragments E mode r le fs n ptr s = Some (Some ErrTimeout, s') \<and>
    st_tr (s_sendQueue s') = st_tr (s_sendQueue s) @ new \<and> length new = k \<and> concat (map seg_payload new) = take (k * fs) ptr"
  using assms(2-)
proof (induction n arbitrary: s ptr k)
  case (Suc n)
  show ?case
  proof (cases k)
    case 0
    then show ?thesis using Suc.prems(10) by (auto intro!: exI [of _ "[]"])
  next
    case (Suc k')
    note d = session_invD [OF Suc.prems(1)]
    let ?l = "min fs (length ptr)"
    have lpos: "0 < ?l" using Suc.prems(5,6) by (cases "fs = 0") auto
    then obtain w where w: "(if le then lowEntropyEncodedPayloadLen (int ?l) mode else Inr (of_nat ?l)) = Inr w"
      using Suc.prems(7) [of ?l] by (cases le) auto
    let ?seg = "data_segment E mode r le n (take ?l ptr) w s"
    have seg: "checkProtocolType ?seg" using data_segment_simps(3) by (simp add: sendable_def)
    obtain q where q: "Insert (e_bt E) ?seg (s_sendQueue s) = Some (True, q)"
        "st_tr q = ins_item ?seg (st_tr (s_sendQueue s))" "st_cap q = st_cap (s_sendQueue s)"
      using Suc.prems(3) assms(1) [unfolded session_env_def] by (auto simp: btree.Insert_eq [OF _ d(1) seg])
    let ?s2 = "s\<lparr>s_nextSend := s_nextSend s + 1, s_sendQueue := q\<rparr>"
    have fr: "frame s ?s2" using q(3) by (simp add: frame_def)
    have e: "evolves 0 s ?s2 [?seg]" and u: "unacked ?s2 = unacked s @ [?seg]"
      by (rule enqueue_evolves [OF Suc.prems(1) data_segment_simps(1,3)];
          use Suc.prems(2,3,4) q fr in \<open>simp add: opened_def\<close>)+
    have lq: "st_tr q = st_tr (s_sendQueue s) @ [?seg]" using u by (simp add: unacked_def)
    have ns: "unat (s_nextSend ?s2) = Suc (unat (s_nextSend s))" using evolvesD(4) [OF e] by simp
    have wi: "write_interrupted F ?s2 = write_interrupted F s" for F by (simp add: write_interrupted_def)
    have "n * fs < length ptr" "k' < n" using Suc Suc.prems(6,8) by auto
    moreover have a: "fs \<le> n * fs" using \<open>k' < n\<close> by (cases n) auto
    ultimately have k: "Suc n - k = n - k'" "fs \<le> length ptr" using Suc by (simp, linarith)
    from \<open>n * fs < length ptr\<close> \<open>k' < n\<close> have fs: "?l = fs" "length (drop ?l ptr) \<le> n * fs" "0 < n \<Longrightarrow> (n - 1) * fs < length (drop ?l ptr)"
      using k(2) a Suc.prems(5) diff_less_mono [of "n * fs" "length ptr" fs] by (simp_all add: min_absorb1 diff_mult_distrib)
    have "\<exists>s' new. write_fragments E mode r le fs n (drop ?l ptr) ?s2 = Some (Some ErrTimeout, s') \<and>
        st_tr (s_sendQueue s') = st_tr (s_sendQueue ?s2) @ new \<and> length new = k' \<and>
        concat (map seg_payload new) = take (k' * fs) (drop ?l ptr)"
      using Suc Suc.prems(2,3,4,7,9,10) q(3) lq ns \<open>k' < n\<close>
      by (intro Suc.IH [OF evolves_inv [OF e] _ _ _ fs(2,3)]) (auto simp: wi opened_def k(1))
    then obtain s' new where s': "write_fragments E mode r le fs n (drop ?l ptr) ?s2 = Some (Some ErrTimeout, s')"
        "st_tr (s_sendQueue s') = st_tr q @ new" "length new = k'" "concat (map seg_payload new) = take (k' * fs) (drop ?l ptr)"
      by auto
    have "write_interrupted (E\<lparr>e_now := e_clock E n\<rparr>) s = None" using Suc Suc.prems(9) [of n] by simp
    then have "write_fragments E mode r le fs (Suc n) ptr s = Some (Some ErrTimeout, s')"
      using w q(1) s'(1) by (simp add: Let_def)
    then show ?thesis
      using s'(2-4) lq Suc fs(1)
      by (intro exI [of _ s'] exI [of _ "?seg # new"]) (simp add: data_segment_simps(2) take_add)
  qed
qed simp

text \<open>
  C14.  A write whose deadline passes between two fragments reports an error and 0 bytes, but leaves the fragments before that at the end of the send queue, from
  where they will be sent.  This holds for every session that may write, when the queue has room, the first \<open>k\<close> of the fragments come before the deadline and the next one does not.
  The fragments are \<open>fragmentSize\<close> bytes long, up to the last one.
\<close>

theorem timed_out_write_leaves_data:
  assumes "session_env E" and "session_inv s" and "mtu_ok s" and "b \<noteq> []" and "length b \<le> maxPDU"
    and "unat (s_nextSend s) + segmentSendQueueTreeCapacity < 2 ^ 32"
    and "\<not> s_closeRequested s" and "s_state s = sessionEstablished \<or> s_state s = sessionAttached \<and> (s_isClient s \<longrightarrow> s_openSessionRequestSent s)"
    and "\<not> s_closed s" and "\<not> s_outputHasErr s" and "s_writeDeadline s \<noteq> 0"
    and "maxFragmentSize (s_mtu s) (s_transport s) (fst (lowEntropySendConfig s)) = Inr (int fragmentSize)"
    and "n = (length b - 1) div fragmentSize + 1" and "length (st_tr (s_sendQueue s)) + n < st_cap (s_sendQueue s)" and "k < n"
    and "\<And>i. n - k \<le> i \<Longrightarrow> i < n \<Longrightarrow> e_clock E i < s_writeDeadline s" and "s_writeDeadline s \<le> e_clock E (n - k - 1)"
  shows "\<exists>s' new. Write E b s = Some (0, Some ErrTimeout, s') \<and> st_tr (s_sendQueue s') = st_tr (s_sendQueue s) @ new \<and>
    length new = k \<and> concat (map seg_payload new) = take (k * fragmentSize) b"
proof -
  note d = session_invD [OF assms(2)]
  obtain mode r le where cfg: "lowEntropySendConfig s = (mode, r, le)" by (metis prod_cases3)
  have fs: "maxFragmentSize (s_mtu s) (s_transport s) mode = Inr (int fragmentSize)" "0 < fragmentSize"
    using assms(12) cfg maxFragmentSize_pos [OF assms(3), of mode "int fragmentSize"] by simp_all
  have len: "go_div (int (length b) - 1) (int fragmentSize) = int ((length b - 1) div fragmentSize)"
    using assms(4) fs(2) by (cases b) (simp_all add: zdiv_int)
  have "(if int (length b) > int fragmentSize then nat (go_div (int (length b) - 1) (int fragmentSize) + 1) else 1) = n"
    unfolding len using assms(4,13) fs(2) by (auto simp: nat_add_distrib div_less)
  note n = this fragment_count [of "length b" "int fragmentSize", unfolded this]
  have "write_interrupted (E\<lparr>e_now := t\<rparr>) s = (if s_writeDeadline s \<le> t then Some ErrTimeout else None)" for t
    using assms(9-11) by (simp add: write_interrupted_def select_ready_def deadline_passed_def)
  moreover have "\<exists>w. lowEntropyEncodedPayloadLen (int j) mode = Inr w" if "0 < j" "j \<le> fragmentSize" "le" for j
    using encodes_fragment [OF assms(3) fs(1) _ that(1)] lowEntropySendConfig_off [OF cfg] that(2,3) by simp
  moreover have "opened s" using assms(8) by (auto simp: opened_def sessionState_defs)
  ultimately have "\<exists>s' new. write_fragments E mode r le fragmentSize n b s = Some (Some ErrTimeout, s') \<and>
      st_tr (s_sendQueue s') = st_tr (s_sendQueue s) @ new \<and> length new = k \<and> concat (map seg_payload new) = take (k * fragmentSize) b"
    using n(2-4) fs(2) assms(4,6,14-17) d(5) by (intro write_fragments_timeout [OF assms(1,2)]) (simp_all add: not_le)
  then obtain s' new where w: "write_fragments E mode r le fragmentSize n b s = Some (Some ErrTimeout, s')"
      "st_tr (s_sendQueue s') = st_tr (s_sendQueue s) @ new" "length new = k" "concat (map seg_payload new) = take (k * fragmentSize) b" by blast
  have "\<not> Remaining (e_bt E) (s_sendQueue s) \<le> int n"
    using assms(14) assms(1) [unfolded session_env_def] by (auto simp: btree.Remaining_eq [OF _ d(1)])
  then have "writeChunk E b s = Some (Inl ErrTimeout, s')"
    using w(1) assms(5) cfg fs n(1) by (simp add: writeChunk_def)
  then have "write_chunks E 0 b s = Some (0, Some ErrTimeout, s')"
    using assms(4,5) by (subst write_chunks.simps) (simp add: min_absorb1)
  moreover have "\<not> isStateBefore s sessionAttached False" "\<not> isStateAfter s sessionClosed True"
    "\<not> (s_isClient s \<and> isState s sessionAttached \<and> \<not> s_openSessionRequestSent s)"
    using assms(8) by (auto simp: isStateBefore_def isStateAfter_def isState_def sessionState_defs)
  ultimately have "Write E b s = Some (0, Some ErrTimeout, clear_write_deadline s')"
    using assms(7) unfolding Write_def Let_def by (simp only: if_False) simp
  then show ?thesis using w(2-4) by (simp add: clear_write_deadline_def)
qed

text \<open>An environment whose clock passes the write deadline between the first and the second fragment.\<close>

definition late_env :: env where
  "late_env = sample_env\<lparr>e_clock := \<lambda>i. if i = 0 then 10 else 0\<rparr>"

definition late_session :: session where
  "late_session = (sample_session False)\<lparr>s_writeDeadline := 5\<rparr>"

theorem timed_out_write_leaves_data_witness:
  "\<exists>s' new. Write late_env (replicate 2000 7) late_session = Some (0, Some ErrTimeout, s') \<and> st_tr (s_sendQueue s') = new \<and>
     length new = 1 \<and> concat (map seg_payload new) = replicate 1312 7"
proof -
  have e: "session_env late_env"
    using sample.session_env_axioms by (simp add: session_env_def late_env_def)
  have i: "session_inv late_session" using sample_session_inv(1) [of False] by (simp add: late_session_def session_inv_def unacked_def)
  have c: "lowEntropySendConfig late_session = (0, 0, False)"
    by (simp add: lowEntropySendConfig_def extractLowEntropyConfig_def late_session_def sample_session_simps
        LowEntropyMode_defs LowEntropyMaskRotation_defs)
  have "maxFragmentSize (s_mtu late_session) (s_transport late_session) (fst (lowEntropySendConfig late_session)) = Inr (int 1312)"
    unfolding c by (simp add: maxFragmentSize_def maxFragmentSizeInternal_def packetOverhead_def late_session_def sample_session_simps LowEntropyMode_defs Max_go_def)
  moreover have "mtu_ok late_session" by (simp add: mtu_ok_def late_session_def sample_session_simps packetOverhead_def)
  moreover have "2 - 1 \<le> j \<Longrightarrow> j < 2 \<Longrightarrow> e_clock late_env j < s_writeDeadline late_session" for j
    by (simp add: late_env_def late_session_def)
  moreover define b :: bytes where "b = replicate 2000 7"
  have b: "length b = 2000" "take (1 * 1312) b = replicate 1312 7" unfolding b_def by (simp_all only: length_replicate take_replicate) simp
  then have "b \<noteq> []" by auto
  ultimately have "\<exists>s' new. Write late_env b late_session = Some (0, Some ErrTimeout, s') \<and> st_tr (s_sendQueue s') = st_tr (s_sendQueue late_session) @ new \<and>
      length new = 1 \<and> concat (map seg_payload new) = take (1 * 1312) b"
    using b(1) by (intro timed_out_write_leaves_data [OF e i, where n = 2])
      (simp_all add: late_env_def late_session_def sample_session_simps sample_tree_simps maxPDU_def segmentSendQueueTreeCapacity_def)
  moreover have "st_tr (s_sendQueue late_session) = []" by (simp add: late_session_def sample_session_simps sample_tree_simps)
  ultimately show ?thesis unfolding b(2) unfolding b_def by (simp only: append_Nil)
qed

end
