(* ===== verification/Net_Addr.thy ===== *)
theory Net_Addr
  imports Prelude
begin

text \<open>
  The parts of Go's standard library that the SOCKS code uses on addresses: \<^verbatim>\<open>net.IP\<close>,
  \<^verbatim>\<open>net.UDPAddr\<close>, \<^verbatim>\<open>netip.ParseAddr\<close>, \<^verbatim>\<open>net.ParseCIDR\<close>,
  \<^verbatim>\<open>net.SplitHostPort\<close>, \<^verbatim>\<open>net.JoinHostPort\<close> and decimal integers of
  \<^verbatim>\<open>strconv\<close>.  A Go string is a \<open>string\<close>, whose characters are bytes, and a
  \<^verbatim>\<open>net.IP\<close> is a list of bytes, empty for \<^verbatim>\<open>nil\<close>.
\<close>

section \<open>Strings and bytes\<close>

definition bytes_of :: "string \<Rightarrow> bytes" where
  "bytes_of s = map (\<lambda>c. of_nat (of_char c)) s"

definition string_of :: "bytes \<Rightarrow> string" where
  "string_of b = map (\<lambda>x. char_of (unat x)) b"

lemma length_bytes_of [simp]: "length (bytes_of s) = length s"
  by (simp add: bytes_of_def)

lemma length_string_of [simp]: "length (string_of b) = length b"
  by (simp add: string_of_def)

lemma bytes_of_eq_Nil [simp]: "bytes_of s = [] \<longleftrightarrow> s = []" "string_of b = [] \<longleftrightarrow> b = []"
  by (simp_all add: bytes_of_def string_of_def)

lemma string_of_bytes_of [simp]: "string_of (bytes_of s) = s"
  by (simp add: string_of_def bytes_of_def comp_def unat_of_nat)

lemma bytes_of_string_of [simp]: "bytes_of (string_of b) = b"
proof -
  have "of_nat (of_char (char_of (unat x) :: char)) = x" for x :: u8
    using unsigned_less [of x, where ?'a = nat] by simp
  then show ?thesis by (simp add: string_of_def bytes_of_def comp_def)
qed

definition index_byte :: "char \<Rightarrow> string \<Rightarrow> nat option" where
  "index_byte c s = (let i = length (takeWhile (\<lambda>x. x \<noteq> c) s) in if i < length s then Some i else None)"

definition last_index_byte :: "char \<Rightarrow> string \<Rightarrow> nat option" where
  "last_index_byte c s = map_option (\<lambda>i. length s - 1 - i) (index_byte c (rev s))"

section \<open>Decimal integers\<close>

definition is_digit :: "char \<Rightarrow> bool" where
  "is_digit c \<longleftrightarrow> 48 \<le> (of_char c :: nat) \<and> (of_char c :: nat) \<le> 57"

definition digit_val :: "char \<Rightarrow> nat" where
  "digit_val c = of_char c - 48"

definition digits_val :: "string \<Rightarrow> nat" where
  "digits_val s = foldl (\<lambda>n c. 10 * n + digit_val c) 0 s"

fun dec :: "nat \<Rightarrow> string" where
  "dec n = (if n < 10 then [char_of (48 + n)] else dec (n div 10) @ [char_of (48 + n mod 10)])"

declare dec.simps [simp del]

definition Itoa :: "int \<Rightarrow> string" where
  "Itoa i = (if i < 0 then CHR ''-'' # dec (nat (- i)) else dec (nat i))"

definition Atoi :: "string \<Rightarrow> int option" where
  "Atoi s =
     (let neg = (s \<noteq> [] \<and> hd s = CHR ''-'');
          s = (if s \<noteq> [] \<and> (hd s = CHR ''-'' \<or> hd s = CHR ''+'') then tl s else s);
          n = int (digits_val s)
      in if s = [] \<or> \<not> list_all is_digit s then None
         else if neg then (if n \<le> 2 ^ 63 then Some (- n) else None)
         else (if n < 2 ^ 63 then Some n else None))"

section \<open>Host and port\<close>

datatype net_error =
    MissingPort
  | TooManyColons
  | MissingBracket
  | UnexpectedBracket
  | BadInteger string
  | PortOutOfRange int
  | NameTooLong string
  | AddrNotFound string
  | LookupFailed string
  | UnknownNetwork string

definition SplitHostPort :: "string \<Rightarrow> net_error + string \<times> string" where
  "SplitHostPort hostport =
     (case last_index_byte (CHR '':'') hostport of
        None \<Rightarrow> Inl MissingPort
      | Some i \<Rightarrow>
          let finish = (\<lambda>host j k.
            if index_byte (CHR ''['') (drop j hostport) \<noteq> None then Inl UnexpectedBracket
            else if index_byte (CHR '']'') (drop k hostport) \<noteq> None then Inl UnexpectedBracket
            else Inr (host, drop (i + 1) hostport))
          in if hostport ! 0 = CHR ''['' then
               (case index_byte (CHR '']'') hostport of
                  None \<Rightarrow> Inl MissingBracket
                | Some e \<Rightarrow>
                    if e + 1 = length hostport then Inl MissingPort
                    else if e + 1 = i then finish (take (e - 1) (drop 1 hostport)) 1 (e + 1)
                    else if hostport ! (e + 1) = CHR '':'' then Inl TooManyColons
                    else Inl MissingPort)
             else if index_byte (CHR '':'') (take i hostport) \<noteq> None then Inl TooManyColons
             else finish (take i hostport) 0 0)"

definition JoinHostPort :: "string \<Rightarrow> string \<Rightarrow> string" where
  "JoinHostPort host port =
     (if index_byte (CHR '':'') host \<noteq> None then ''['' @ host @ '']:'' @ port else host @ '':'' @ port)"

section \<open>IP addresses\<close>

definition v4InV6Prefix :: bytes where
  "v4InV6Prefix = replicate 10 0 @ [255, 255]"

definition To4 :: "bytes \<Rightarrow> bytes option" where
  "To4 ip = (if length ip = 4 then Some ip
     else if length ip = 16 \<and> take 12 ip = v4InV6Prefix then Some (drop 12 ip) else None)"

definition To16 :: "bytes \<Rightarrow> bytes option" where
  "To16 ip = (if length ip = 4 then Some (v4InV6Prefix @ ip) else if length ip = 16 then Some ip else None)"

definition IP_Equal :: "bytes \<Rightarrow> bytes \<Rightarrow> bool" where
  "IP_Equal ip x \<longleftrightarrow>
     (if length ip = length x then ip = x
      else if length ip = 4 \<and> length x = 16 then take 12 x = v4InV6Prefix \<and> ip = drop 12 x
      else if length ip = 16 \<and> length x = 4 then take 12 ip = v4InV6Prefix \<and> drop 12 ip = x
      else False)"

definition IsUnspecified :: "bytes \<Rightarrow> bool" where
  "IsUnspecified ip \<longleftrightarrow> IP_Equal ip (v4InV6Prefix @ [0, 0, 0, 0]) \<or> IP_Equal ip (replicate 16 0)"

definition IsLoopback :: "bytes \<Rightarrow> bool" where
  "IsLoopback ip \<longleftrightarrow>
     (case To4 ip of Some ip4 \<Rightarrow> ip4 ! 0 = 127 | None \<Rightarrow> IP_Equal ip (replicate 15 0 @ [1]))"

definition IsPrivate :: "bytes \<Rightarrow> bool" where
  "IsPrivate ip \<longleftrightarrow>
     (case To4 ip of
        Some ip4 \<Rightarrow> ip4 ! 0 = 10 \<or> (ip4 ! 0 = 172 \<and> ip4 ! 1 AND 0xf0 = 16) \<or> (ip4 ! 0 = 192 \<and> ip4 ! 1 = 168)
      | None \<Rightarrow> length ip = 16 \<and> ip ! 0 AND 0xfe = 0xfc)"

lemma IP_Equal_refl [simp]: "IP_Equal x x"
  by (simp add: IP_Equal_def)

lemma length_v4InV6Prefix [simp]: "length v4InV6Prefix = 12"
  by (simp add: v4InV6Prefix_def)

lemma length_To4: "To4 ip = Some b \<Longrightarrow> length b = 4"
  by (auto simp: To4_def split: if_splits)

lemma length_To16: "To16 ip = Some b \<Longrightarrow> length b = 16"
  by (auto simp: To16_def split: if_splits)

lemma To4_To16: "To4 ip = Some b \<Longrightarrow> To16 ip = Some (v4InV6Prefix @ b)"
  by (auto simp: To4_def To16_def split: if_splits) (metis append_take_drop_id)

lemma To16_None: "To16 ip = None \<Longrightarrow> To4 ip = None"
  by (cases "To4 ip") (simp_all add: To4_To16)

lemma To4_of_4 [simp]: "length b = 4 \<Longrightarrow> To4 b = Some b"
  by (simp add: To4_def)

lemma To16_of_16 [simp]: "length b = 16 \<Longrightarrow> To16 b = Some b"
  by (simp add: To16_def)

section \<open>Printing\<close>

definition hex_digit :: "nat \<Rightarrow> char" where
  "hex_digit n = ''0123456789abcdef'' ! n"

fun hex :: "nat \<Rightarrow> string" where
  "hex n = (if n < 16 then [hex_digit n] else hex (n div 16) @ [hex_digit (n mod 16)])"

declare hex.simps [simp del]

definition hex_bytes :: "bytes \<Rightarrow> string" where
  "hex_bytes b = concat (map (\<lambda>x. [hex_digit (unat x div 16), hex_digit (unat x mod 16)]) b)"

definition dotted :: "bytes \<Rightarrow> string" where
  "dotted ip = dec (unat (ip ! 0)) @ ''.'' @ dec (unat (ip ! 1)) @ ''.'' @ dec (unat (ip ! 2)) @ ''.'' @ dec (unat (ip ! 3))"

definition group16 :: "bytes \<Rightarrow> nat \<Rightarrow> nat" where
  "group16 ip i = 256 * unat (ip ! (2 * i)) + unat (ip ! (2 * i + 1))"

text \<open>The first longest run of at least two zero groups, as a start and an end.\<close>

definition zero_run :: "bytes \<Rightarrow> (nat \<times> nat) option" where
  "zero_run ip = foldl (\<lambda>best i.
     let l = length (takeWhile (\<lambda>j. group16 ip j = 0) [i..<8])
     in if 2 \<le> l \<and> (case best of None \<Rightarrow> True | Some (s, e) \<Rightarrow> e - s < l) then Some (i, i + l) else best) None [0..<8]"

definition join_groups :: "bytes \<Rightarrow> nat \<Rightarrow> nat \<Rightarrow> string" where
  "join_groups ip a b = concat (map (\<lambda>i. (if i = a then [] else '':'') @ hex (group16 ip i)) [a..<b])"

definition string6 :: "bytes \<Rightarrow> string" where
  "string6 ip =
     (case zero_run ip of
        None \<Rightarrow> join_groups ip 0 8
      | Some (s, e) \<Rightarrow> join_groups ip 0 s @ ''::'' @ join_groups ip e 8)"

definition IP_String :: "bytes \<Rightarrow> string" where
  "IP_String ip =
     (if ip = [] then ''<nil>''
      else case To4 ip of
        Some ip4 \<Rightarrow> dotted ip4
      | None \<Rightarrow> if length ip = 16 then string6 ip else ''?'' @ hex_bytes ip)"

record UDPAddr =
  udp_IP :: bytes
  udp_Port :: int
  udp_Zone :: string

definition UDPAddr_String :: "UDPAddr \<Rightarrow> string" where
  "UDPAddr_String a =
     (let ip = (if udp_IP a = [] then [] else IP_String (udp_IP a))
      in JoinHostPort (if udp_Zone a \<noteq> [] then ip @ ''%'' @ udp_Zone a else ip) (Itoa (udp_Port a)))"

section \<open>Parsing\<close>

fun split_on :: "char \<Rightarrow> string \<Rightarrow> string list" where
  "split_on c [] = [[]]"
| "split_on c (x # s) = (if x = c then [] # split_on c s
     else case split_on c s of [] \<Rightarrow> [[x]] | p # ps \<Rightarrow> (x # p) # ps)"

definition octet :: "string \<Rightarrow> bool" where
  "octet s \<longleftrightarrow> s \<noteq> [] \<and> list_all is_digit s \<and> (hd s = CHR ''0'' \<longrightarrow> length s = 1) \<and> digits_val s \<le> 255"

definition parseIPv4 :: "string \<Rightarrow> bytes option" where
  "parseIPv4 s = (let ps = split_on (CHR ''.'') s
     in if length ps = 4 \<and> list_all octet ps then Some (map (\<lambda>p. of_nat (digits_val p)) ps) else None)"

definition hex_val :: "char \<Rightarrow> nat option" where
  "hex_val c = (let n = of_char c in
     if 48 \<le> n \<and> n \<le> 57 then Some (n - 48)
     else if 97 \<le> n \<and> n \<le> 102 then Some (n - 97 + 10)
     else if 65 \<le> n \<and> n \<le> 70 then Some (n - 65 + 10) else None)"

text \<open>
  The loop of \<^verbatim>\<open>parseIPv6\<close>.  Its state is the string that is left, the bytes found so far, and the position
  of the ellipsis; each round consumes at least one character and adds two or four bytes.
\<close>

definition expand :: "bytes \<Rightarrow> nat option \<Rightarrow> bytes option" where
  "expand ip ell =
     (if length ip < 16 then (case ell of None \<Rightarrow> None
        | Some e \<Rightarrow> Some (take e ip @ replicate (16 - length ip) 0 @ drop e ip))
      else if ell \<noteq> None then None else Some ip)"

function (sequential) parse6 :: "string \<Rightarrow> bytes \<Rightarrow> nat option \<Rightarrow> bytes option" where
  "parse6 s ip ell =
     (if 16 \<le> length ip then (if s = [] then expand ip ell else None)
      else
        let h = takeWhile (\<lambda>c. hex_val c \<noteq> None) s; t = drop (length h) s;
            acc = foldl (\<lambda>a c. 16 * a + the (hex_val c)) 0 h
        in if h = [] \<or> 4 < length h then None
           else if t \<noteq> [] \<and> hd t = CHR ''.'' then
             (if ell = None \<and> length ip \<noteq> 12 then None
              else if 16 < length ip + 4 then None
              else case parseIPv4 s of None \<Rightarrow> None | Some f \<Rightarrow> expand (ip @ f) ell)
           else
             let ip = ip @ [of_nat (acc div 256), of_nat acc]
             in (case t of
                   [] \<Rightarrow> expand ip ell
                 | c # t1 \<Rightarrow>
                     if c \<noteq> CHR '':'' then None
                     else (case t1 of
                         [] \<Rightarrow> None
                       | d # t2 \<Rightarrow>
                           if d = CHR '':'' then
                             (if ell \<noteq> None then None
                              else if t2 = [] then expand ip (Some (length ip))
                              else parse6 t2 ip (Some (length ip)))
                           else parse6 t1 ip ell)))"
  by pat_completeness auto
termination
  by (relation "measure (\<lambda>(s, ip, ell). 16 - length ip)") auto

definition ParseAddr :: "string \<Rightarrow> (bytes \<times> string) option" where
  "ParseAddr s =
     (case find (\<lambda>c. c = CHR ''.'' \<or> c = CHR '':'' \<or> c = CHR ''%'') s of
        None \<Rightarrow> None
      | Some c \<Rightarrow>
          if c = CHR ''.'' then map_option (\<lambda>b. (b, [])) (parseIPv4 s)
          else if c = CHR ''%'' then None
          else
            let zone = (case index_byte (CHR ''%'') s of None \<Rightarrow> [] | Some i \<Rightarrow> drop (i + 1) s);
                a = (case index_byte (CHR ''%'') s of None \<Rightarrow> s | Some i \<Rightarrow> take i s)
            in if index_byte (CHR ''%'') s \<noteq> None \<and> zone = [] then None
               else if take 2 a = ''::'' then
                 (if length a = 2 then Some (replicate 16 0, zone)
                  else map_option (\<lambda>b. (b, zone)) (parse6 (drop 2 a) [] (Some 0)))
               else map_option (\<lambda>b. (b, zone)) (parse6 a [] None))"

definition ParseIP :: "string \<Rightarrow> bytes option" where
  "ParseIP s = (case ParseAddr s of Some (b, []) \<Rightarrow> To16 b | _ \<Rightarrow> None)"

text \<open>Networks: \<open>ParseCIDR\<close> returns the address and the mask of the \<^verbatim>\<open>IPNet\<close>.\<close>

definition CIDRMask :: "nat \<Rightarrow> nat \<Rightarrow> bytes" where
  "CIDRMask n bits = map (\<lambda>i. of_nat (256 - 2 ^ (8 - min 8 (n - 8 * i)))) [0..<bits div 8]"

definition IP_Mask :: "bytes \<Rightarrow> bytes \<Rightarrow> bytes" where
  "IP_Mask ip m =
     (let m = (if length m = 16 \<and> length ip = 4 \<and> list_all (\<lambda>x. x = 255) (take 12 m) then drop 12 m else m);
          ip = (if length m = 4 \<and> length ip = 16 \<and> take 12 ip = v4InV6Prefix then drop 12 ip else ip)
      in if length ip = length m then map2 (AND) ip m else [])"

definition ParseCIDR :: "string \<Rightarrow> (bytes \<times> bytes) option" where
  "ParseCIDR s =
     (case index_byte (CHR ''/'') s of
        None \<Rightarrow> None
      | Some i \<Rightarrow>
          let addr = take i s; mask = drop (i + 1) s
          in (case ParseAddr addr of
                Some (ip, []) \<Rightarrow>
                  if mask = [] \<or> \<not> list_all is_digit mask \<or> 8 * length ip < digits_val mask then None
                  else
                    let m = CIDRMask (digits_val mask) (8 * length ip)
                    in (case To16 ip of None \<Rightarrow> None | Some ip16 \<Rightarrow> Some (IP_Mask ip16 m, m))
              | _ \<Rightarrow> None))"

definition Contains :: "bytes \<times> bytes \<Rightarrow> bytes \<Rightarrow> bool" where
  "Contains n ip =
     (let (nip, m) = n;
          nn = (case To4 nip of Some x \<Rightarrow> x | None \<Rightarrow> if length nip = 16 then nip else []);
          m = (if length m = 4 then (if length nn = 4 then m else [])
               else if length m = 16 then (if length nn = 4 then drop 12 m else m) else []);
          nn = (if m = [] then [] else nn);
          ip = (case To4 ip of Some x \<Rightarrow> x | None \<Rightarrow> ip)
      in length ip = length nn \<and> list_all (\<lambda>i. nn ! i AND m ! i = ip ! i AND m ! i) [0..<length ip])"

text \<open>
  \<^verbatim>\<open>strings.ToLower\<close>, as far as a comparison with an ASCII string can see it: besides the letters A to Z, only the
  Kelvin sign and the dotted capital I are mapped to ASCII characters.
\<close>

definition lower :: "char \<Rightarrow> char" where
  "lower c = (let n = of_char c :: nat in if 65 \<le> n \<and> n \<le> 90 then char_of (n + 32) else c)"

fun ToLower :: "string \<Rightarrow> string" where
  "ToLower [] = []"
| "ToLower (a # s) =
     (if a = CHR 0xE2 \<and> take 2 s = [CHR 0x84, CHR 0xAA] then CHR ''k'' # ToLower (drop 2 s)
      else if a = CHR 0xC4 \<and> take 1 s = [CHR 0xB0] then CHR ''i'' # ToLower (drop 1 s)
      else lower a # ToLower s)"

definition TrimSuffix :: "string \<Rightarrow> string \<Rightarrow> string" where
  "TrimSuffix s suffix = (if length suffix \<le> length s \<and> drop (length s - length suffix) s = suffix
     then take (length s - length suffix) s else s)"

definition HasSuffix :: "string \<Rightarrow> string \<Rightarrow> bool" where
  "HasSuffix s suffix \<longleftrightarrow> length suffix \<le> length s \<and> drop (length s - length suffix) s = suffix"

lemma parse_loopback:
  "ParseIP ''127.0.0.1'' = Some (v4InV6Prefix @ [127, 0, 0, 1])"
  "ParseIP ''::1'' = Some (replicate 15 0 @ [1])"
proof -
  have "replicate 14 (0::u8) @ [0] = replicate 15 0" by (simp add: replicate_append_same numeral_eq_Suc)
  then show "ParseIP ''127.0.0.1'' = Some (v4InV6Prefix @ [127, 0, 0, 1])"
    "ParseIP ''::1'' = Some (replicate 15 0 @ [1])"
    by (simp_all add: ParseIP_def ParseAddr_def parseIPv4_def octet_def is_digit_def digits_val_def digit_val_def
        To16_def index_byte_def Let_def hex_val_def expand_def)
qed

section \<open>Printing and parsing\<close>

lemma is_digit_char: "n < 10 \<Longrightarrow> is_digit (char_of (48 + n))" "n < 10 \<Longrightarrow> digit_val (char_of (48 + n)) = n"
  by (simp_all add: is_digit_def digit_val_def)

lemma digits_val_snoc: "digits_val (s @ [c]) = 10 * digits_val s + digit_val c"
  by (simp add: digits_val_def)

lemma dec_digits: "digits_val (dec n) = n \<and> list_all is_digit (dec n) \<and> dec n \<noteq> []"
proof (induction n rule: dec.induct)
  case (1 n)
  show ?case
  proof (cases "n < 10")
    case True
    then show ?thesis by (subst (1 2 3) dec.simps) (simp add: digits_val_def is_digit_char)
  next
    case False
    then have "digits_val (dec n) = n \<and> list_all is_digit (dec n)"
      using 1 by (subst (1 2) dec.simps) (simp add: digits_val_snoc is_digit_char)
    then show ?thesis using False by (subst (3) dec.simps) simp
  qed
qed

lemma dec_leading: "hd (dec n) = CHR ''0'' \<Longrightarrow> n = 0"
proof (induction n rule: dec.induct)
  case (1 n)
  show ?case
  proof (cases "n < 10")
    case True
    then have "of_char (hd (dec n)) = (48 + n :: nat)" by (subst dec.simps) simp
    then show ?thesis using 1(2) by simp
  next
    case False
    then have "hd (dec n) = hd (dec (n div 10))"
      using dec_digits [of "n div 10"] by (subst dec.simps) simp
    then show ?thesis using 1 False by simp
  qed
qed

lemma Atoi_Itoa: "0 \<le> i \<Longrightarrow> i < 2 ^ 63 \<Longrightarrow> Atoi (Itoa i) = Some i"
proof -
  assume i: "0 \<le> i" "i < 2 ^ 63"
  have d: "digits_val (dec (nat i)) = nat i" "list_all is_digit (dec (nat i))" "dec (nat i) \<noteq> []"
    using dec_digits by blast+
  then have "is_digit (hd (dec (nat i)))" by (cases "dec (nat i)") auto
  then have "hd (dec (nat i)) \<noteq> CHR ''-''" "hd (dec (nat i)) \<noteq> CHR ''+''"
    by (auto simp: is_digit_def)
  then show ?thesis using i d by (simp add: Atoi_def Itoa_def Let_def)
qed

lemma split_on_append: "c \<notin> set a \<Longrightarrow> split_on c (a @ c # b) = a # split_on c b"
  by (induction a) auto

lemma split_on_none: "c \<notin> set a \<Longrightarrow> split_on c a = [a]"
  by (induction a) auto

lemma dec_no: "\<not> is_digit c \<Longrightarrow> c \<notin> set (dec n)"
  using dec_digits [of n] by (auto simp: list_all_iff)

lemma dec_octet: "n < 256 \<Longrightarrow> octet (dec n)"
proof -
  assume n: "n < 256"
  have "length (dec n) = 1" if "hd (dec n) = CHR ''0''"
    using dec_leading [OF that] by (simp add: dec.simps [of 0])
  then show ?thesis using n dec_digits [of n] by (auto simp: octet_def)
qed

lemma parseIPv4_dotted:
  assumes "length ip = 4"
  shows "parseIPv4 (dotted ip) = Some ip"
proof -
  obtain a b c d where ip: "ip = [a, b, c, d]"
    using assms by (auto simp: eval_nat_numeral length_Suc_conv)
  have n: "CHR ''.'' \<notin> set (dec n)" for n by (rule dec_no) (simp add: is_digit_def)
  have o: "octet (dec (unat x))" for x :: u8
    using unsigned_less [of x, where ?'a = nat] by (intro dec_octet) simp
  have v: "of_nat (digits_val (dec (unat x))) = x" for x :: u8
    using dec_digits by simp
  show ?thesis by (simp add: parseIPv4_def dotted_def ip split_on_append split_on_none n o v)
qed

lemma index_byte_None [simp]: "index_byte c s = None \<longleftrightarrow> c \<notin> set s"
  by (induction s) (auto simp: index_byte_def Let_def)

lemma index_byte_append: "c \<notin> set a \<Longrightarrow> index_byte c (a @ c # b) = Some (length a)"
  by (induction a) (auto simp: index_byte_def Let_def split: if_splits)

lemma last_index_byte_append: "c \<notin> set b \<Longrightarrow> last_index_byte c (a @ c # b) = Some (length a)"
  using index_byte_append [of c "rev b" "rev a"] by (simp add: last_index_byte_def)

lemma SplitHostPort_join:
  assumes "CHR '':'' \<notin> set h" "CHR ''['' \<notin> set h" "CHR '']'' \<notin> set h" "list_all is_digit p"
  shows "SplitHostPort (JoinHostPort h p) = Inr (h, p)"
proof -
  have "c \<notin> set p" if "\<not> is_digit c" for c using assms(4) that by (auto simp: list_all_iff)
  then have p: "CHR '':'' \<notin> set p" "CHR ''['' \<notin> set p" "CHR '']'' \<notin> set p"
    by (simp_all add: is_digit_def)
  have "JoinHostPort h p = h @ CHR '':'' # p" using assms(1) by (simp add: JoinHostPort_def)
  moreover have "(h @ CHR '':'' # p) ! 0 \<noteq> CHR ''[''" using assms(2) by (cases h) auto
  ultimately show ?thesis
    using assms p by (simp add: SplitHostPort_def last_index_byte_append Let_def)
qed

lemma JoinHostPort_dotted: "SplitHostPort (JoinHostPort (dotted ip) p) = Inr (dotted ip, p)" if "list_all is_digit p"
proof -
  have "c \<notin> set (dec n)" if "c = CHR '':'' \<or> c = CHR ''['' \<or> c = CHR '']''" for c n
    using that by (intro dec_no) (auto simp: is_digit_def)
  then show ?thesis using that by (intro SplitHostPort_join) (simp_all add: dotted_def)
qed

lemma ParseAddr_dotted:
  assumes "length ip = 4"
  shows "ParseAddr (dotted ip) = Some (ip, [])"
proof -
  have f: "list_all is_digit d \<Longrightarrow>
      find (\<lambda>c. c = CHR ''.'' \<or> c = CHR '':'' \<or> c = CHR ''%'') (d @ CHR ''.'' # s) = Some (CHR ''.'')" for d s
    by (induction d) (auto simp: is_digit_def)
  have "list_all is_digit (dec n)" for n using dec_digits by blast
  then have "find (\<lambda>c. c = CHR ''.'' \<or> c = CHR '':'' \<or> c = CHR ''%'') (dec n @ CHR ''.'' # s) = Some (CHR ''.'')" for n s
    by (rule f)
  then show ?thesis using parseIPv4_dotted [OF assms] by (simp add: ParseAddr_def dotted_def)
qed

end
