(* ===== verification/Socks.thy ===== *)
theory Socks
  imports Net_Addr
begin

text \<open>
  SOCKS5 addresses, requests and responses: \<^verbatim>\<open>apis/model/addr.go\<close>,
  \<^verbatim>\<open>apis/model/socks.go\<close> and the constants of \<^verbatim>\<open>apis/constant/socks5.go\<close>.

  A reader is the list of the bytes it still delivers, and a read returns the bytes that are left.
  An operation that writes returns the bytes of its single \<^verbatim>\<open>Write\<close> call.  A read
  that fails returns only its error: no caller looks at the partly filled value.  The lemmas give the round trips of all three
  formats, and that reading consumes exactly the raw bytes that are kept.
\<close>

section \<open>Constants\<close>

definition Socks5Version :: u8 where "Socks5Version = 5"
definition Socks5ConnectCmd :: u8 where "Socks5ConnectCmd = 1"
definition Socks5BindCmd :: u8 where "Socks5BindCmd = 2"
definition Socks5UDPAssociateCmd :: u8 where "Socks5UDPAssociateCmd = 3"
definition Socks5IPv4Address :: u8 where "Socks5IPv4Address = 1"
definition Socks5FQDNAddress :: u8 where "Socks5FQDNAddress = 3"
definition Socks5IPv6Address :: u8 where "Socks5IPv6Address = 4"
definition Socks5MaxUDPHeaderLen :: nat where "Socks5MaxUDPHeaderLen = 262"

lemmas socks5_consts = Socks5Version_def Socks5ConnectCmd_def Socks5BindCmd_def Socks5UDPAssociateCmd_def
  Socks5IPv4Address_def Socks5FQDNAddress_def Socks5IPv6Address_def

section \<open>Results\<close>

datatype socks_error =
    ReadFailed io_error
  | ErrUnrecognizedAddrType
  | InvalidVersion u8
  | UnsupportedCommand u8

definition read_n :: "nat \<Rightarrow> bytes \<Rightarrow> socks_error + bytes \<times> bytes" where
  "read_n n r = map_sum ReadFailed id (read_full n r)"

lemma read_n_append [simp]: "n = length p \<Longrightarrow> read_n n (p @ r) = Inr (p, r)"
  by (simp add: read_n_def read_full_append)

lemma read_n_Inr: "read_n n r = Inr (p, q) \<longleftrightarrow> r = p @ q \<and> length p = n"
  by (auto simp: read_n_def read_full_def)

lemma read_n_byte [simp]: "read_n 1 (x # r) = Inr ([x], r)" "read_n (Suc 0) (x # r) = Inr ([x], r)"
  by (simp_all add: read_n_def read_full_def)

section \<open>Addresses\<close>

record AddrSpec =
  FQDN :: string
  IP :: bytes
  Port :: int

definition emptyAddr :: AddrSpec where
  "emptyAddr = \<lparr>FQDN = [], IP = [], Port = 0\<rparr>"

definition AddrSpec_String :: "AddrSpec \<Rightarrow> string" where
  "AddrSpec_String a =
     (if length (IP a) \<noteq> 0 then JoinHostPort (IP_String (IP a)) (Itoa (Port a))
      else JoinHostPort (FQDN a) (Itoa (Port a)))"

definition AddrType :: "AddrSpec \<Rightarrow> u8" where
  "AddrType a = (if To4 (IP a) \<noteq> None then Socks5IPv4Address
     else if To16 (IP a) \<noteq> None then Socks5IPv6Address
     else if FQDN a \<noteq> [] then Socks5FQDNAddress else 0)"

definition read_host :: "u8 \<Rightarrow> bytes \<Rightarrow> AddrSpec \<Rightarrow> socks_error + AddrSpec \<times> bytes" where
  "read_host addrType r a =
     (if addrType = Socks5IPv4Address then and_then (read_n 4 r) (\<lambda>(addr, r). Inr (a\<lparr>IP := addr\<rparr>, r))
      else if addrType = Socks5IPv6Address then and_then (read_n 16 r) (\<lambda>(addr, r). Inr (a\<lparr>IP := addr\<rparr>, r))
      else if addrType = Socks5FQDNAddress then
        and_then (read_n 1 r) (\<lambda>(addrLen, r).
        and_then (read_n (unat (addrLen ! 0)) r) (\<lambda>(fqdn, r). Inr (a\<lparr>FQDN := string_of fqdn\<rparr>, r)))
      else Inl ErrUnrecognizedAddrType)"

definition port_of :: "bytes \<Rightarrow> int" where
  "port_of port = push_bit 8 (uint (port ! 0)) OR uint (port ! 1)"

definition ReadFromSocks5 :: "bytes \<Rightarrow> AddrSpec \<Rightarrow> socks_error + AddrSpec \<times> bytes" where
  "ReadFromSocks5 r a =
     and_then (read_n 1 r) (\<lambda>(addrType, r).
     and_then (read_host (addrType ! 0) r a) (\<lambda>(a, r).
     and_then (read_n 2 r) (\<lambda>(port, r). Inr (a\<lparr>Port := port_of port\<rparr>, r))))"

definition host_bytes :: "AddrSpec \<Rightarrow> socks_error + bytes" where
  "host_bytes a =
     (case To4 (IP a) of
        Some ip \<Rightarrow> Inr (Socks5IPv4Address # ip)
      | None \<Rightarrow> (case To16 (IP a) of
          Some ip \<Rightarrow> Inr (Socks5IPv6Address # ip)
        | None \<Rightarrow> if FQDN a \<noteq> []
            then Inr (Socks5FQDNAddress # of_nat (length (FQDN a)) # bytes_of (FQDN a))
            else Inl ErrUnrecognizedAddrType))"

definition port_bytes :: "int \<Rightarrow> bytes" where
  "port_bytes p = (let addrPort = word_of_int p :: u16
     in [ucast (drop_bit 8 addrPort), ucast (addrPort AND 0xff)])"

definition WriteToSocks5 :: "AddrSpec \<Rightarrow> socks_error + bytes" where
  "WriteToSocks5 a = and_then (host_bytes a) (\<lambda>h. Inr (h @ port_bytes (Port a)))"

lemma length_port_bytes [simp]: "length (port_bytes p) = 2"
  by (simp add: port_bytes_def Let_def)

lemma port_round_trip:
  assumes "0 \<le> p" "p < 65536"
  shows "port_of (port_bytes p) = p"
proof (rule bit_eqI)
  fix n
  have p: "take_bit 16 p = p" using assms by (simp add: take_bit_int_eq_self_iff)
  have b: "bit p n \<longleftrightarrow> bit p n \<and> n < 16"
    using p by (metis bit_take_bit_iff)
  have m: "(0xff :: u16) = mask 8" by (simp add: mask_eq_exp_minus_1)
  show "bit (port_of (port_bytes p)) n = bit p n"
    unfolding m port_of_def port_bytes_def Let_def
    by (subst b, cases "n < 8") (auto simp: bit_simps not_less)
qed

lemma port_bytes_of:
  assumes "length b = 2"
  shows "port_bytes (port_of b) = b" and "0 \<le> port_of b" and "port_of b < 65536"
proof -
  obtain x y where b: "b = [x, y]"
    using assms by (auto simp: numeral_2_eq_2 length_Suc_conv)
  have m: "(0xff :: u16) = mask 8" by (simp add: mask_eq_exp_minus_1)
  have "ucast (drop_bit 8 (word_of_int (port_of b) :: u16)) = x"
    by (rule bit_word_eqI) (auto simp: b port_of_def bit_simps dest: bit_imp_le_length)
  moreover have "ucast ((word_of_int (port_of b) :: u16) AND 0xff) = y"
    unfolding m by (rule bit_word_eqI) (auto simp: b port_of_def bit_simps)
  ultimately show "port_bytes (port_of b) = b"
    by (simp add: port_bytes_def Let_def b)
  have "take_bit 16 (port_of b) = port_of b"
    by (rule bit_eqI) (auto simp: b port_of_def bit_simps dest: bit_imp_le_length)
  then show "0 \<le> port_of b" and "port_of b < 65536"
    by (simp_all add: take_bit_int_eq_self_iff)
qed

text \<open>The address as the wire carries it: the IP in its shortest form, and the name only without an IP.\<close>

definition canonical :: "AddrSpec \<Rightarrow> AddrSpec" where
  "canonical a =
     (case To4 (IP a) of
        Some ip \<Rightarrow> a\<lparr>FQDN := [], IP := ip\<rparr>
      | None \<Rightarrow> (case To16 (IP a) of Some ip \<Rightarrow> a\<lparr>FQDN := [], IP := ip\<rparr> | None \<Rightarrow> a\<lparr>IP := []\<rparr>))"

definition wire_addr :: "AddrSpec \<Rightarrow> bool" where
  "wire_addr a \<longleftrightarrow> 0 \<le> Port a \<and> Port a < 65536 \<and> AddrType a \<noteq> 0 \<and> length (FQDN a) < 256"

lemma AddrType_0: "AddrType a = 0 \<longleftrightarrow> To16 (IP a) = None \<and> FQDN a = []"
  by (auto simp: AddrType_def socks5_consts dest: To4_To16 To16_None)

lemma read_host_simps [simp]:
  "length ip = 4 \<Longrightarrow> read_host Socks5IPv4Address (ip @ r) a = Inr (a\<lparr>IP := ip\<rparr>, r)"
  "length ip = 16 \<Longrightarrow> read_host Socks5IPv6Address (ip @ r) a = Inr (a\<lparr>IP := ip\<rparr>, r)"
  "length s < 256 \<Longrightarrow>
     read_host Socks5FQDNAddress (of_nat (length s) # bytes_of s @ r) a = Inr (a\<lparr>FQDN := s\<rparr>, r)"
  by (simp_all add: read_host_def socks5_consts unat_of_nat)

lemma read_host_bytes:
  assumes "host_bytes a = Inr h" and "length (FQDN a) < 256"
  shows "\<exists>t h'. h = t # h' \<and> (\<forall>r. read_host t (h' @ r) emptyAddr = Inr (canonical (a\<lparr>Port := 0\<rparr>), r))"
proof (cases "To16 (IP a)")
  case None
  then have "h = Socks5FQDNAddress # of_nat (length (FQDN a)) # bytes_of (FQDN a)"
    using assms(1) To16_None [OF None] by (simp add: host_bytes_def split: if_splits)
  then show ?thesis
    using assms(2) None To16_None [OF None] by (simp add: canonical_def emptyAddr_def)
next
  case (Some ip)
  then show ?thesis
    using assms(1) length_To4 [of "IP a"] length_To16 [of "IP a"]
    by (cases "To4 (IP a)") (simp_all add: host_bytes_def canonical_def emptyAddr_def, auto)
qed

lemma host_bytes_Inr: "(\<exists>h. host_bytes a = Inr h) \<longleftrightarrow> AddrType a \<noteq> 0"
  by (auto simp: AddrType_0 host_bytes_def split: option.splits dest: To4_To16)

lemma addr_round_trip:
  assumes "wire_addr a"
  shows "\<exists>bs. WriteToSocks5 a = Inr bs \<and> (\<forall>r. ReadFromSocks5 (bs @ r) emptyAddr = Inr (canonical a, r))"
proof -
  obtain h where h: "host_bytes a = Inr h"
    using assms host_bytes_Inr [of a] by (auto simp: wire_addr_def)
  obtain t h' where t: "h = t # h'" "\<And>r. read_host t (h' @ r) emptyAddr = Inr (canonical (a\<lparr>Port := 0\<rparr>), r)"
    using read_host_bytes [OF h] assms by (auto simp: wire_addr_def)
  have c: "(canonical (a\<lparr>Port := 0\<rparr>))\<lparr>Port := Port a\<rparr> = canonical a"
    by (cases a) (simp add: canonical_def split: option.splits)
  show ?thesis
    using assms t port_round_trip [of "Port a"]
    by (simp add: WriteToSocks5_def h ReadFromSocks5_def wire_addr_def c)
qed

lemma read_host_written:
  assumes "read_host t r emptyAddr = Inr (a, r')" and "t = AddrType (a\<lparr>Port := q\<rparr>)"
  shows "\<exists>h. r = h @ r' \<and> host_bytes (a\<lparr>Port := q\<rparr>) = Inr (t # h)"
  using assms
  by (auto simp: read_host_def AddrType_def host_bytes_def and_then_Inr read_n_Inr emptyAddr_def socks5_consts
      length_Suc_conv To16_def split: if_splits option.splits)

lemma read_host_prefix: "read_host t r a = Inr (a', r') \<Longrightarrow> \<exists>h. r = h @ r'"
  by (auto simp: read_host_def and_then_Inr read_n_Inr split: if_splits)

text \<open>Reading an address consumes a prefix of the input, and writing the address gives that prefix back.\<close>

lemma ReadFromSocks5_steps:
  assumes "ReadFromSocks5 r a0 = Inr (a, r')"
  obtains t r1 a1 q where "r = t # r1" "read_host t r1 a0 = Inr (a1, q @ r')" "length q = 2"
    "a = a1\<lparr>Port := port_of q\<rparr>"
  using assms by (auto simp: ReadFromSocks5_def and_then_Inr read_n_Inr length_Suc_conv)

lemma ReadFromSocks5_prefix:
  assumes "ReadFromSocks5 r a = Inr (a', r')"
  shows "\<exists>p. r = p @ r' \<and> p \<noteq> []"
proof -
  obtain t r1 a1 q where r: "r = t # r1" "read_host t r1 a = Inr (a1, q @ r')"
    using assms by (rule ReadFromSocks5_steps)
  then obtain h where "r1 = h @ q @ r'" using read_host_prefix by blast
  then have "r = (t # h @ q) @ r'" using r(1) by simp
  then show ?thesis by blast
qed

lemma ReadFromSocks5_written:
  assumes "ReadFromSocks5 r emptyAddr = Inr (a, r')"
  shows "\<exists>p. r = p @ r' \<and> p \<noteq> [] \<and> (hd p = AddrType a \<longrightarrow> WriteToSocks5 a = Inr p)"
proof -
  obtain t r1 a1 q where r: "r = t # r1" "read_host t r1 emptyAddr = Inr (a1, q @ r')" "length q = 2"
    "a = a1\<lparr>Port := port_of q\<rparr>"
    using assms by (rule ReadFromSocks5_steps)
  obtain h where h: "r1 = h @ q @ r'" using read_host_prefix r(2) by blast
  show ?thesis
  proof (intro exI conjI impI)
    show "r = (t # h @ q) @ r'" using r(1) h by simp
    assume "hd (t # h @ q) = AddrType a"
    then have "t = AddrType (a1\<lparr>Port := port_of q\<rparr>)" using r(4) by simp
    from read_host_written [OF r(2) this] h show "WriteToSocks5 a = Inr (t # h @ q)"
      by (auto simp: WriteToSocks5_def r(4) port_bytes_of(1) [OF r(3)])
  qed simp
qed

section \<open>Network addresses\<close>

definition AddrSpec_From :: "string \<Rightarrow> AddrSpec \<Rightarrow> net_error + AddrSpec" where
  "AddrSpec_From addr a =
     and_then (SplitHostPort addr) (\<lambda>(host, portStr).
     case Atoi portStr of
       None \<Rightarrow> Inl (BadInteger portStr)
     | Some port \<Rightarrow>
         if port < 0 \<or> port > 65535 then Inl (PortOutOfRange port)
         else (case ParseIP host of
             Some ip \<Rightarrow> Inr (a\<lparr>FQDN := [], IP := ip, Port := port\<rparr>)
           | None \<Rightarrow>
               if length host > 255 then Inl (NameTooLong host)
               else Inr (a\<lparr>FQDN := host, IP := [], Port := port\<rparr>)))"

record NetAddrSpec =
  Addr :: AddrSpec
  Net :: string

text \<open>
  The dynamic types of a \<^verbatim>\<open>net.Addr\<close>: a \<^verbatim>\<open>NetAddrSpec\<close> or a pointer to one, a UDP address, or another type with
  its \<^verbatim>\<open>String\<close> and \<^verbatim>\<open>Network\<close>.
\<close>

datatype net_addr = NetAddr NetAddrSpec | AddrUDP UDPAddr | OtherAddr string string

definition addr_String :: "net_addr \<Rightarrow> string" where
  "addr_String addr =
     (case addr of NetAddr n \<Rightarrow> AddrSpec_String (Addr n) | AddrUDP u \<Rightarrow> UDPAddr_String u | OtherAddr s n \<Rightarrow> s)"

definition addr_Network :: "net_addr \<Rightarrow> string" where
  "addr_Network addr = (case addr of NetAddr n \<Rightarrow> Net n | AddrUDP u \<Rightarrow> ''udp'' | OtherAddr s n \<Rightarrow> n)"

definition NetAddrSpec_From :: "net_addr \<Rightarrow> net_error + NetAddrSpec" where
  "NetAddrSpec_From addr =
     (case addr of
        NetAddr nas \<Rightarrow> Inr \<lparr>Addr = Addr nas, Net = Net nas\<rparr>
      | _ \<Rightarrow> and_then (AddrSpec_From (addr_String addr) emptyAddr)
          (\<lambda>addrSpec. Inr \<lparr>Addr = addrSpec, Net = addr_Network addr\<rparr>))"

section \<open>Requests and responses\<close>

text \<open>
  \<open>consumed r r'\<close> is what a \<^verbatim>\<open>TeeReader\<close> has copied when the reader went from \<open>r\<close> to \<open>r'\<close>.
\<close>

definition consumed :: "bytes \<Rightarrow> bytes \<Rightarrow> bytes" where
  "consumed r r' = take (length r - length r') r"

lemma consumed_append [simp]: "consumed (p @ r) r = p"
  by (simp add: consumed_def)

record Request =
  Command :: u8
  DstAddr :: AddrSpec
  req_Raw :: bytes

record Response =
  Reply :: u8
  BindAddr :: AddrSpec
  resp_Raw :: bytes

definition readSocks5AddrAfterType :: "bytes \<Rightarrow> u8 \<Rightarrow> socks_error + AddrSpec \<times> bytes \<times> bytes" where
  "readSocks5AddrAfterType r addrType =
     and_then (ReadFromSocks5 (addrType # r) emptyAddr) (\<lambda>(addr, r'). Inr (addr, consumed r r', r'))"

definition ReadSocks5Request :: "bytes \<Rightarrow> socks_error + Request \<times> bytes" where
  "ReadSocks5Request r =
     and_then (read_n 4 r) (\<lambda>(header, r).
     and_then (readSocks5AddrAfterType r (header ! 3)) (\<lambda>(dstAddr, addrRaw, r).
       Inr (\<lparr>Command = header ! 1, DstAddr = dstAddr, req_Raw = header @ addrRaw\<rparr>, r)))"

definition Request_ReadFromSocks5 :: "bytes \<Rightarrow> Request \<Rightarrow> socks_error + Request \<times> bytes" where
  "Request_ReadFromSocks5 r req =
     and_then (read_n 3 r) (\<lambda>(header, r1).
       let version = header ! 0; req = req\<lparr>Command := header ! 1\<rparr>
       in if version \<noteq> Socks5Version then Inl (InvalidVersion version)
          else and_then (ReadFromSocks5 r1 (DstAddr req)) (\<lambda>(a, r2).
            Inr (req\<lparr>DstAddr := a, req_Raw := consumed r r2\<rparr>, r2)))"

definition Request_WriteToSocks5 :: "Request \<Rightarrow> socks_error + bytes \<times> Request" where
  "Request_WriteToSocks5 req =
     and_then (WriteToSocks5 (DstAddr req)) (\<lambda>b.
       let raw = [Socks5Version, Command req, 0] @ b in Inr (raw, req\<lparr>req_Raw := raw\<rparr>))"

definition WriteSocks5Request :: "u8 \<Rightarrow> AddrSpec \<Rightarrow> socks_error + bytes" where
  "WriteSocks5Request command dst =
     and_then (Request_WriteToSocks5 \<lparr>Command = command, DstAddr = dst, req_Raw = []\<rparr>) (\<lambda>(b, _). Inr b)"

definition ToNetAddrSpec :: "Request \<Rightarrow> socks_error + NetAddrSpec" where
  "ToNetAddrSpec req =
     (if Command req = Socks5ConnectCmd then Inr \<lparr>Addr = DstAddr req, Net = ''tcp''\<rparr>
      else if Command req = Socks5UDPAssociateCmd then Inr \<lparr>Addr = DstAddr req, Net = ''udp''\<rparr>
      else Inl (UnsupportedCommand (Command req)))"

definition ReadSocks5Response :: "bytes \<Rightarrow> socks_error + Response \<times> bytes" where
  "ReadSocks5Response r =
     and_then (read_n 4 r) (\<lambda>(header, r).
     and_then (readSocks5AddrAfterType r (header ! 3)) (\<lambda>(bindAddr, addrRaw, r).
       Inr (\<lparr>Reply = header ! 1, BindAddr = bindAddr, resp_Raw = header @ addrRaw\<rparr>, r)))"

definition Response_ReadFromSocks5 :: "bytes \<Rightarrow> Response \<Rightarrow> socks_error + Response \<times> bytes" where
  "Response_ReadFromSocks5 r resp =
     and_then (read_n 3 r) (\<lambda>(header, r1).
       let version = header ! 0; resp = resp\<lparr>Reply := header ! 1\<rparr>
       in if version \<noteq> Socks5Version then Inl (InvalidVersion version)
          else and_then (ReadFromSocks5 r1 (BindAddr resp)) (\<lambda>(a, r2).
            Inr (resp\<lparr>BindAddr := a, resp_Raw := consumed r r2\<rparr>, r2)))"

definition Response_WriteToSocks5 :: "Response \<Rightarrow> socks_error + bytes \<times> Response" where
  "Response_WriteToSocks5 resp =
     and_then (WriteToSocks5 (BindAddr resp)) (\<lambda>b.
       let raw = [Socks5Version, Reply resp, 0] @ b in Inr (raw, resp\<lparr>resp_Raw := raw\<rparr>))"

definition WriteSocks5Response :: "u8 \<Rightarrow> AddrSpec \<Rightarrow> socks_error + bytes" where
  "WriteSocks5Response reply bnd =
     and_then (Response_WriteToSocks5 \<lparr>Reply = reply, BindAddr = bnd, resp_Raw = []\<rparr>) (\<lambda>(b, _). Inr b)"

section \<open>Round trips\<close>

lemma after_type:
  "and_then (read_n 4 (v # c # z # b)) (\<lambda>(header, r). and_then (readSocks5AddrAfterType r (header ! 3)) (f header)) =
     (case b of [] \<Rightarrow> Inl (ReadFailed UnexpectedEOF)
      | t # r \<Rightarrow> and_then (readSocks5AddrAfterType r t) (f [v, c, z, t]))"
  by (cases b) (simp_all add: read_n_def read_full_def)

lemma readSocks5AddrAfterType_Inr:
  "readSocks5AddrAfterType r t = Inr (a, raw, r') \<longleftrightarrow>
     ReadFromSocks5 (t # r) emptyAddr = Inr (a, r') \<and> t # raw = consumed (t # r) r'"
proof (cases "ReadFromSocks5 (t # r) emptyAddr = Inr (a, r')")
  case True
  then obtain h where "t # r = h @ r'" "h \<noteq> []" using ReadFromSocks5_prefix by blast
  then obtain h' where h': "r = h' @ r'" by (auto simp: Cons_eq_append_conv)
  show ?thesis using True consumed_append [of "t # h'" r'] h'
    by (auto simp: readSocks5AddrAfterType_def)
qed (auto simp: readSocks5AddrAfterType_def and_then_Inr)

lemma length_3: "length p = 3 \<longleftrightarrow> (\<exists>x y z. p = [x, y, z])"
  and length_4: "length p = 4 \<longleftrightarrow> (\<exists>x y z t. p = [x, y, z, t])"
  by (auto simp: eval_nat_numeral length_Suc_conv)

lemma consumed_header:
  assumes "ReadFromSocks5 b e = Inr (a, r')"
  shows "consumed (v # c # z # b) r' = [v, c, z] @ consumed b r'"
proof -
  obtain h where "b = h @ r'" using ReadFromSocks5_prefix [OF assms] by blast
  then show ?thesis using consumed_append [of "v # c # z # h" r'] by simp
qed

lemma read_message:
  "and_then (read_n 4 r) (\<lambda>(header, r). and_then (readSocks5AddrAfterType r (header ! 3))
      (\<lambda>(a, addrRaw, r). Inr (f (header ! 1) a (header @ addrRaw), r))) = Inr x \<longleftrightarrow>
   (\<exists>v c z b a r'. r = v # c # z # b \<and> ReadFromSocks5 b emptyAddr = Inr (a, r') \<and> x = (f c a (consumed r r'), r'))"
  (is "?lhs \<longleftrightarrow> ?rhs")
proof
  assume ?lhs
  then obtain v c z t b a raw r' where r: "r = v # c # z # t # b"
      "readSocks5AddrAfterType b t = Inr (a, raw, r')" "x = (f c a ([v, c, z, t] @ raw), r')"
    by (auto simp: and_then_Inr read_n_Inr length_4)
  moreover from r(2) have "ReadFromSocks5 (t # b) emptyAddr = Inr (a, r')" "consumed (t # b) r' = t # raw"
    by (simp_all add: readSocks5AddrAfterType_Inr)
  ultimately show ?rhs using consumed_header [of "t # b" emptyAddr a r' v c z] by auto
next
  assume ?rhs
  then obtain v c z b a r' where r: "r = v # c # z # b" "ReadFromSocks5 b emptyAddr = Inr (a, r')"
      "x = (f c a (consumed r r'), r')" by blast
  then obtain h where "b = h @ r'" "h \<noteq> []" using ReadFromSocks5_prefix by blast
  then obtain t h' where b: "b = t # h' @ r'" by (cases h) auto
  then have "readSocks5AddrAfterType (h' @ r') t = Inr (a, h', r')"
    using r(2) by (simp add: readSocks5AddrAfterType_def)
  then show ?lhs using r(1,3) b consumed_append [of "v # c # z # t # h'" r'] by (simp add: after_type)
qed

lemma read_versioned_message:
  "and_then (read_n 3 r) (\<lambda>(header, r1). if header ! 0 \<noteq> Socks5Version then Inl (InvalidVersion (header ! 0))
      else and_then (ReadFromSocks5 r1 emptyAddr) (\<lambda>(a, r2). Inr (f (header ! 1) a (consumed r r2), r2))) = Inr x \<longleftrightarrow>
   r ! 0 = Socks5Version \<and>
   (\<exists>v c z b a r'. r = v # c # z # b \<and> ReadFromSocks5 b emptyAddr = Inr (a, r') \<and> x = (f c a (consumed r r'), r'))"
proof (cases "\<exists>v c z b. r = v # c # z # b")
  case True
  then show ?thesis by (auto simp: read_n_def read_full_def and_then_Inr)
next
  case False
  then have "\<nexists>p q. read_n 3 r = Inr (p, q)" by (auto simp: read_n_Inr length_3)
  then show ?thesis using False by (auto simp: and_then_Inr)
qed

lemma addr_written_after_type:
  assumes "wire_addr a"
  shows "\<exists>t b. WriteToSocks5 a = Inr (t # b) \<and> (\<forall>r. readSocks5AddrAfterType (b @ r) t = Inr (canonical a, b, r))"
proof -
  obtain bs where bs: "WriteToSocks5 a = Inr bs" "\<And>r. ReadFromSocks5 (bs @ r) emptyAddr = Inr (canonical a, r)"
    using addr_round_trip [OF assms] by blast
  have "bs \<noteq> []" using bs(2) [of "[]"] by (auto simp: ReadFromSocks5_def read_n_def read_full_def)
  then obtain t b where "bs = t # b" by (cases bs) auto
  then show ?thesis using bs by (auto simp: readSocks5AddrAfterType_def)
qed

lemma messages_round_trip:
  assumes "wire_addr a"
  shows "(\<exists>bs. WriteSocks5Request c a = Inr bs \<and>
           (\<forall>r. ReadSocks5Request (bs @ r) = Inr (\<lparr>Command = c, DstAddr = canonical a, req_Raw = bs\<rparr>, r))) \<and>
         (\<exists>bs. WriteSocks5Response c a = Inr bs \<and>
           (\<forall>r. ReadSocks5Response (bs @ r) = Inr (\<lparr>Reply = c, BindAddr = canonical a, resp_Raw = bs\<rparr>, r)))"
proof -
  obtain t b where t: "WriteToSocks5 a = Inr (t # b)" "\<And>r. readSocks5AddrAfterType (b @ r) t = Inr (canonical a, b, r)"
    using addr_written_after_type [OF assms] by blast
  then show ?thesis
    by (simp add: WriteSocks5Request_def Request_WriteToSocks5_def WriteSocks5Response_def Response_WriteToSocks5_def
        ReadSocks5Request_def ReadSocks5Response_def after_type Let_def)
qed

text \<open>
  C32.  Requests and responses survive the wire: for an address with a port in range and a name of at
  most 255 bytes, writing succeeds, and reading from a stream that starts with the written bytes
  gives the same command or reply, the address in canonical form, the raw bytes, and leaves the rest
  of the stream.
\<close>

theorem socks_message_round_trip:
  assumes "wire_addr a"
  shows "(\<exists>bs. WriteSocks5Request c a = Inr bs \<and>
           (\<forall>r. ReadSocks5Request (bs @ r) = Inr (\<lparr>Command = c, DstAddr = canonical a, req_Raw = bs\<rparr>, r))) \<and>
         (\<exists>bs. WriteSocks5Response c a = Inr bs \<and>
           (\<forall>r. ReadSocks5Response (bs @ r) = Inr (\<lparr>Reply = c, BindAddr = canonical a, resp_Raw = bs\<rparr>, r)))"
  by (rule messages_round_trip [OF assms])

definition example_host :: AddrSpec where
  "example_host = \<lparr>FQDN = ''example.com'', IP = [], Port = 443\<rparr>"

lemma example_host_wire: "wire_addr example_host"
  by (simp add: wire_addr_def example_host_def AddrType_def To4_def To16_def socks5_consts)

theorem socks_message_round_trip_witness:
  "\<exists>bs. WriteSocks5Request 1 example_host = Inr bs \<and>
     ReadSocks5Request (bs @ [7]) = Inr (\<lparr>Command = 1, DstAddr = canonical example_host, req_Raw = bs\<rparr>, [7])"
  using socks_message_round_trip [OF example_host_wire, of 1] by blast

text \<open>
  Decoding is canonical: when an address is read into an empty \<^verbatim>\<open>AddrSpec\<close>, the port is in
  range, the bytes read are a prefix of the input, and writing the address gives exactly these bytes
  again, except for the IPv6 form of an IPv4 address and an empty name, which are the cases in which
  the type byte is not the one of the address.
\<close>

theorem socks_address_canonical:
  assumes "ReadFromSocks5 r emptyAddr = Inr (a, r')"
  shows "\<exists>p. r = p @ r' \<and> 0 \<le> Port a \<and> Port a < 65536 \<and> length (FQDN a) < 256 \<and>
    (hd p = AddrType a \<longrightarrow> WriteToSocks5 a = Inr p)"
proof -
  obtain t r1 a1 q where a: "read_host t r1 emptyAddr = Inr (a1, q @ r')" "length q = 2" "a = a1\<lparr>Port := port_of q\<rparr>"
    using assms by (rule ReadFromSocks5_steps)
  have "length (FQDN a1) < 256"
    using a(1) unsigned_less [where ?'a = nat and ?'b = 8] by (auto simp: read_host_def and_then_Inr read_n_Inr emptyAddr_def split: if_splits)
  then show ?thesis
    using ReadFromSocks5_written [OF assms] port_bytes_of(2,3) [OF a(2)] a(3) by auto
qed

theorem socks_address_canonical_witness:
  "\<exists>p. [1, 10, 0, 0, 1, 1, 187, 9] = p @ [9 :: u8] \<and>
     (hd p = 1 \<longrightarrow> WriteToSocks5 \<lparr>FQDN = [], IP = [10, 0, 0, 1], Port = 443\<rparr> = Inr p)"
proof -
  have "ReadFromSocks5 [1, 10, 0, 0, 1, 1, 187, 9] emptyAddr = Inr (\<lparr>FQDN = [], IP = [10, 0, 0, 1], Port = 443\<rparr>, [9])"
    by code_simp
  from socks_address_canonical [OF this] show ?thesis
    by (simp add: AddrType_def To4_def socks5_consts)
qed

text \<open>
  The two readers of requests agree, and so do the two readers of responses: reading into an
  empty value succeeds exactly when the other reader does and the first byte is the protocol version
  5, with the same result and the same rest of the stream.
\<close>

theorem socks_readers_agree:
  "(Request_ReadFromSocks5 r \<lparr>Command = 0, DstAddr = emptyAddr, req_Raw = []\<rparr> = Inr x \<longleftrightarrow>
      ReadSocks5Request r = Inr x \<and> r ! 0 = Socks5Version) \<and>
   (Response_ReadFromSocks5 r \<lparr>Reply = 0, BindAddr = emptyAddr, resp_Raw = []\<rparr> = Inr y \<longleftrightarrow>
      ReadSocks5Response r = Inr y \<and> r ! 0 = Socks5Version)"
  using read_versioned_message [of r "\<lambda>c a raw. \<lparr>Command = c, DstAddr = a, req_Raw = raw\<rparr>" x]
    read_versioned_message [of r "\<lambda>c a raw. \<lparr>Reply = c, BindAddr = a, resp_Raw = raw\<rparr>" y]
    read_message [of r "\<lambda>c a raw. \<lparr>Command = c, DstAddr = a, req_Raw = raw\<rparr>" x]
    read_message [of r "\<lambda>c a raw. \<lparr>Reply = c, BindAddr = a, resp_Raw = raw\<rparr>" y]
  by (simp only: Request_ReadFromSocks5_def Response_ReadFromSocks5_def ReadSocks5Request_def ReadSocks5Response_def
      Let_def Request.simps Response.simps) auto

text \<open>
  A name of 256 bytes does not survive: writing succeeds, but the length byte wraps to 0, and the
  reader finds an empty name and takes the first two bytes of the name for the port.
\<close>

theorem long_name_is_corrupted:
  assumes "length s = 256"
  shows "\<exists>bs a r. WriteToSocks5 \<lparr>FQDN = s, IP = [], Port = p\<rparr> = Inr bs \<and>
    ReadFromSocks5 bs emptyAddr = Inr (a, r) \<and> FQDN a = [] \<and> Port a = port_of (bytes_of (take 2 s)) \<and> r \<noteq> []"
proof -
  obtain x y s' where s: "s = x # y # s'"
    using assms by (cases s; cases "tl s") auto
  have l: "(of_nat (length s) :: u8) = 0" using assms by simp
  have "WriteToSocks5 \<lparr>FQDN = s, IP = [], Port = p\<rparr> =
      Inr (Socks5FQDNAddress # 0 # bytes_of [x, y] @ bytes_of s' @ port_bytes p)"
    using l by (simp add: WriteToSocks5_def host_bytes_def To4_def To16_def s bytes_of_def)
  moreover have "ReadFromSocks5 (Socks5FQDNAddress # 0 # bytes_of [x, y] @ bytes_of s' @ port_bytes p) emptyAddr =
      Inr (emptyAddr\<lparr>Port := port_of (bytes_of [x, y])\<rparr>, bytes_of s' @ port_bytes p)"
    using read_host_simps(3) [of "[]" "bytes_of [x, y] @ bytes_of s' @ port_bytes p" emptyAddr]
    by (simp add: ReadFromSocks5_def bytes_of_def emptyAddr_def read_n_def read_full_def)
  moreover have "bytes_of s' @ port_bytes p \<noteq> []"
    using length_port_bytes [of p] by (metis append_is_Nil_conv list.size(3) zero_neq_numeral)
  ultimately show ?thesis
    by (intro exI conjI) (assumption | simp add: s emptyAddr_def)+
qed

theorem long_name_is_corrupted_witness:
  "\<exists>bs a r. WriteToSocks5 \<lparr>FQDN = replicate 256 (CHR ''a''), IP = [], Port = 443\<rparr> = Inr bs \<and>
    ReadFromSocks5 bs emptyAddr = Inr (a, r) \<and> FQDN a = []"
  using long_name_is_corrupted [OF length_replicate, of "CHR ''a''" 443] by blast

text \<open>
  Names that a host and port string carries: not an IP address, at most 255 bytes, and without the
  separators of the string.
\<close>

definition plain_name :: "string \<Rightarrow> bool" where
  "plain_name h \<longleftrightarrow> CHR '':'' \<notin> set h \<and> CHR ''['' \<notin> set h \<and> CHR '']'' \<notin> set h \<and> ParseIP h = None \<and>
     length h \<le> 255"

lemma canonical_To16:
  assumes "To4 (IP a) = Some ip4"
  shows "canonical \<lparr>FQDN = [], IP = v4InV6Prefix @ ip4, Port = Port a\<rparr> = canonical a"
  using assms length_To4 [OF assms] by (cases a) (simp add: canonical_def To4_def [of "v4InV6Prefix @ ip4"])

lemma Itoa_digits: "0 \<le> p \<Longrightarrow> list_all is_digit (Itoa p)"
  using dec_digits by (simp add: Itoa_def)

text \<open>
  Parsing the printed form of an address gives the address back, in canonical form, when it is
  an IPv4 address, or a plain name without an IP; the network of a UDP address is kept.
\<close>

theorem addr_string_round_trip:
  assumes "0 \<le> Port a" and "Port a < 65536" and "To4 (IP a) \<noteq> None \<or> IP a = [] \<and> plain_name (FQDN a)"
  shows "\<exists>b. AddrSpec_From (AddrSpec_String a) emptyAddr = Inr b \<and> canonical b = canonical a \<and>
    NetAddrSpec_From (OtherAddr (AddrSpec_String a) ''udp'') = Inr \<lparr>Addr = b, Net = ''udp''\<rparr>"
proof (cases "To4 (IP a)")
  case (Some ip4)
  then have s: "AddrSpec_String a = JoinHostPort (dotted ip4) (Itoa (Port a))"
    by (auto simp: AddrSpec_String_def IP_String_def To4_def split: if_splits)
  have "AddrSpec_From (AddrSpec_String a) emptyAddr = Inr \<lparr>FQDN = [], IP = v4InV6Prefix @ ip4, Port = Port a\<rparr>"
    using assms(1,2) length_To4 [OF Some] Itoa_digits [OF assms(1)]
    by (simp add: s AddrSpec_From_def JoinHostPort_dotted Atoi_Itoa ParseIP_def ParseAddr_dotted To16_def emptyAddr_def)
  then show ?thesis using canonical_To16 [OF Some] by (simp add: NetAddrSpec_From_def addr_String_def addr_Network_def)
next
  case None
  then have a: "IP a = []" "plain_name (FQDN a)" using assms(3) by simp_all
  have "AddrSpec_From (AddrSpec_String a) emptyAddr = Inr a"
    using assms(1,2) a Itoa_digits [OF assms(1)]
    by (cases a) (simp add: AddrSpec_String_def AddrSpec_From_def SplitHostPort_join Atoi_Itoa plain_name_def emptyAddr_def)
  then show ?thesis by (simp add: NetAddrSpec_From_def addr_String_def addr_Network_def)
qed

theorem addr_string_round_trip_witness:
  "\<exists>b. AddrSpec_From (AddrSpec_String \<lparr>FQDN = [], IP = [10, 0, 0, 1], Port = 443\<rparr>) emptyAddr = Inr b \<and>
     canonical b = \<lparr>FQDN = [], IP = [10, 0, 0, 1], Port = 443\<rparr>"
  using addr_string_round_trip [of "\<lparr>FQDN = [], IP = [10, 0, 0, 1], Port = 443\<rparr>"] by (auto simp: canonical_def)

end
