(* ===== verification/Socks_Auth.thy ===== *)
theory Socks_Auth
  imports Socks
begin

text \<open>
  SOCKS5 authentication, \<^verbatim>\<open>pkg/socks5/auth.go\<close>: the server side \<open>handleAuthentication\<close> and the client side
  \<open>clientNegotiateAuthentication\<close>.

  The state of one end of the connection is the bytes that will arrive, the bytes written so far and whether
  writing fails; the server also counts \<^verbatim>\<open>HandshakeErrors\<close>.  The lemmas give the exact exchange of a client
  and a server, and that a server with credentials lets nobody in without one of them.
\<close>

definition Socks5NoAuth :: u8 where "Socks5NoAuth = 0"
definition Socks5UserPassAuth :: u8 where "Socks5UserPassAuth = 2"
definition Socks5NoAcceptableAuth :: u8 where "Socks5NoAcceptableAuth = 255"
definition Socks5UserPassAuthVersion :: u8 where "Socks5UserPassAuthVersion = 1"
definition Socks5AuthSuccess :: u8 where "Socks5AuthSuccess = 0"
definition Socks5AuthFailure :: u8 where "Socks5AuthFailure = 1"

lemmas auth_consts = Socks5Version_def Socks5NoAuth_def Socks5UserPassAuth_def Socks5NoAcceptableAuth_def
  Socks5UserPassAuthVersion_def Socks5AuthSuccess_def Socks5AuthFailure_def

record Credential =
  User :: string
  Password :: string

record auth_conn =
  a_in :: bytes
  a_out :: bytes
  a_broken :: bool
  a_HandshakeErrors :: int

datatype auth_error =
    AuthRead io_error
  | AuthWrite
  | UnsupportedVersion u8
  | NoAuthMethods
  | NoAcceptableMethods
  | NoRegisteredUser
  | UnsupportedAuthVersion u8
  | InvalidUserOrPassword
  | CredentialsRequired
  | NegotiationFailed bytes
  | CredentialTooLong

type_synonym auth_result = "auth_error option \<times> auth_conn"

definition handshake_error :: "auth_conn \<Rightarrow> auth_conn" where
  "handshake_error c = c\<lparr>a_HandshakeErrors := a_HandshakeErrors c + 1\<rparr>"

text \<open>
  One read or write of the handlers: \<open>h\<close> is what the error path does to the counter, \<open>k\<close> is the code that follows.
\<close>

definition read_or :: "nat \<Rightarrow> auth_conn \<Rightarrow> (auth_conn \<Rightarrow> auth_conn) \<Rightarrow> (bytes \<Rightarrow> auth_conn \<Rightarrow> auth_result) \<Rightarrow> auth_result" where
  "read_or n c h k = (case read_full n (a_in c) of
     Inl e \<Rightarrow> (Some (AuthRead e), h (c\<lparr>a_in := []\<rparr>)) | Inr (p, r) \<Rightarrow> k p (c\<lparr>a_in := r\<rparr>))"

definition write_or :: "bytes \<Rightarrow> auth_conn \<Rightarrow> (auth_conn \<Rightarrow> auth_conn) \<Rightarrow> (auth_conn \<Rightarrow> auth_result) \<Rightarrow> auth_result" where
  "write_or b c h k = (if a_broken c then (Some AuthWrite, h c) else k (c\<lparr>a_out := a_out c @ b\<rparr>))"

definition verify_credential :: "Credential list \<Rightarrow> string \<Rightarrow> string \<Rightarrow> auth_conn \<Rightarrow> auth_result" where
  "verify_credential creds userStr passwordStr c =
     (if list_ex (\<lambda>x. User x = userStr \<and> Password x = passwordStr) creds
      then write_or [Socks5UserPassAuthVersion, Socks5AuthSuccess] c handshake_error (\<lambda>c. (None, c))
      else write_or [Socks5UserPassAuthVersion, Socks5AuthFailure] (handshake_error c) id
        (\<lambda>c. (Some InvalidUserOrPassword, c)))"

definition read_field :: "auth_conn \<Rightarrow> (bytes \<Rightarrow> auth_conn \<Rightarrow> auth_result) \<Rightarrow> auth_result" where
  "read_field c k = read_or 1 c id (\<lambda>header c. read_or (unat (header ! 0)) c id k)"

definition user_pass_auth :: "Credential list \<Rightarrow> auth_conn \<Rightarrow> auth_result" where
  "user_pass_auth creds c =
     (if creds = [] then (Some NoRegisteredUser, handshake_error c)
      else write_or [Socks5Version, Socks5UserPassAuth] c handshake_error (\<lambda>c.
        read_or 1 c id (\<lambda>header c.
          if header ! 0 \<noteq> Socks5UserPassAuthVersion then (Some (UnsupportedAuthVersion (header ! 0)), c)
          else read_field c (\<lambda>user c. read_field c (\<lambda>password c.
            verify_credential creds (string_of user) (string_of password) c)))))"

definition choose_method :: "Credential list \<Rightarrow> bytes \<Rightarrow> auth_conn \<Rightarrow> auth_result" where
  "choose_method creds authMethods c =
     (let requestNoAuth = (Socks5NoAuth \<in> set authMethods);
          requestUserPassAuth = (Socks5UserPassAuth \<in> set authMethods)
      in if \<not> requestNoAuth \<and> \<not> requestUserPassAuth then
           write_or [Socks5Version, Socks5NoAcceptableAuth] (handshake_error c) id (\<lambda>c. (Some NoAcceptableMethods, c))
         else if requestNoAuth \<and> creds = [] then
           write_or [Socks5Version, Socks5NoAuth] c handshake_error (\<lambda>c. (None, c))
         else if requestUserPassAuth then user_pass_auth creds c
         else (Some CredentialsRequired, handshake_error c))"

definition handleAuthentication :: "Credential list \<Rightarrow> auth_conn \<Rightarrow> auth_result" where
  "handleAuthentication creds c =
     read_or 1 c handshake_error (\<lambda>version c.
       if version ! 0 \<noteq> Socks5Version then (Some (UnsupportedVersion (version ! 0)), handshake_error c)
       else read_or 1 c handshake_error (\<lambda>nAuthMethods c.
         if nAuthMethods ! 0 = 0 then (Some NoAuthMethods, handshake_error c)
         else read_or (unat (nAuthMethods ! 0)) c handshake_error (choose_method creds)))"

definition clientNegotiateAuthentication :: "Credential option \<Rightarrow> auth_conn \<Rightarrow> auth_result" where
  "clientNegotiateAuthentication credential c =
     (let method = (if credential \<noteq> None then Socks5UserPassAuth else Socks5NoAuth)
      in write_or [Socks5Version, 1, method] c id (\<lambda>c.
        read_or 2 c id (\<lambda>resp c.
          if resp ! 0 \<noteq> Socks5Version \<or> resp ! 1 \<noteq> method then (Some (NegotiationFailed resp), c)
          else (case credential of
              None \<Rightarrow> (None, c)
            | Some cr \<Rightarrow>
                if length (User cr) > 255 \<or> length (Password cr) > 255 then (Some CredentialTooLong, c)
                else write_or ([Socks5UserPassAuthVersion, of_nat (length (User cr))] @ bytes_of (User cr) @
                    [of_nat (length (Password cr))] @ bytes_of (Password cr)) c id (\<lambda>c.
                  read_or 2 c id (\<lambda>resp c.
                    if resp ! 0 \<noteq> Socks5UserPassAuthVersion \<or> resp ! 1 \<noteq> Socks5AuthSuccess
                    then (Some (NegotiationFailed resp), c) else (None, c)))))))"

section \<open>The exchange\<close>

lemma read_or_Cons [simp]: "a_in c = x # r \<Longrightarrow> read_or (Suc 0) c h k = k [x] (c\<lparr>a_in := r\<rparr>)"
  by (simp add: read_or_def read_full_def)

lemma read_or_append [simp]: "a_in c = p @ r \<Longrightarrow> n = length p \<Longrightarrow> read_or n c h k = k p (c\<lparr>a_in := r\<rparr>)"
  by (simp add: read_or_def read_full_append)

lemma read_or_2 [simp]: "a_in c = x # y # r \<Longrightarrow> read_or 2 c h k = k [x, y] (c\<lparr>a_in := r\<rparr>)"
  by (simp add: read_or_def read_full_def)

lemma read_or_short [simp]: "length (a_in c) < n \<Longrightarrow>
    read_or n c h k = (Some (AuthRead (if a_in c = [] then EOF else UnexpectedEOF)), h (c\<lparr>a_in := []\<rparr>))"
  by (simp add: read_or_def read_full_def)

lemma write_or_ok [simp]: "\<not> a_broken c \<Longrightarrow> write_or b c h k = k (c\<lparr>a_out := a_out c @ b\<rparr>)"
  by (simp add: write_or_def)

definition end_with :: "bytes \<Rightarrow> auth_conn" where
  "end_with b = \<lparr>a_in = b, a_out = [], a_broken = False, a_HandshakeErrors = 0\<rparr>"

text \<open>
  The two ends of a connection on which nothing is lost: each end has written what arrives at the other end.  The
  server may leave bytes unread, which belong to the request that follows.
\<close>

definition auth_exchange :: "Credential list \<Rightarrow> Credential option \<Rightarrow> bytes \<Rightarrow> auth_error option \<Rightarrow> auth_error option \<Rightarrow> bool" where
  "auth_exchange creds cr rest es ec \<longleftrightarrow>
     (\<exists>s c. handleAuthentication creds (end_with (a_out c @ rest)) = (es, s) \<and>
            clientNegotiateAuthentication cr (end_with (a_out s)) = (ec, c) \<and>
            (es = None \<longrightarrow> a_in s = rest \<and> a_in c = []))"

definition registered :: "Credential list \<Rightarrow> Credential \<Rightarrow> bool" where
  "registered creds cr \<longleftrightarrow> (\<exists>x \<in> set creds. User x = User cr \<and> Password x = Password cr)"

lemma registered_ex: "list_ex (\<lambda>x. User x = User cr \<and> Password x = Password cr) creds \<longleftrightarrow> registered creds cr"
  by (simp add: registered_def list_ex_iff)

definition credential_message :: "Credential \<Rightarrow> bytes" where
  "credential_message cr = [Socks5UserPassAuthVersion, of_nat (length (User cr))] @ bytes_of (User cr) @
     [of_nat (length (Password cr))] @ bytes_of (Password cr)"

lemma server_user_pass:
  assumes "creds \<noteq> []" and "length (User cr) \<le> 255" and "length (Password cr) \<le> 255" and "\<not> a_broken c"
    and "a_in c = credential_message cr @ rest"
  shows "user_pass_auth creds c =
    verify_credential creds (User cr) (Password cr) (c\<lparr>a_out := a_out c @ [Socks5Version, Socks5UserPassAuth], a_in := rest\<rparr>)"
proof -
  have "unat (of_nat (length (User cr)) :: u8) = length (User cr)"
    "unat (of_nat (length (Password cr)) :: u8) = length (Password cr)"
    using assms(2,3) by (simp_all add: unat_of_nat)
  then show ?thesis using assms(1,4,5) by (simp add: user_pass_auth_def credential_message_def read_field_def)
qed

lemma server_methods:
  "handleAuthentication creds (end_with (Socks5Version # 1 # m # r)) =
     (if m \<noteq> Socks5NoAuth \<and> m \<noteq> Socks5UserPassAuth then
        (Some NoAcceptableMethods, (handshake_error (end_with r))\<lparr>a_out := [Socks5Version, Socks5NoAcceptableAuth]\<rparr>)
      else if m = Socks5NoAuth \<and> creds = [] then (None, (end_with r)\<lparr>a_out := [Socks5Version, Socks5NoAuth]\<rparr>)
      else if m = Socks5UserPassAuth then user_pass_auth creds (end_with r)
      else (Some CredentialsRequired, handshake_error (end_with r)))"
  by (auto simp: handleAuthentication_def choose_method_def end_with_def Let_def handshake_error_def auth_consts)

lemma exchange_password:
  assumes "length (User cr) \<le> 255" and "length (Password cr) \<le> 255" and "creds \<noteq> []"
  shows "auth_exchange creds (Some cr) rest (if registered creds cr then None else Some InvalidUserOrPassword)
    (if registered creds cr then None else Some (NegotiationFailed [Socks5UserPassAuthVersion, Socks5AuthFailure]))"
proof -
  define a where "a = (if registered creds cr then Socks5AuthSuccess else Socks5AuthFailure)"
  define c where "c = \<lparr>a_in = [], a_out = [Socks5Version, 1, Socks5UserPassAuth] @ credential_message cr,
      a_broken = False, a_HandshakeErrors = 0\<rparr>"
  define s where "s = \<lparr>a_in = rest, a_out = [Socks5Version, Socks5UserPassAuth, Socks5UserPassAuthVersion, a],
      a_broken = False, a_HandshakeErrors = (if registered creds cr then 0 else 1)\<rparr>"
  have "handleAuthentication creds (end_with (a_out c @ rest)) =
      (if registered creds cr then None else Some InvalidUserOrPassword, s)"
  proof -
    have "handleAuthentication creds (end_with (a_out c @ rest)) = user_pass_auth creds (end_with (credential_message cr @ rest))"
      by (simp add: c_def server_methods auth_consts(2,3))
    also have "\<dots> = verify_credential creds (User cr) (Password cr)
        \<lparr>a_in = rest, a_out = [Socks5Version, Socks5UserPassAuth], a_broken = False, a_HandshakeErrors = 0\<rparr>"
      using server_user_pass [OF assms(3,1,2), of "end_with (credential_message cr @ rest)" rest] by (simp add: end_with_def)
    finally show ?thesis
      by (simp add: verify_credential_def registered_ex s_def a_def handshake_error_def)
  qed
  moreover have "clientNegotiateAuthentication (Some cr) (end_with (a_out s)) =
      (if registered creds cr then None else Some (NegotiationFailed [Socks5UserPassAuthVersion, Socks5AuthFailure]), c)"
    using assms(1,2)
    by (simp add: clientNegotiateAuthentication_def end_with_def s_def a_def c_def credential_message_def)
      (simp add: auth_consts)
  ultimately show ?thesis
    unfolding auth_exchange_def by (intro exI conjI) (assumption | simp add: s_def c_def)+
qed

lemma exchange_open:
  "auth_exchange creds None rest (if creds = [] then None else Some CredentialsRequired)
    (if creds = [] then None else Some (AuthRead EOF))"
proof -
  define c where "c = \<lparr>a_in = [], a_out = [Socks5Version, 1, Socks5NoAuth], a_broken = False, a_HandshakeErrors = 0\<rparr>"
  define s where "s = (if creds = [] then (end_with rest)\<lparr>a_out := [Socks5Version, Socks5NoAuth]\<rparr>
      else handshake_error (end_with rest))"
  have "handleAuthentication creds (end_with (a_out c @ rest)) =
      (if creds = [] then None else Some CredentialsRequired, s)"
    by (simp add: c_def server_methods s_def) (simp add: auth_consts)
  moreover have "clientNegotiateAuthentication None (end_with (a_out s)) =
      (if creds = [] then None else Some (AuthRead EOF), c)"
    by (simp add: clientNegotiateAuthentication_def s_def c_def end_with_def handshake_error_def)
  ultimately show ?thesis
    unfolding auth_exchange_def by (intro exI conjI) (assumption | simp add: s_def c_def end_with_def)+
qed

lemma read_or_NoneE:
  assumes "read_or n c h k = (None, c')"
  obtains p r where "a_in c = p @ r" "length p = n" "k p (c\<lparr>a_in := r\<rparr>) = (None, c')"
  using assms that [of "take n (a_in c)" "drop n (a_in c)"]
  by (simp add: read_or_def read_full_def split: if_splits)

lemma read_byte_NoneE:
  assumes "read_or 1 c h k = (None, c')"
  obtains x r where "a_in c = x # r" "k [x] (c\<lparr>a_in := r\<rparr>) = (None, c')"
  using assms by (cases "a_in c") (simp_all add: read_or_def read_full_def)

lemma write_or_None: "write_or b c h k = (None, c') \<longleftrightarrow> \<not> a_broken c \<and> k (c\<lparr>a_out := a_out c @ b\<rparr>) = (None, c')"
  by (auto simp: write_or_def)

lemma verify_None:
  assumes "verify_credential creds u p c = (None, c')"
  shows "(\<exists>x \<in> set creds. User x = u \<and> Password x = p) \<and> a_in c' = a_in c"
  using assms by (auto simp: verify_credential_def write_or_None list_ex_iff split: if_splits)

lemma read_field_NoneE:
  assumes "read_field c k = (None, c')"
  obtains m b r where "a_in c = m # b @ r" "length b = unat m" "k b (c\<lparr>a_in := r\<rparr>) = (None, c')"
proof -
  obtain m r1 where 1: "a_in c = m # r1" "read_or (unat ([m] ! 0)) (c\<lparr>a_in := r1\<rparr>) id k = (None, c')"
    using assms unfolding read_field_def by (rule read_byte_NoneE)
  from 1(2) show ?thesis by (rule read_or_NoneE) (rule that, auto simp: 1(1))
qed

lemma user_pass_None:
  assumes "user_pass_auth creds c = (None, c')"
  shows "\<exists>x \<in> set creds. \<exists>m n. length (User x) = unat m \<and> length (Password x) = unat n \<and>
    a_in c = [Socks5UserPassAuthVersion, m] @ bytes_of (User x) @ [n] @ bytes_of (Password x) @ a_in c'"
proof -
  let ?k = "\<lambda>user c. read_field c (\<lambda>password c. verify_credential creds (string_of user) (string_of password) c)"
  let ?c = "c\<lparr>a_out := a_out c @ [Socks5Version, Socks5UserPassAuth]\<rparr>"
  have "read_or 1 ?c id (\<lambda>header c. if header ! 0 \<noteq> Socks5UserPassAuthVersion
      then (Some (UnsupportedAuthVersion (header ! 0)), c) else read_field c ?k) = (None, c')"
    using assms by (simp add: user_pass_auth_def write_or_None split: if_splits)
  then obtain r1 where 1: "a_in c = Socks5UserPassAuthVersion # r1" "read_field (?c\<lparr>a_in := r1\<rparr>) ?k = (None, c')"
    by (rule read_byte_NoneE) (auto split: if_splits)
  from 1(2) obtain m u r2 where 2: "r1 = m # u @ r2" "length u = unat m" "?k u (?c\<lparr>a_in := r2\<rparr>) = (None, c')"
    by (rule read_field_NoneE) simp
  from 2(3) obtain n p r3 where 3: "r2 = n # p @ r3" "length p = unat n"
      "verify_credential creds (string_of u) (string_of p) (?c\<lparr>a_in := r3\<rparr>) = (None, c')"
    by (rule read_field_NoneE) simp
  obtain x where x: "x \<in> set creds" "User x = string_of u" "Password x = string_of p" "a_in c' = r3"
    using verify_None [OF 3(3)] by auto
  show ?thesis
    using 1(1) 2(1,2) 3(1,2) x(2-4) by (intro bexI [OF _ x(1)] exI [of _ m] exI [of _ n]) simp
qed

lemma auth_success:
  assumes "creds \<noteq> []" and "handleAuthentication creds c = (None, c')"
  shows "\<exists>x \<in> set creds. \<exists>methods k m n. Socks5UserPassAuth \<in> set methods \<and>
    length methods = unat k \<and> length (User x) = unat m \<and> length (Password x) = unat n \<and>
    a_in c = [Socks5Version, k] @ methods @ [Socks5UserPassAuthVersion, m] @ bytes_of (User x) @
      [n] @ bytes_of (Password x) @ a_in c'"
proof -
  let ?n = "\<lambda>nAuthMethods c. if nAuthMethods ! 0 = 0 then (Some NoAuthMethods, handshake_error c)
    else read_or (unat (nAuthMethods ! 0)) c handshake_error (choose_method creds)"
  obtain r1 where 1: "a_in c = Socks5Version # r1" "read_or 1 (c\<lparr>a_in := r1\<rparr>) handshake_error ?n = (None, c')"
    using assms(2) unfolding handleAuthentication_def by (rule read_byte_NoneE) (auto split: if_splits)
  from 1(2) obtain k r2 where 2: "r1 = k # r2" "read_or (unat k) (c\<lparr>a_in := r2\<rparr>) handshake_error (choose_method creds) = (None, c')"
    by (rule read_byte_NoneE) (auto split: if_splits)
  from 2(2) obtain ms r3 where 3: "r2 = ms @ r3" "length ms = unat k" "choose_method creds ms (c\<lparr>a_in := r3\<rparr>) = (None, c')"
    by (rule read_or_NoneE) simp
  from 3(3) have 4: "Socks5UserPassAuth \<in> set ms" "user_pass_auth creds (c\<lparr>a_in := r3\<rparr>) = (None, c')"
    using assms(1) by (auto simp: choose_method_def Let_def write_or_None split: if_splits)
  obtain x m n where x: "x \<in> set creds" "length (User x) = unat m" "length (Password x) = unat n"
      "r3 = [Socks5UserPassAuthVersion, m] @ bytes_of (User x) @ [n] @ bytes_of (Password x) @ a_in c'"
    using user_pass_None [OF 4(2)] by auto
  show ?thesis
    using 1(1) 2(1) 3(1,2) 4(1) x(2-4)
    by (intro bexI [OF _ x(1)] exI [of _ ms] exI [of _ k] exI [of _ m] exI [of _ n]) simp
qed

text \<open>
  A server with credentials lets nobody in without one of them: when the handshake succeeds, the client
  offered password authentication and sent the user and the password of a registered credential, and exactly
  the handshake has been read.
\<close>

theorem auth_needs_credential:
  assumes "creds \<noteq> []" and "handleAuthentication creds c = (None, c')"
  shows "\<exists>x \<in> set creds. \<exists>methods k m n. Socks5UserPassAuth \<in> set methods \<and>
    length methods = unat k \<and> length (User x) = unat m \<and> length (Password x) = unat n \<and>
    a_in c = [Socks5Version, k] @ methods @ [Socks5UserPassAuthVersion, m] @ bytes_of (User x) @
      [n] @ bytes_of (Password x) @ a_in c'"
  by (rule auth_success [OF assms])

definition alice :: Credential where
  "alice = \<lparr>User = ''alice'', Password = ''secret''\<rparr>"

theorem auth_needs_credential_witness:
  "\<exists>x \<in> {alice}. length (User x) = 5 \<and>
     fst (handleAuthentication [alice] (end_with ([5, 1, 2] @ credential_message alice))) = None"
proof -
  have "handleAuthentication [alice] (end_with ([5, 1, 2] @ credential_message alice)) =
      (None, \<lparr>a_in = [], a_out = [5, 2, 1, 0], a_broken = False, a_HandshakeErrors = 0\<rparr>)"
    using server_user_pass [of "[alice]" alice "end_with (credential_message alice)" "[]"] server_methods [of "[alice]" 2]
    by (simp add: alice_def auth_consts verify_credential_def end_with_def)
  from auth_needs_credential [OF _ this] this show ?thesis by (auto simp: alice_def)
qed

text \<open>
  C31.  Client and server agree.  With a password, both ends succeed if the credential is registered, and both
  fail otherwise; without a password, both succeed exactly if the server has no credentials.  After success no
  byte of the handshake is left, and the server has not read into the request that follows.
\<close>

theorem auth_ends_agree:
  assumes "length (User cr) \<le> 255" and "length (Password cr) \<le> 255"
  shows "auth_exchange creds None rest (if creds = [] then None else Some CredentialsRequired)
       (if creds = [] then None else Some (AuthRead EOF)) \<and>
     (creds \<noteq> [] \<longrightarrow> auth_exchange creds (Some cr) rest
       (if registered creds cr then None else Some InvalidUserOrPassword)
       (if registered creds cr then None else Some (NegotiationFailed [Socks5UserPassAuthVersion, Socks5AuthFailure])))"
  using exchange_open exchange_password [OF assms] by blast

theorem auth_ends_agree_witness: "auth_exchange [alice] (Some alice) [5, 1, 0] None None"
proof -
  have "registered [alice] alice" by (simp add: registered_def)
  then show ?thesis using auth_ends_agree [of alice "[alice]" "[5, 1, 0]"] by (simp add: alice_def)
qed

end
