(* ===== verification/Tunnel.thy ===== *)
theory Tunnel
  imports Socks
begin

text \<open>
  Packets inside a stream, \<^verbatim>\<open>apis/common/packet_over_stream.go\<close>, and the SOCKS5 header of UDP packets,
  \<^verbatim>\<open>apis/common/udp_associate_wrapper.go\<close>.

  One direction of the stream connection is the list of the bytes that were written and not yet read.
  The locale \<open>packet_conn\<close> is what the wrapper expects of the \<^verbatim>\<open>net.PacketConn\<close> below it: packets come out whole and
  in order.  The tunnel is its interpretation, and the properties state what the wrapper delivers over the tunnel,
  and what happens when a packet does not fit the buffer of its reader.
\<close>

section \<open>Packets over a stream\<close>

datatype conn_error =
    StreamRead io_error
  | BadPrefix u8
  | ErrShortBuffer
  | BadSuffix u8
  | PacketTooLong nat

text \<open>A failed \<^verbatim>\<open>io.ReadFull\<close> has taken all bytes.\<close>

definition read_then :: "nat \<Rightarrow> bytes \<Rightarrow> (bytes \<Rightarrow> bytes \<Rightarrow> (conn_error + 'a) \<times> bytes) \<Rightarrow> (conn_error + 'a) \<times> bytes" where
  "read_then n c f = (case read_full n c of Inl e \<Rightarrow> (Inl (StreamRead e), []) | Inr (p, c) \<Rightarrow> f p c)"

definition Tunnel_Read :: "nat \<Rightarrow> bytes \<Rightarrow> (conn_error + bytes) \<times> bytes" where
  "Tunnel_Read len_p c =
     read_then 1 c (\<lambda>delim c.
       if delim ! 0 \<noteq> 0x00 then (Inl (BadPrefix (delim ! 0)), c)
       else read_then 2 c (\<lambda>lengthBytes c.
         let n = unat (Uint16 lengthBytes 0)
         in if n > len_p then (Inl ErrShortBuffer, c)
            else read_then n c (\<lambda>p c.
              read_then 1 c (\<lambda>delim c.
                if delim ! 0 \<noteq> 0xff then (Inl (BadSuffix (delim ! 0)), c) else (Inr p, c)))))"

definition frame_packet :: "bytes \<Rightarrow> bytes" where
  "frame_packet p = [0x00] @ PutUint16 (of_nat (length p)) @ p @ [0xff]"

definition Tunnel_Write :: "bytes \<Rightarrow> bytes \<Rightarrow> (conn_error + nat) \<times> bytes" where
  "Tunnel_Write p c = (if length p > 65535 then (Inl (PacketTooLong (length p)), c) else (Inr (length p), c @ frame_packet p))"

lemma read_then_append [simp]: "n = length p \<Longrightarrow> read_then n (p @ c) f = f p c"
  by (simp add: read_then_def read_full_append)

lemma read_then_1 [simp]: "read_then (Suc 0) (x # c) f = f [x] c"
  by (simp add: read_then_def read_full_def)

lemma Uint16_Put [simp]: "Uint16 (PutUint16 v) 0 = v"
  using Uint16_here [of v "[]"] by simp

lemma Tunnel_Read_frame:
  assumes "length p \<le> 65535"
  shows "Tunnel_Read n (frame_packet p @ c) = (if length p > n then (Inl ErrShortBuffer, p @ [0xff] @ c) else (Inr p, c))"
proof -
  have "unat (of_nat (length p) :: u16) = length p" using assms by (simp add: unat_of_nat)
  then show ?thesis by (simp add: Tunnel_Read_def frame_packet_def Let_def)
qed

section \<open>The UDP associate wrapper\<close>

datatype udp_error =
    ConnFailed conn_error
  | HeaderTooShort nat
  | InvalidUDPHeader
  | FragmentUnsupported
  | BadAddress socks_error
  | FQDNUnsupported
  | BadDestination net_error

text \<open>The results of \<^verbatim>\<open>ReadFrom\<close>, and the bytes it has copied to the start of the caller's buffer.\<close>

record udp_read =
  rr_n :: nat
  rr_addr :: net_addr
  rr_err :: "udp_error option"
  rr_data :: bytes

definition strip_header :: "bool \<Rightarrow> nat \<Rightarrow> net_addr \<Rightarrow> bytes \<Rightarrow> udp_read" where
  "strip_header readFromFQDN len_p addr b =
     (let n = length b;
          fail = (\<lambda>e. \<lparr>rr_n = n, rr_addr = addr, rr_err = Some e, rr_data = []\<rparr>)
      in if n \<le> 6 then fail (HeaderTooShort n)
         else if b ! 0 \<noteq> 0 \<or> b ! 1 \<noteq> 0 then fail InvalidUDPHeader
         else if b ! 2 \<noteq> 0 then fail FragmentUnsupported
         else (case ReadFromSocks5 (drop 3 b) emptyAddr of
             Inl e \<Rightarrow> fail (BadAddress e)
           | Inr (destination, r) \<Rightarrow>
               if FQDN destination \<noteq> [] \<and> \<not> readFromFQDN then fail FQDNUnsupported
               else
                 let data = take len_p r
                 in \<lparr>rr_n = length data,
                     rr_addr = (if FQDN destination \<noteq> [] then NetAddr \<lparr>Addr = destination, Net = ''udp''\<rparr>
                       else AddrUDP \<lparr>udp_IP = IP destination, udp_Port = Port destination, udp_Zone = []\<rparr>),
                     rr_err = None, rr_data = data\<rparr>))"

definition Wrapper_ReadFrom ::
    "(nat \<Rightarrow> 'c \<Rightarrow> (conn_error + bytes) \<times> 'c) \<Rightarrow> net_addr \<Rightarrow> bool \<Rightarrow> nat \<Rightarrow> 'c \<Rightarrow> udp_read \<times> 'c" where
  "Wrapper_ReadFrom conn_ReadFrom addr readFromFQDN len_p c =
     (case conn_ReadFrom (len_p + Socks5MaxUDPHeaderLen) c of
        (Inl e, c) \<Rightarrow> (\<lparr>rr_n = 0, rr_addr = addr, rr_err = Some (ConnFailed e), rr_data = []\<rparr>, c)
      | (Inr b, c) \<Rightarrow> (strip_header readFromFQDN len_p addr b, c))"

definition wrap_packet :: "AddrSpec \<Rightarrow> bytes \<Rightarrow> bytes" where
  "wrap_packet a p = [0, 0, 0] @ (case WriteToSocks5 a of Inl _ \<Rightarrow> [] | Inr h \<Rightarrow> h) @ p"

definition Wrapper_WriteTo ::
    "(bytes \<Rightarrow> 'c \<Rightarrow> (conn_error + nat) \<times> 'c) \<Rightarrow> bytes \<Rightarrow> net_addr \<Rightarrow> 'c \<Rightarrow> (udp_error + nat) \<times> 'c" where
  "Wrapper_WriteTo conn_WriteTo p addr c =
     (case NetAddrSpec_From addr of
        Inl e \<Rightarrow> (Inl (BadDestination e), c)
      | Inr destination \<Rightarrow>
          (case conn_WriteTo (wrap_packet (Addr destination) p) c of
             (Inl e, c) \<Rightarrow> (Inl (ConnFailed e), c)
           | (Inr _, c) \<Rightarrow> (Inr (length p), c)))"

text \<open>The address that \<^verbatim>\<open>ReadFrom\<close> reports for a packet that carries \<open>a\<close>.\<close>

definition reported :: "AddrSpec \<Rightarrow> net_addr" where
  "reported a = (if FQDN (canonical a) \<noteq> [] then NetAddr \<lparr>Addr = canonical a, Net = ''udp''\<rparr>
     else AddrUDP \<lparr>udp_IP = IP (canonical a), udp_Port = Port a, udp_Zone = []\<rparr>)"

lemma Port_canonical [simp]: "Port (canonical a) = Port a"
  by (simp add: canonical_def split: option.splits)

lemma WriteToSocks5_length:
  assumes "wire_addr a" and "WriteToSocks5 a = Inr h"
  shows "5 \<le> length h \<and> length h \<le> 259"
proof -
  obtain b where b: "host_bytes a = Inr b" "h = b @ port_bytes (Port a)"
    using assms(2) by (auto simp: WriteToSocks5_def and_then_Inr)
  have "3 \<le> length b \<and> length b \<le> 257"
  proof (cases "To16 (IP a)")
    case None
    then show ?thesis using b(1) assms(1) To16_None [OF None]
      by (cases "FQDN a") (auto simp: host_bytes_def wire_addr_def)
  next
    case (Some ip)
    then show ?thesis using b(1) length_To4 [of "IP a"] length_To16 [OF Some]
      by (cases "To4 (IP a)") (auto simp: host_bytes_def)
  qed
  then show ?thesis using b(2) by simp
qed

lemma wrap_packet_length:
  assumes "wire_addr a"
  shows "8 + length p \<le> length (wrap_packet a p) \<and> length (wrap_packet a p) \<le> Socks5MaxUDPHeaderLen + length p"
proof -
  obtain h where "WriteToSocks5 a = Inr h" using addr_round_trip [OF assms] by blast
  then show ?thesis using WriteToSocks5_length [OF assms] by (simp add: wrap_packet_def Socks5MaxUDPHeaderLen_def)
qed

lemma strip_wrapped:
  assumes "wire_addr a" and "f \<or> FQDN (canonical a) = []" and "length p \<le> n"
  shows "strip_header f n addr (wrap_packet a p) =
    \<lparr>rr_n = length p, rr_addr = reported a, rr_err = None, rr_data = p\<rparr>"
proof -
  obtain h where h: "WriteToSocks5 a = Inr h" "\<And>r. ReadFromSocks5 (h @ r) emptyAddr = Inr (canonical a, r)"
    using addr_round_trip [OF assms(1)] by blast
  show ?thesis
    using assms(2,3) h wrap_packet_length [OF assms(1), of p]
    by (cases "FQDN (canonical a) = []") (simp_all add: strip_header_def wrap_packet_def reported_def Let_def numeral_2_eq_2)
qed

section \<open>What the wrapper expects of a connection\<close>

locale packet_conn =
  fixes rd :: "nat \<Rightarrow> 'c \<Rightarrow> (conn_error + bytes) \<times> 'c"
    and wr :: "bytes \<Rightarrow> 'c \<Rightarrow> (conn_error + nat) \<times> 'c"
    and holds :: "'c \<Rightarrow> bytes list \<Rightarrow> bool"
    and limit :: nat
  assumes wr_ok: "holds c ps \<Longrightarrow> length p \<le> limit \<Longrightarrow> \<exists>c'. wr p c = (Inr (length p), c') \<and> holds c' (ps @ [p])"
    and rd_ok: "holds c (p # ps) \<Longrightarrow> length p \<le> n \<Longrightarrow> \<exists>c'. rd n c = (Inr p, c') \<and> holds c' ps"
begin

lemma WriteTo_ok:
  assumes "holds c ps" and "wire_addr (Addr d)" and "length p + Socks5MaxUDPHeaderLen \<le> limit"
  shows "\<exists>c'. Wrapper_WriteTo wr p (NetAddr d) c = (Inr (length p), c') \<and> holds c' (ps @ [wrap_packet (Addr d) p])"
proof -
  have "length (wrap_packet (Addr d) p) \<le> limit"
    using wrap_packet_length [OF assms(2), of p] assms(3) by simp
  from wr_ok [OF assms(1) this] show ?thesis
    by (auto simp: Wrapper_WriteTo_def NetAddrSpec_From_def)
qed

lemma ReadFrom_ok:
  assumes "holds c (wrap_packet a p # ps)" and "wire_addr a" and "f \<or> FQDN (canonical a) = []" and "length p \<le> n"
  shows "\<exists>c'. Wrapper_ReadFrom rd addr f n c =
    (\<lparr>rr_n = length p, rr_addr = reported a, rr_err = None, rr_data = p\<rparr>, c') \<and> holds c' ps"
proof -
  have "length (wrap_packet a p) \<le> n + Socks5MaxUDPHeaderLen"
    using wrap_packet_length [OF assms(2), of p] assms(4) by simp
  from rd_ok [OF assms(1) this] show ?thesis
    using strip_wrapped [OF assms(2-4)] by (auto simp: Wrapper_ReadFrom_def)
qed

end

text \<open>Sequences of writes and of reads, as the two applications make them.\<close>

fun write_packets :: "(bytes \<Rightarrow> 'c \<Rightarrow> (conn_error + nat) \<times> 'c) \<Rightarrow> (NetAddrSpec \<times> bytes) list \<Rightarrow> 'c \<Rightarrow> 'c option" where
  "write_packets wr [] c = Some c"
| "write_packets wr ((d, p) # ds) c =
     (case Wrapper_WriteTo wr p (NetAddr d) c of (Inl _, _) \<Rightarrow> None | (Inr _, c) \<Rightarrow> write_packets wr ds c)"

fun read_packets ::
    "(nat \<Rightarrow> 'c \<Rightarrow> (conn_error + bytes) \<times> 'c) \<Rightarrow> net_addr \<Rightarrow> bool \<Rightarrow> nat \<Rightarrow> nat \<Rightarrow> 'c \<Rightarrow> udp_read list \<times> 'c" where
  "read_packets rd addr f n 0 c = ([], c)"
| "read_packets rd addr f n (Suc k) c =
     (let (r, c) = Wrapper_ReadFrom rd addr f n c; (rs, c) = read_packets rd addr f n k c in (r # rs, c))"

definition sendable_packet :: "bool \<Rightarrow> nat \<Rightarrow> NetAddrSpec \<times> bytes \<Rightarrow> bool" where
  "sendable_packet f n = (\<lambda>(d, p). wire_addr (Addr d) \<and> length p + Socks5MaxUDPHeaderLen \<le> 65535 \<and>
     length p \<le> n \<and> (f \<or> FQDN (canonical (Addr d)) = []))"

context packet_conn
begin

lemma write_packets_ok:
  assumes "limit = 65535" and "list_all (sendable_packet f n) ds" and "holds c ps"
  shows "\<exists>c'. write_packets wr ds c = Some c' \<and> holds c' (ps @ map (\<lambda>(d, p). wrap_packet (Addr d) p) ds)"
  using assms(2,3)
proof (induction ds arbitrary: c ps)
  case (Cons x ds)
  obtain d p where x: "x = (d, p)" by (cases x)
  obtain c1 where c1: "Wrapper_WriteTo wr p (NetAddr d) c = (Inr (length p), c1)"
      "holds c1 (ps @ [wrap_packet (Addr d) p])"
    using WriteTo_ok [OF Cons.prems(2), of d p] Cons.prems(1) assms(1) by (auto simp: x sendable_packet_def)
  from Cons.IH [OF _ c1(2)] Cons.prems(1) show ?case by (simp add: x c1(1))
qed auto

lemma read_packets_ok:
  assumes "list_all (sendable_packet f n) ds" and "holds c (map (\<lambda>(d, p). wrap_packet (Addr d) p) ds @ ps)"
  shows "\<exists>c'. read_packets rd addr f n (length ds) c =
    (map (\<lambda>(d, p). \<lparr>rr_n = length p, rr_addr = reported (Addr d), rr_err = None, rr_data = p\<rparr>) ds, c') \<and> holds c' ps"
  using assms
proof (induction ds arbitrary: c)
  case (Cons x ds)
  obtain d p where x: "x = (d, p)" by (cases x)
  obtain c1 where c1: "Wrapper_ReadFrom rd addr f n c =
      (\<lparr>rr_n = length p, rr_addr = reported (Addr d), rr_err = None, rr_data = p\<rparr>, c1)"
      "holds c1 (map (\<lambda>(d, p). wrap_packet (Addr d) p) ds @ ps)"
    using ReadFrom_ok [of c "Addr d" p _ f n addr] Cons.prems by (auto simp: x sendable_packet_def)
  from Cons.IH [OF _ c1(2)] Cons.prems(1) show ?case by (auto simp: x c1(1))
qed auto

end

definition tunnel_holds :: "bytes \<Rightarrow> bytes list \<Rightarrow> bool" where
  "tunnel_holds c ps \<longleftrightarrow> c = concat (map frame_packet ps) \<and> list_all (\<lambda>p. length p \<le> 65535) ps"

interpretation tun: packet_conn Tunnel_Read Tunnel_Write tunnel_holds 65535
proof
  fix c ps and p :: bytes assume "tunnel_holds c ps" "length p \<le> 65535"
  then show "\<exists>c'. Tunnel_Write p c = (Inr (length p), c') \<and> tunnel_holds c' (ps @ [p])"
    by (simp add: Tunnel_Write_def tunnel_holds_def)
next
  fix c p ps n assume "tunnel_holds c (p # ps)" "length p \<le> n"
  then show "\<exists>c'. Tunnel_Read n c = (Inr p, c') \<and> tunnel_holds c' ps"
    by (auto simp: tunnel_holds_def Tunnel_Read_frame)
qed

section \<open>Properties\<close>

text \<open>
  C30.  Packets keep their boundaries, their order and their addresses: when packets are written through the UDP
  associate wrapper over the stream tunnel, all writes succeed, and as many reads return exactly the payloads
  and the destination of each packet, and empty the stream.
\<close>

theorem udp_packets_survive_tunnel:
  assumes "list_all (sendable_packet f n) ds"
  shows "\<exists>c. write_packets Tunnel_Write ds [] = Some c \<and>
    read_packets Tunnel_Read addr f n (length ds) c =
      (map (\<lambda>(d, p). \<lparr>rr_n = length p, rr_addr = reported (Addr d), rr_err = None, rr_data = p\<rparr>) ds, [])"
proof -
  obtain c where c: "write_packets Tunnel_Write ds [] = Some c"
      "tunnel_holds c (map (\<lambda>(d, p). wrap_packet (Addr d) p) ds)"
    using tun.write_packets_ok [OF refl assms, of "[]" "[]"] by (auto simp: tunnel_holds_def)
  then show ?thesis
    using tun.read_packets_ok [OF assms, of c "[]" addr] by (auto simp: tunnel_holds_def)
qed

theorem udp_packets_survive_tunnel_witness:
  "\<exists>c rs. write_packets Tunnel_Write [(\<lparr>Addr = example_host, Net = ''udp''\<rparr>, [1, 2, 3]),
       (\<lparr>Addr = \<lparr>FQDN = [], IP = [10, 0, 0, 1], Port = 53\<rparr>, Net = ''udp''\<rparr>, [])] [] = Some c \<and>
     read_packets Tunnel_Read (OtherAddr [] []) True 1500 2 c = (rs, []) \<and> map rr_data rs = [[1, 2, 3], []]"
proof -
  define ds where "ds = [(\<lparr>Addr = example_host, Net = ''udp''\<rparr>, [1, 2, 3 :: u8]),
       (\<lparr>Addr = \<lparr>FQDN = [], IP = [10, 0, 0, 1], Port = 53\<rparr>, Net = ''udp''\<rparr>, [])]"
  have "wire_addr \<lparr>FQDN = [], IP = [10, 0, 0, 1], Port = 53\<rparr>"
    by (simp add: wire_addr_def AddrType_def socks5_consts)
  then have "list_all (sendable_packet True 1500) ds"
    using example_host_wire by (simp add: ds_def sendable_packet_def Socks5MaxUDPHeaderLen_def)
  from udp_packets_survive_tunnel [OF this, of "OtherAddr [] []"]
  obtain c where c: "write_packets Tunnel_Write ds [] = Some c"
    "read_packets Tunnel_Read (OtherAddr [] []) True 1500 (length ds) c =
      (map (\<lambda>(d, p). \<lparr>rr_n = length p, rr_addr = reported (Addr d), rr_err = None, rr_data = p\<rparr>) ds, [])"
    by (elim exE conjE)
  have "length ds = 2" by (simp add: ds_def)
  note r = c(2) [unfolded this]
  have "map rr_data (map (\<lambda>(d, p). \<lparr>rr_n = length p, rr_addr = reported (Addr d), rr_err = None, rr_data = p\<rparr>) ds)
      = [[1, 2, 3], []]" by (simp add: ds_def)
  then show ?thesis unfolding ds_def [symmetric] by (rule_tac exI, rule_tac exI, rule_tac conjI [OF c(1) conjI [OF r]])
qed

text \<open>
  C35.  A packet that does not fit the reader's buffer is not skipped: the read fails with
  \<^verbatim>\<open>io.ErrShortBuffer\<close> after the length, and the next read takes the payload for a packet of its own.
  A payload that looks like the frame of another packet is delivered as that packet.
\<close>

theorem short_buffer_reads_payload_as_packet:
  assumes "length q \<le> n" and "n < length (frame_packet q @ r)" and "length (frame_packet q @ r) \<le> 65535"
  shows "\<exists>c. Tunnel_Read n (frame_packet (frame_packet q @ r) @ rest) = (Inl ErrShortBuffer, c) \<and>
    Tunnel_Read n c = (Inr q, r @ [0xff] @ rest)"
proof -
  have "Tunnel_Read n (frame_packet (frame_packet q @ r) @ rest) = (Inl ErrShortBuffer, frame_packet q @ (r @ [0xff] @ rest))"
    using assms(2,3) Tunnel_Read_frame [OF assms(3), of n rest] by simp
  moreover have "length q \<le> 65535" using assms(3) by (simp add: frame_packet_def)
  ultimately show ?thesis using assms(1) Tunnel_Read_frame by fastforce
qed

theorem short_buffer_reads_payload_as_packet_witness:
  "\<exists>c. Tunnel_Read 3 (frame_packet (frame_packet [1, 2, 3] @ [])) = (Inl ErrShortBuffer, c) \<and> Tunnel_Read 3 c = (Inr [1, 2, 3], [0xff])"
  using short_buffer_reads_payload_as_packet [of "[1, 2, 3]" 3 "[]" "[]"] by (simp add: frame_packet_def)

text \<open>
  An address that has no wire form is not reported: \<^verbatim>\<open>WriteTo\<close> drops the error of the header encoder,
  sends the payload without an address and returns the full length, and the reader takes the start of the
  payload for the address.
\<close>

theorem write_without_address_succeeds:
  assumes "AddrType (Addr d) = 0" and "length p + 3 \<le> 65535"
  shows "Wrapper_WriteTo Tunnel_Write p (NetAddr d) c = (Inr (length p), c @ frame_packet ([0, 0, 0] @ p))"
proof -
  have "WriteToSocks5 (Addr d) = Inl ErrUnrecognizedAddrType"
    using assms(1) by (auto simp: AddrType_0 WriteToSocks5_def host_bytes_def To16_None)
  then show ?thesis
    using assms(2) by (simp add: Wrapper_WriteTo_def NetAddrSpec_From_def wrap_packet_def Tunnel_Write_def)
qed

theorem write_without_address_succeeds_witness:
  "Wrapper_WriteTo Tunnel_Write [7] (NetAddr \<lparr>Addr = emptyAddr, Net = ''udp''\<rparr>) [] = (Inr 1, frame_packet [0, 0, 0, 7])"
  using write_without_address_succeeds [of "\<lparr>Addr = emptyAddr, Net = ''udp''\<rparr>" "[7]" "[]"]
  by (simp add: AddrType_0 emptyAddr_def To16_def)

text \<open>
  When the header of a packet is rejected, \<^verbatim>\<open>ReadFrom\<close> reports the length of the whole packet although it has
  copied nothing, even if that length is larger than the buffer.
\<close>

theorem rejected_packet_reports_length:
  assumes "rr_err (strip_header f n addr b) \<noteq> None"
  shows "rr_n (strip_header f n addr b) = length b \<and> rr_data (strip_header f n addr b) = []"
  using assms by (auto simp: strip_header_def Let_def split: if_splits sum.splits)

theorem rejected_packet_reports_length_witness:
  "rr_n (strip_header False 2 (OtherAddr [] []) [0, 0, 1, 1, 1, 1, 1, 1]) = 8"
  using rejected_packet_reports_length [of False 2 "OtherAddr [] []" "[0, 0, 1, 1, 1, 1, 1, 1]"]
  by (simp add: strip_header_def)

end
