(* ===== verification/Socks_Udp.thy ===== *)
theory Socks_Udp
  imports Tunnel
begin

text \<open>
  UDP over SOCKS5, \<^verbatim>\<open>pkg/socks5/udp.go\<close>, with \<^verbatim>\<open>ResolveUDPAddr\<close> of \<^verbatim>\<open>apis/common/dns.go\<close>.

  Datagrams are parsed and built by \<open>parseSocks5UDPDatagram\<close> and \<open>newSocks5UDPDatagram\<close>.  The two relays are
  step functions on their state: \<open>assoc\<close> for \<^verbatim>\<open>RunUDPAssociateLoop\<close>, whose two goroutines share the map from printed
  addresses to headers, and \<open>relay\<close> for \<^verbatim>\<open>runUDPAssociateDatagramLoop\<close>.  The DNS resolver and the success of
  \<^verbatim>\<open>WriteToUDP\<close> are parameters.  The lemmas show that the headers of all replies parse back to the address
  the reply came from, and which datagrams a relay lets through.
\<close>

section \<open>Name resolution\<close>

type_synonym resolver = "string \<Rightarrow> string \<Rightarrow> bytes list option"

definition ResolveUDPAddr :: "resolver \<Rightarrow> string \<Rightarrow> string \<Rightarrow> net_error + UDPAddr" where
  "ResolveUDPAddr LookupIP network address =
     (if network \<notin> {''udp'', ''udp4'', ''udp6'', ''''} then Inl (UnknownNetwork network)
      else
        let dnsQueryNetwork = (if network = ''udp4'' then ''ip4'' else if network = ''udp6'' then ''ip6'' else ''ip'')
        in and_then (SplitHostPort address) (\<lambda>(host, portStr).
          case Atoi portStr of
            None \<Rightarrow> Inl (BadInteger portStr)
          | Some port \<Rightarrow>
              if host = [] then Inr \<lparr>udp_IP = [], udp_Port = port, udp_Zone = []\<rparr>
              else (case ParseAddr host of
                  Some (ip, zone) \<Rightarrow> Inr \<lparr>udp_IP = ip, udp_Port = port, udp_Zone = zone\<rparr>
                | None \<Rightarrow>
                    (case LookupIP dnsQueryNetwork host of
                       None \<Rightarrow> Inl (LookupFailed host)
                     | Some [] \<Rightarrow> Inl (AddrNotFound address)
                     | Some (ip # _) \<Rightarrow> Inr \<lparr>udp_IP = ip, udp_Port = port, udp_Zone = []\<rparr>))))"

section \<open>Datagrams\<close>

datatype datagram_error =
    ErrNoEnoughData
  | ErrInvalidArgument
  | ErrUnsupported
  | DatagramAddr socks_error
  | ResolveFailed net_error

record socks5UDPDatagram =
  dg_Addr :: AddrSpec
  dg_Header :: bytes
  dg_Payload :: bytes

definition parseSocks5UDPDatagram :: "bytes \<Rightarrow> datagram_error + socks5UDPDatagram" where
  "parseSocks5UDPDatagram pkt =
     (if length pkt \<le> 6 then Inl ErrNoEnoughData
      else if pkt ! 0 \<noteq> 0x00 \<or> pkt ! 1 \<noteq> 0x00 then Inl ErrInvalidArgument
      else if pkt ! 2 \<noteq> 0x00 then Inl ErrUnsupported
      else (case ReadFromSocks5 (drop 3 pkt) emptyAddr of
          Inl (ReadFailed _) \<Rightarrow> Inl ErrNoEnoughData
        | Inl e \<Rightarrow> Inl (DatagramAddr e)
        | Inr (dst, r) \<Rightarrow>
            let headerLen = length pkt - length r
            in if length pkt < headerLen then Inl ErrNoEnoughData
               else Inr \<lparr>dg_Addr = dst, dg_Header = take headerLen pkt, dg_Payload = drop headerLen pkt\<rparr>))"

definition newSocks5UDPDatagram :: "AddrSpec \<Rightarrow> bytes \<Rightarrow> socks_error + bytes" where
  "newSocks5UDPDatagram addr payload = and_then (WriteToSocks5 addr) (\<lambda>h. Inr ([0, 0, 0] @ h @ payload))"

definition resolveSocks5UDPAddr :: "resolver \<Rightarrow> AddrSpec \<Rightarrow> datagram_error + UDPAddr" where
  "resolveSocks5UDPAddr LookupIP addr =
     (if To4 (IP addr) \<noteq> None \<or> To16 (IP addr) \<noteq> None
      then Inr \<lparr>udp_IP = IP addr, udp_Port = Port addr, udp_Zone = []\<rparr>
      else if FQDN addr \<noteq> [] then map_sum ResolveFailed id (ResolveUDPAddr LookupIP ''udp'' (AddrSpec_String addr))
      else Inl (DatagramAddr ErrUnrecognizedAddrType))"

definition parseUDPAssociateDatagram :: "resolver \<Rightarrow> bytes \<Rightarrow> datagram_error + UDPAddr \<times> bytes" where
  "parseUDPAssociateDatagram LookupIP pkt =
     and_then (parseSocks5UDPDatagram pkt) (\<lambda>datagram.
     and_then (resolveSocks5UDPAddr LookupIP (dg_Addr datagram)) (\<lambda>dstAddr. Inr (dstAddr, dg_Payload datagram)))"

definition udpAddrSpec :: "UDPAddr \<Rightarrow> AddrSpec" where
  "udpAddrSpec addr = \<lparr>FQDN = [], IP = udp_IP addr, Port = udp_Port addr\<rparr>"

text \<open>The result \<open>None\<close> is a panic.\<close>

definition udpAddrToHeader :: "UDPAddr option \<Rightarrow> bytes option" where
  "udpAddrToHeader addr = (case addr of
     None \<Rightarrow> None
   | Some a \<Rightarrow> (case newSocks5UDPDatagram (udpAddrSpec a) [] of Inl _ \<Rightarrow> None | Inr header \<Rightarrow> Some header))"

definition wrapSocks5UDPPacket :: "net_addr \<Rightarrow> bytes \<Rightarrow> (net_error + socks_error) + bytes" where
  "wrapSocks5UDPPacket addr payload =
     and_then (map_sum Inl id (NetAddrSpec_From addr)) (\<lambda>netAddr.
       map_sum Inr id (newSocks5UDPDatagram (Addr netAddr) payload))"

definition unwrapSocks5UDPPacket :: "bytes \<Rightarrow> datagram_error + bytes" where
  "unwrapSocks5UDPPacket pkt = and_then (parseSocks5UDPDatagram pkt) (\<lambda>datagram. Inr (dg_Payload datagram))"

definition sameUDPAddr :: "UDPAddr option \<Rightarrow> UDPAddr option \<Rightarrow> bool" where
  "sameUDPAddr a b = (case (a, b) of
     (Some a, Some b) \<Rightarrow> udp_Port a = udp_Port b \<and> IP_Equal (udp_IP a) (udp_IP b)
   | (None, None) \<Rightarrow> True
   | _ \<Rightarrow> False)"

section \<open>Responses\<close>

datatype response_error =
    NilResponse
  | ResponsePort int
  | ResponseAddr socks_error
  | UnspecifiedBind
  | UnexpectedRemote

definition rewriteSocks5ResponseBindPort :: "Response option \<Rightarrow> int \<Rightarrow> response_error + Response" where
  "rewriteSocks5ResponseBindPort resp port =
     (case resp of
        None \<Rightarrow> Inl NilResponse
      | Some resp \<Rightarrow>
          if port < 0 \<or> port > 65535 then Inl (ResponsePort port)
          else
            let resp = resp\<lparr>BindAddr := (BindAddr resp)\<lparr>Port := port\<rparr>\<rparr>; n = length (resp_Raw resp)
            in if n \<ge> 2
               then Inr (resp\<lparr>resp_Raw := (resp_Raw resp)[n - 2 := word_of_int (drop_bit 8 port), n - 1 := word_of_int port]\<rparr>)
               else (case Response_WriteToSocks5 resp of
                   Inl e \<Rightarrow> Inl (ResponseAddr e)
                 | Inr (buf, resp) \<Rightarrow> Inr (resp\<lparr>resp_Raw := buf\<rparr>)))"

text \<open>\<open>tcpRemote\<close> is the remote address of the connection, if it is a TCP address.\<close>

definition socks5UDPAddrFromResponse :: "bytes option \<Rightarrow> Response \<Rightarrow> response_error + UDPAddr" where
  "socks5UDPAddrFromResponse tcpRemote resp =
     (case tcpRemote of
        None \<Rightarrow> Inl UnexpectedRemote
      | Some remoteIP \<Rightarrow>
          let port = Port (BindAddr resp); ip = IP (BindAddr resp)
          in if port < 1 \<or> port > 65535 then Inl (ResponsePort port)
             else
               let ip = (if ip = [] \<or> IsUnspecified ip then remoteIP else ip)
               in if ip = [] \<or> IsUnspecified ip then Inl UnspecifiedBind
                  else Inr \<lparr>udp_IP = ip, udp_Port = port, udp_Zone = []\<rparr>)"

text \<open>The header that \<^verbatim>\<open>TransceiveUDPPacket\<close> sends, and what it takes from the first \<open>n\<close> bytes of its buffer.\<close>

definition transceive_header :: "UDPAddr \<Rightarrow> bytes" where
  "transceive_header dstAddr =
     (let port = [word_of_int (drop_bit 8 (udp_Port dstAddr)), word_of_int (udp_Port dstAddr)]
      in case To4 (udp_IP dstAddr) of
           Some ip \<Rightarrow> [0, 0, 0] @ [Socks5IPv4Address] @ ip @ port
         | None \<Rightarrow> [0, 0, 0] @ [Socks5IPv6Address] @ (case To16 (udp_IP dstAddr) of Some ip \<Rightarrow> ip | None \<Rightarrow> []) @ port)"

datatype transceive_error = UnexpectedSource | ReplyTooShort | ReplyAddrType u8

definition transceive_reply :: "UDPAddr \<Rightarrow> UDPAddr \<Rightarrow> bytes \<Rightarrow> transceive_error + bytes" where
  "transceive_reply proxyAddr readAddr buf =
     (let n = length buf
      in if udp_Port readAddr \<noteq> udp_Port proxyAddr then Inl UnexpectedSource
         else if n < 4 then Inl ReplyTooShort
         else if buf ! 3 = Socks5IPv4Address then (if n \<le> 10 then Inl ReplyTooShort else Inr (drop 10 buf))
         else if buf ! 3 = Socks5IPv6Address then (if n \<le> 22 then Inl ReplyTooShort else Inr (drop 22 buf))
         else if buf ! 3 = Socks5FQDNAddress then
           (if n < 5 then Inl ReplyTooShort
            else
              let headerLen = 7 + unat (buf ! 4)
              in if n \<le> headerLen then Inl ReplyTooShort else Inr (drop headerLen buf))
         else Inl (ReplyAddrType (buf ! 3)))"

section \<open>The packet over stream relay\<close>

text \<open>
  \<open>as_pending\<close> is what the download goroutine has taken from the UDP socket and from the map, before it stores
  and writes.  A goroutine that has returned does nothing any more.
\<close>

datatype assoc_error = AssocDatagram datagram_error | AssocRead conn_error | AssocSocket | AssocWrite "conn_error option"

record assoc =
  as_addrMap :: "string \<Rightarrow> bytes option"
  as_sent :: "(UDPAddr \<times> bytes) list"
  as_toClient :: "bytes list"
  as_pending :: "(UDPAddr \<times> bytes \<times> bytes option) option"
  as_err :: "assoc_error option"
  as_upDone :: bool
  as_downDone :: bool
  as_Errors :: int
  as_UploadPackets :: int
  as_UploadBytes :: int
  as_DownloadPackets :: int
  as_DownloadBytes :: int

definition new_assoc :: assoc where
  "new_assoc = \<lparr>as_addrMap = Map.empty, as_sent = [], as_toClient = [], as_pending = None, as_err = None, as_upDone = False,
     as_downDone = False, as_Errors = 0, as_UploadPackets = 0, as_UploadBytes = 0, as_DownloadPackets = 0, as_DownloadBytes = 0\<rparr>"

text \<open>\<open>received\<close> is the result of reading from the stream.\<close>

definition assoc_upload :: "resolver \<Rightarrow> (UDPAddr \<Rightarrow> bytes \<Rightarrow> nat option) \<Rightarrow> conn_error + bytes \<Rightarrow> assoc \<Rightarrow> assoc" where
  "assoc_upload LookupIP WriteToUDP received st =
     (if as_upDone st then st
      else (case received of
          Inl e \<Rightarrow> st\<lparr>as_err := Some (AssocRead e), as_upDone := True\<rparr>
        | Inr pkt \<Rightarrow>
            (case parseSocks5UDPDatagram pkt of
               Inl e \<Rightarrow> st\<lparr>as_err := Some (AssocDatagram e), as_Errors := as_Errors st + 1, as_upDone := True\<rparr>
             | Inr datagram \<Rightarrow>
                 (case resolveSocks5UDPAddr LookupIP (dg_Addr datagram) of
                    Inl _ \<Rightarrow> st\<lparr>as_Errors := as_Errors st + 1\<rparr>
                  | Inr dstAddr \<Rightarrow>
                      let st = st\<lparr>as_addrMap := (as_addrMap st)(UDPAddr_String dstAddr \<mapsto> dg_Header datagram)\<rparr>
                      in (case WriteToUDP dstAddr (dg_Payload datagram) of
                            None \<Rightarrow> st\<lparr>as_Errors := as_Errors st + 1\<rparr>
                          | Some ws \<Rightarrow> st\<lparr>as_sent := as_sent st @ [(dstAddr, dg_Payload datagram)],
                              as_UploadPackets := as_UploadPackets st + 1, as_UploadBytes := as_UploadBytes st + int ws\<rparr>)))))"

text \<open>The download goroutine ends with an error, which is kept if it is the first one.\<close>

definition end_download :: "assoc_error \<Rightarrow> assoc \<Rightarrow> assoc" where
  "end_download e st =
     st\<lparr>as_pending := None, as_err := (if as_err st = None then Some e else as_err st), as_downDone := True\<rparr>"

text \<open>\<open>received\<close> is the result of reading from the UDP socket, which fails once the socket is closed.\<close>

definition assoc_receive :: "(UDPAddr \<times> bytes) option \<Rightarrow> assoc \<Rightarrow> assoc" where
  "assoc_receive received st =
     (if as_downDone st \<or> as_pending st \<noteq> None then st
      else (case received of
          None \<Rightarrow> end_download AssocSocket st
        | Some (addr, payload) \<Rightarrow> st\<lparr>as_pending := Some (addr, payload, as_addrMap st (UDPAddr_String addr))\<rparr>))"

text \<open>\<open>takes\<close> tells whether the stream takes what is written to it.\<close>

definition assoc_forward :: "bool \<Rightarrow> bytes \<Rightarrow> bytes \<Rightarrow> assoc \<Rightarrow> assoc option" where
  "assoc_forward takes header payload st =
     (if Socks5MaxUDPHeaderLen < length header then None
      else (case Tunnel_Write (header @ payload) [] of
          (Inl e, _) \<Rightarrow> Some (end_download (AssocWrite (Some e)) st)
        | (Inr _, _) \<Rightarrow>
            if \<not> takes then Some (end_download (AssocWrite None) st)
            else Some (st\<lparr>as_pending := None, as_toClient := as_toClient st @ [header @ payload],
              as_DownloadPackets := as_DownloadPackets st + 1,
              as_DownloadBytes := as_DownloadBytes st + int (length payload)\<rparr>)))"

definition assoc_reply :: "bool \<Rightarrow> assoc \<Rightarrow> assoc option" where
  "assoc_reply takes st =
     (case as_pending st of
        None \<Rightarrow> Some st
      | Some (addr, payload, Some header) \<Rightarrow> assoc_forward takes header payload st
      | Some (addr, payload, None) \<Rightarrow>
          (case udpAddrToHeader (Some addr) of
             None \<Rightarrow> None
           | Some header \<Rightarrow>
               assoc_forward takes header payload (st\<lparr>as_addrMap := (as_addrMap st)(UDPAddr_String addr \<mapsto> header)\<rparr>)))"

section \<open>The datagram relay\<close>

record relay =
  rl_clientAddr :: "UDPAddr option"
  rl_targetAddrs :: "string set"
  rl_out :: "(UDPAddr \<times> bytes) list"
  rl_Errors :: int
  rl_UploadPackets :: int
  rl_UploadBytes :: int
  rl_DownloadPackets :: int
  rl_DownloadBytes :: int

definition new_relay :: relay where
  "new_relay = \<lparr>rl_clientAddr = None, rl_targetAddrs = {}, rl_out = [], rl_Errors = 0, rl_UploadPackets = 0,
     rl_UploadBytes = 0, rl_DownloadPackets = 0, rl_DownloadBytes = 0\<rparr>"

definition relay_datagram ::
    "resolver \<Rightarrow> (UDPAddr \<Rightarrow> bytes \<Rightarrow> nat option) \<Rightarrow> UDPAddr \<Rightarrow> bytes \<Rightarrow> relay \<Rightarrow> relay option" where
  "relay_datagram LookupIP WriteToUDP addr buf st =
     (if rl_clientAddr st = None \<or> sameUDPAddr (Some addr) (rl_clientAddr st) then
        (case parseUDPAssociateDatagram LookupIP buf of
           Inl _ \<Rightarrow> Some (st\<lparr>rl_Errors := rl_Errors st + 1\<rparr>)
         | Inr (dstAddr, payload) \<Rightarrow>
             let st = (if rl_clientAddr st = None then st\<lparr>rl_clientAddr := Some addr\<rparr> else st)
             in (case WriteToUDP dstAddr payload of
                   None \<Rightarrow> Some (st\<lparr>rl_Errors := rl_Errors st + 1\<rparr>)
                 | Some ws \<Rightarrow> Some (st\<lparr>rl_out := rl_out st @ [(dstAddr, payload)],
                     rl_targetAddrs := insert (UDPAddr_String dstAddr) (rl_targetAddrs st),
                     rl_UploadPackets := rl_UploadPackets st + 1, rl_UploadBytes := rl_UploadBytes st + int ws\<rparr>)))
      else if UDPAddr_String addr \<notin> rl_targetAddrs st then Some st
      else (case (udpAddrToHeader (Some addr), rl_clientAddr st) of
          (Some header, Some client) \<Rightarrow>
            (case WriteToUDP client (header @ buf) of
               None \<Rightarrow> Some (st\<lparr>rl_Errors := rl_Errors st + 1\<rparr>)
             | Some ws \<Rightarrow> Some (st\<lparr>rl_out := rl_out st @ [(client, header @ buf)],
                 rl_DownloadPackets := rl_DownloadPackets st + 1,
                 rl_DownloadBytes := rl_DownloadBytes st + (int ws - int (length header))\<rparr>))
        | _ \<Rightarrow> None))"

fun relay_run ::
    "resolver \<Rightarrow> (UDPAddr \<Rightarrow> bytes \<Rightarrow> nat option) \<Rightarrow> (UDPAddr \<times> bytes) list \<Rightarrow> relay \<Rightarrow> relay option" where
  "relay_run LookupIP WriteToUDP [] st = Some st"
| "relay_run LookupIP WriteToUDP ((addr, buf) # ins) st =
     (case relay_datagram LookupIP WriteToUDP addr buf st of
        None \<Rightarrow> None | Some st \<Rightarrow> relay_run LookupIP WriteToUDP ins st)"

end
