(* ===== verification/Egress.thy ===== *)
theory Egress
  imports Socks Appctlpb
begin

text \<open>
  The egress controller of the SOCKS5 server, \<^verbatim>\<open>pkg/socks5/egress.go\<close>, with the messages of
  \<^verbatim>\<open>servercfg.pb.go\<close> it reads: whether a request is served directly, forwarded to another proxy or rejected.
  \<^verbatim>\<open>mrand.Intn\<close> is a parameter with a result below its argument.  The lemmas characterise when a request is
  rejected because of a local destination, and which rule and proxy are chosen.
\<close>

datatype EgressAction = PROXY | DIRECT | REJECT | UnknownAction int

record EgressRule =
  er_IpRanges :: "string list"
  er_DomainNames :: "string list"
  er_Action :: "EgressAction option"
  er_ProxyNames :: "string list"

record Auth_pb =
  au_User :: "string option"
  au_Password :: "string option"

record EgressProxy =
  ep_Name :: "string option"
  ep_Host :: "string option"
  ep_Port :: "int option"
  ep_Socks5Authentication :: "Auth_pb option"

record egress_config =
  ec_Users :: "string \<Rightarrow> User option"
  ec_Rules :: "EgressRule list"
  ec_Proxies :: "EgressProxy list"
  ec_AllowLoopbackDestination :: bool

record egress_input =
  in_IsSocks5 :: bool
  in_Data :: bytes
  in_Env :: "string \<Rightarrow> string option"

record egress_action =
  act_Action :: EgressAction
  act_Proxy :: "EgressProxy option"

definition GetAction :: "EgressRule \<Rightarrow> EgressAction" where
  "GetAction rule = (case er_Action rule of Some a \<Rightarrow> a | None \<Rightarrow> PROXY)"

definition GetProxyName :: "EgressProxy \<Rightarrow> string" where
  "GetProxyName proxy = (case ep_Name proxy of Some n \<Rightarrow> n | None \<Rightarrow> [])"

definition plain_action :: "EgressAction \<Rightarrow> egress_action" where
  "plain_action a = \<lparr>act_Action = a, act_Proxy = None\<rparr>"

definition wellKnownIPv4LocalDomainNames :: "string list" where
  "wellKnownIPv4LocalDomainNames = [''localhost'', ''localhost4'', ''localhost.localdomain'', ''localhost4.localdomain4'']"

definition wellKnownIPv6LocalDomainNames :: "string list" where
  "wellKnownIPv6LocalDomainNames = [''localhost6'', ''ip6-localhost'', ''ip6-loopback'', ''localhost6.localdomain6'']"

definition parseEgressSocks5Request :: "bytes \<Rightarrow> socks_error + Request" where
  "parseEgressSocks5Request data =
     and_then (Request_ReadFromSocks5 data \<lparr>Command = 0, DstAddr = emptyAddr, req_Raw = []\<rparr>) (\<lambda>(req, _). Inr req)"

text \<open>
  The destination that the check of local addresses looks at: the IP, or the IP of a well-known local name.
\<close>

definition checked_ip :: "AddrSpec \<Rightarrow> bytes option" where
  "checked_ip dst =
     (if length (IP dst) = 0 \<and> FQDN dst \<noteq> [] then
        let domainName = ToLower (TrimSuffix (FQDN dst) ''.'')
        in if domainName \<in> set wellKnownIPv4LocalDomainNames then ParseIP ''127.0.0.1''
           else if domainName \<in> set wellKnownIPv6LocalDomainNames then ParseIP ''::1''
           else None
      else if length (IP dst) = 0 then None else Some (IP dst))"

definition rejectPrivateAndLoopbackIPAction :: "egress_config \<Rightarrow> egress_input \<Rightarrow> Request \<Rightarrow> egress_action" where
  "rejectPrivateAndLoopbackIPAction cfg inp req =
     (case checked_ip (DstAddr req) of
        None \<Rightarrow> plain_action DIRECT
      | Some ip \<Rightarrow>
          if \<not> IsPrivate ip \<and> \<not> IsLoopback ip then plain_action DIRECT
          else if IsLoopback ip \<and> ec_AllowLoopbackDestination cfg then plain_action DIRECT
          else (case in_Env inp ''user'' of
              None \<Rightarrow> plain_action REJECT
            | Some userName \<Rightarrow>
                if userName = [] then plain_action REJECT
                else (case ec_Users cfg userName of
                    None \<Rightarrow> plain_action REJECT
                  | Some user \<Rightarrow>
                      if IsPrivate ip \<and> GetBool (u_AllowPrivateIP user) then plain_action DIRECT
                      else if IsLoopback ip \<and> GetBool (u_AllowLoopbackIP user) then plain_action DIRECT
                      else plain_action REJECT)))"

definition matchEgressRule :: "bytes \<Rightarrow> string \<Rightarrow> EgressRule \<Rightarrow> bool" where
  "matchEgressRule addr domain rule =
     (if addr \<noteq> [] then
        list_ex (\<lambda>ipRange. ipRange = ''*'' \<or>
          (case ParseCIDR ipRange of None \<Rightarrow> False | Some cidr \<Rightarrow> Contains cidr addr)) (er_IpRanges rule)
      else if domain \<noteq> [] then
        list_ex (\<lambda>d. d = ''*'' \<or> domain = d \<or> HasSuffix domain (''.'' @ d)) (er_DomainNames rule)
      else False)"

definition rule_action :: "egress_config \<Rightarrow> (nat \<Rightarrow> nat) \<Rightarrow> EgressRule \<Rightarrow> egress_action" where
  "rule_action cfg Intn rule =
     (if GetAction rule = PROXY then
        let allProxyNames = er_ProxyNames rule;
            selectedProxyName = (if length allProxyNames > 0 then allProxyNames ! Intn (length allProxyNames) else [])
        in (case find (\<lambda>proxy. GetProxyName proxy = selectedProxyName) (ec_Proxies cfg) of
              Some proxy \<Rightarrow> \<lparr>act_Action = GetAction rule, act_Proxy = Some proxy\<rparr>
            | None \<Rightarrow> plain_action (GetAction rule))
      else plain_action (GetAction rule))"

definition forwardToProxyAction :: "egress_config \<Rightarrow> (nat \<Rightarrow> nat) \<Rightarrow> Request \<Rightarrow> egress_action" where
  "forwardToProxyAction cfg Intn req =
     (let addr = IP (DstAddr req); domain = FQDN (DstAddr req)
      in if length addr = 0 \<and> domain = [] then plain_action DIRECT
         else (case find (matchEgressRule addr domain) (ec_Rules cfg) of
             Some rule \<Rightarrow> rule_action cfg Intn rule
           | None \<Rightarrow> plain_action DIRECT))"

definition FindAction :: "egress_config \<Rightarrow> (nat \<Rightarrow> nat) \<Rightarrow> egress_input \<Rightarrow> egress_action" where
  "FindAction cfg Intn inp =
     (if \<not> in_IsSocks5 inp then plain_action DIRECT
      else if length (in_Data inp) < 4 then plain_action DIRECT
      else if in_Data inp ! 0 \<noteq> Socks5Version then plain_action DIRECT
      else (case parseEgressSocks5Request (in_Data inp) of
          Inl _ \<Rightarrow> plain_action DIRECT
        | Inr req \<Rightarrow>
            if Command req = Socks5ConnectCmd \<or> Command req = Socks5UDPAssociateCmd then
              let action = rejectPrivateAndLoopbackIPAction cfg inp req
              in if act_Action action = REJECT then action else forwardToProxyAction cfg Intn req
            else plain_action DIRECT))"

section \<open>Local destinations\<close>

text \<open>The user, or the test setting, that permits a local destination.\<close>

definition permitted :: "egress_config \<Rightarrow> egress_input \<Rightarrow> bytes \<Rightarrow> bool" where
  "permitted cfg inp ip \<longleftrightarrow> IsLoopback ip \<and> ec_AllowLoopbackDestination cfg \<or>
     (\<exists>u user. in_Env inp ''user'' = Some u \<and> u \<noteq> [] \<and> ec_Users cfg u = Some user \<and>
        (IsPrivate ip \<and> GetBool (u_AllowPrivateIP user) \<or> IsLoopback ip \<and> GetBool (u_AllowLoopbackIP user)))"

lemma reject_iff:
  "act_Action (rejectPrivateAndLoopbackIPAction cfg inp req) = REJECT \<longleftrightarrow>
     (\<exists>ip. checked_ip (DstAddr req) = Some ip \<and> (IsPrivate ip \<or> IsLoopback ip) \<and> \<not> permitted cfg inp ip)"
  by (auto simp: rejectPrivateAndLoopbackIPAction_def permitted_def plain_action_def split: option.splits)

lemma request_read_back:
  assumes "wire_addr a" and "WriteSocks5Request c a = Inr data"
  shows "parseEgressSocks5Request data = Inr \<lparr>Command = c, DstAddr = canonical a, req_Raw = data\<rparr> \<and>
    4 \<le> length data \<and> data ! 0 = Socks5Version"
proof -
  obtain b where b: "WriteToSocks5 a = Inr b" "\<And>r. ReadFromSocks5 (b @ r) emptyAddr = Inr (canonical a, r)"
    using addr_round_trip [OF assms(1)] by blast
  have "b \<noteq> []" using b(2) [of "[]"] by (auto simp: ReadFromSocks5_def read_n_def read_full_def)
  moreover have d: "data = Socks5Version # c # 0 # b"
    using assms(2) by (simp add: WriteSocks5Request_def Request_WriteToSocks5_def b(1) Let_def)
  moreover have "read_n 3 data = Inr ([Socks5Version, c, 0], b)"
    by (simp add: d read_n_def read_full_def)
  ultimately show ?thesis
    using b(2) [of "[]"]
    by (simp add: parseEgressSocks5Request_def Request_ReadFromSocks5_def Let_def consumed_def Suc_le_eq)
qed

lemma FindAction_request:
  assumes "wire_addr a" and "WriteSocks5Request c a = Inr data" and "c = Socks5ConnectCmd \<or> c = Socks5UDPAssociateCmd"
  shows "FindAction cfg Intn \<lparr>in_IsSocks5 = True, in_Data = data, in_Env = env\<rparr> =
    (let req = \<lparr>Command = c, DstAddr = canonical a, req_Raw = data\<rparr>;
         action = rejectPrivateAndLoopbackIPAction cfg \<lparr>in_IsSocks5 = True, in_Data = data, in_Env = env\<rparr> req
     in if act_Action action = REJECT then action else forwardToProxyAction cfg Intn req)"
  using request_read_back [OF assms(1,2)] assms(3) by (auto simp: FindAction_def Let_def)

lemma reject_plain: "act_Action (rejectPrivateAndLoopbackIPAction cfg inp req) = REJECT \<Longrightarrow>
    rejectPrivateAndLoopbackIPAction cfg inp req = plain_action REJECT"
  by (auto simp: rejectPrivateAndLoopbackIPAction_def plain_action_def split: option.splits if_splits)

lemma ToLower_ascii: "list_all (\<lambda>c. (of_char c :: nat) < 128) s \<Longrightarrow> ToLower s = map lower s"
  by (induction s) auto

lemma lower_ascii: "(of_char (lower c) :: nat) < 128 \<Longrightarrow> (of_char c :: nat) < 128"
  by (auto simp: lower_def Let_def split: if_splits)

lemma ToLower_eq: "map lower s = t \<Longrightarrow> list_all (\<lambda>c. (of_char c :: nat) < 128) t \<Longrightarrow> ToLower s = t"
  by (rule trans [OF ToLower_ascii]) (auto simp: list_all_iff dest: lower_ascii)

text \<open>The destinations that only permitted users may use, as a client can write them.\<close>

definition private_destination :: "AddrSpec \<Rightarrow> bool" where
  "private_destination a \<longleftrightarrow>
     (\<exists>x y z w. To4 (IP a) = Some [x, y, z, w] \<and> (x = 10 \<or> x = 192 \<and> y = 168 \<or> x = 172 \<and> y AND 0xf0 = 16)) \<or>
     (\<exists>x xs. IP a = x # xs \<and> length xs = 15 \<and> x AND 0xfe = 0xfc)"

definition local_names :: "string list" where
  "local_names = [''localhost'', ''localhost4'', ''localhost.localdomain'', ''localhost4.localdomain4'',
     ''localhost6'', ''ip6-localhost'', ''ip6-loopback'', ''localhost6.localdomain6'']"

definition loopback_destination :: "AddrSpec \<Rightarrow> bool" where
  "loopback_destination a \<longleftrightarrow>
     (\<exists>y z w. To4 (IP a) = Some [127, y, z, w]) \<or>
     (IP a = replicate 15 0 @ [1]) \<or>
     (IP a = [] \<and> (\<exists>n \<in> set local_names. map lower (FQDN a) = n \<or> map lower (FQDN a) = n @ ''.''))"

text \<open>What permits a user to use them.\<close>

definition user_allows :: "egress_config \<Rightarrow> (string \<rightharpoonup> string) \<Rightarrow> (User \<Rightarrow> bool option) \<Rightarrow> bool" where
  "user_allows cfg env permission \<longleftrightarrow>
     (\<exists>u user. env ''user'' = Some u \<and> u \<noteq> [] \<and> ec_Users cfg u = Some user \<and> GetBool (permission user))"

definition may_use :: "egress_config \<Rightarrow> (string \<rightharpoonup> string) \<Rightarrow> AddrSpec \<Rightarrow> bool" where
  "may_use cfg env a \<longleftrightarrow>
     (private_destination a \<longrightarrow> user_allows cfg env u_AllowPrivateIP) \<and>
     (loopback_destination a \<longrightarrow> ec_AllowLoopbackDestination cfg \<or> user_allows cfg env u_AllowLoopbackIP)"

lemma not_v4: "take 12 ip \<noteq> v4InV6Prefix \<Longrightarrow> length ip = 16 \<Longrightarrow> To4 ip = None \<and> To16 ip = Some ip"
  by (simp add: To4_def To16_def)

lemma v4InV6Prefix_head: "v4InV6Prefix = 0 # replicate 9 0 @ [255, 255]"
  by (simp add: v4InV6Prefix_def numeral_eq_Suc)

lemma lower_dot: "lower c = CHR ''.'' \<longleftrightarrow> c = CHR ''.''"
proof -
  have "of_char (lower c) = (46::nat) \<Longrightarrow> of_char c = (46::nat)"
    by (auto simp: lower_def Let_def split: if_splits)
  then have "lower c = CHR ''.'' \<Longrightarrow> of_char c = (of_char (CHR ''.'') :: nat)" by simp
  then show ?thesis by (auto simp: lower_def)
qed

lemma TrimSuffix_dot: "TrimSuffix s ''.'' = (if s \<noteq> [] \<and> last s = CHR ''.'' then butlast s else s)"
  by (cases s rule: rev_cases) (simp_all add: TrimSuffix_def)

lemma trimmed_name:
  assumes "map lower s = n \<or> map lower s = n @ ''.''" and "n \<noteq> []" and "last n \<noteq> CHR ''.''" and "list_all (\<lambda>c. (of_char c :: nat) < 128) n"
  shows "s \<noteq> [] \<and> ToLower (TrimSuffix s ''.'') = n"
proof -
  have s: "s \<noteq> []" using assms(1,2) by auto
  then have l: "lower (last s) = last (map lower s)" by (simp add: last_map)
  show ?thesis
  proof (cases "last s = CHR ''.''")
    case True
    then have "map lower s = n @ ''.''" using assms(1,3) l lower_dot [of "last s"] by auto
    then have "map lower (butlast s) = n" by (simp add: map_butlast)
    then show ?thesis using s True ToLower_eq [OF _ assms(4)] by (simp add: TrimSuffix_dot)
  next
    case False
    then have "map lower s = n" using assms(1) l lower_dot [of "last s"] by auto
    then show ?thesis using s False ToLower_eq [OF _ assms(4)] by (simp add: TrimSuffix_dot)
  qed
qed

lemma local_name_checked:
  assumes "n \<in> set local_names" and "map lower (FQDN a) = n \<or> map lower (FQDN a) = n @ ''.''" and "IP a = []"
  shows "\<exists>ip. checked_ip (canonical a) = Some ip \<and> IsLoopback ip"
proof -
  have n: "list_all (\<lambda>n. n \<noteq> [] \<and> last n \<noteq> CHR ''.'' \<and> list_all (\<lambda>c. (of_char c :: nat) < 128) n \<and>
      (n \<in> set wellKnownIPv4LocalDomainNames \<or> n \<in> set wellKnownIPv6LocalDomainNames)) local_names" by code_simp
  then have f: "FQDN a \<noteq> []" "ToLower (TrimSuffix (FQDN a) ''.'') = n"
    using trimmed_name [OF assms(2)] assms(1) by (auto simp: list_all_iff)
  have "ParseIP ''::1'' = Some (replicate 15 0 @ [1])" by code_simp
  moreover have "IsLoopback (v4InV6Prefix @ [127, 0, 0, 1])" by (simp add: IsLoopback_def To4_def)
  moreover have "IsLoopback (replicate 15 0 @ [1])" by code_simp
  moreover have "n \<in> set wellKnownIPv4LocalDomainNames \<or> n \<in> set wellKnownIPv6LocalDomainNames"
    using n assms(1) by (simp add: list_all_iff)
  ultimately show ?thesis
    using f assms(3) by (auto simp: canonical_def To4_def To16_def checked_ip_def parse_loopback Let_def)
qed

lemma loopback_checked:
  assumes "loopback_destination a"
  shows "\<exists>ip. checked_ip (canonical a) = Some ip \<and> IsLoopback ip"
  using assms unfolding loopback_destination_def
proof (elim disjE)
  assume ip: "IP a = replicate 15 0 @ [1]"
  have "take 12 (IP a) = replicate 12 0" by (simp add: ip)
  moreover have "last (replicate 12 (0::u8)) \<noteq> last v4InV6Prefix" by (simp add: v4InV6Prefix_def)
  ultimately have "take 12 (IP a) \<noteq> v4InV6Prefix" by metis
  then show ?thesis using ip not_v4 [of "IP a"] by (auto simp: canonical_def checked_ip_def IsLoopback_def)
next
  assume "IP a = [] \<and> (\<exists>n \<in> set local_names. map lower (FQDN a) = n \<or> map lower (FQDN a) = n @ ''.'')"
  then show ?thesis using local_name_checked by blast
qed (auto simp: canonical_def checked_ip_def IsLoopback_def)

lemma private_checked:
  assumes "private_destination a"
  shows "\<exists>ip. checked_ip (canonical a) = Some ip \<and> IsPrivate ip"
  using assms unfolding private_destination_def
proof (elim disjE)
  assume "\<exists>x xs. IP a = x # xs \<and> length xs = 15 \<and> x AND 0xfe = 0xfc"
  then obtain x xs where ip: "IP a = x # xs" "length xs = 15" "x AND 0xfe = 0xfc" by blast
  then have "x \<noteq> 0" by auto
  then have "take 12 (IP a) \<noteq> v4InV6Prefix" by (simp add: ip v4InV6Prefix_head)
  then show ?thesis using ip not_v4 [of "IP a"] by (auto simp: canonical_def checked_ip_def IsPrivate_def)
qed (auto simp: canonical_def checked_ip_def IsPrivate_def)

text \<open>No address is of both kinds.\<close>

lemma private_or_loopback: "IsPrivate ip \<Longrightarrow> \<not> IsLoopback ip"
proof (cases "To4 ip")
  case None
  assume "IsPrivate ip"
  then have "length ip = 16" "ip ! 0 \<noteq> 0" using None by (auto simp: IsPrivate_def)
  then have "ip \<noteq> replicate 15 0 @ [1]" by (auto simp: nth_append)
  then show ?thesis using None \<open>length ip = 16\<close> by (auto simp: IsLoopback_def IP_Equal_def)
qed (auto simp: IsPrivate_def IsLoopback_def)

lemma local_rejected:
  assumes "wire_addr a" and "WriteSocks5Request c a = Inr data" and "c = Socks5ConnectCmd \<or> c = Socks5UDPAssociateCmd"
    and "\<not> may_use cfg env a"
  shows "FindAction cfg Intn \<lparr>in_IsSocks5 = True, in_Data = data, in_Env = env\<rparr> = plain_action REJECT"
proof -
  let ?in = "\<lparr>in_IsSocks5 = True, in_Data = data, in_Env = env\<rparr>"
  let ?req = "\<lparr>Command = c, DstAddr = canonical a, req_Raw = data\<rparr>"
  have "\<exists>ip. checked_ip (canonical a) = Some ip \<and> (IsPrivate ip \<or> IsLoopback ip) \<and> \<not> permitted cfg ?in ip"
    using assms(4) private_checked [of a] loopback_checked [of a] private_or_loopback
    unfolding may_use_def permitted_def user_allows_def by fastforce
  then have "act_Action (rejectPrivateAndLoopbackIPAction cfg ?in ?req) = REJECT" by (simp add: reject_iff)
  then show ?thesis using reject_plain FindAction_request [OF assms(1-3)] by (simp add: Let_def)
qed

lemma checked_kind:
  assumes "To16 (IP a) \<noteq> None" and "checked_ip (canonical a) = Some ip"
  shows "(IsPrivate ip \<longrightarrow> private_destination a) \<and> (IsLoopback ip \<longrightarrow> loopback_destination a)"
proof (cases "To4 (IP a)")
  case (Some x)
  then have l: "length x = 4" "To4 x = Some x" using length_To4 [OF Some] by (simp_all add: To4_def)
  then obtain b0 b1 b2 b3 where x: "x = [b0, b1, b2, b3]" by (auto simp: length_Suc_conv numeral_eq_Suc)
  have "ip = x" using assms(2) Some l by (auto simp: canonical_def checked_ip_def)
  then show ?thesis
    using Some l(2) x by (auto simp: IsPrivate_def IsLoopback_def private_destination_def loopback_destination_def)
next
  case None
  then have l: "length (IP a) = 16" using assms(1) by (auto simp: To16_def split: if_splits)
  then have ip: "ip = IP a" using assms None by (auto simp: canonical_def checked_ip_def To16_def split: if_splits)
  obtain x xs where x: "IP a = x # xs" using l by (cases "IP a") auto
  show ?thesis
    using None ip l x by (auto simp: IsPrivate_def IsLoopback_def IP_Equal_def private_destination_def loopback_destination_def)
qed

lemma local_allowed:
  assumes "wire_addr a" and "WriteSocks5Request c a = Inr data" and "c = Socks5ConnectCmd \<or> c = Socks5UDPAssociateCmd"
    and "may_use cfg env a" and "To16 (IP a) \<noteq> None" and "ec_Rules cfg = []"
  shows "FindAction cfg Intn \<lparr>in_IsSocks5 = True, in_Data = data, in_Env = env\<rparr> = plain_action DIRECT"
proof -
  let ?in = "\<lparr>in_IsSocks5 = True, in_Data = data, in_Env = env\<rparr>"
  let ?req = "\<lparr>Command = c, DstAddr = canonical a, req_Raw = data\<rparr>"
  have "permitted cfg ?in ip" if "checked_ip (canonical a) = Some ip" "IsPrivate ip \<or> IsLoopback ip" for ip
    using that assms(4) checked_kind [OF assms(5) that(1)] unfolding may_use_def permitted_def user_allows_def by fastforce
  then have "act_Action (rejectPrivateAndLoopbackIPAction cfg ?in ?req) \<noteq> REJECT" by (auto simp: reject_iff)
  moreover have "forwardToProxyAction cfg Intn req = plain_action DIRECT" for req
    by (simp add: forwardToProxyAction_def assms(6) Let_def)
  ultimately show ?thesis using FindAction_request [OF assms(1-3)] by (simp add: Let_def)
qed

definition strict_config :: egress_config where
  "strict_config = \<lparr>ec_Users = (\<lambda>_. Some \<lparr>u_Name = None, u_Password = None, u_HashedPassword = None, u_Quotas = [],
       u_AllowPrivateIP = None, u_AllowLoopbackIP = None\<rparr>), ec_Rules = [],
     ec_Proxies = [], ec_AllowLoopbackDestination = False\<rparr>"

lemma written_request:
  assumes "wire_addr a"
  shows "\<exists>data. WriteSocks5Request c a = Inr data"
  using addr_round_trip [OF assms] by (auto simp: WriteSocks5Request_def Request_WriteToSocks5_def Let_def)

text \<open>A request to the loopback address as a name, or to the unspecified address, passes the check.\<close>

lemma loopback_in_disguise:
  assumes "a = \<lparr>FQDN = ''127.0.0.1'', IP = [], Port = p\<rparr> \<or> a = \<lparr>FQDN = [], IP = [0, 0, 0, 0], Port = p\<rparr>"
    and "0 \<le> p" and "p < 65536" and "ec_Rules cfg = []" and "WriteSocks5Request Socks5ConnectCmd a = Inr data"
  shows "FindAction cfg Intn \<lparr>in_IsSocks5 = True, in_Data = data, in_Env = env\<rparr> = plain_action DIRECT"
proof -
  have w: "wire_addr a"
    using assms(1-3) by (auto simp: wire_addr_def AddrType_def To4_def To16_def socks5_consts)
  have "ToLower (TrimSuffix ''127.0.0.1'' ''.'') \<notin> set wellKnownIPv4LocalDomainNames \<union> set wellKnownIPv6LocalDomainNames"
    by code_simp
  then have "checked_ip (canonical a) = None \<or> checked_ip (canonical a) = Some [0, 0, 0, 0]"
    using assms(1) by (auto simp: canonical_def To4_def To16_def checked_ip_def Let_def)
  moreover have "\<not> IsPrivate [0, 0, 0, 0] \<and> \<not> IsLoopback [0, 0, 0, 0]"
    by (simp add: IsPrivate_def IsLoopback_def)
  ultimately have "act_Action (rejectPrivateAndLoopbackIPAction cfg inp \<lparr>Command = c, DstAddr = canonical a, req_Raw = d\<rparr>) \<noteq> REJECT"
    for inp c d by (auto simp: reject_iff)
  moreover have "forwardToProxyAction cfg Intn req = plain_action DIRECT" for req
    by (simp add: forwardToProxyAction_def assms(4) Let_def)
  ultimately show ?thesis using FindAction_request [OF w assms(5)] by (simp add: Let_def)
qed

section \<open>Rules\<close>

text \<open>
  The first matching rule decides: if no earlier rule matches, the action is the action of the rule; and if it
  names a proxy, that proxy is configured and its name is one the rule lists, or the empty name when it lists none.
\<close>

theorem first_matching_rule_decides:
  assumes "ec_Rules cfg = before @ rule # after" and "list_all (\<lambda>r. \<not> matchEgressRule addr domain r) before"
    and "matchEgressRule addr domain rule" and "addr = IP (DstAddr req)" and "domain = FQDN (DstAddr req)"
    and "\<And>n. 0 < n \<Longrightarrow> Intn n < n"
  shows "act_Action (forwardToProxyAction cfg Intn req) = GetAction rule \<and>
    (\<forall>p. act_Proxy (forwardToProxyAction cfg Intn req) = Some p \<longrightarrow> GetAction rule = PROXY \<and> p \<in> set (ec_Proxies cfg) \<and>
       (GetProxyName p \<in> set (er_ProxyNames rule) \<or> er_ProxyNames rule = [] \<and> GetProxyName p = []))"
proof -
  have "find (matchEgressRule addr domain) (before @ rule # after) = Some rule"
    using assms(2,3) by (induction before) auto
  moreover have "\<not> (length addr = 0 \<and> domain = [])"
    using assms(3) by (auto simp: matchEgressRule_def)
  ultimately have f: "forwardToProxyAction cfg Intn req = rule_action cfg Intn rule"
    using assms(1,4,5) by (auto simp: forwardToProxyAction_def Let_def)
  show ?thesis
    unfolding f using assms(6) nth_mem
    by (auto simp: rule_action_def plain_action_def Let_def find_Some_iff split: option.splits if_splits)
qed

definition block_example :: EgressRule where
  "block_example = \<lparr>er_IpRanges = [], er_DomainNames = [''example.com''], er_Action = Some REJECT, er_ProxyNames = []\<rparr>"

theorem first_matching_rule_decides_witness:
  "act_Action (forwardToProxyAction (strict_config\<lparr>ec_Rules := [block_example]\<rparr>) (\<lambda>_. 0)
     \<lparr>Command = 1, DstAddr = example_host, req_Raw = []\<rparr>) = REJECT"
proof -
  have m: "matchEgressRule [] ''example.com'' block_example"
    by (simp add: matchEgressRule_def block_example_def)
  have r: "ec_Rules (strict_config\<lparr>ec_Rules := [block_example]\<rparr>) = [] @ block_example # []" by simp
  have g: "GetAction block_example = REJECT" by (simp add: GetAction_def block_example_def)
  show ?thesis
    unfolding g [symmetric]
    by (rule conjunct1 [OF first_matching_rule_decides [OF r _ m]]) (simp_all add: example_host_def)
qed

text \<open>
  Rules compare names byte by byte: a rule that rejects example.com does not match Example.com or example.com with
  a final dot, although the check of local names treats such spellings as equal.
\<close>

theorem rules_miss_other_spellings:
  assumes "domain = ''Example.com'' \<or> domain = ''example.com.''"
  shows "matchEgressRule [] ''example.com'' block_example \<and> \<not> matchEgressRule [] domain block_example \<and>
    forwardToProxyAction (strict_config\<lparr>ec_Rules := [block_example]\<rparr>) Intn
      \<lparr>Command = Socks5ConnectCmd, DstAddr = \<lparr>FQDN = domain, IP = [], Port = p\<rparr>, req_Raw = raw\<rparr> = plain_action DIRECT"
  using assms by (auto simp: matchEgressRule_def block_example_def HasSuffix_def forwardToProxyAction_def)

theorem rules_miss_other_spellings_witness: "\<not> matchEgressRule [] ''Example.com'' block_example"
  using rules_miss_other_spellings [of "''Example.com''"] by simp

end
