(* ===== verification/Socks_Server.thy ===== *)
theory Socks_Server
  imports Socks_Auth Socks_Udp Egress
begin

text \<open>
  The SOCKS5 server, \<^verbatim>\<open>pkg/socks5/socks5.go\<close> and \<^verbatim>\<open>pkg/socks5/handler.go\<close>, from the handshake to the point
  where data is copied: \<open>serverServeConn\<close> on the proxy server, with the handlers of each command and of
  egress proxies, and the two steps of \<^verbatim>\<open>clientServeConn\<close> on the proxy client.  Dialing, listening and
  the DNS resolver are parameters; what follows, copying between two connections or running a UDP
  relay, is the outcome.
\<close>

section \<open>Choosing an address\<close>

datatype DualStackPreference = USE_FIRST_IP | PREFER_IPv4 | PREFER_IPv6 | ONLY_IPv4 | ONLY_IPv6

definition or_else :: "'a option \<Rightarrow> 'a option \<Rightarrow> 'a option" where
  "or_else a b = (case a of Some x \<Rightarrow> Some x | None \<Rightarrow> b)"

definition SelectIPFromList :: "bytes list \<Rightarrow> DualStackPreference \<Rightarrow> bytes option" where
  "SelectIPFromList ips strategy =
     (if ips = [] then None
      else
        let ipv4 = find (\<lambda>ip. To4 ip \<noteq> None) ips; ipv6 = find (\<lambda>ip. To4 ip = None) ips
        in (case strategy of
              PREFER_IPv4 \<Rightarrow> or_else ipv4 ipv6
            | PREFER_IPv6 \<Rightarrow> or_else ipv6 ipv4
            | ONLY_IPv4 \<Rightarrow> ipv4
            | ONLY_IPv6 \<Rightarrow> ipv6
            | USE_FIRST_IP \<Rightarrow> Some (hd ips)))"

definition MaybeDecorateIPv6 :: "string \<Rightarrow> string" where
  "MaybeDecorateIPv6 addr = (case ParseAddr addr of
     Some (ip, zone) \<Rightarrow> if length ip = 16 then ''['' @ addr @ '']'' else addr | None \<Rightarrow> addr)"

definition zeroBindAddr :: AddrSpec where
  "zeroBindAddr = \<lparr>FQDN = [], IP = v4InV6Prefix @ [0, 0, 0, 0], Port = 0\<rparr>"

definition socks5UDPAssociateBindIP :: "bytes option \<Rightarrow> bytes option \<Rightarrow> bytes" where
  "socks5UDPAssociateBindIP tcpLocal udpLocal =
     (case tcpLocal of
        Some ip \<Rightarrow> if ip \<noteq> [] \<and> \<not> IsUnspecified ip then ip
          else (case udpLocal of Some u \<Rightarrow> if u \<noteq> [] \<and> \<not> IsUnspecified u then u else v4InV6Prefix @ [0, 0, 0, 0]
                | None \<Rightarrow> v4InV6Prefix @ [0, 0, 0, 0])
      | None \<Rightarrow> (case udpLocal of Some u \<Rightarrow> if u \<noteq> [] \<and> \<not> IsUnspecified u then u else v4InV6Prefix @ [0, 0, 0, 0]
                | None \<Rightarrow> v4InV6Prefix @ [0, 0, 0, 0]))"

section \<open>The environment of a connection\<close>

text \<open>
  \<open>sv_dial\<close> is the error message of a failed dial, or the local IP and port of the new connection;
  \<open>sv_listenUDP\<close> is the local IP and port of a new UDP listener; \<open>sv_egress\<close> is what an egress proxy
  sends, once it has been dialed, with the IP of its end and whether it takes the request after the authentication.
\<close>

record srv_env =
  sv_credentials :: "Credential list"
  sv_clientSideAuth :: bool
  sv_config :: egress_config
  sv_intn :: "nat \<Rightarrow> nat"
  sv_preference :: DualStackPreference
  sv_lookup :: resolver
  sv_dial :: "string \<Rightarrow> string + bytes \<times> int"
  sv_listenUDP :: "(bytes \<times> int) option"
  sv_datagramMode :: bool
  sv_tcpLocal :: "bytes option"
  sv_userName :: string
  sv_egress :: "string \<Rightarrow> (bytes \<times> bytes option \<times> bool) option"

datatype srv_error =
    AuthFailed auth_error
  | RequestFailed socks_error
  | ReplyFailed
  | ResolveError string
  | NoSuitableIP
  | UnsupportedSocksCommand u8
  | DialFailed string
  | ListenFailed
  | ProxyUnavailable
  | RejectedByRules
  | EgressDialFailed
  | EgressAuthFailed auth_error
  | EgressWriteFailed
  | EgressReadFailed socks_error
  | EgressRefused u8
  | EgressResponse response_error

text \<open>What the server does with the connection next.  Of the metrics, only \<^verbatim>\<open>HandshakeErrors\<close> is kept.\<close>

datatype outcome =
    Failed srv_error
  | Done
  | CopyWith string
  | CopyWithEgress bytes
  | AssociateOverStream
  | AssociateDatagram
  | ForwardUDP UDPAddr

definition reply_or :: "u8 \<Rightarrow> AddrSpec \<Rightarrow> auth_conn \<Rightarrow> (auth_conn \<Rightarrow> auth_conn) \<Rightarrow> (auth_conn \<Rightarrow> outcome \<times> auth_conn) \<Rightarrow> outcome \<times> auth_conn" where
  "reply_or code bnd c h k =
     (case WriteSocks5Response code bnd of
        Inl _ \<Rightarrow> (Failed ReplyFailed, h c)
      | Inr b \<Rightarrow> if a_broken c then (Failed ReplyFailed, h c) else k (c\<lparr>a_out := a_out c @ b\<rparr>))"

definition Socks5ReplySuccess :: u8 where "Socks5ReplySuccess = 0"
definition Socks5ReplyNotAllowedByRuleSet :: u8 where "Socks5ReplyNotAllowedByRuleSet = 2"
definition Socks5ReplyNetworkUnreachable :: u8 where "Socks5ReplyNetworkUnreachable = 3"
definition Socks5ReplyHostUnreachable :: u8 where "Socks5ReplyHostUnreachable = 4"
definition Socks5ReplyConnectionRefused :: u8 where "Socks5ReplyConnectionRefused = 5"
definition Socks5ReplyCommandNotSupported :: u8 where "Socks5ReplyCommandNotSupported = 7"
definition Socks5ReplyAddrTypeNotSupported :: u8 where "Socks5ReplyAddrTypeNotSupported = 8"

fun contains :: "string \<Rightarrow> string \<Rightarrow> bool" where
  "contains [] sub = (sub = [])"
| "contains (x # s) sub = (take (length sub) (x # s) = sub \<or> contains s sub)"

section \<open>Handlers\<close>

definition handleConnect :: "srv_env \<Rightarrow> Request \<Rightarrow> auth_conn \<Rightarrow> outcome \<times> auth_conn" where
  "handleConnect E req c =
     (let target = AddrSpec_String (DstAddr req)
      in case sv_dial E target of
           Inl msg \<Rightarrow>
             let replyCode = (if contains msg ''refused'' then Socks5ReplyConnectionRefused
               else if contains msg ''network is unreachable'' then Socks5ReplyNetworkUnreachable
               else Socks5ReplyHostUnreachable)
             in reply_or replyCode zeroBindAddr c id (\<lambda>c. (Failed (DialFailed msg), c))
         | Inr (ip, port) \<Rightarrow>
             reply_or Socks5ReplySuccess \<lparr>FQDN = [], IP = ip, Port = port\<rparr> c handshake_error (\<lambda>c. (CopyWith target, c)))"

definition handleBind :: "auth_conn \<Rightarrow> outcome \<times> auth_conn" where
  "handleBind c = reply_or Socks5ReplyCommandNotSupported zeroBindAddr c handshake_error (\<lambda>c. (Done, c))"

definition handleAssociatePacketOverStream :: "srv_env \<Rightarrow> auth_conn \<Rightarrow> outcome \<times> auth_conn" where
  "handleAssociatePacketOverStream E c =
     (case sv_listenUDP E of
        None \<Rightarrow> (Failed ListenFailed, c)
      | Some (ip, udpPort) \<Rightarrow>
          reply_or Socks5ReplySuccess \<lparr>FQDN = [], IP = [0, 0, 0, 0], Port = udpPort\<rparr> c handshake_error
            (\<lambda>c. (AssociateOverStream, c)))"

definition handleAssociateDatagram :: "srv_env \<Rightarrow> auth_conn \<Rightarrow> outcome \<times> auth_conn" where
  "handleAssociateDatagram E c =
     (case sv_listenUDP E of
        None \<Rightarrow> (Failed ListenFailed, c)
      | Some (ip, port) \<Rightarrow>
          reply_or Socks5ReplySuccess \<lparr>FQDN = [], IP = socks5UDPAssociateBindIP (sv_tcpLocal E) (Some ip), Port = port\<rparr> c
            handshake_error (\<lambda>c. (AssociateDatagram, c)))"

definition handleAssociate :: "srv_env \<Rightarrow> auth_conn \<Rightarrow> outcome \<times> auth_conn" where
  "handleAssociate E c =
     (if sv_datagramMode E then handleAssociateDatagram E c else handleAssociatePacketOverStream E c)"

definition handle_command :: "srv_env \<Rightarrow> Request \<Rightarrow> auth_conn \<Rightarrow> outcome \<times> auth_conn" where
  "handle_command E req c =
     (if Command req = Socks5ConnectCmd then handleConnect E req c
      else if Command req = Socks5BindCmd then handleBind c
      else if Command req = Socks5UDPAssociateCmd then handleAssociate E c
      else reply_or Socks5ReplyCommandNotSupported zeroBindAddr c id
        (\<lambda>c. (Failed (UnsupportedSocksCommand (Command req)), c)))"

definition handleRequest :: "srv_env \<Rightarrow> Request \<Rightarrow> auth_conn \<Rightarrow> outcome \<times> auth_conn" where
  "handleRequest E req c =
     (if FQDN (DstAddr req) \<noteq> [] then
        (case sv_lookup E ''ip'' (FQDN (DstAddr req)) of
           None \<Rightarrow> reply_or Socks5ReplyHostUnreachable zeroBindAddr c id (\<lambda>c. (Failed (ResolveError (FQDN (DstAddr req))), c))
         | Some ips \<Rightarrow>
             if length ips = 0 then
               reply_or Socks5ReplyHostUnreachable zeroBindAddr c id (\<lambda>c. (Failed (ResolveError (FQDN (DstAddr req))), c))
             else (case SelectIPFromList ips (sv_preference E) of
                 None \<Rightarrow> reply_or Socks5ReplyNetworkUnreachable zeroBindAddr c id (\<lambda>c. (Failed NoSuitableIP, c))
               | Some ip \<Rightarrow> handle_command E (req\<lparr>DstAddr := (DstAddr req)\<lparr>IP := ip\<rparr>\<rparr>) c))
      else handle_command E req c)"

text \<open>\<open>e\<close> is the connection to the egress proxy, and \<open>remote\<close> the IP of its other end.\<close>

definition handleForwardingUDP :: "srv_env \<Rightarrow> bytes option \<Rightarrow> auth_conn \<Rightarrow> auth_conn \<Rightarrow> outcome \<times> auth_conn" where
  "handleForwardingUDP E remote e c =
     (case WriteSocks5Request Socks5UDPAssociateCmd \<lparr>FQDN = [], IP = v4InV6Prefix @ [0, 0, 0, 0], Port = 0\<rparr> of
        Inl _ \<Rightarrow> (Failed EgressWriteFailed, handshake_error c)
      | Inr _ \<Rightarrow>
          if a_broken e then (Failed EgressWriteFailed, handshake_error c)
          else (case ReadSocks5Response (a_in e) of
              Inl err \<Rightarrow> (Failed (EgressReadFailed err), handshake_error c)
            | Inr (resp, _) \<Rightarrow>
                if Reply resp \<noteq> Socks5ReplySuccess then
                  (Failed (EgressRefused (Reply resp)),
                   (let c = handshake_error c in if a_broken c then c else c\<lparr>a_out := a_out c @ resp_Raw resp\<rparr>))
                else (case socks5UDPAddrFromResponse remote resp of
                    Inl err \<Rightarrow> (Failed (EgressResponse err), handshake_error c)
                  | Inr downstreamUDPAddr \<Rightarrow>
                      (case sv_listenUDP E of
                         None \<Rightarrow> (Failed ListenFailed, c)
                       | Some (_, udpPort) \<Rightarrow>
                           (case rewriteSocks5ResponseBindPort (Some resp) udpPort of
                              Inl err \<Rightarrow> (Failed (EgressResponse err), c)
                            | Inr resp \<Rightarrow>
                                if a_broken c then (Failed ReplyFailed, c)
                                else (ForwardUDP downstreamUDPAddr, c\<lparr>a_out := a_out c @ resp_Raw resp\<rparr>))))))"

definition proxy_credential :: "EgressProxy \<Rightarrow> Credential option" where
  "proxy_credential proxy = (case ep_Socks5Authentication proxy of
     None \<Rightarrow> None
   | Some auth \<Rightarrow>
       if GetString (au_User auth) \<noteq> [] \<and> GetString (au_Password auth) \<noteq> []
       then Some \<lparr>User = GetString (au_User auth), Password = GetString (au_Password auth)\<rparr> else None)"

definition handleForwarding :: "srv_env \<Rightarrow> Request \<Rightarrow> EgressProxy \<Rightarrow> auth_conn \<Rightarrow> outcome \<times> auth_conn" where
  "handleForwarding E req proxy c =
     (let host = GetString (ep_Host proxy); port = GetInt32 (ep_Port proxy)
      in case sv_egress E (MaybeDecorateIPv6 host @ '':'' @ Itoa port) of
           None \<Rightarrow> (Failed EgressDialFailed, handshake_error c)
         | Some (replies, remote, takes) \<Rightarrow>
             (case clientNegotiateAuthentication (proxy_credential proxy) (end_with replies) of
                (Some err, _) \<Rightarrow> (Failed (EgressAuthFailed err), handshake_error c)
              | (None, e) \<Rightarrow>
                  let e = e\<lparr>a_broken := \<not> takes\<rparr>
                  in if Command req = Socks5ConnectCmd then
                       (if a_broken e then (Failed EgressWriteFailed, handshake_error c)
                        else (CopyWithEgress (a_out e @ req_Raw req), c))
                     else if Command req = Socks5UDPAssociateCmd then handleForwardingUDP E remote e c
                     else (Failed (UnsupportedSocksCommand (Command req)), c)))"

definition readRequest :: "auth_conn \<Rightarrow> socks_error + Request \<times> auth_conn" where
  "readRequest c =
     and_then (Request_ReadFromSocks5 (a_in c) \<lparr>Command = 0, DstAddr = emptyAddr, req_Raw = []\<rparr>)
       (\<lambda>(req, r). Inr (req, c\<lparr>a_in := r\<rparr>))"

definition egress_decision :: "srv_env \<Rightarrow> Request \<Rightarrow> egress_action" where
  "egress_decision E req =
     FindAction (sv_config E) (sv_intn E)
       \<lparr>in_IsSocks5 = True, in_Data = req_Raw req,
        in_Env = (if sv_userName E = [] then Map.empty else [''user'' \<mapsto> sv_userName E])\<rparr>"

definition serve_request :: "srv_env \<Rightarrow> auth_conn \<Rightarrow> outcome \<times> auth_conn" where
  "serve_request E c =
     (case readRequest c of
        Inl err \<Rightarrow>
          let c = handshake_error c
          in if err = ErrUnrecognizedAddrType
             then reply_or Socks5ReplyAddrTypeNotSupported zeroBindAddr c id (\<lambda>c. (Failed (RequestFailed err), c))
             else (Failed (RequestFailed err), c)
      | Inr (request, c) \<Rightarrow>
          let action = egress_decision E request
          in (case act_Action action of
                DIRECT \<Rightarrow> handleRequest E request c
              | PROXY \<Rightarrow>
                  (case act_Proxy action of
                     None \<Rightarrow> (Failed ProxyUnavailable, c)
                   | Some proxy \<Rightarrow> handleForwarding E request proxy c)
              | REJECT \<Rightarrow> reply_or Socks5ReplyNotAllowedByRuleSet zeroBindAddr c id (\<lambda>c. (Failed RejectedByRules, c))
              | UnknownAction _ \<Rightarrow> (Done, c)))"

definition serverServeConn :: "srv_env \<Rightarrow> auth_conn \<Rightarrow> outcome \<times> auth_conn" where
  "serverServeConn E c =
     (if \<not> sv_clientSideAuth E then
        (case handleAuthentication (sv_credentials E) c of
           (Some err, c) \<Rightarrow> (Failed (AuthFailed err), c)
         | (None, c) \<Rightarrow> serve_request E c)
      else serve_request E c)"

section \<open>The proxy client\<close>

datatype client_error =
    UserRead io_error
  | UserVersion u8
  | ProxyRead io_error
  | ProxyWrite
  | UserWrite
  | UserRequest socks_error
  | ProxyResponse socks_error
  | ProxyAddress net_error
  | ProxyAddressForm socks_error
  | ClientListen
  | PatchFailed response_error

text \<open>\<open>u\<close> is the connection of the user, and \<open>p\<close> the connection to the proxy server.\<close>

definition proxySocks5AuthReq :: "auth_conn \<Rightarrow> auth_conn \<Rightarrow> client_error option \<times> auth_conn \<times> auth_conn" where
  "proxySocks5AuthReq u p =
     (case read_full 1 (a_in u) of
        Inl e \<Rightarrow> (Some (UserRead e), u, p)
      | Inr (version, r1) \<Rightarrow>
          if version ! 0 \<noteq> Socks5Version then (Some (UserVersion (version ! 0)), u\<lparr>a_in := r1\<rparr>, p)
          else (case read_full 1 r1 of
              Inl e \<Rightarrow> (Some (UserRead e), u\<lparr>a_in := []\<rparr>, p)
            | Inr (nMethods, r2) \<Rightarrow>
                (case read_full (unat (nMethods ! 0)) r2 of
                   Inl e \<Rightarrow> (Some (UserRead e), u\<lparr>a_in := []\<rparr>, p)
                 | Inr (methods, r3) \<Rightarrow>
                     let u = u\<lparr>a_in := r3\<rparr>
                     in if a_broken p then (Some ProxyWrite, u, p)
                        else
                          let p = p\<lparr>a_out := a_out p @ version @ nMethods @ methods\<rparr>
                          in (case read_full 2 (a_in p) of
                                Inl e \<Rightarrow> (Some (ProxyRead e), u, p\<lparr>a_in := []\<rparr>)
                              | Inr (authResp, q) \<Rightarrow>
                                  let p = p\<lparr>a_in := q\<rparr>
                                  in if a_broken u then (Some UserWrite, u, p)
                                     else (None, u\<lparr>a_out := a_out u @ authResp\<rparr>, p)))))"

text \<open>
  The result is the port of the UDP listener for a UDP association, and the request that has not been sent yet.
\<close>

definition proxySocks5ConnReq ::
    "bool \<Rightarrow> int option \<Rightarrow> net_addr \<Rightarrow> auth_conn \<Rightarrow> auth_conn \<Rightarrow>
     (client_error + int option \<times> bytes option) \<times> auth_conn \<times> auth_conn" where
  "proxySocks5ConnReq handshakeNoWait listenUDP remote u p =
     (case ReadSocks5Request (a_in u) of
        Inl e \<Rightarrow> (Inl (UserRequest e), u, p)
      | Inr (req, r) \<Rightarrow>
          let u = u\<lparr>a_in := r\<rparr>; cmd = Command req; connReq = req_Raw req
          in if handshakeNoWait \<and> cmd = Socks5ConnectCmd then
               (case NetAddrSpec_From remote of
                  Inl e \<Rightarrow> (Inl (ProxyAddress e), u, p)
                | Inr serverBoundAddr \<Rightarrow>
                    (case WriteToSocks5 (Addr serverBoundAddr) of
                       Inl e \<Rightarrow> (Inl (ProxyAddressForm e), u, p)
                     | Inr b \<Rightarrow>
                         if a_broken u then (Inl UserWrite, u, p)
                         else (Inr (None, Some connReq),
                           u\<lparr>a_out := a_out u @ [Socks5Version, Socks5ReplySuccess, 0] @ b\<rparr>, p)))
             else if a_broken p then (Inl ProxyWrite, u, p)
             else
               let p = p\<lparr>a_out := a_out p @ connReq\<rparr>
               in (case ReadSocks5Response (a_in p) of
                     Inl e \<Rightarrow> (Inl (ProxyResponse e), u, p)
                   | Inr (connResp, q) \<Rightarrow>
                       let p = p\<lparr>a_in := q\<rparr>
                       in if cmd = Socks5UDPAssociateCmd then
                            (case listenUDP of
                               None \<Rightarrow> (Inl ClientListen, u, p)
                             | Some udpPort \<Rightarrow>
                                 (case rewriteSocks5ResponseBindPort (Some connResp) udpPort of
                                    Inl e \<Rightarrow> (Inl (PatchFailed e), u, p)
                                  | Inr connResp \<Rightarrow>
                                      if a_broken u then (Inl UserWrite, u, p)
                                      else (Inr (Some udpPort, None), u\<lparr>a_out := a_out u @ resp_Raw connResp\<rparr>, p)))
                          else if a_broken u then (Inl UserWrite, u, p)
                          else (Inr (None, None), u\<lparr>a_out := a_out u @ resp_Raw connResp\<rparr>, p)))"

end
