(* ===== verification/Socks_Client.thy ===== *)
theory Socks_Client
  imports Socks_Server
begin

text \<open>
  The client side of SOCKS5: \<^verbatim>\<open>clientServeConn\<close> of \<^verbatim>\<open>pkg/socks5/socks5.go\<close>, which serves a user with the help of a
  proxy server, the two ways in which it goes on to copy data (\<^verbatim>\<open>pkg/socks5/copy.go\<close>), the dialer for an
  upstream SOCKS5 proxy (\<^verbatim>\<open>pkg/socks5/dialer.go\<close>), the relay to an egress proxy (\<^verbatim>\<open>RunUDPForwardingLoop\<close>), and
  the resolvers of \<^verbatim>\<open>apis/common/dns.go\<close>.  Dialing and listening are parameters.
\<close>

section \<open>Resolvers\<close>

definition NilDNSResolver :: resolver where
  "NilDNSResolver network host = None"

definition NormalizeDomainName :: "string \<Rightarrow> string" where
  "NormalizeDomainName host = TrimSuffix (ToLower host) ''.''"

record HostMapResolver =
  hm_Resolver :: "resolver option"
  hm_Hosts :: "string \<Rightarrow> bytes option"

definition HostMap_LookupIP :: "HostMapResolver \<Rightarrow> resolver" where
  "HostMap_LookupIP r network host =
     (case hm_Hosts r (NormalizeDomainName host) of
        Some ip \<Rightarrow>
          if network \<in> {'''', ''ip''} then Some [ip]
          else if network = ''ip4'' then (case To4 ip of Some ipv4 \<Rightarrow> Some [ipv4] | None \<Rightarrow> Some [])
          else if network = ''ip6'' then
            (case To4 ip of None \<Rightarrow> Some [case To16 ip of Some ip6 \<Rightarrow> ip6 | None \<Rightarrow> []] | Some _ \<Rightarrow> Some [])
          else None
      | None \<Rightarrow> (case hm_Resolver r of None \<Rightarrow> None | Some LookupIP \<Rightarrow> LookupIP network host))"

record TCPAddr =
  tcp_IP :: bytes
  tcp_Port :: int
  tcp_Zone :: string

definition ResolveTCPAddr :: "resolver \<Rightarrow> string \<Rightarrow> string \<Rightarrow> net_error + TCPAddr" where
  "ResolveTCPAddr LookupIP network address =
     (if network \<notin> {''tcp'', ''tcp4'', ''tcp6'', ''''} then Inl (UnknownNetwork network)
      else
        let dnsQueryNetwork = (if network = ''tcp4'' then ''ip4'' else if network = ''tcp6'' then ''ip6'' else ''ip'')
        in and_then (SplitHostPort address) (\<lambda>(host, portStr).
          case Atoi portStr of
            None \<Rightarrow> Inl (BadInteger portStr)
          | Some port \<Rightarrow>
              if host = [] then Inr \<lparr>tcp_IP = [], tcp_Port = port, tcp_Zone = []\<rparr>
              else (case ParseAddr host of
                  Some (ip, zone) \<Rightarrow> Inr \<lparr>tcp_IP = ip, tcp_Port = port, tcp_Zone = zone\<rparr>
                | None \<Rightarrow>
                    (case LookupIP dnsQueryNetwork host of
                       None \<Rightarrow> Inl (LookupFailed host)
                     | Some [] \<Rightarrow> Inl (AddrNotFound address)
                     | Some (ip # _) \<Rightarrow> Inr \<lparr>tcp_IP = ip, tcp_Port = port, tcp_Zone = []\<rparr>))))"

section \<open>Serving a user\<close>

text \<open>\<open>ce_dial\<close> is the connection to the proxy server, with the address of its other end.\<close>

record client_env =
  ce_credentials :: "Credential list"
  ce_clientSideAuth :: bool
  ce_dial :: "(auth_conn \<times> net_addr) option"
  ce_handshakeNoWait :: bool
  ce_listenUDP :: "int option"

datatype client_outcome =
    ClientAuthFailed auth_error
  | ClientDialFailed
  | ClientHandshakeFailed client_error
  | CopySocks5 "bytes option"
  | CopyBoth
  | CopyUDP int

definition client_requests :: "client_env \<Rightarrow> net_addr \<Rightarrow> auth_conn \<Rightarrow> auth_conn \<Rightarrow> client_outcome \<times> auth_conn \<times> auth_conn" where
  "client_requests E remote u p =
     (case proxySocks5ConnReq (ce_handshakeNoWait E) (ce_listenUDP E) remote u p of
        (Inl e, u, p) \<Rightarrow> (ClientHandshakeFailed e, handshake_error u, p)
      | (Inr (Some udpPort, pendingConnReq), u, p) \<Rightarrow> (CopyUDP udpPort, u, p)
      | (Inr (None, pendingConnReq), u, p) \<Rightarrow>
          if ce_handshakeNoWait E then (CopySocks5 pendingConnReq, u, p) else (CopyBoth, u, p))"

definition client_connects :: "client_env \<Rightarrow> auth_conn \<Rightarrow> client_outcome \<times> auth_conn \<times> auth_conn option" where
  "client_connects E u =
     (case ce_dial E of
        None \<Rightarrow> (ClientDialFailed, u, None)
      | Some (p, remote) \<Rightarrow>
          if ce_clientSideAuth E then map_prod id (map_prod id Some) (client_requests E remote u p)
          else (case proxySocks5AuthReq u p of
              (Some e, u, p) \<Rightarrow> (ClientHandshakeFailed e, handshake_error u, Some p)
            | (None, u, p) \<Rightarrow> map_prod id (map_prod id Some) (client_requests E remote u p)))"

definition clientServeConn :: "client_env \<Rightarrow> auth_conn \<Rightarrow> client_outcome \<times> auth_conn \<times> auth_conn option" where
  "clientServeConn E u =
     (if ce_clientSideAuth E then
        (case handleAuthentication (ce_credentials E) u of
           (Some err, u) \<Rightarrow> (ClientAuthFailed err, u, None)
         | (None, u) \<Rightarrow> client_connects E u)
      else client_connects E u)"

section \<open>Copying without waiting for the handshake\<close>

text \<open>
  The writes of the upload goroutine of \<^verbatim>\<open>BidiCopySocks5\<close>, given what the successive reads from the user return, and what the
  download goroutine copies to the user.
\<close>

definition BidiCopySocks5_up :: "bytes option \<Rightarrow> bytes list \<Rightarrow> bytes list" where
  "BidiCopySocks5_up pendingReq reads =
     (case reads of
        [] \<Rightarrow> []
      | b # rest \<Rightarrow> ((case pendingReq of Some req \<Rightarrow> req | None \<Rightarrow> []) @ b) # rest)"

definition BidiCopySocks5_down :: "bytes \<Rightarrow> socks_error + bytes" where
  "BidiCopySocks5_down fromProxy = and_then (ReadSocks5Response fromProxy) (\<lambda>(connResp, rest). Inr rest)"

section \<open>Copying UDP datagrams\<close>

datatype bidi_error = NewEndpoint string string | TunnelWrite conn_error | TunnelRead conn_error | AddressNotReady | UDPWrite

text \<open>\<open>bu_toTunnel\<close> and \<open>bu_fromTunnel\<close> are the two directions of the stream; \<open>bu_toUser\<close> is what the UDP socket has sent.\<close>

record bidi_udp =
  bu_addr :: "UDPAddr option"
  bu_toTunnel :: bytes
  bu_fromTunnel :: bytes
  bu_toUser :: "(UDPAddr \<times> bytes) list"
  bu_upErr :: "bidi_error option"
  bu_downErr :: "bidi_error option"
  bu_Errors :: int
  bu_UploadPackets :: int
  bu_UploadBytes :: int
  bu_DownloadPackets :: int
  bu_DownloadBytes :: int

definition bidi_tunnel_write :: "bytes \<Rightarrow> bidi_udp \<Rightarrow> bidi_udp" where
  "bidi_tunnel_write p st =
     (case Tunnel_Write p (bu_toTunnel st) of
        (Inl e, c) \<Rightarrow> st\<lparr>bu_toTunnel := c, bu_upErr := Some (TunnelWrite e)\<rparr>
      | (Inr _, c) \<Rightarrow> st\<lparr>bu_toTunnel := c\<rparr>)"

definition bidi_udp_up :: "UDPAddr \<Rightarrow> bytes \<Rightarrow> bidi_udp \<Rightarrow> bidi_udp" where
  "bidi_udp_up a p st =
     (if bu_upErr st \<noteq> None then st
      else
        let st = st\<lparr>bu_UploadPackets := bu_UploadPackets st + 1, bu_UploadBytes := bu_UploadBytes st + int (length p)\<rparr>
        in (case bu_addr st of
              None \<Rightarrow> bidi_tunnel_write p (st\<lparr>bu_addr := Some a\<rparr>)
            | Some udpAddr \<Rightarrow>
                if UDPAddr_String udpAddr \<noteq> UDPAddr_String a
                then st\<lparr>bu_upErr := Some (NewEndpoint (UDPAddr_String a) (UDPAddr_String udpAddr)), bu_Errors := bu_Errors st + 1\<rparr>
                else bidi_tunnel_write p st))"

definition bidi_udp_down :: "(UDPAddr \<Rightarrow> bytes \<Rightarrow> nat option) \<Rightarrow> bidi_udp \<Rightarrow> bidi_udp" where
  "bidi_udp_down WriteTo st =
     (if bu_downErr st \<noteq> None then st
      else (case Tunnel_Read (2 ^ 16) (bu_fromTunnel st) of
          (Inl e, c) \<Rightarrow> st\<lparr>bu_fromTunnel := c, bu_downErr := Some (TunnelRead e)\<rparr>
        | (Inr p, c) \<Rightarrow>
            let st = st\<lparr>bu_fromTunnel := c\<rparr>
            in (case bu_addr st of
                  None \<Rightarrow> st\<lparr>bu_downErr := Some AddressNotReady\<rparr>
                | Some udpAddr \<Rightarrow>
                    (case WriteTo udpAddr p of
                       None \<Rightarrow> st\<lparr>bu_downErr := Some UDPWrite\<rparr>
                     | Some ws \<Rightarrow> st\<lparr>bu_toUser := bu_toUser st @ [(udpAddr, p)],
                         bu_DownloadPackets := bu_DownloadPackets st + 1, bu_DownloadBytes := bu_DownloadBytes st + int ws\<rparr>))))"

section \<open>The relay to an egress proxy\<close>

datatype forward_error = ControlClosed | ForwardRead conn_error | ForwardWrite conn_error | ForwardSocket

record forward =
  fw_err :: "forward_error option"
  fw_fromClient :: bytes
  fw_toClient :: bytes
  fw_sent :: "(UDPAddr \<times> bytes) list"
  fw_Errors :: int
  fw_UploadPackets :: int
  fw_UploadBytes :: int
  fw_DownloadPackets :: int
  fw_DownloadBytes :: int

text \<open>\<^verbatim>\<open>closeAll\<close> keeps the first error and closes the three connections, after which each goroutine ends.\<close>

definition closeAll :: "forward_error \<Rightarrow> forward \<Rightarrow> forward" where
  "closeAll e st = (case fw_err st of None \<Rightarrow> st\<lparr>fw_err := Some e\<rparr> | Some _ \<Rightarrow> st)"

definition forward_control :: "forward \<Rightarrow> forward" where
  "forward_control st = closeAll ControlClosed st"

definition forward_up :: "(UDPAddr \<Rightarrow> bytes \<Rightarrow> nat option) \<Rightarrow> UDPAddr \<Rightarrow> forward \<Rightarrow> forward" where
  "forward_up WriteToUDP downstreamAddr st =
     (if fw_err st \<noteq> None then st
      else (case Tunnel_Read (2 ^ 16) (fw_fromClient st) of
          (Inl e, c) \<Rightarrow> closeAll (ForwardRead e) (st\<lparr>fw_fromClient := c\<rparr>)
        | (Inr p, c) \<Rightarrow>
            let st = st\<lparr>fw_fromClient := c\<rparr>
            in (case WriteToUDP downstreamAddr p of
                  None \<Rightarrow> st\<lparr>fw_Errors := fw_Errors st + 1\<rparr>
                | Some ws \<Rightarrow> st\<lparr>fw_sent := fw_sent st @ [(downstreamAddr, p)],
                    fw_UploadPackets := fw_UploadPackets st + 1, fw_UploadBytes := fw_UploadBytes st + int ws\<rparr>)))"

definition forward_down :: "(UDPAddr \<times> bytes) option \<Rightarrow> forward \<Rightarrow> forward" where
  "forward_down received st =
     (if fw_err st \<noteq> None then st
      else (case received of
          None \<Rightarrow> closeAll ForwardSocket st
        | Some (_, p) \<Rightarrow>
            (case Tunnel_Write p (fw_toClient st) of
               (Inl e, c) \<Rightarrow> closeAll (ForwardWrite e) (st\<lparr>fw_toClient := c\<rparr>)
             | (Inr _, c) \<Rightarrow> st\<lparr>fw_toClient := c, fw_DownloadPackets := fw_DownloadPackets st + 1,
                 fw_DownloadBytes := fw_DownloadBytes st + int (length p)\<rparr>)))"

section \<open>The dialer\<close>

record ClientDialer =
  cd_ProxyAddress :: string
  cd_Credential :: "Credential option"
  cd_Socks5UDPAssociate :: bool

datatype dial_error =
    DialerNil
  | ProxyAddressEmpty
  | DialCommand u8
  | ProxyDialFailed
  | DialAuth auth_error
  | DialTarget net_error
  | DialRequest socks_error
  | DialWrite
  | DialResponse socks_error
  | DialReply u8
  | DialBind response_error
  | DialListen
  | DialNetwork string
  | AssociateDisabled

definition dial_response :: "u8 \<Rightarrow> bool \<Rightarrow> bytes option \<Rightarrow> auth_conn \<Rightarrow> dial_error + auth_conn \<times> UDPAddr option" where
  "dial_response cmd listenUDP remote c =
     (case Response_ReadFromSocks5 (a_in c) \<lparr>Reply = 0, BindAddr = emptyAddr, resp_Raw = []\<rparr> of
        Inl e \<Rightarrow> Inl (DialResponse e)
      | Inr (resp, r) \<Rightarrow>
          let c = c\<lparr>a_in := r\<rparr>
          in if Reply resp \<noteq> Socks5ReplySuccess then Inl (DialReply (Reply resp))
             else if cmd = Socks5UDPAssociateCmd then
               (case socks5UDPAddrFromResponse remote resp of
                  Inl e \<Rightarrow> Inl (DialBind e)
                | Inr serverListenAddr \<Rightarrow> if listenUDP then Inr (c, Some serverListenAddr) else Inl DialListen)
             else Inr (c, None))"

definition dial_request :: "u8 \<Rightarrow> bool \<Rightarrow> string \<Rightarrow> bytes option \<Rightarrow> auth_conn \<Rightarrow> dial_error + auth_conn \<times> UDPAddr option" where
  "dial_request cmd listenUDP raddr remote c =
     (case AddrSpec_From raddr emptyAddr of
        Inl e \<Rightarrow> Inl (DialTarget e)
      | Inr dstAddr \<Rightarrow>
          (case Request_WriteToSocks5 \<lparr>Command = cmd, DstAddr = dstAddr, req_Raw = []\<rparr> of
             Inl e \<Rightarrow> Inl (DialRequest e)
           | Inr (b, _) \<Rightarrow>
               if a_broken c then Inl DialWrite
               else dial_response cmd listenUDP remote (c\<lparr>a_out := a_out c @ b\<rparr>)))"

definition dialer_dial ::
    "(string \<Rightarrow> (auth_conn \<times> bytes option) option) \<Rightarrow> bool \<Rightarrow> ClientDialer option \<Rightarrow> u8 \<Rightarrow> string \<Rightarrow>
     dial_error + auth_conn \<times> UDPAddr option" where
  "dialer_dial rawDial listenUDP dopt cmd raddr =
     (case dopt of
        None \<Rightarrow> Inl DialerNil
      | Some d \<Rightarrow>
          if cd_ProxyAddress d = [] then Inl ProxyAddressEmpty
          else if cmd \<noteq> Socks5ConnectCmd \<and> cmd \<noteq> Socks5UDPAssociateCmd then Inl (DialCommand cmd)
          else (case rawDial (cd_ProxyAddress d) of
              None \<Rightarrow> Inl ProxyDialFailed
            | Some (conn, remote) \<Rightarrow>
                (case clientNegotiateAuthentication (cd_Credential d) conn of
                   (Some e, _) \<Rightarrow> Inl (DialAuth e)
                 | (None, conn) \<Rightarrow> dial_request cmd listenUDP raddr remote conn)))"

definition DialContext ::
    "(string \<Rightarrow> (auth_conn \<times> bytes option) option) \<Rightarrow> bool \<Rightarrow> ClientDialer option \<Rightarrow> string \<Rightarrow> string \<Rightarrow> dial_error + auth_conn" where
  "DialContext rawDial listenUDP dopt network address =
     (if network \<notin> {''tcp'', ''tcp4'', ''tcp6''} then Inl (DialNetwork network)
      else and_then (dialer_dial rawDial listenUDP dopt Socks5ConnectCmd address) (\<lambda>(conn, _). Inr conn))"

record clientPacketConn =
  cp_ctrlConn :: auth_conn
  cp_serverListenAddr :: "UDPAddr option"
  cp_remoteAddr :: net_addr

definition ListenPacket ::
    "(string \<Rightarrow> (auth_conn \<times> bytes option) option) \<Rightarrow> bool \<Rightarrow> ClientDialer \<Rightarrow> string \<Rightarrow> string \<Rightarrow> dial_error + clientPacketConn" where
  "ListenPacket rawDial listenUDP d network raddr =
     (if network \<notin> {''udp'', ''udp4'', ''udp6''} then Inl (DialNetwork network)
      else if \<not> cd_Socks5UDPAssociate d then Inl AssociateDisabled
      else (case AddrSpec_From raddr emptyAddr of
          Inl e \<Rightarrow> Inl (DialTarget e)
        | Inr remoteAddrSpec \<Rightarrow>
            and_then (dialer_dial rawDial listenUDP (Some d) Socks5UDPAssociateCmd raddr) (\<lambda>(ctrlConn, serverListenAddr).
              Inr \<lparr>cp_ctrlConn = ctrlConn, cp_serverListenAddr = serverListenAddr,
                   cp_remoteAddr = NetAddr \<lparr>Addr = remoteAddrSpec, Net = network\<rparr>\<rparr>)))"

text \<open>
  \<open>ins\<close> are the datagrams that arrive at the UDP socket; the result is what is left of them with the packet, or \<open>None\<close> when
  the loop has to wait for more.
\<close>

fun clientPacketConn_ReadFrom ::
    "clientPacketConn \<Rightarrow> nat \<Rightarrow> (UDPAddr \<times> bytes) list \<Rightarrow> ((datagram_error + bytes \<times> net_addr) \<times> (UDPAddr \<times> bytes) list) option" where
  "clientPacketConn_ReadFrom c len_p [] = None"
| "clientPacketConn_ReadFrom c len_p ((addr, buf) # ins) =
     (if cp_serverListenAddr c = None \<or> \<not> sameUDPAddr (Some addr) (cp_serverListenAddr c)
      then clientPacketConn_ReadFrom c len_p ins
      else (case unwrapSocks5UDPPacket buf of
          Inl e \<Rightarrow> Some (Inl e, ins)
        | Inr payload \<Rightarrow> Some (Inr (take len_p payload, cp_remoteAddr c), ins)))"

datatype packet_error = PacketAddress "net_error + socks_error" | PacketSocket

definition clientPacketConn_WriteTo ::
    "(bytes \<Rightarrow> UDPAddr option \<Rightarrow> bool) \<Rightarrow> clientPacketConn \<Rightarrow> bytes \<Rightarrow> net_addr option \<Rightarrow>
     (packet_error + nat) \<times> (UDPAddr option \<times> bytes) list" where
  "clientPacketConn_WriteTo WriteToUDP c p addr =
     (case wrapSocks5UDPPacket (case addr of None \<Rightarrow> cp_remoteAddr c | Some a \<Rightarrow> a) p of
        Inl e \<Rightarrow> (Inl (PacketAddress e), [])
      | Inr pkt \<Rightarrow>
          if WriteToUDP pkt (cp_serverListenAddr c) then (Inr (length p), [(cp_serverListenAddr c, pkt)])
          else (Inl PacketSocket, []))"

end
