(* ===== verification/Socks_Udp_Props.thy ===== *)
theory Socks_Udp_Props
  imports Socks_Udp
begin

text \<open>
  Properties of the UDP relays: datagrams survive building and parsing, a cached header still names the
  sender of each reply while both goroutines use the map, a relay lets only the expected datagrams
  through, and the response that is patched with a new port reads back with that port.
\<close>

section \<open>Parsing\<close>

lemma read_n_same: "read_n n (h @ r) = Inr (p, r) \<longleftrightarrow> p = h \<and> length h = n"
  by (auto simp: read_n_Inr)

lemma unat_u8: "unat (x :: u8) \<le> 255"
  using unsigned_less [of x, where ?'a = nat] by simp

lemma read_host_extend:
  assumes "read_host t (h @ r) a = Inr (a', r)"
  shows "read_host t (h @ q) a = Inr (a', q) \<and> h \<noteq> [] \<and> length h \<le> 256"
proof -
  consider "t = Socks5IPv4Address" | "t = Socks5IPv6Address" | "t = Socks5FQDNAddress"
    using assms by (auto simp: read_host_def split: if_splits)
  then show ?thesis
  proof cases
    case 3
    then obtain l f where h: "h = l # f" "length f = unat l" "a' = a\<lparr>FQDN := string_of f\<rparr>"
      using assms by (auto simp: read_host_def and_then_Inr read_n_Inr socks5_consts length_Suc_conv Cons_eq_append_conv)
    then show ?thesis using 3 unat_u8 [of l] by (simp add: read_host_def socks5_consts)
  qed (use assms in \<open>auto simp: read_host_def and_then_Inr read_n_same socks5_consts\<close>)
qed

lemma ReadFromSocks5_extend:
  assumes "ReadFromSocks5 (p @ r) a = Inr (a', r)"
  shows "ReadFromSocks5 (p @ q) a = Inr (a', q) \<and> 3 < length p \<and> length p \<le> 259"
proof -
  obtain t r1 a1 b where s: "p @ r = t # r1" "read_host t r1 a = Inr (a1, b @ r)" "length b = 2"
      "a' = a1\<lparr>Port := port_of b\<rparr>"
    using assms by (rule ReadFromSocks5_steps)
  obtain h where h: "r1 = h @ b @ r" using read_host_prefix [OF s(2)] by blast
  have p: "p = t # h @ b" using s(1) h by (metis append_Cons append_assoc append_same_eq)
  from read_host_extend [of t h "b @ r" a a1 "b @ q"] s(2) h
  have "read_host t (h @ b @ q) a = Inr (a1, b @ q)" "0 < length h" "length h \<le> 256" by simp_all
  then show ?thesis using s(3,4) by (simp add: p ReadFromSocks5_def)
qed

definition udp_header :: "bytes \<Rightarrow> AddrSpec \<Rightarrow> bool" where
  "udp_header h a \<longleftrightarrow> length h \<le> Socks5MaxUDPHeaderLen \<and>
     (\<forall>q. parseSocks5UDPDatagram (h @ q) = Inr \<lparr>dg_Addr = a, dg_Header = h, dg_Payload = q\<rparr>)"

lemma udp_headerI:
  assumes "ReadFromSocks5 (p @ r) emptyAddr = Inr (a, r)"
  shows "udp_header ([0, 0, 0] @ p) a"
proof -
  have e: "ReadFromSocks5 (p @ q) emptyAddr = Inr (a, q)" "3 < length p" "length p \<le> 259" for q
    using ReadFromSocks5_extend [OF assms] by blast+
  then show ?thesis
    by (simp add: udp_header_def parseSocks5UDPDatagram_def Let_def Socks5MaxUDPHeaderLen_def numeral_2_eq_2 numeral_3_eq_3)
qed

lemma parse_read:
  assumes "parseSocks5UDPDatagram pkt = Inr d"
  shows "pkt = [0, 0, 0] @ drop 3 pkt \<and> ReadFromSocks5 (drop 3 pkt) emptyAddr = Inr (dg_Addr d, dg_Payload d)"
proof -
  have l: "6 < length pkt" "pkt ! 0 = 0" "pkt ! 1 = 0" "pkt ! 2 = 0"
    using assms by (auto simp: parseSocks5UDPDatagram_def split: if_splits)
  then have pkt: "pkt = [0, 0, 0] @ drop 3 pkt"
    by (cases pkt; cases "tl pkt"; cases "tl (tl pkt)") (auto simp: numeral_2_eq_2 numeral_3_eq_3)
  obtain a r where r: "ReadFromSocks5 (drop 3 pkt) emptyAddr = Inr (a, r)"
    using assms l by (auto simp: parseSocks5UDPDatagram_def split: sum.splits socks_error.splits)
  obtain p where "drop 3 pkt = p @ r" using ReadFromSocks5_prefix [OF r] by blast
  then have "pkt = ([0, 0, 0] @ p) @ r" using pkt by simp
  then have "drop (length pkt - length r) pkt = r"
    by (metis append_eq_conv_conj diff_add_inverse2 length_append)
  then show ?thesis using assms l r pkt by (auto simp: parseSocks5UDPDatagram_def Let_def split: if_splits)
qed

lemma parse_udp_header:
  assumes "parseSocks5UDPDatagram pkt = Inr d"
  shows "pkt = dg_Header d @ dg_Payload d \<and> udp_header (dg_Header d) (dg_Addr d)"
proof -
  note r = parse_read [OF assms]
  obtain p where p: "drop 3 pkt = p @ dg_Payload d" using ReadFromSocks5_prefix r by blast
  have "udp_header ([0, 0, 0] @ p) (dg_Addr d)" using r unfolding p by (blast intro: udp_headerI)
  moreover have "pkt = ([0, 0, 0] @ p) @ dg_Payload d" using r unfolding p by simp
  ultimately show ?thesis using assms by (cases d) (auto simp: udp_header_def)
qed

lemma new_datagram:
  assumes "wire_addr a"
  shows "\<exists>h. (\<forall>p. newSocks5UDPDatagram a p = Inr (h @ p)) \<and> udp_header h (canonical a)"
proof -
  obtain b where b: "WriteToSocks5 a = Inr b" "\<And>r. ReadFromSocks5 (b @ r) emptyAddr = Inr (canonical a, r)"
    using addr_round_trip [OF assms] by blast
  have "udp_header ([0, 0, 0] @ b) (canonical a)" using b(2) by (rule udp_headerI)
  moreover have "newSocks5UDPDatagram a p = Inr (([0, 0, 0] @ b) @ p)" for p
    by (simp add: newSocks5UDPDatagram_def b(1))
  ultimately show ?thesis by blast
qed

section \<open>The packet over stream relay\<close>

lemma IP_Equal_To4: "To4 ip = Some x \<Longrightarrow> IP_Equal x ip"
  by (auto simp: To4_def IP_Equal_def split: if_splits)

lemma canonical_same: "To16 (IP a) \<noteq> None \<Longrightarrow> To16 (IP (canonical a)) \<noteq> None \<and> IP_Equal (IP (canonical a)) (IP a)"
proof (cases "To4 (IP a)")
  case (Some x)
  then show ?thesis using length_To4 [OF Some] IP_Equal_To4 [OF Some] by (simp add: canonical_def To16_def)
next
  case None
  assume "To16 (IP a) \<noteq> None"
  then obtain y where y: "To16 (IP a) = Some y" by blast
  moreover have "length (IP a) = 16 \<and> y = IP a" using y None by (simp add: To16_def split: if_splits)
  ultimately show ?thesis using None by (simp add: canonical_def)
qed

text \<open>An address that a UDP socket reports as a sender.\<close>

definition udp_source :: "UDPAddr \<Rightarrow> bool" where
  "udp_source a \<longleftrightarrow> To16 (udp_IP a) \<noteq> None \<and> 0 \<le> udp_Port a \<and> udp_Port a < 65536"

lemma udp_source_wire: "udp_source a \<Longrightarrow> wire_addr (udpAddrSpec a)"
  by (auto simp: udp_source_def wire_addr_def udpAddrSpec_def AddrType_0)

text \<open>
  What happened in the relay, one packet of the stream, one datagram, or one reply at a time, in any order of the two goroutines.  \<open>ups\<close> are the
  packets of the client, each with the resolver as it was then.
\<close>

inductive assoc_run :: "(resolver \<times> bytes) list \<Rightarrow> assoc \<Rightarrow> bool" where
  start: "assoc_run [] new_assoc"
| upload: "assoc_run ups st \<Longrightarrow> assoc_run (ups @ [(L, pkt)]) (assoc_upload L W (Inr pkt) st)"
| upload_fails: "assoc_run ups st \<Longrightarrow> assoc_run ups (assoc_upload L W (Inl e) st)"
| receive: "assoc_run ups st \<Longrightarrow> udp_source addr \<Longrightarrow> assoc_run ups (assoc_receive (Some (addr, p)) st)"
| receive_fails: "assoc_run ups st \<Longrightarrow> assoc_run ups (assoc_receive None st)"
| reply: "assoc_run ups st \<Longrightarrow> assoc_reply takes st = Some st' \<Longrightarrow> assoc_run ups st'"

text \<open>
  \<open>names ups h k\<close>: the header \<open>h\<close> is that of a datagram of the client whose address was resolved to a socket address that is printed as \<open>k\<close>, or
  it is the header of such a socket address itself.
\<close>

definition names :: "(resolver \<times> bytes) list \<Rightarrow> bytes \<Rightarrow> string \<Rightarrow> bool" where
  "names ups h k \<longleftrightarrow>
     (\<exists>L pkt d dst. (L, pkt) \<in> set ups \<and> parseSocks5UDPDatagram pkt = Inr d \<and> dg_Header d = h \<and>
        resolveSocks5UDPAddr L (dg_Addr d) = Inr dst \<and> UDPAddr_String dst = k) \<or>
     (\<exists>a. udp_source a \<and> UDPAddr_String a = k \<and> udpAddrToHeader (Some a) = Some h)"

lemma names_mono: "names ups h k \<Longrightarrow> names (ups @ ys) h k"
  unfolding names_def set_append by blast

lemma source_header:
  assumes "udp_source a"
  obtains h where "udpAddrToHeader (Some a) = Some h" "udp_header h (canonical (udpAddrSpec a))"
    "FQDN (canonical (udpAddrSpec a)) = []" "Port (canonical (udpAddrSpec a)) = udp_Port a"
    "IP_Equal (IP (canonical (udpAddrSpec a))) (udp_IP a)"
proof -
  obtain h where h: "\<And>p. newSocks5UDPDatagram (udpAddrSpec a) p = Inr (h @ p)" "udp_header h (canonical (udpAddrSpec a))"
    using new_datagram [OF udp_source_wire [OF assms]] by blast
  let ?c = "canonical (udpAddrSpec a)"
  have "FQDN ?c = []" "Port ?c = udp_Port a" by (auto simp: canonical_def udpAddrSpec_def split: option.splits)
  moreover have "IP_Equal (IP ?c) (udp_IP a)"
    using assms canonical_same [of "udpAddrSpec a"] by (simp add: udpAddrSpec_def udp_source_def)
  ultimately show ?thesis using that [of h] h by (simp add: udpAddrToHeader_def)
qed

lemma names_header: "names ups h k \<Longrightarrow> length h \<le> Socks5MaxUDPHeaderLen"
  unfolding names_def
proof (elim disjE exE conjE)
  fix L pkt d dst
  assume "parseSocks5UDPDatagram pkt = Inr d" "dg_Header d = h"
  then show ?thesis using parse_udp_header [of pkt d] by (auto simp: udp_header_def)
next
  fix a
  assume "udp_source a" "udpAddrToHeader (Some a) = Some h"
  then show ?thesis by (elim source_header) (auto simp: udp_header_def)
qed

definition assoc_inv :: "(resolver \<times> bytes) list \<Rightarrow> assoc \<Rightarrow> bool" where
  "assoc_inv ups st \<longleftrightarrow> (\<forall>k h. as_addrMap st k = Some h \<longrightarrow> names ups h k) \<and>
     (\<forall>addr p v. as_pending st = Some (addr, p, v) \<longrightarrow> udp_source addr \<and> (\<forall>h. v = Some h \<longrightarrow> names ups h (UDPAddr_String addr)))"

lemma assoc_inv_mono: "assoc_inv ups st \<Longrightarrow> assoc_inv (ups @ ys) st"
  by (auto simp: assoc_inv_def intro: names_mono)

lemma upload_inv:
  assumes "assoc_inv ups st"
  shows "assoc_inv (ups @ [(L, pkt)]) (assoc_upload L W (Inr pkt) st)"
proof -
  let ?st = "assoc_upload L W (Inr pkt) st" and ?ups = "ups @ [(L, pkt)]"
  note i = assoc_inv_mono [OF assms, of "[(L, pkt)]"]
  have p: "as_pending ?st = as_pending st" by (simp add: assoc_upload_def Let_def split: sum.splits option.splits)
  have "as_addrMap ?st = as_addrMap st \<or>
      (\<exists>d dst. parseSocks5UDPDatagram pkt = Inr d \<and> resolveSocks5UDPAddr L (dg_Addr d) = Inr dst \<and>
        as_addrMap ?st = (as_addrMap st)(UDPAddr_String dst \<mapsto> dg_Header d))"
    by (auto simp: assoc_upload_def Let_def split: sum.splits option.splits)
  then consider "as_addrMap ?st = as_addrMap st"
    | d dst where "parseSocks5UDPDatagram pkt = Inr d" "resolveSocks5UDPAddr L (dg_Addr d) = Inr dst"
      "as_addrMap ?st = (as_addrMap st)(UDPAddr_String dst \<mapsto> dg_Header d)"
    by blast
  then show ?thesis
  proof cases
    case 1
    then show ?thesis using i p by (simp add: assoc_inv_def)
  next
    case 2
    then have "names ?ups (dg_Header d) (UDPAddr_String dst)" by (auto simp: names_def)
    then show ?thesis using i p 2(3) by (simp add: assoc_inv_def)
  qed
qed

text \<open>What a reply does: the header is a fitting one, and the map changes at most at the sender.\<close>

lemma reply_cases:
  assumes "assoc_inv ups st" and "as_pending st = Some (addr, p, v)"
  obtains h where "names ups h (UDPAddr_String addr)"
    "\<And>takes. \<exists>st'. assoc_reply takes st = Some st' \<and> as_pending st' = None \<and>
       (\<forall>k. as_addrMap st' k = as_addrMap st k \<or> k = UDPAddr_String addr \<and> as_addrMap st' k = Some h) \<and>
       as_toClient st' = as_toClient st @ (if takes \<and> length (h @ p) \<le> 65535 then [h @ p] else [])"
proof -
  have src: "udp_source addr" "\<And>h. v = Some h \<Longrightarrow> names ups h (UDPAddr_String addr)"
    using assms by (auto simp: assoc_inv_def)
  obtain h0 where h0: "udpAddrToHeader (Some addr) = Some h0" using src(1) by (rule source_header)
  define h where "h = (case v of Some h \<Rightarrow> h | None \<Rightarrow> h0)"
  have n: "names ups h (UDPAddr_String addr)"
    using src h0 by (auto simp: h_def names_def split: option.splits)
  have "\<exists>st'. assoc_reply takes st = Some st' \<and> as_pending st' = None \<and>
       (\<forall>k. as_addrMap st' k = as_addrMap st k \<or> k = UDPAddr_String addr \<and> as_addrMap st' k = Some h) \<and>
       as_toClient st' = as_toClient st @ (if takes \<and> length (h @ p) \<le> 65535 then [h @ p] else [])" for takes
    using names_header [OF n] h0
    by (cases v) (auto simp: assoc_reply_def assms(2) h_def assoc_forward_def Tunnel_Write_def end_download_def)
  then show ?thesis using that n by blast
qed

lemma assoc_run_inv: "assoc_run ups st \<Longrightarrow> assoc_inv ups st"
proof (induction rule: assoc_run.induct)
  case start
  show ?case by (simp add: assoc_inv_def new_assoc_def)
next
  case (upload ups st L pkt W)
  then show ?case by (intro upload_inv)
next
  case (reply ups st takes st')
  show ?case
  proof (cases "as_pending st")
    case None
    then show ?thesis using reply by (simp add: assoc_reply_def)
  next
    case (Some x)
    obtain addr p v where x: "x = (addr, p, v)" by (cases x)
    obtain h where s: "names ups h (UDPAddr_String addr)"
        "\<And>takes. \<exists>st'. assoc_reply takes st = Some st' \<and> as_pending st' = None \<and>
         (\<forall>k. as_addrMap st' k = as_addrMap st k \<or> k = UDPAddr_String addr \<and> as_addrMap st' k = Some h) \<and>
         as_toClient st' = as_toClient st @ (if takes \<and> length (h @ p) \<le> 65535 then [h @ p] else [])"
      using reply_cases [OF reply.IH Some [unfolded x]] by blast
    have st': "as_pending st' = None" "\<forall>k. as_addrMap st' k = as_addrMap st k \<or> k = UDPAddr_String addr \<and> as_addrMap st' k = Some h"
      using s(2) [of takes] reply(2) by auto
    have "names ups g k" if "as_addrMap st' k = Some g" for g k
      using s(1) st'(2) that reply.IH unfolding assoc_inv_def by (metis option.inject)
    then show ?thesis using st'(1) by (simp add: assoc_inv_def)
  qed
qed (auto simp: assoc_inv_def assoc_upload_def assoc_receive_def end_download_def split: option.splits)

text \<open>
  C28.  Replies name their sender.  In every state that the two goroutines of the relay can reach, in any order, a reply does not panic.  If the stream takes it and
  the message does not exceed 65535 bytes, what the client gets parses to the payload of the datagram and to an address of the sender: either the
  address of an earlier datagram of the client, in the form in which the client wrote it, which the resolver mapped to the socket address that the reply comes from,
  or the IP address and port of the sender.  Socket addresses are compared in their printed form.
\<close>

theorem udp_reply_names_sender:
  assumes "assoc_run ups st" and "as_pending st = Some (addr, p, v)" and "length p + Socks5MaxUDPHeaderLen \<le> 65535"
  shows "assoc_reply False st \<noteq> None \<and>
    (\<exists>st' m d. assoc_reply True st = Some st' \<and> as_toClient st' = as_toClient st @ [m] \<and>
      parseSocks5UDPDatagram m = Inr d \<and> dg_Payload d = p \<and>
      ((\<exists>L pkt e dst. (L, pkt) \<in> set ups \<and> parseSocks5UDPDatagram pkt = Inr e \<and> dg_Header d = dg_Header e \<and> dg_Addr d = dg_Addr e \<and>
          resolveSocks5UDPAddr L (dg_Addr e) = Inr dst \<and> UDPAddr_String dst = UDPAddr_String addr) \<or>
       (\<exists>src. UDPAddr_String src = UDPAddr_String addr \<and> FQDN (dg_Addr d) = [] \<and> Port (dg_Addr d) = udp_Port src \<and>
          IP_Equal (IP (dg_Addr d)) (udp_IP src))))"
proof -
  obtain h where s: "names ups h (UDPAddr_String addr)"
      "\<And>takes. \<exists>st'. assoc_reply takes st = Some st' \<and> as_pending st' = None \<and>
         (\<forall>k. as_addrMap st' k = as_addrMap st k \<or> k = UDPAddr_String addr \<and> as_addrMap st' k = Some h) \<and>
         as_toClient st' = as_toClient st @ (if takes \<and> length (h @ p) \<le> 65535 then [h @ p] else [])"
    using reply_cases [OF assoc_run_inv [OF assms(1)] assms(2)] by blast
  obtain st' where st': "assoc_reply True st = Some st'" "as_toClient st' = as_toClient st @ [h @ p]"
    using s(2) [of True] names_header [OF s(1)] assms(3) by auto
  have ok: "assoc_reply False st \<noteq> None" using s(2) [of False] by auto
  from s(1) consider
    (sent) L pkt e dst where "(L, pkt) \<in> set ups" "parseSocks5UDPDatagram pkt = Inr e" "dg_Header e = h"
      "resolveSocks5UDPAddr L (dg_Addr e) = Inr dst" "UDPAddr_String dst = UDPAddr_String addr"
  | (own) a where "udp_source a" "UDPAddr_String a = UDPAddr_String addr" "udpAddrToHeader (Some a) = Some h"
    by (auto simp: names_def)
  then show ?thesis
  proof cases
    case sent
    then have "parseSocks5UDPDatagram (h @ p) = Inr \<lparr>dg_Addr = dg_Addr e, dg_Header = h, dg_Payload = p\<rparr>"
      using parse_udp_header [of pkt e] by (simp add: udp_header_def)
    then show ?thesis using ok st' sent by (intro conjI exI [of _ st'] exI [of _ "h @ p"]) auto
  next
    case own
    from own(1) obtain g where g: "udpAddrToHeader (Some a) = Some g" "udp_header g (canonical (udpAddrSpec a))"
      "FQDN (canonical (udpAddrSpec a)) = []" "Port (canonical (udpAddrSpec a)) = udp_Port a"
      "IP_Equal (IP (canonical (udpAddrSpec a))) (udp_IP a)" by (rule source_header)
    then have "parseSocks5UDPDatagram (h @ p) = Inr \<lparr>dg_Addr = canonical (udpAddrSpec a), dg_Header = h, dg_Payload = p\<rparr>"
      using own(3) by (simp add: udp_header_def)
    then show ?thesis using ok st' own(2) g(3-5) by (intro conjI exI [of _ st'] exI [of _ "h @ p"]) auto
  qed
qed

definition dns_server :: UDPAddr where
  "dns_server = \<lparr>udp_IP = [8, 8, 8, 8], udp_Port = 53, udp_Zone = []\<rparr>"

text \<open>A query for a name, and the answer from the address of the name.\<close>

definition dns_query :: bytes where
  "dns_query = [0, 0, 0, 3, 3] @ bytes_of ''dns'' @ [0, 53, 9]"

theorem udp_reply_names_sender_witness:
  "\<exists>st' m d. let st = assoc_upload (\<lambda>_ _. Some [[8, 8, 8, 8]]) (\<lambda>_ _. Some 1) (Inr dns_query) new_assoc
     in assoc_reply True (assoc_receive (Some (dns_server, [1, 2])) st) = Some st' \<and> as_toClient st' = [m] \<and>
       parseSocks5UDPDatagram m = Inr d \<and> dg_Payload d = [1, 2] \<and> FQDN (dg_Addr d) = ''dns''"
proof -
  define st where "st = assoc_upload (\<lambda>_ _. Some [[8, 8, 8, 8]]) (\<lambda>_ _. Some 1) (Inr dns_query) new_assoc"
  let ?st = "assoc_receive (Some (dns_server, [1, 2])) st"
  have "assoc_run ([] @ [(\<lambda>_ _. Some [[8, 8, 8, 8]], dns_query)]) st"
    unfolding st_def by (rule assoc_run.upload [OF assoc_run.start])
  then have r: "assoc_run [(\<lambda>_ _. Some [[8, 8, 8, 8]], dns_query)] ?st"
    by (auto intro!: assoc_run.receive simp: udp_source_def dns_server_def To16_def)
  let ?h = "[0, 0, 0, 3, 3] @ bytes_of ''dns'' @ [0, 53]"
  have "parseSocks5UDPDatagram dns_query = Inr \<lparr>dg_Addr = \<lparr>FQDN = ''dns'', IP = [], Port = 53\<rparr>, dg_Header = ?h, dg_Payload = [9]\<rparr>"
    by code_simp
  moreover have "resolveSocks5UDPAddr (\<lambda>_ _. Some [[8, 8, 8, 8]]) \<lparr>FQDN = ''dns'', IP = [], Port = 53\<rparr> = Inr dns_server"
    unfolding dns_server_def by code_simp
  ultimately have p: "as_pending ?st = Some (dns_server, [1, 2], Some ?h)" "as_toClient ?st = []"
    by (simp_all add: st_def assoc_upload_def assoc_receive_def new_assoc_def Let_def)
  from udp_reply_names_sender [OF r p(1)] obtain st' m d where
    s: "assoc_reply True ?st = Some st'" "as_toClient st' = as_toClient ?st @ [m]" "parseSocks5UDPDatagram m = Inr d" "dg_Payload d = [1, 2]"
    by (auto simp: Socks5MaxUDPHeaderLen_def)
  have "Tunnel_Write (?h @ [1, 2]) [] = (Inr 12, frame_packet (?h @ [1, 2]))" by (simp add: Tunnel_Write_def)
  then have m: "m = ?h @ [1, 2]"
    using s(1,2) p by (auto simp: assoc_reply_def assoc_forward_def Socks5MaxUDPHeaderLen_def)
  have "parseSocks5UDPDatagram (?h @ [1, 2]) = Inr \<lparr>dg_Addr = \<lparr>FQDN = ''dns'', IP = [], Port = 53\<rparr>, dg_Header = ?h, dg_Payload = [1, 2]\<rparr>"
    by code_simp
  then have "FQDN (dg_Addr d) = ''dns''" using s(3) m by auto
  then show ?thesis
    unfolding Let_def st_def [symmetric] using s p(2) by (intro exI [of _ st'] exI [of _ m] exI [of _ d]) simp
qed

section \<open>The datagram relay\<close>

text \<open>
  What a relay may have sent after it has received \<open>ins\<close>: payloads of the client's datagrams to the
  destinations that these name, and datagrams from such destinations, with their header, to the client.
\<close>

definition relay_allowed :: "resolver \<Rightarrow> (UDPAddr \<times> bytes) list \<Rightarrow> relay \<Rightarrow> UDPAddr \<times> bytes \<Rightarrow> bool" where
  "relay_allowed L ins st = (\<lambda>(d, b). \<exists>client. rl_clientAddr st = Some client \<and>
     ((\<exists>addr pkt. (addr, pkt) \<in> set ins \<and> sameUDPAddr (Some addr) (Some client) \<and>
         parseUDPAssociateDatagram L pkt = Inr (d, b)) \<or>
      (d = client \<and> (\<exists>addr buf h. (addr, buf) \<in> set ins \<and> UDPAddr_String addr \<in> rl_targetAddrs st \<and>
         udpAddrToHeader (Some addr) = Some h \<and> b = h @ buf))))"

text \<open>\<open>aimed_at L ins c k\<close>: the client \<open>c\<close> has sent a datagram to a destination that is printed as \<open>k\<close>.\<close>

definition aimed_at :: "resolver \<Rightarrow> (UDPAddr \<times> bytes) list \<Rightarrow> UDPAddr \<Rightarrow> string \<Rightarrow> bool" where
  "aimed_at L ins c k \<longleftrightarrow> (\<exists>addr pkt d b. (addr, pkt) \<in> set ins \<and> sameUDPAddr (Some addr) (Some c) \<and>
     parseUDPAssociateDatagram L pkt = Inr (d, b) \<and> UDPAddr_String d = k)"

definition relay_inv :: "resolver \<Rightarrow> (UDPAddr \<times> bytes) list \<Rightarrow> relay \<Rightarrow> bool" where
  "relay_inv L ins st \<longleftrightarrow> (\<forall>x \<in> set (rl_out st). relay_allowed L ins st x) \<and>
     (\<forall>c. rl_clientAddr st = Some c \<longrightarrow> c \<in> fst ` set ins) \<and>
     (\<forall>k \<in> rl_targetAddrs st. \<exists>c. rl_clientAddr st = Some c \<and> aimed_at L ins c k)"

lemma aimed_at_mono: "aimed_at L ins c k \<Longrightarrow> aimed_at L (ins @ ys) c k"
  by (auto simp: aimed_at_def)

lemma aimed_at_last:
  assumes "sameUDPAddr (Some addr) (Some c)" and "parseUDPAssociateDatagram L buf = Inr (d, b)" and "UDPAddr_String d = k"
  shows "aimed_at L (ins @ [(addr, buf)]) c k"
  unfolding aimed_at_def using assms by (intro exI [of _ addr] exI [of _ buf] exI [of _ d] exI [of _ b]) simp

lemma relay_allowed_mono:
  assumes "relay_allowed L ins st x" and "set ins \<subseteq> set ins'" and "rl_clientAddr st' = rl_clientAddr st"
    and "rl_targetAddrs st \<subseteq> rl_targetAddrs st'"
  shows "relay_allowed L ins' st' x"
  using assms by (cases x) (simp add: relay_allowed_def, blast)

lemma sameUDPAddr_refl [simp]: "sameUDPAddr (Some a) (Some a)"
  by (simp add: sameUDPAddr_def)

lemma relay_inv_idle:
  assumes "relay_inv L ins st" and "rl_clientAddr st = None"
  shows "rl_out st = [] \<and> rl_targetAddrs st = {}"
proof -
  have "\<not> relay_allowed L ins st x" for x using assms(2) by (cases x) (simp add: relay_allowed_def)
  then show ?thesis using assms unfolding relay_inv_def
    by (metis equals0I list.set_intros(1) neq_Nil_conv option.distinct(1))
qed

lemma relay_inv_grow:
  assumes "relay_inv L ins st" and "rl_clientAddr st' = Some c"
    and "rl_clientAddr st = Some c \<or> rl_clientAddr st = None \<and> c = addr"
    and "rl_out st' = rl_out st @ new" and "\<forall>x \<in> set new. relay_allowed L (ins @ [(addr, buf)]) st' x"
    and "rl_targetAddrs st' = T \<union> rl_targetAddrs st"
    and "\<forall>k \<in> T. aimed_at L (ins @ [(addr, buf)]) c k"
  shows "relay_inv L (ins @ [(addr, buf)]) st'"
proof (cases "rl_clientAddr st")
  case None
  then show ?thesis using assms relay_inv_idle [OF assms(1) None] by (simp add: relay_inv_def)
next
  case (Some c0)
  then have c: "rl_clientAddr st = Some c" "rl_clientAddr st' = rl_clientAddr st" using assms(2,3) by auto
  have "relay_allowed L (ins @ [(addr, buf)]) st' x" if "x \<in> set (rl_out st)" for x
    using relay_allowed_mono [of L ins st x "ins @ [(addr, buf)]" st'] that c assms(1,6)
    unfolding relay_inv_def by fastforce
  moreover have "aimed_at L (ins @ [(addr, buf)]) c k" if "k \<in> rl_targetAddrs st" for k
    using that assms(1) c(1) aimed_at_mono unfolding relay_inv_def by fastforce
  moreover have "c \<in> fst ` set ins" using assms(1) c(1) unfolding relay_inv_def by blast
  ultimately show ?thesis using assms(2,4-7) unfolding relay_inv_def by auto
qed

lemma relay_inv_same:
  assumes "relay_inv L ins st" and "rl_clientAddr st' = rl_clientAddr st" and "rl_out st' = rl_out st"
    and "rl_targetAddrs st' = rl_targetAddrs st"
  shows "relay_inv L (ins @ [x]) st'"
proof (cases "rl_clientAddr st")
  case None
  then show ?thesis using assms relay_inv_idle [OF assms(1) None] by (auto simp: relay_inv_def)
next
  case (Some c)
  obtain addr buf where "x = (addr, buf)" by (cases x)
  then show ?thesis using relay_inv_grow [OF assms(1), of st' c addr "[]" buf "{}"] assms Some by simp
qed

lemma relay_datagram_inv:
  assumes "relay_inv L ins st" and "udp_source addr"
  shows "\<exists>st'. relay_datagram L W addr buf st = Some st' \<and> relay_inv L (ins @ [(addr, buf)]) st'"
proof (cases "rl_clientAddr st = None \<or> sameUDPAddr (Some addr) (rl_clientAddr st)")
  case client: True
  show ?thesis
  proof (cases "parseUDPAssociateDatagram L buf")
    case (Inl e)
    then show ?thesis using client relay_inv_same [OF assms(1)] by (simp add: relay_datagram_def)
  next
    case (Inr db)
    obtain d b where db: "db = (d, b)" by (cases db)
    define c where "c = (case rl_clientAddr st of None \<Rightarrow> addr | Some c \<Rightarrow> c)"
    have c: "sameUDPAddr (Some addr) (Some c)" "rl_clientAddr st = Some c \<or> rl_clientAddr st = None \<and> c = addr"
      using client by (auto simp: c_def split: option.splits)
    define st1 where "st1 = (if rl_clientAddr st = None then st\<lparr>rl_clientAddr := Some addr\<rparr> else st)"
    have st1: "rl_clientAddr st1 = Some c" "rl_out st1 = rl_out st" "rl_targetAddrs st1 = rl_targetAddrs st"
      using c(2) by (auto simp: st1_def)
    show ?thesis
    proof (cases "W d b")
      case None
      then show ?thesis
        using relay_inv_grow [OF assms(1) _ c(2), of "st1\<lparr>rl_Errors := rl_Errors st1 + 1\<rparr>" "[]" buf "{}"] client Inr db st1
        by (simp add: relay_datagram_def Let_def flip: st1_def)
    next
      case (Some ws)
      let ?st = "st1\<lparr>rl_out := rl_out st1 @ [(d, b)], rl_targetAddrs := insert (UDPAddr_String d) (rl_targetAddrs st1),
        rl_UploadPackets := rl_UploadPackets st1 + 1, rl_UploadBytes := rl_UploadBytes st1 + int ws\<rparr>"
      have "relay_allowed L (ins @ [(addr, buf)]) ?st (d, b)"
        using c(1) Inr db st1 by (auto simp: relay_allowed_def)
      then have "relay_inv L (ins @ [(addr, buf)]) ?st"
        using relay_inv_grow [OF assms(1) _ c(2), of ?st "[(d, b)]" buf "{UDPAddr_String d}"] aimed_at_last [OF c(1)] Inr db st1 by simp
      then show ?thesis using Some client Inr db by (simp add: relay_datagram_def Let_def flip: st1_def)
    qed
  qed
next
  case False
  then obtain c where c: "rl_clientAddr st = Some c" by auto
  obtain h where h: "udpAddrToHeader (Some addr) = Some h" using assms(2) by (rule source_header)
  show ?thesis
  proof (cases "UDPAddr_String addr \<in> rl_targetAddrs st \<and> W c (h @ buf) \<noteq> None")
    case True
    then obtain ws where ws: "W c (h @ buf) = Some ws" by blast
    let ?st = "st\<lparr>rl_out := rl_out st @ [(c, h @ buf)], rl_DownloadPackets := rl_DownloadPackets st + 1,
      rl_DownloadBytes := rl_DownloadBytes st + (int ws - int (length h))\<rparr>"
    have "relay_allowed L (ins @ [(addr, buf)]) ?st (c, h @ buf)"
      using c h True unfolding relay_allowed_def split_conv
      by (intro exI [of _ c] conjI disjI2 exI [of _ addr] exI [of _ buf] exI [of _ h]) simp_all
    then have "relay_inv L (ins @ [(addr, buf)]) ?st"
      using relay_inv_grow [OF assms(1), of ?st c addr "[(c, h @ buf)]" buf "{}"] c by simp
    then show ?thesis using False True c h ws by (simp add: relay_datagram_def)
  next
    case no: False
    then consider "UDPAddr_String addr \<notin> rl_targetAddrs st"
      | "UDPAddr_String addr \<in> rl_targetAddrs st" "W c (h @ buf) = None" by blast
    then show ?thesis using False c h relay_inv_same [OF assms(1)] by cases (simp_all add: relay_datagram_def)
  qed
qed

lemma relay_run_inv:
  assumes "relay_inv L ins0 st" and "list_all (\<lambda>(a, b). udp_source a) ins"
  shows "\<exists>st'. relay_run L W ins st = Some st' \<and> relay_inv L (ins0 @ ins) st'"
  using assms
proof (induction ins arbitrary: ins0 st)
  case (Cons x ins)
  obtain addr buf where x: "x = (addr, buf)" by (cases x)
  obtain st1 where s: "relay_datagram L W addr buf st = Some st1" "relay_inv L (ins0 @ [x]) st1"
    using relay_datagram_inv [OF Cons.prems(1), of addr W buf] Cons.prems(2) by (auto simp: x)
  from Cons.IH [OF s(2)] Cons.prems(2) show ?case by (simp add: x s(1))
qed simp

text \<open>
  C29.  The datagram relay lets only expected datagrams through.  For every sequence of datagrams, from any senders,
  it never panics, and everything it sends is the payload of a datagram of its one client to the destination
  that this datagram names, or, to the client, a datagram from an address to which the client has sent before,
  behind the header of that address.
\<close>

theorem relay_lets_only_expected_through:
  assumes "list_all (\<lambda>(a, b). udp_source a) ins"
  shows "\<exists>st. relay_run L W ins new_relay = Some st \<and>
    (\<forall>(d, b) \<in> set (rl_out st). \<exists>client \<in> fst ` set ins. rl_clientAddr st = Some client \<and>
      ((\<exists>addr pkt. (addr, pkt) \<in> set ins \<and> sameUDPAddr (Some addr) (Some client) \<and>
          parseUDPAssociateDatagram L pkt = Inr (d, b)) \<or>
       (d = client \<and> (\<exists>addr buf h. (addr, buf) \<in> set ins \<and> aimed_at L ins client (UDPAddr_String addr) \<and>
          udpAddrToHeader (Some addr) = Some h \<and> b = h @ buf))))"
proof -
  obtain st where st: "relay_run L W ins new_relay = Some st" "relay_inv L ins st"
    using relay_run_inv [of L "[]" new_relay ins W] assms by (auto simp: relay_inv_def new_relay_def)
  have "\<exists>client \<in> fst ` set ins. rl_clientAddr st = Some client \<and>
      ((\<exists>addr pkt. (addr, pkt) \<in> set ins \<and> sameUDPAddr (Some addr) (Some client) \<and>
          parseUDPAssociateDatagram L pkt = Inr (d, b)) \<or>
       (d = client \<and> (\<exists>addr buf h. (addr, buf) \<in> set ins \<and> aimed_at L ins client (UDPAddr_String addr) \<and>
          udpAddrToHeader (Some addr) = Some h \<and> b = h @ buf)))" if "(d, b) \<in> set (rl_out st)" for d b
  proof -
    have "relay_allowed L ins st (d, b)" using st(2) that by (simp add: relay_inv_def)
    moreover have "aimed_at L ins c k" if "k \<in> rl_targetAddrs st" "rl_clientAddr st = Some c" for k c
      using st(2) that by (auto simp: relay_inv_def)
    moreover have "c \<in> fst ` set ins" if "rl_clientAddr st = Some c" for c
      using st(2) that by (auto simp: relay_inv_def)
    ultimately show ?thesis unfolding relay_allowed_def split_conv by blast
  qed
  then show ?thesis using st(1) by blast
qed

theorem relay_lets_only_expected_through_witness:
  "\<exists>st. relay_run (\<lambda>_ _. None) (\<lambda>_ b. Some (length b))
     [(\<lparr>udp_IP = [10, 0, 0, 2], udp_Port = 4000, udp_Zone = []\<rparr>, [0, 0, 0, 1, 8, 8, 8, 8, 0, 53, 7]), (dns_server, [9])]
     new_relay = Some st"
  using relay_lets_only_expected_through
    [of "[(\<lparr>udp_IP = [10, 0, 0, 2], udp_Port = 4000, udp_Zone = []\<rparr>, [0, 0, 0, 1, 8, 8, 8, 8, 0, 53, 7]), (dns_server, [9])]"
      "\<lambda>_ _. None" "\<lambda>_ b. Some (length b)"]
  by (auto simp: udp_source_def dns_server_def To16_def)

section \<open>Datagrams and responses\<close>

text \<open>
  Datagrams survive: for an address with a wire form, building a datagram succeeds and parsing it gives the
  canonical address and the payload; and the parser splits every datagram it accepts into a header of at most 262
  bytes, which keeps its meaning in front of any other payload, and the payload.
\<close>

theorem udp_datagram_round_trip:
  "(wire_addr a \<longrightarrow> (\<exists>m d. newSocks5UDPDatagram a p = Inr m \<and> parseSocks5UDPDatagram m = Inr d \<and>
      dg_Addr d = canonical a \<and> dg_Payload d = p \<and> unwrapSocks5UDPPacket m = Inr p)) \<and>
   (parseSocks5UDPDatagram pkt = Inr e \<longrightarrow> pkt = dg_Header e @ dg_Payload e \<and>
      length (dg_Header e) \<le> Socks5MaxUDPHeaderLen \<and>
      parseSocks5UDPDatagram (dg_Header e @ q) = Inr (e\<lparr>dg_Payload := q\<rparr>))"
proof (intro conjI impI)
  assume "wire_addr a"
  then obtain h where "newSocks5UDPDatagram a p = Inr (h @ p)" "udp_header h (canonical a)"
    using new_datagram by blast
  then show "\<exists>m d. newSocks5UDPDatagram a p = Inr m \<and> parseSocks5UDPDatagram m = Inr d \<and>
      dg_Addr d = canonical a \<and> dg_Payload d = p \<and> unwrapSocks5UDPPacket m = Inr p"
    by (simp add: udp_header_def unwrapSocks5UDPPacket_def)
qed (auto simp: udp_header_def dest!: parse_udp_header)

theorem udp_datagram_round_trip_witness:
  "\<exists>m d. newSocks5UDPDatagram example_host [1, 2] = Inr m \<and> parseSocks5UDPDatagram m = Inr d \<and> dg_Payload d = [1, 2]"
  using udp_datagram_round_trip [of example_host "[1, 2]"] example_host_wire by blast

lemma port_bytes_eq: "[word_of_int (drop_bit 8 p), word_of_int p] = port_bytes p"
proof -
  have m: "(0xff :: u16) = mask 8" by (simp add: mask_eq_exp_minus_1)
  have "(word_of_int (drop_bit 8 p) :: u8) = ucast (drop_bit 8 (word_of_int p :: u16))"
    by (rule bit_word_eqI) (auto simp: bit_simps)
  moreover have "(word_of_int p :: u8) = ucast ((word_of_int p :: u16) AND 0xff)"
    unfolding m by (rule bit_word_eqI) (auto simp: bit_simps)
  ultimately show ?thesis by (simp add: port_bytes_def Let_def)
qed

lemma update_last_two: "(xs @ [x, y])[length (xs @ [x, y]) - 2 := a, length (xs @ [x, y]) - 1 := b] = xs @ [a, b]"
  by (simp add: list_update_append)

lemma ReadFromSocks5_parts:
  assumes "ReadFromSocks5 b emptyAddr = Inr (a, r)"
  obtains t h q a1 where "b = t # h @ q @ r" "read_host t (h @ q @ r) emptyAddr = Inr (a1, q @ r)" "length q = 2"
    "a = a1\<lparr>Port := port_of q\<rparr>"
proof -
  obtain t r1 a1 q where s: "b = t # r1" "read_host t r1 emptyAddr = Inr (a1, q @ r)" "length q = 2"
      "a = a1\<lparr>Port := port_of q\<rparr>"
    using assms by (rule ReadFromSocks5_steps)
  then obtain h where "r1 = h @ q @ r" using read_host_prefix by blast
  then show ?thesis using s that by blast
qed

lemma ReadSocks5Response_Inr:
  "ReadSocks5Response r = Inr (resp, r') \<longleftrightarrow> (\<exists>v c z b a. r = v # c # z # b \<and> ReadFromSocks5 b emptyAddr = Inr (a, r') \<and>
     resp = \<lparr>Reply = c, BindAddr = a, resp_Raw = consumed r r'\<rparr>)"
  using read_message [of r "\<lambda>c a raw. \<lparr>Reply = c, BindAddr = a, resp_Raw = raw\<rparr>" "(resp, r')"]
  by (simp add: ReadSocks5Response_def)

lemma consumed_all [simp]: "consumed r [] = r"
  by (simp add: consumed_def)

lemma patched_response:
  assumes "ReadSocks5Response raw = Inr (resp, [])" and "0 \<le> port" and "port \<le> 65535"
  shows "\<exists>r. rewriteSocks5ResponseBindPort (Some resp) port = Inr r \<and>
    ReadSocks5Response (resp_Raw r) = Inr (r, []) \<and> Reply r = Reply resp \<and>
    BindAddr r = (BindAddr resp)\<lparr>Port := port\<rparr>"
proof -
  obtain v c z b a where r: "raw = v # c # z # b" "ReadFromSocks5 b emptyAddr = Inr (a, [])"
      "resp = \<lparr>Reply = c, BindAddr = a, resp_Raw = raw\<rparr>"
    using assms(1) by (auto simp: ReadSocks5Response_Inr)
  obtain t h q a1 where s: "b = t # h @ q @ []" "read_host t (h @ q @ []) emptyAddr = Inr (a1, q @ [])" "length q = 2"
      "a = a1\<lparr>Port := port_of q\<rparr>"
    using r(2) by (rule ReadFromSocks5_parts)
  obtain x y where q: "q = [x, y]" using s(3) by (auto simp: numeral_2_eq_2 length_Suc_conv)
  define new where "new = v # c # z # t # h @ port_bytes port"
  define r' where "r' = \<lparr>Reply = c, BindAddr = a\<lparr>Port := port\<rparr>, resp_Raw = new\<rparr>"
  have "raw[length raw - 2 := word_of_int (drop_bit 8 port), length raw - 1 := word_of_int port] = new"
    using update_last_two [of "v # c # z # t # h" x y] port_bytes_eq [of port] by (simp add: r(1) s(1) q new_def)
  moreover have "2 \<le> length raw" by (simp add: r(1))
  ultimately have "rewriteSocks5ResponseBindPort (Some resp) port = Inr r'"
    using assms(2,3) by (simp add: rewriteSocks5ResponseBindPort_def Let_def r(3) r'_def)
  moreover have "ReadFromSocks5 (t # h @ port_bytes port) emptyAddr = Inr (a\<lparr>Port := port\<rparr>, [])"
  proof -
    have "read_host t (h @ port_bytes port) emptyAddr = Inr (a1, port_bytes port)"
      using read_host_extend [of t h q emptyAddr a1 "port_bytes port"] s(2) by simp
    moreover have "read_n 2 (port_bytes port) = Inr (port_bytes port, [])"
      using read_n_append [of 2 "port_bytes port" "[]"] by simp
    ultimately show ?thesis
      using assms(2,3) port_round_trip [of port] s(4) by (simp add: ReadFromSocks5_def)
  qed
  then have "ReadSocks5Response new = Inr (r', [])"
    by (auto simp: ReadSocks5Response_Inr new_def r'_def)
  ultimately show ?thesis using r(3) by (auto simp: r'_def)
qed

text \<open>
  A response that was read from the wire and is patched with a new port stays in step with its raw bytes:
  they read back as the patched response, with the new port and the same reply code and host.
\<close>

theorem patched_response_reads_back:
  assumes "ReadSocks5Response raw = Inr (resp, [])" and "0 \<le> port" and "port \<le> 65535"
  shows "\<exists>r. rewriteSocks5ResponseBindPort (Some resp) port = Inr r \<and>
    ReadSocks5Response (resp_Raw r) = Inr (r, []) \<and> Reply r = Reply resp \<and>
    BindAddr r = (BindAddr resp)\<lparr>Port := port\<rparr>"
  by (rule patched_response [OF assms])

theorem patched_response_reads_back_witness:
  "\<exists>r. rewriteSocks5ResponseBindPort (Some \<lparr>Reply = 0, BindAddr = \<lparr>FQDN = [], IP = [0, 0, 0, 0], Port = 1080\<rparr>,
     resp_Raw = [5, 0, 0, 1, 0, 0, 0, 0, 4, 56]\<rparr>) 4000 = Inr r \<and> Port (BindAddr r) = 4000"
proof -
  have "ReadSocks5Response [5, 0, 0, 1, 0, 0, 0, 0, 4, 56] =
      Inr (\<lparr>Reply = 0, BindAddr = \<lparr>FQDN = [], IP = [0, 0, 0, 0], Port = 1080\<rparr>, resp_Raw = [5, 0, 0, 1, 0, 0, 0, 0, 4, 56]\<rparr>, [])"
    by code_simp
  from patched_response_reads_back [OF this, of 4000] show ?thesis by auto
qed

lemma read_host_length:
  assumes "read_host t (h @ r) a = Inr (a', r)"
  shows "t = Socks5IPv4Address \<and> length h = 4 \<or> t = Socks5IPv6Address \<and> length h = 16 \<or>
    t = Socks5FQDNAddress \<and> h \<noteq> [] \<and> length h = 1 + unat (h ! 0)"
proof -
  consider "t = Socks5IPv4Address" | "t = Socks5IPv6Address" | "t = Socks5FQDNAddress"
    using assms by (auto simp: read_host_def split: if_splits)
  then show ?thesis
  proof cases
    case 3
    then obtain l f where h: "h = l # f" "length f = unat l"
      using assms by (auto simp: read_host_def and_then_Inr read_n_Inr socks5_consts length_Suc_conv Cons_eq_append_conv)
    then show ?thesis using 3 by simp
  qed (use assms in \<open>auto simp: read_host_def and_then_Inr read_n_same socks5_consts\<close>)
qed

lemma parse_parts:
  assumes "parseSocks5UDPDatagram pkt = Inr d"
  obtains t h q a where "pkt = [0, 0, 0, t] @ h @ q @ dg_Payload d" "length q = 2"
    "read_host t (h @ q @ dg_Payload d) emptyAddr = Inr (a, q @ dg_Payload d)"
proof -
  note r = parse_read [OF assms]
  obtain t h q a where s: "drop 3 pkt = t # h @ q @ dg_Payload d" "length q = 2"
      "read_host t (h @ q @ dg_Payload d) emptyAddr = Inr (a, q @ dg_Payload d)"
    using conjunct2 [OF r] by (rule ReadFromSocks5_parts)
  have "pkt = [0, 0, 0, t] @ h @ q @ dg_Payload d" using conjunct1 [OF r] unfolding s(1) by simp
  then show ?thesis using s(2,3) that by blast
qed

lemma transceive_header_eq:
  assumes "udp_source a"
  shows "newSocks5UDPDatagram (udpAddrSpec a) p = Inr (transceive_header a @ p)"
proof (cases "To4 (udp_IP a)")
  case None
  then show ?thesis using assms
    by (auto simp: newSocks5UDPDatagram_def WriteToSocks5_def host_bytes_def transceive_header_def udpAddrSpec_def
        udp_source_def Let_def port_bytes_eq)
next
  case (Some ip)
  then show ?thesis
    by (simp add: newSocks5UDPDatagram_def WriteToSocks5_def host_bytes_def transceive_header_def udpAddrSpec_def
        Let_def port_bytes_eq)
qed

lemma transceive_reply_eq:
  assumes "parseSocks5UDPDatagram pkt = Inr d" and "udp_Port src = udp_Port proxy"
  shows "transceive_reply proxy src pkt = (if dg_Payload d = [] then Inl ReplyTooShort else Inr (dg_Payload d))"
proof -
  obtain t h q a where p: "pkt = [0, 0, 0, t] @ h @ q @ dg_Payload d" "length q = 2"
      "read_host t (h @ q @ dg_Payload d) emptyAddr = Inr (a, q @ dg_Payload d)"
    using assms(1) by (rule parse_parts)
  have n: "length pkt = 6 + length h + length (dg_Payload d)" "pkt ! 3 = t"
    and h: "h \<noteq> [] \<Longrightarrow> pkt ! 4 = h ! 0"
    using p(2) by (simp_all add: p(1) nth_append)
  have "pkt = ([0, 0, 0, t] @ h @ q) @ dg_Payload d" "length ([0, 0, 0, t] @ h @ q) = 6 + length h"
    using p(1,2) by simp_all
  then have dr: "drop (6 + length h) pkt = dg_Payload d" by (metis append_eq_conv_conj)
  show ?thesis
    using read_host_length [OF p(3)]
  proof (elim disjE conjE)
    assume "t = Socks5FQDNAddress" "h \<noteq> []" "length h = 1 + unat (h ! 0)"
    then show ?thesis using n dr h assms(2) by (simp add: transceive_reply_def Let_def socks5_consts)
  qed (use n dr assms(2) in \<open>simp_all add: transceive_reply_def Let_def socks5_consts\<close>)
qed

text \<open>
  \<^verbatim>\<open>TransceiveUDPPacket\<close> writes its own header and parses replies with its own code, but uses the same format
  as the relays: it sends what \<^verbatim>\<open>newSocks5UDPDatagram\<close> builds, and from every reply that \<^verbatim>\<open>parseSocks5UDPDatagram\<close>
  accepts it returns the payload, except that it rejects an empty payload as too short.
\<close>

theorem transceive_uses_same_format:
  "(udp_source a \<longrightarrow> newSocks5UDPDatagram (udpAddrSpec a) p = Inr (transceive_header a @ p)) \<and>
   (parseSocks5UDPDatagram pkt = Inr d \<and> udp_Port src = udp_Port proxy \<longrightarrow>
     transceive_reply proxy src pkt = (if dg_Payload d = [] then Inl ReplyTooShort else Inr (dg_Payload d)))"
  using transceive_header_eq transceive_reply_eq by blast

theorem transceive_uses_same_format_witness:
  "newSocks5UDPDatagram (udpAddrSpec dns_server) [7] = Inr (transceive_header dns_server @ [7])"
  using transceive_uses_same_format [of dns_server "[7]"] by (simp add: udp_source_def dns_server_def To16_def)

end
