(* ===== verification/Socks_Server_Props.thy ===== *)
theory Socks_Server_Props
  imports Socks_Server Socks_Udp_Props
begin

text \<open>
  Properties of the SOCKS5 server and of the proxy client: who is served, that local destinations are not
  dialed, that each request is answered with one response that tells whether it is served, and that the client
  passes the handshake through unchanged.
\<close>

lemma response_written:
  assumes "wire_addr a"
  shows "\<exists>b. WriteSocks5Response code a = Inr b \<and>
    ReadSocks5Response b = Inr (\<lparr>Reply = code, BindAddr = canonical a, resp_Raw = b\<rparr>, [])"
proof -
  obtain b where b: "WriteToSocks5 a = Inr b" "\<And>r. ReadFromSocks5 (b @ r) emptyAddr = Inr (canonical a, r)"
    using addr_round_trip [OF assms] by blast
  then show ?thesis
    using b(2) [of "[]"]
    by (simp add: WriteSocks5Response_def Response_WriteToSocks5_def Let_def ReadSocks5Response_Inr)
qed

lemma zeroBindAddr_wire [simp]: "wire_addr zeroBindAddr"
  by (simp add: wire_addr_def zeroBindAddr_def AddrType_0 To16_def)

text \<open>A connection that has been answered with one response of the given code.\<close>

definition answered :: "u8 \<Rightarrow> auth_conn \<Rightarrow> auth_conn \<Rightarrow> bool" where
  "answered code c c' \<longleftrightarrow> (\<exists>b resp. a_out c' = a_out c @ b \<and> ReadSocks5Response b = Inr (resp, []) \<and> Reply resp = code)"

lemma reply_or_answers:
  assumes "\<not> a_broken c" and "wire_addr bnd"
  shows "\<exists>c1. reply_or code bnd c h k = k c1 \<and> answered code c c1 \<and> a_in c1 = a_in c"
proof -
  obtain b where b: "WriteSocks5Response code bnd = Inr b"
      "ReadSocks5Response b = Inr (\<lparr>Reply = code, BindAddr = canonical bnd, resp_Raw = b\<rparr>, [])"
    using response_written [OF assms(2)] by blast
  show ?thesis
    by (rule exI [of _ "c\<lparr>a_out := a_out c @ b\<rparr>"]) (use b assms(1) in \<open>auto simp: reply_or_def answered_def\<close>)
qed

section \<open>Who is served\<close>

text \<open>
  C25.  A server with credentials that authenticates by itself serves only users that present one of them: unless serving the connection fails in the
  authentication, the connection starts with a handshake that carries the user and the password of a
  registered credential, and it is served from there on.  A server that leaves the authentication to the proxy client, as \<^verbatim>\<open>mita\<close> is
  configured, reads no handshake and serves every connection.
\<close>

theorem server_serves_only_registered:
  assumes "sv_credentials E \<noteq> []" and "serverServeConn E c = (res, c')" and "\<And>e. res \<noteq> Failed (AuthFailed e)"
  shows "if sv_clientSideAuth E then (res, c') = serve_request E c
    else \<exists>x \<in> set (sv_credentials E). \<exists>methods k m n c1. length (User x) = unat m \<and> length (Password x) = unat n \<and>
      length methods = unat k \<and> Socks5UserPassAuth \<in> set methods \<and>
      a_in c = [Socks5Version, k] @ methods @ [Socks5UserPassAuthVersion, m] @ bytes_of (User x) @ [n] @ bytes_of (Password x) @ a_in c1 \<and>
      (res, c') = serve_request E c1"
proof (cases "sv_clientSideAuth E")
  case False
  obtain e c1 where h: "handleAuthentication (sv_credentials E) c = (e, c1)" by fastforce
  then have e: "e = None" using assms(2,3) False by (cases e) (auto simp: serverServeConn_def)
  then have e2: "(res, c') = serve_request E c1" using assms(2) h False by (simp add: serverServeConn_def)
  from e have "handleAuthentication (sv_credentials E) c = (None, c1)" using h by simp
  from auth_success [OF assms(1) this] show ?thesis using e2 unfolding if_not_P [OF False] by metis
qed (use assms(2) in \<open>simp add: serverServeConn_def\<close>)

section \<open>Local destinations\<close>

lemma readRequest_written:
  assumes "wire_addr a" and "WriteSocks5Request cmd a = Inr data" and "a_in c = data @ rest"
  shows "readRequest c = Inr (\<lparr>Command = cmd, DstAddr = canonical a, req_Raw = data\<rparr>, c\<lparr>a_in := rest\<rparr>)"
proof -
  obtain b where b: "WriteToSocks5 a = Inr b" "\<And>r. ReadFromSocks5 (b @ r) emptyAddr = Inr (canonical a, r)"
    using addr_round_trip [OF assms(1)] by blast
  have d: "data = Socks5Version # cmd # 0 # b"
    using assms(2) by (simp add: WriteSocks5Request_def Request_WriteToSocks5_def b(1) Let_def)
  have "read_n 3 (data @ rest) = Inr ([Socks5Version, cmd, 0], b @ rest)"
    by (simp add: d read_n_def read_full_def)
  then show ?thesis
    using b(2) [of rest] consumed_append [of data rest]
    by (simp add: readRequest_def assms(3) Request_ReadFromSocks5_def Let_def)
qed

text \<open>What the server tells the egress rules about the user.\<close>

definition user_env :: "srv_env \<Rightarrow> string \<rightharpoonup> string" where
  "user_env E = (if sv_userName E = [] then Map.empty else [''user'' \<mapsto> sv_userName E])"

text \<open>
  C26.  Local destinations are served to permitted users only.  These are the private networks 10.0.0.0/8, 172.16.0.0/12, 192.168.0.0/16 and fc00::/7, and
  as loopback destinations 127.0.0.0/8, ::1 and the eight well-known local names in any letter case, with or without a final dot.  IPv4 addresses may also be in their
  IPv6 form.  A connect or UDP associate request to a private destination by a user without the permission for these, or to a loopback destination by a user without the
  permission for those, is answered with the reply code for a request that the rules do not allow, and nothing is dialed or resolved, whatever the rules are.  If there are
  no rules, requests of permitted users to IP addresses are handled, as are those to all other IP addresses.
\<close>

theorem local_destination_is_not_served:
  assumes "wire_addr a" and "WriteSocks5Request cmd a = Inr data" and "a_in c = data @ rest" and "\<not> a_broken c"
    and "cmd = Socks5ConnectCmd \<or> cmd = Socks5UDPAssociateCmd"
  shows "(\<not> may_use (sv_config E) (user_env E) a \<longrightarrow>
      (\<exists>c'. serve_request E c = (Failed RejectedByRules, c') \<and> answered Socks5ReplyNotAllowedByRuleSet c c')) \<and>
    (may_use (sv_config E) (user_env E) a \<and> To16 (IP a) \<noteq> None \<and> ec_Rules (sv_config E) = [] \<longrightarrow>
      serve_request E c = handleRequest E \<lparr>Command = cmd, DstAddr = canonical a, req_Raw = data\<rparr> (c\<lparr>a_in := rest\<rparr>))"
proof (intro conjI impI)
  let ?req = "\<lparr>Command = cmd, DstAddr = canonical a, req_Raw = data\<rparr>"
  note r = readRequest_written [OF assms(1-3)]
  {
    assume "\<not> may_use (sv_config E) (user_env E) a"
    then have "egress_decision E ?req = plain_action REJECT"
      unfolding egress_decision_def Request.simps user_env_def by (rule local_rejected [OF assms(1,2,5)])
    then have "serve_request E c = reply_or Socks5ReplyNotAllowedByRuleSet zeroBindAddr (c\<lparr>a_in := rest\<rparr>) id
        (\<lambda>c. (Failed RejectedByRules, c))"
      by (simp add: serve_request_def r plain_action_def)
    moreover obtain c1 where "reply_or Socks5ReplyNotAllowedByRuleSet zeroBindAddr (c\<lparr>a_in := rest\<rparr>) id
        (\<lambda>c. (Failed RejectedByRules, c)) = (Failed RejectedByRules, c1)"
        "answered Socks5ReplyNotAllowedByRuleSet (c\<lparr>a_in := rest\<rparr>) c1"
      using reply_or_answers [OF _ zeroBindAddr_wire, of "c\<lparr>a_in := rest\<rparr>" Socks5ReplyNotAllowedByRuleSet id
          "\<lambda>c. (Failed RejectedByRules, c)"] assms(4) by auto
    ultimately show "\<exists>c'. serve_request E c = (Failed RejectedByRules, c') \<and> answered Socks5ReplyNotAllowedByRuleSet c c'"
      by (auto simp: answered_def)
  next
    assume "may_use (sv_config E) (user_env E) a \<and> To16 (IP a) \<noteq> None \<and> ec_Rules (sv_config E) = []"
    then have "egress_decision E ?req = plain_action DIRECT"
      unfolding egress_decision_def Request.simps user_env_def by (intro local_allowed [OF assms(1,2,5)]) simp_all
    then show "serve_request E c = handleRequest E ?req (c\<lparr>a_in := rest\<rparr>)"
      by (simp add: serve_request_def r plain_action_def)
  }
qed

definition sample_srv :: srv_env where
  "sample_srv = \<lparr>sv_credentials = [alice], sv_clientSideAuth = False, sv_config = strict_config, sv_intn = (\<lambda>_. 0),
     sv_preference = USE_FIRST_IP, sv_lookup = (\<lambda>_ _. Some [[127, 0, 0, 1]]), sv_dial = (\<lambda>_. Inr ([10, 0, 0, 1], 4000)),
     sv_listenUDP = Some ([0, 0, 0, 0], 5000), sv_datagramMode = False, sv_tcpLocal = None, sv_userName = ''alice'',
     sv_egress = (\<lambda>_. None)\<rparr>"

lemma sample_user_env: "\<not> user_allows (sv_config sample_srv) (user_env sample_srv) u_AllowPrivateIP"
  "\<not> user_allows (sv_config sample_srv) (user_env sample_srv) u_AllowLoopbackIP" "\<not> ec_AllowLoopbackDestination (sv_config sample_srv)"
  by (simp_all add: user_allows_def sample_srv_def strict_config_def GetBool_def)

definition home_router :: AddrSpec where
  "home_router = \<lparr>FQDN = [], IP = [192, 168, 0, 1], Port = 80\<rparr>"

lemma home_router_wire: "wire_addr home_router"
  by (simp add: wire_addr_def home_router_def AddrType_0 To16_def)

lemma home_router_private: "private_destination home_router"
  by (simp add: private_destination_def home_router_def To4_def)

theorem local_destination_is_not_served_witness:
  "(\<exists>data c'. WriteSocks5Request 1 home_router = Inr data \<and> serve_request sample_srv (end_with data) = (Failed RejectedByRules, c')) \<and>
   (\<exists>data c'. WriteSocks5Request 1 \<lparr>FQDN = ''IP6-LocalHost.'', IP = [], Port = 80\<rparr> = Inr data \<and>
      serve_request sample_srv (end_with data) = (Failed RejectedByRules, c'))"
proof -
  let ?a = "\<lparr>FQDN = ''IP6-LocalHost.'', IP = [], Port = 80\<rparr>"
  have r: "\<exists>data c'. WriteSocks5Request 1 a = Inr data \<and> serve_request sample_srv (end_with data) = (Failed RejectedByRules, c')"
    if w: "wire_addr a" and k: "private_destination a \<or> loopback_destination a" for a
  proof -
    obtain data where d: "WriteSocks5Request 1 a = Inr data" using written_request [OF w] by blast
    have "\<not> may_use (sv_config sample_srv) (user_env sample_srv) a" using k sample_user_env by (auto simp: may_use_def)
    then show ?thesis
      using local_destination_is_not_served [OF w d, of "end_with data" "[]" sample_srv] d by (auto simp: end_with_def Socks5ConnectCmd_def)
  qed
  have "wire_addr ?a" by (simp add: wire_addr_def AddrType_def To4_def To16_def socks5_consts)
  moreover have "loopback_destination ?a"
  proof -
    have "list_ex (\<lambda>n. map lower ''IP6-LocalHost.'' = n @ ''.'') local_names" by code_simp
    then show ?thesis by (auto simp: loopback_destination_def list_ex_iff)
  qed
  ultimately show ?thesis using r home_router_wire home_router_private by blast
qed

theorem server_serves_only_registered_witness:
  "\<exists>x \<in> {alice}. \<exists>m k. length (User x) = unat (m :: u8) \<and> length [2 :: u8] = unat (k :: u8) \<and>
     \<not> (\<exists>e c'. serverServeConn sample_srv (end_with ([5, 1, 2] @ credential_message alice)) = (Failed (AuthFailed e), c'))"
proof -
  have h: "handleAuthentication [alice] (end_with ([5, 1, 2] @ credential_message alice)) =
      (None, \<lparr>a_in = [], a_out = [5, 2, 1, 0], a_broken = False, a_HandshakeErrors = 0\<rparr>)"
    using server_user_pass [of "[alice]" alice "end_with (credential_message alice)" "[]"] server_methods [of "[alice]" 2]
    by (simp add: alice_def auth_consts verify_credential_def end_with_def)
  then have s: "serverServeConn sample_srv (end_with ([5, 1, 2] @ credential_message alice)) =
      (Failed (RequestFailed (ReadFailed EOF)), \<lparr>a_in = [], a_out = [5, 2, 1, 0], a_broken = False, a_HandshakeErrors = 1\<rparr>)"
    by (simp add: serverServeConn_def sample_srv_def serve_request_def readRequest_def Request_ReadFromSocks5_def
        read_n_def read_full_def handshake_error_def)
  have "sv_credentials sample_srv = [alice]" "\<not> sv_clientSideAuth sample_srv" by (simp_all add: sample_srv_def)
  then obtain x where "x \<in> {alice}" "\<exists>m. length (User x) = unat (m :: u8)"
    using server_serves_only_registered [OF _ s] by auto
  then show ?thesis using s by (intro bexI [of _ x]) (auto intro!: exI [of _ "1 :: u8"])
qed

text \<open>
  C34.  The loopback address as a name is served.  When the resolver returns the address that the name spells, as
  \<^verbatim>\<open>net.Resolver\<close> does, and there are no rules, a connect request to the name 127.0.0.1 is dialed, whoever the user is
  and although a request to the IP address 127.0.0.1 is rejected.
\<close>

theorem loopback_name_is_served:
  assumes "ec_Rules (sv_config E) = []" and "sv_lookup E ''ip'' ''127.0.0.1'' = Some [[127, 0, 0, 1]]"
    and "sv_preference E = USE_FIRST_IP" and "sv_dial E ''127.0.0.1:80'' = Inr (ip, port)"
    and "wire_addr \<lparr>FQDN = [], IP = ip, Port = port\<rparr>"
    and "WriteSocks5Request Socks5ConnectCmd \<lparr>FQDN = ''127.0.0.1'', IP = [], Port = 80\<rparr> = Inr data"
    and "a_in c = data" and "\<not> a_broken c"
  shows "\<exists>c'. serve_request E c = (CopyWith ''127.0.0.1:80'', c') \<and> answered Socks5ReplySuccess c c'"
proof -
  let ?a = "\<lparr>FQDN = ''127.0.0.1'', IP = [], Port = 80\<rparr>"
  have w: "wire_addr ?a" by (simp add: wire_addr_def AddrType_def To4_def To16_def socks5_consts)
  have can: "canonical ?a = ?a" by (simp add: canonical_def To4_def To16_def)
  have r: "readRequest c = Inr (\<lparr>Command = Socks5ConnectCmd, DstAddr = ?a, req_Raw = data\<rparr>, c\<lparr>a_in := []\<rparr>)"
    using readRequest_written [OF w assms(6), of c "[]"] assms(7) by (simp add: can)
  have d: "egress_decision E \<lparr>Command = Socks5ConnectCmd, DstAddr = ?a, req_Raw = data\<rparr> = plain_action DIRECT"
    unfolding egress_decision_def Request.simps
    by (rule loopback_in_disguise [of ?a 80, OF _ _ _ assms(1,6)]) simp_all
  have s: "AddrSpec_String \<lparr>FQDN = ''127.0.0.1'', IP = [127, 0, 0, 1], Port = 80\<rparr> = ''127.0.0.1:80''"
  proof -
    have "char_of (48 :: nat) = CHR ''0''" "char_of (49 :: nat) = CHR ''1''" "char_of (50 :: nat) = CHR ''2''"
      "char_of (55 :: nat) = CHR ''7''" "char_of (56 :: nat) = CHR ''8''" by code_simp+
    then show ?thesis
      by (simp add: AddrSpec_String_def IP_String_def dotted_def Itoa_def dec.simps JoinHostPort_def)
  qed
  have "serve_request E c = handleConnect E
      \<lparr>Command = Socks5ConnectCmd, DstAddr = \<lparr>FQDN = ''127.0.0.1'', IP = [127, 0, 0, 1], Port = 80\<rparr>, req_Raw = data\<rparr>
      (c\<lparr>a_in := []\<rparr>)"
    by (simp add: serve_request_def r d plain_action_def handleRequest_def assms(2,3) SelectIPFromList_def handle_command_def)
  also have "\<dots> = reply_or Socks5ReplySuccess \<lparr>FQDN = [], IP = ip, Port = port\<rparr> (c\<lparr>a_in := []\<rparr>) handshake_error
      (\<lambda>c. (CopyWith ''127.0.0.1:80'', c))"
    by (simp add: handleConnect_def s assms(4))
  finally have e: "serve_request E c = \<dots>" .
  obtain c1 where "reply_or Socks5ReplySuccess \<lparr>FQDN = [], IP = ip, Port = port\<rparr> (c\<lparr>a_in := []\<rparr>) handshake_error
      (\<lambda>c. (CopyWith ''127.0.0.1:80'', c)) = (CopyWith ''127.0.0.1:80'', c1)" "answered Socks5ReplySuccess (c\<lparr>a_in := []\<rparr>) c1"
    using reply_or_answers [OF _ assms(5), of "c\<lparr>a_in := []\<rparr>" Socks5ReplySuccess handshake_error
        "\<lambda>c. (CopyWith ''127.0.0.1:80'', c)"] assms(8) by auto
  then show ?thesis using e by (auto simp: answered_def)
qed

theorem loopback_name_is_served_witness:
  "\<exists>data c'. WriteSocks5Request Socks5ConnectCmd \<lparr>FQDN = ''127.0.0.1'', IP = [], Port = 80\<rparr> = Inr data \<and>
     serve_request sample_srv (end_with data) = (CopyWith ''127.0.0.1:80'', c')"
proof -
  let ?a = "\<lparr>FQDN = ''127.0.0.1'', IP = [], Port = 80\<rparr>"
  have w: "wire_addr ?a" by (simp add: wire_addr_def AddrType_0)
  obtain data where d: "WriteSocks5Request Socks5ConnectCmd ?a = Inr data" using written_request [OF w] by blast
  have "\<exists>c'. serve_request sample_srv (end_with data) = (CopyWith ''127.0.0.1:80'', c') \<and>
      answered Socks5ReplySuccess (end_with data) c'"
    by (rule loopback_name_is_served [OF _ _ _ _ _ d, of _ "[10, 0, 0, 1]" 4000])
      (simp_all add: sample_srv_def strict_config_def end_with_def wire_addr_def AddrType_0 To16_def)
  with d show ?thesis by blast
qed

section \<open>Answers\<close>

definition serving :: "outcome \<Rightarrow> bool" where
  "serving res \<longleftrightarrow> (case res of CopyWith _ \<Rightarrow> True | AssociateOverStream \<Rightarrow> True | AssociateDatagram \<Rightarrow> True | _ \<Rightarrow> False)"

text \<open>The addresses of the operating system have a wire form.\<close>

definition srv_env_ok :: "srv_env \<Rightarrow> bool" where
  "srv_env_ok E \<longleftrightarrow>
     (\<forall>target ip port. sv_dial E target = Inr (ip, port) \<longrightarrow> wire_addr \<lparr>FQDN = [], IP = ip, Port = port\<rparr>) \<and>
     (\<forall>ip port. sv_listenUDP E = Some (ip, port) \<longrightarrow> To16 ip \<noteq> None \<and> 0 \<le> port \<and> port < 65536) \<and>
     (\<forall>ip. sv_tcpLocal E = Some ip \<longrightarrow> ip = [] \<or> To16 ip \<noteq> None)"

text \<open>Exactly one response has been sent, of success exactly if the server goes on to serve.\<close>

definition answers :: "auth_conn \<Rightarrow> outcome \<times> auth_conn \<Rightarrow> bool" where
  "answers c = (\<lambda>(res, c'). res \<noteq> Failed ListenFailed \<and> (\<exists>code. answered code c c' \<and> (code = Socks5ReplySuccess \<longleftrightarrow> serving res)))"

lemma reply_or_answers_code:
  assumes "\<not> a_broken c" and "wire_addr bnd" and "code = Socks5ReplySuccess \<longleftrightarrow> serving res" and "res \<noteq> Failed ListenFailed"
  shows "answers c (reply_or code bnd c h (\<lambda>c. (res, c)))"
  using reply_or_answers [OF assms(1,2), of code h "\<lambda>c. (res, c)"] assms(3,4) by (auto simp: answers_def)

lemmas reply_codes = Socks5ReplySuccess_def Socks5ReplyNotAllowedByRuleSet_def Socks5ReplyNetworkUnreachable_def
  Socks5ReplyHostUnreachable_def Socks5ReplyConnectionRefused_def Socks5ReplyCommandNotSupported_def

lemma bind_ip_wire:
  assumes "srv_env_ok E" and "sv_listenUDP E = Some (ip, port)"
  shows "wire_addr \<lparr>FQDN = [], IP = socks5UDPAssociateBindIP (sv_tcpLocal E) (Some ip), Port = port\<rparr>"
proof -
  have "To16 (v4InV6Prefix @ [0, 0, 0, 0]) \<noteq> None" by (simp add: To16_def)
  then show ?thesis
    using assms by (auto simp: srv_env_ok_def wire_addr_def AddrType_0 socks5UDPAssociateBindIP_def split: option.splits)
qed

text \<open>A UDP association without a UDP listener.\<close>

definition cannot_listen :: "srv_env \<Rightarrow> Request \<Rightarrow> bool" where
  "cannot_listen E req \<longleftrightarrow> Command req = Socks5UDPAssociateCmd \<and> sv_listenUDP E = None"

lemma handle_command_answers:
  assumes "srv_env_ok E" and "\<not> a_broken c"
  shows "if cannot_listen E req then handle_command E req c = (Failed ListenFailed, c) else answers c (handle_command E req c)"
proof -
  have "answers c (handleConnect E req c)"
  proof (cases "sv_dial E (AddrSpec_String (DstAddr req))")
    case (Inl msg)
    then show ?thesis
      using assms(2) by (auto simp: handleConnect_def Let_def serving_def reply_codes intro!: reply_or_answers_code)
  next
    case (Inr ip)
    obtain a p where "ip = (a, p)" by (cases ip)
    then show ?thesis
      using Inr assms by (auto simp: handleConnect_def srv_env_ok_def serving_def intro!: reply_or_answers_code)
  qed
  moreover have "if sv_listenUDP E = None then handleAssociate E c = (Failed ListenFailed, c) else answers c (handleAssociate E c)"
  proof (cases "sv_listenUDP E")
    case (Some x)
    obtain ip port where x: "x = (ip, port)" by (cases x)
    have "0 \<le> port" "port < 65536" using assms(1) Some x by (auto simp: srv_env_ok_def)
    then show ?thesis
      using bind_ip_wire [OF assms(1) Some [unfolded x]] assms(2) Some x
      by (auto simp: handleAssociate_def handleAssociateDatagram_def handleAssociatePacketOverStream_def serving_def
          wire_addr_def AddrType_0 To16_def intro!: reply_or_answers_code)
  qed (simp add: handleAssociate_def handleAssociateDatagram_def handleAssociatePacketOverStream_def)
  moreover have "answers c (handleBind c)"
    using assms(2) by (auto simp: handleBind_def serving_def reply_codes intro!: reply_or_answers_code)
  ultimately show ?thesis
    using assms(2) unfolding handle_command_def cannot_listen_def
    by (auto simp: serving_def reply_codes socks5_consts Socks5ConnectCmd_def Socks5BindCmd_def Socks5UDPAssociateCmd_def intro!: reply_or_answers_code)
qed

lemma handleRequest_answers:
  assumes "srv_env_ok E" and "\<not> a_broken c"
  shows "cannot_listen E req \<and> handleRequest E req c = (Failed ListenFailed, c) \<or> answers c (handleRequest E req c)"
proof -
  have "cannot_listen E (req\<lparr>DstAddr := d\<rparr>) = cannot_listen E req" for d by (simp add: cannot_listen_def)
  moreover note handle_command_answers [OF assms]
  ultimately have "cannot_listen E req \<and> handle_command E (req\<lparr>DstAddr := d\<rparr>) c = (Failed ListenFailed, c) \<or>
      answers c (handle_command E (req\<lparr>DstAddr := d\<rparr>) c)" for d by metis
  moreover have "cannot_listen E req \<and> handle_command E req c = (Failed ListenFailed, c) \<or> answers c (handle_command E req c)"
    using handle_command_answers [OF assms, of req] by metis
  ultimately show ?thesis
    using assms(2) by (auto simp: handleRequest_def serving_def reply_codes intro!: reply_or_answers_code split: option.splits)
qed

text \<open>
  C27.  Every request that is served directly or rejected is answered with exactly one well-formed response, whose
  code is success exactly if the server goes on to copy data or to relay datagrams.  The one exception is a UDP associate request for
  which no UDP listener can be opened: it gets no response.
\<close>

theorem every_request_is_answered:
  assumes "srv_env_ok E" and "\<not> a_broken c" and "readRequest c = Inr (req, c0)"
    and "act_Action (egress_decision E req) \<in> {DIRECT, REJECT}" and "serve_request E c = (res, c')"
  shows "if res = Failed ListenFailed then Command req = Socks5UDPAssociateCmd \<and> sv_listenUDP E = None \<and> a_out c' = a_out c
    else \<exists>b resp. a_out c' = a_out c @ b \<and> ReadSocks5Response b = Inr (resp, []) \<and> (Reply resp = Socks5ReplySuccess \<longleftrightarrow> serving res)"
proof -
  have c0: "\<not> a_broken c0" "a_out c0 = a_out c"
    using assms(2,3) by (auto simp: readRequest_def and_then_Inr)
  have "cannot_listen E req \<and> serve_request E c = (Failed ListenFailed, c0) \<or> answers c0 (serve_request E c)"
    using assms(3,4) c0(1) handleRequest_answers [OF assms(1) c0(1), of req]
    by (cases "act_Action (egress_decision E req)")
      (auto simp: serve_request_def Let_def serving_def reply_codes intro!: reply_or_answers_code)
  then show ?thesis using assms(5) c0(2) by (auto simp: answers_def answered_def cannot_listen_def)
qed

theorem every_request_is_answered_witness:
  "\<exists>data res c' b resp. WriteSocks5Request 1 home_router = Inr data \<and> serve_request sample_srv (end_with data) = (res, c') \<and>
     a_out c' = b \<and> ReadSocks5Response b = Inr (resp, []) \<and> (Reply resp = Socks5ReplySuccess \<longleftrightarrow> serving res)"
proof -
  obtain data where d: "WriteSocks5Request 1 home_router = Inr data" using written_request [OF home_router_wire] by blast
  let ?req = "\<lparr>Command = 1, DstAddr = canonical home_router, req_Raw = data\<rparr>"
  have e: "srv_env_ok sample_srv"
    by (simp add: srv_env_ok_def sample_srv_def wire_addr_def AddrType_0 To16_def)
  have r: "readRequest (end_with data) = Inr (?req, (end_with data)\<lparr>a_in := []\<rparr>)"
    by (rule readRequest_written [OF home_router_wire d]) (simp add: end_with_def)
  have "\<not> may_use (sv_config sample_srv) (user_env sample_srv) home_router"
    using home_router_private sample_user_env by (simp add: may_use_def)
  then have "egress_decision sample_srv ?req = plain_action REJECT"
    unfolding egress_decision_def Request.simps user_env_def by (intro local_rejected [OF home_router_wire d]) (simp_all add: Socks5ConnectCmd_def)
  then have a: "act_Action (egress_decision sample_srv ?req) \<in> {DIRECT, REJECT}" by (simp add: plain_action_def)
  obtain res c' where s: "serve_request sample_srv (end_with data) = (res, c')" by fastforce
  have "res \<noteq> Failed ListenFailed"
    using every_request_is_answered [OF e _ r a s] by (auto simp: sample_srv_def end_with_def)
  then show ?thesis using every_request_is_answered [OF e _ r a s] d s by (auto simp: end_with_def)
qed

section \<open>The proxy client\<close>

lemma ReadSocks5Request_split:
  assumes "ReadSocks5Request r = Inr (req, r')"
  shows "r = req_Raw req @ r'"
proof -
  obtain v c z b a where b: "r = v # c # z # b" "ReadFromSocks5 b emptyAddr = Inr (a, r')" "req_Raw req = consumed r r'"
    using assms read_message [of r "\<lambda>c a raw. \<lparr>Command = c, DstAddr = a, req_Raw = raw\<rparr>" "(req, r')"]
    by (auto simp: ReadSocks5Request_def)
  obtain h where "b = h @ r'" using ReadFromSocks5_prefix [OF b(2)] by blast
  then have "r = (v # c # z # h) @ r'" using b(1) by simp
  then show ?thesis using b(3) consumed_append by metis
qed

lemma ReadSocks5Response_split:
  assumes "ReadSocks5Response r = Inr (resp, r')"
  shows "r = resp_Raw resp @ r' \<and> ReadSocks5Response (resp_Raw resp) = Inr (resp, [])"
proof -
  obtain v c z b a where b: "r = v # c # z # b" "ReadFromSocks5 b emptyAddr = Inr (a, r')"
      "resp = \<lparr>Reply = c, BindAddr = a, resp_Raw = consumed r r'\<rparr>"
    using assms by (auto simp: ReadSocks5Response_Inr)
  obtain h where h: "b = h @ r'" using ReadFromSocks5_prefix [OF b(2)] by blast
  then have raw: "consumed r r' = v # c # z # h" "r = (v # c # z # h) @ r'"
    using b(1) consumed_append [of "v # c # z # h" r'] by simp_all
  have "ReadFromSocks5 (h @ []) emptyAddr = Inr (a, [])"
    using ReadFromSocks5_extend b(2) unfolding h by blast
  then show ?thesis using raw b(3) by (auto simp: ReadSocks5Response_Inr)
qed

lemma auth_request_relayed:
  assumes "proxySocks5AuthReq u p = (None, u', p')"
  shows "\<exists>m r. a_in u = m @ a_in u' \<and> a_out p' = a_out p @ m \<and> a_in p = r @ a_in p' \<and> a_out u' = a_out u @ r \<and> length r = 2"
proof -
  obtain v r1 k r2 ms r3 resp q where s: "read_full 1 (a_in u) = Inr (v, r1)" "read_full 1 r1 = Inr (k, r2)"
      "read_full (unat (k ! 0)) r2 = Inr (ms, r3)" "read_full 2 (a_in p) = Inr (resp, q)"
      "u' = u\<lparr>a_in := r3, a_out := a_out u @ resp\<rparr>" "p' = p\<lparr>a_out := a_out p @ v @ k @ ms, a_in := q\<rparr>"
    using assms unfolding proxySocks5AuthReq_def Let_def by (auto split: sum.splits if_splits)
  show ?thesis
    using read_full_InrD [OF s(1)] read_full_InrD [OF s(2)] read_full_InrD [OF s(3)] read_full_InrD [OF s(4)] s(5,6)
    by (intro exI [of _ "v @ k @ ms"] exI [of _ resp]) simp
qed

lemma conn_request_relayed:
  assumes "proxySocks5ConnReq False l remote u p = (Inr (udp, pend), u', p')"
  shows "\<exists>req resp sent. a_in u = req @ a_in u' \<and> a_out p' = a_out p @ req \<and> pend = None \<and>
    a_in p = resp_Raw resp @ a_in p' \<and> a_out u' = a_out u @ resp_Raw sent \<and>
    ReadSocks5Response (resp_Raw sent) = Inr (sent, []) \<and>
    (case udp of None \<Rightarrow> sent = resp
     | Some port \<Rightarrow> l = Some port \<and> BindAddr sent = (BindAddr resp)\<lparr>Port := port\<rparr> \<and> Reply sent = Reply resp)"
proof -
  obtain req r resp q sent where s: "ReadSocks5Request (a_in u) = Inr (req, r)" "ReadSocks5Response (a_in p) = Inr (resp, q)"
      "u' = u\<lparr>a_in := r, a_out := a_out u @ resp_Raw sent\<rparr>" "p' = p\<lparr>a_out := a_out p @ req_Raw req, a_in := q\<rparr>" "pend = None"
      "udp = None \<and> sent = resp \<or> (\<exists>port. udp = Some port \<and> l = Some port \<and> rewriteSocks5ResponseBindPort (Some resp) port = Inr sent)"
    using assms unfolding proxySocks5ConnReq_def Let_def by (auto split: sum.splits if_splits option.splits)
  note rq = ReadSocks5Request_split [OF s(1)] and rs = ReadSocks5Response_split [OF s(2)]
  have "ReadSocks5Response (resp_Raw sent) = Inr (sent, []) \<and> (case udp of None \<Rightarrow> sent = resp
     | Some port \<Rightarrow> l = Some port \<and> BindAddr sent = (BindAddr resp)\<lparr>Port := port\<rparr> \<and> Reply sent = Reply resp)"
    using s(6)
  proof (elim disjE exE conjE)
    fix port assume port: "udp = Some port" "l = Some port" "rewriteSocks5ResponseBindPort (Some resp) port = Inr sent"
    then have "0 \<le> port" "port \<le> 65535"
      by (auto simp: rewriteSocks5ResponseBindPort_def split: if_splits)
    from patched_response [OF conjunct2 [OF rs] this] show ?thesis using port by auto
  qed (use rs in simp)
  then show ?thesis using rq rs s(3-5) by (intro exI [of _ "req_Raw req"] exI [of _ resp] exI [of _ sent]) simp
qed

text \<open>
  The proxy client passes the handshake through.  When it succeeds without the no-wait mode, the server has got
  exactly the bytes that were taken from the user, first the authentication methods and then the request, and the
  user has got exactly the bytes that were taken from the server, except that for a UDP association the
  response names the port of the client's own listener instead.
\<close>

theorem client_passes_handshake_through:
  "(proxySocks5AuthReq u p = (None, u', p') \<longrightarrow>
      (\<exists>m r. a_in u = m @ a_in u' \<and> a_out p' = a_out p @ m \<and> a_in p = r @ a_in p' \<and> a_out u' = a_out u @ r \<and> length r = 2)) \<and>
   (proxySocks5ConnReq False l remote u p = (Inr (udp, pend), u', p') \<longrightarrow>
      (\<exists>req resp sent. a_in u = req @ a_in u' \<and> a_out p' = a_out p @ req \<and> pend = None \<and>
         a_in p = resp_Raw resp @ a_in p' \<and> a_out u' = a_out u @ resp_Raw sent \<and>
         ReadSocks5Response (resp_Raw sent) = Inr (sent, []) \<and>
         (case udp of None \<Rightarrow> sent = resp
          | Some port \<Rightarrow> l = Some port \<and> BindAddr sent = (BindAddr resp)\<lparr>Port := port\<rparr> \<and> Reply sent = Reply resp)))"
  using auth_request_relayed conn_request_relayed by blast

theorem client_passes_handshake_through_witness:
  "\<exists>u' p' m. proxySocks5AuthReq (end_with [5, 1, 0]) (end_with [5, 0]) = (None, u', p') \<and> [5, 1, 0] = m @ a_in u' \<and> a_out p' = m"
proof -
  obtain u' p' where s: "proxySocks5AuthReq (end_with [5, 1, 0]) (end_with [5, 0]) = (None, u', p')"
    by (simp add: proxySocks5AuthReq_def read_full_def end_with_def auth_consts Let_def)
  with client_passes_handshake_through [of "end_with [5, 1, 0]" "end_with [5, 0]" u' p'] show ?thesis
    by (auto simp: end_with_def)
qed

lemma find_in: "find P xs = Some x \<Longrightarrow> x \<in> set xs \<and> P x"
  by (induction xs) (auto split: if_splits)

text \<open>
  The address chosen for a name is one of the addresses it resolves to, of the only family that is allowed, and of
  the preferred family whenever there is one; and an address is found unless the allowed family has none.
\<close>

theorem selected_ip_respects_preference:
  "(\<forall>ip. SelectIPFromList ips s = Some ip \<longrightarrow> ip \<in> set ips \<and>
      (s = ONLY_IPv4 \<or> s = PREFER_IPv4 \<and> (\<exists>x \<in> set ips. To4 x \<noteq> None) \<longrightarrow> To4 ip \<noteq> None) \<and>
      (s = ONLY_IPv6 \<or> s = PREFER_IPv6 \<and> (\<exists>x \<in> set ips. To4 x = None) \<longrightarrow> To4 ip = None)) \<and>
   (SelectIPFromList ips s = None \<longleftrightarrow>
      ips = [] \<or> s = ONLY_IPv4 \<and> (\<forall>x \<in> set ips. To4 x = None) \<or> s = ONLY_IPv6 \<and> (\<forall>x \<in> set ips. To4 x \<noteq> None))"
proof (cases "ips = []")
  case False
  have f4: "find (\<lambda>ip. To4 ip \<noteq> None) ips = None \<longleftrightarrow> (\<forall>x \<in> set ips. To4 x = None)"
    and f6: "find (\<lambda>ip. To4 ip = None) ips = None \<longleftrightarrow> (\<forall>x \<in> set ips. To4 x \<noteq> None)"
    by (auto simp: find_None_iff)
  have s4: "x \<in> set ips \<and> To4 x \<noteq> None" if "find (\<lambda>ip. To4 ip \<noteq> None) ips = Some x" for x
    using find_in [OF that] .
  have s6: "x \<in> set ips \<and> To4 x = None" if "find (\<lambda>ip. To4 ip = None) ips = Some x" for x
    using find_in [OF that] .
  have n: "(\<forall>x \<in> set ips. To4 x = None) \<Longrightarrow> \<not> (\<forall>x \<in> set ips. To4 x \<noteq> None)"
    using False by (cases ips) auto
  consider (v4) x y where "find (\<lambda>ip. To4 ip \<noteq> None) ips = Some x" "find (\<lambda>ip. To4 ip = None) ips = Some y"
    | (only4) x where "find (\<lambda>ip. To4 ip \<noteq> None) ips = Some x" "find (\<lambda>ip. To4 ip = None) ips = None"
    | (only6) y where "find (\<lambda>ip. To4 ip \<noteq> None) ips = None" "find (\<lambda>ip. To4 ip = None) ips = Some y"
    using f4 f6 n by (metis not_None_eq)
  then show ?thesis
  proof cases
    case v4
    then show ?thesis using False s4 [OF v4(1)] s6 [OF v4(2)]
      by (cases s) (auto simp: SelectIPFromList_def or_else_def)
  next
    case only4
    then show ?thesis using False s4 [OF only4(1)] f6
      by (cases s) (auto simp: SelectIPFromList_def or_else_def)
  next
    case only6
    then show ?thesis using False s6 [OF only6(2)] f4
      by (cases s) (auto simp: SelectIPFromList_def or_else_def)
  qed
qed (simp add: SelectIPFromList_def)

theorem selected_ip_respects_preference_witness:
  "SelectIPFromList [replicate 16 7, [10, 0, 0, 1]] PREFER_IPv4 \<noteq> None"
  using selected_ip_respects_preference [of "[replicate 16 7, [10, 0, 0, 1]]" PREFER_IPv4] by simp

end
