(* ===== verification/Socks_Client_Props.thy ===== *)
theory Socks_Client_Props
  imports Socks_Client Socks_Server_Props
begin

text \<open>
  Properties of the client side: a user that dials through the proxy client reaches the target at the proxy
  server, the mode that does not wait for the handshake moves the same data, and a UDP association has one
  user endpoint.
\<close>

section \<open>Both proxies together\<close>











lemma handshake_error_broken [simp]: "a_broken (handshake_error c) = a_broken c"
  by (simp add: handshake_error_def)








section \<open>Not waiting for the handshake\<close>




section \<open>Copying UDP datagrams\<close>

datatype bidi_event = BidiUp UDPAddr bytes | BidiDown

fun bidi_step :: "(UDPAddr \<Rightarrow> bytes \<Rightarrow> nat option) \<Rightarrow> bidi_event \<Rightarrow> bidi_udp \<Rightarrow> bidi_udp" where
  "bidi_step W (BidiUp a p) st = bidi_udp_up a p st"
| "bidi_step W BidiDown st = bidi_udp_down W st"

fun uploads :: "bidi_event list \<Rightarrow> (UDPAddr \<times> bytes) list" where
  "uploads [] = []"
| "uploads (BidiUp a p # es) = (a, p) # uploads es"
| "uploads (BidiDown # es) = uploads es"

lemma uploads_append [simp]: "uploads (xs @ ys) = uploads xs @ uploads ys"
  by (induction xs rule: uploads.induct) simp_all

definition new_bidi :: "bytes list \<Rightarrow> bidi_udp" where
  "new_bidi ps = \<lparr>bu_addr = None, bu_toTunnel = [], bu_fromTunnel = concat (map frame_packet ps), bu_toUser = [],
     bu_upErr = None, bu_downErr = None, bu_Errors = 0, bu_UploadPackets = 0, bu_UploadBytes = 0,
     bu_DownloadPackets = 0, bu_DownloadBytes = 0\<rparr>"

text \<open>
  What has been uploaded is a prefix of what has arrived, all from one endpoint, and what has been downloaded is a prefix
  of what is in the tunnel, all to that endpoint.
\<close>

definition up_inv :: "(UDPAddr \<times> bytes) list \<Rightarrow> bidi_udp \<Rightarrow> bool" where
  "up_inv ups st \<longleftrightarrow> (\<exists>k. k \<le> length ups \<and> bu_toTunnel st = concat (map (frame_packet \<circ> snd) (take k ups)) \<and>
     (bu_upErr st = None \<longrightarrow> k = length ups) \<and>
     (\<forall>x \<in> set (take k ups). \<exists>a. bu_addr st = Some a \<and> UDPAddr_String (fst x) = UDPAddr_String a))"

definition down_inv :: "bytes list \<Rightarrow> bidi_udp \<Rightarrow> bool" where
  "down_inv ps st \<longleftrightarrow> (\<exists>n. n \<le> length ps \<and> map snd (bu_toUser st) = take n ps \<and>
     (bu_downErr st = None \<longrightarrow> bu_fromTunnel st = concat (map frame_packet (drop n ps))) \<and>
     (\<forall>x \<in> set (bu_toUser st). bu_addr st = Some (fst x)))"

lemma bidi_udp_up_cases:
  obtains (stuck) "bu_toTunnel (bidi_udp_up a p st) = bu_toTunnel st" "bu_upErr (bidi_udp_up a p st) \<noteq> None"
      "bu_addr st \<noteq> None \<longrightarrow> bu_addr (bidi_udp_up a p st) = bu_addr st"
  | (wrote) b where "bu_upErr st = None" "bu_toTunnel (bidi_udp_up a p st) = bu_toTunnel st @ frame_packet p"
      "bu_addr (bidi_udp_up a p st) = Some b" "UDPAddr_String a = UDPAddr_String b" "bu_addr st = None \<or> bu_addr st = Some b"
proof (cases "bu_upErr st")
  case (Some e)
  then show ?thesis by (intro stuck) (simp_all add: bidi_udp_up_def)
next
  case None
  note defs = bidi_udp_up_def bidi_tunnel_write_def Tunnel_Write_def Let_def
  show ?thesis
  proof (cases "bu_addr st")
    case addr: None
    show ?thesis
    proof (cases "65535 < length p")
      case True
      then show ?thesis using None addr by (intro stuck) (simp_all add: defs)
    next
      case False
      then show ?thesis using None addr by (intro wrote [of a]) (simp_all add: defs)
    qed
  next
    case addr: (Some b)
    show ?thesis
    proof (cases "65535 < length p \<or> UDPAddr_String b \<noteq> UDPAddr_String a")
      case True
      then show ?thesis using None addr by (intro stuck) (auto simp: defs)
    next
      case False
      then show ?thesis using None addr by (intro wrote [of b]) (simp_all add: defs)
    qed
  qed
qed

lemma up_inv_step:
  assumes "up_inv ups st"
  shows "up_inv (ups @ [(a, p)]) (bidi_udp_up a p st)"
proof -
  obtain k where k: "k \<le> length ups" "bu_toTunnel st = concat (map (frame_packet \<circ> snd) (take k ups))"
      "bu_upErr st = None \<longrightarrow> k = length ups"
      "\<forall>x \<in> set (take k ups). \<exists>a. bu_addr st = Some a \<and> UDPAddr_String (fst x) = UDPAddr_String a"
    using assms unfolding up_inv_def by (elim exE conjE) (rule that)
  show ?thesis
  proof (cases rule: bidi_udp_up_cases [of a p st])
    case stuck
    have "\<forall>x \<in> set (take k ups). \<exists>b. bu_addr (bidi_udp_up a p st) = Some b \<and> UDPAddr_String (fst x) = UDPAddr_String b"
    proof
      fix x
      assume "x \<in> set (take k ups)"
      then obtain b where "bu_addr st = Some b" "UDPAddr_String (fst x) = UDPAddr_String b" using k(4) by blast
      then show "\<exists>b. bu_addr (bidi_udp_up a p st) = Some b \<and> UDPAddr_String (fst x) = UDPAddr_String b"
        using stuck(3) by (intro exI [of _ b]) simp
    qed
    then show ?thesis
      unfolding up_inv_def using k(1,2) stuck(1,2) by (intro exI [of _ k]) simp
  next
    case (wrote b)
    have "UDPAddr_String (fst x) = UDPAddr_String b" if x: "x \<in> set ups" for x
    proof -
      obtain c where "bu_addr st = Some c" "UDPAddr_String (fst x) = UDPAddr_String c"
        using k(3,4) wrote(1) x by fastforce
      then show ?thesis using wrote(5) by simp
    qed
    then show ?thesis
      unfolding up_inv_def using k(2,3) wrote(1-4) by (intro exI [of _ "Suc (length ups)"]) simp
  qed
qed

lemma up_inv_down: "up_inv ups st \<Longrightarrow> up_inv ups (bidi_udp_down W st)"
proof -
  have "bu_toTunnel (bidi_udp_down W st) = bu_toTunnel st" "bu_upErr (bidi_udp_down W st) = bu_upErr st"
      "bu_addr (bidi_udp_down W st) = bu_addr st"
    by (simp_all add: bidi_udp_down_def Let_def split: prod.splits sum.splits option.splits)
  then show "up_inv ups st \<Longrightarrow> ?thesis" by (simp add: up_inv_def)
qed

lemma down_inv_up: "down_inv ps st \<Longrightarrow> down_inv ps (bidi_udp_up a p st)"
proof -
  have "bu_toUser (bidi_udp_up a p st) = bu_toUser st" "bu_downErr (bidi_udp_up a p st) = bu_downErr st"
      "bu_fromTunnel (bidi_udp_up a p st) = bu_fromTunnel st"
      "bu_addr st \<noteq> None \<longrightarrow> bu_addr (bidi_udp_up a p st) = bu_addr st"
    by (auto simp: bidi_udp_up_def bidi_tunnel_write_def Tunnel_Write_def Let_def split: if_splits option.splits)
  then show "down_inv ps st \<Longrightarrow> ?thesis" by (fastforce simp: down_inv_def)
qed

lemma down_inv_step:
  assumes "down_inv ps st" and "\<forall>p \<in> set ps. length p \<le> 65535"
  shows "down_inv ps (bidi_udp_down W st)"
proof -
  obtain n where n: "n \<le> length ps" "map snd (bu_toUser st) = take n ps"
      "bu_downErr st = None \<longrightarrow> bu_fromTunnel st = concat (map frame_packet (drop n ps))"
      "\<forall>x \<in> set (bu_toUser st). bu_addr st = Some (fst x)"
    using assms(1) unfolding down_inv_def by (elim exE conjE) (rule that)
  have same: "down_inv ps st'" if "bu_toUser st' = bu_toUser st" "bu_addr st' = bu_addr st" "bu_downErr st' \<noteq> None" for st'
    unfolding down_inv_def using n(1,2,4) that by (intro exI [of _ n]) auto
  show ?thesis
  proof (cases "bu_downErr st")
    case None
    note down = bidi_udp_down_def
    show ?thesis
    proof (cases "n = length ps")
      case True
      then have "Tunnel_Read (2 ^ 16) (bu_fromTunnel st) = (Inl (StreamRead EOF), [])"
        using n(3) None by (simp add: Tunnel_Read_def read_then_def read_full_def)
      then show ?thesis using None by (intro same) (simp_all add: down)
    next
      case False
      then have d: "drop n ps = ps ! n # drop (Suc n) ps" "n < length ps"
        using n(1) by (simp_all add: Cons_nth_drop_Suc)
      have r: "Tunnel_Read (2 ^ 16) (bu_fromTunnel st) = (Inr (ps ! n), concat (map frame_packet (drop (Suc n) ps)))"
        using n(3) None d assms(2) [rule_format, of "ps ! n"] by (simp add: Tunnel_Read_frame)
      show ?thesis
      proof (cases "\<exists>a w. bu_addr st = Some a \<and> W a (ps ! n) = Some w")
        case True
        then obtain a w where a: "bu_addr st = Some a" "W a (ps ! n) = Some w" by blast
        then show ?thesis
          unfolding down_inv_def using n d None r
          by (intro exI [of _ "Suc n"]) (simp add: down Let_def take_Suc_conv_app_nth)
      next
        case False
        then show ?thesis
          using None r by (intro same) (auto simp: down Let_def split: option.splits)
      qed
    qed
  qed (use assms(1) in \<open>simp add: bidi_udp_down_def\<close>)
qed

text \<open>
  A UDP association has one user.  In every interleaving of the two directions, the tunnel gets the datagrams of the first
  endpoint only, each framed, in order and without a gap up to the first error, and every packet from the
  tunnel goes to that endpoint, unchanged, in order and without a gap.
\<close>

theorem udp_copy_has_one_user:
  assumes "\<forall>p \<in> set ps. length p \<le> 65535" and "st = fold (bidi_step W) es (new_bidi ps)"
  shows "(\<exists>k. bu_toTunnel st = concat (map (frame_packet \<circ> snd) (take k (uploads es))) \<and>
      (bu_upErr st = None \<longrightarrow> k = length (uploads es)) \<and>
      (\<forall>x \<in> set (take k (uploads es)). \<exists>a. bu_addr st = Some a \<and> UDPAddr_String (fst x) = UDPAddr_String a)) \<and>
    (\<exists>n. map snd (bu_toUser st) = take n ps) \<and> (\<forall>x \<in> set (bu_toUser st). bu_addr st = Some (fst x))"
proof -
  have "up_inv (uploads es) (fold (bidi_step W) es (new_bidi ps)) \<and> down_inv ps (fold (bidi_step W) es (new_bidi ps))"
  proof (induction es rule: rev_induct)
    case Nil
    then show ?case by (auto simp: up_inv_def down_inv_def new_bidi_def intro!: exI [of _ 0])
  next
    case (snoc e es)
    then show ?case
      using assms(1) by (cases e) (simp_all add: up_inv_step up_inv_down down_inv_up down_inv_step)
  qed
  then have u: "up_inv (uploads es) st" and d: "down_inv ps st" unfolding assms(2) by simp_all
  from d obtain n where n: "map snd (bu_toUser st) = take n ps" "\<forall>x \<in> set (bu_toUser st). bu_addr st = Some (fst x)"
    unfolding down_inv_def by (elim exE conjE) (rule that)
  from u obtain k where "bu_toTunnel st = concat (map (frame_packet \<circ> snd) (take k (uploads es)))"
      "bu_upErr st = None \<longrightarrow> k = length (uploads es)"
      "\<forall>x \<in> set (take k (uploads es)). \<exists>a. bu_addr st = Some a \<and> UDPAddr_String (fst x) = UDPAddr_String a"
    unfolding up_inv_def by (elim exE conjE) (rule that)
  with n show ?thesis by (intro conjI exI [of _ k] exI [of _ n])
qed

theorem udp_copy_has_one_user_witness:
  "\<exists>k n. let a = \<lparr>udp_IP = [127, 0, 0, 1], udp_Port = 4000, udp_Zone = []\<rparr>;
       st = fold (bidi_step (\<lambda>_ p. Some (length p))) [BidiUp a [1], BidiDown] (new_bidi [[7]])
     in bu_toTunnel st = concat (map (frame_packet \<circ> snd) (take k [(a, [1])])) \<and> map snd (bu_toUser st) = take n [[7]]"
  using udp_copy_has_one_user [of "[[7]]" _ "\<lambda>_ p. Some (length p)"
      "[BidiUp \<lparr>udp_IP = [127, 0, 0, 1], udp_Port = 4000, udp_Zone = []\<rparr> [1], BidiDown]", OF _ refl]
  by (auto simp: Let_def)

section \<open>Datagrams of the dialer\<close>

text \<open>
  The packet connection of the dialer speaks the format of the relay.  A packet written for an address with a
  wire form goes to the server and is parsed there as the address and the payload; and reading returns the
  payload of the next datagram that comes from the server, cut to the caller's buffer, whatever other endpoints send before.
\<close>

theorem packet_conn_round_trip:
  assumes "cp_serverListenAddr c = Some server" and "\<And>pkt. W pkt (Some server)" and "wire_addr a"
    and "\<forall>x \<in> set noise. \<not> sameUDPAddr (Some (fst x)) (Some server)" and "sameUDPAddr (Some from_addr) (Some server)"
  shows "\<exists>pkt. clientPacketConn_WriteTo W c p (Some (NetAddr \<lparr>Addr = a, Net = net\<rparr>)) = (Inr (length p), [(Some server, pkt)]) \<and>
      (\<exists>dg. parseSocks5UDPDatagram pkt = Inr dg \<and> dg_Addr dg = canonical a \<and> dg_Payload dg = p) \<and>
      clientPacketConn_ReadFrom c n (noise @ (from_addr, pkt) # ins) = Some (Inr (take n p, cp_remoteAddr c), ins)"
proof -
  obtain h where h: "newSocks5UDPDatagram a p = Inr (h @ p)"
      "parseSocks5UDPDatagram (h @ p) = Inr \<lparr>dg_Addr = canonical a, dg_Header = h, dg_Payload = p\<rparr>"
    using new_datagram [OF assms(3)] by (auto simp: udp_header_def)
  let ?pkt = "h @ p"
  have "clientPacketConn_ReadFrom c n (noise @ (from_addr, ?pkt) # ins) = Some (Inr (take n p, cp_remoteAddr c), ins)"
    using assms(4)
  proof (induction noise)
    case Nil
    then show ?case using assms(1,5) h by (simp add: unwrapSocks5UDPPacket_def)
  next
    case (Cons x noise)
    then show ?case using assms(1) by (cases x) simp
  qed
  then show ?thesis
    using assms(1,2) h
    by (intro exI [of _ ?pkt]) (simp add: clientPacketConn_WriteTo_def wrapSocks5UDPPacket_def NetAddrSpec_From_def)
qed

theorem packet_conn_round_trip_witness:
  "\<exists>pkt. clientPacketConn_ReadFrom
      \<lparr>cp_ctrlConn = end_with [], cp_serverListenAddr = Some \<lparr>udp_IP = [10, 0, 0, 1], udp_Port = 4000, udp_Zone = []\<rparr>,
       cp_remoteAddr = NetAddr \<lparr>Addr = example_host, Net = ''udp''\<rparr>\<rparr> 8
      [(\<lparr>udp_IP = [10, 0, 0, 2], udp_Port = 4000, udp_Zone = []\<rparr>, [9]), (\<lparr>udp_IP = [10, 0, 0, 1], udp_Port = 4000, udp_Zone = []\<rparr>, pkt)] =
    Some (Inr ([1, 2], NetAddr \<lparr>Addr = example_host, Net = ''udp''\<rparr>), [])"
proof -
  let ?s = "\<lparr>udp_IP = [10, 0, 0, 1], udp_Port = 4000, udp_Zone = []\<rparr>"
  let ?o = "\<lparr>udp_IP = [10, 0, 0, 2], udp_Port = 4000, udp_Zone = []\<rparr>"
  have "\<not> sameUDPAddr (Some ?o) (Some ?s)" by code_simp
  then show ?thesis
    using packet_conn_round_trip [of "\<lparr>cp_ctrlConn = end_with [], cp_serverListenAddr = Some ?s,
        cp_remoteAddr = NetAddr \<lparr>Addr = example_host, Net = ''udp''\<rparr>\<rparr>" ?s "\<lambda>_ _. True" example_host "[(?o, [9])]" ?s "[1, 2]" _ 8 "[]"]
      example_host_wire by auto
qed

end
