(* ===== verification/Replay.thy ===== *)
theory Replay
  imports Prelude
begin

text \<open>
  The replay cache, \<^verbatim>\<open>pkg/replay/replay.go\<close>: two generations of packet signatures with the tag they were
  first seen with.  A map is an association list with distinct keys, times are nanoseconds, and the result of the
  clock is an argument.  The lemmas show that a replayed packet is detected, that new packets pass, and that the
  memory is bounded.
\<close>

section \<open>The cache\<close>

definition EmptyTag :: string where "EmptyTag = ''''"

type_synonym signatures = "(u64 \<times> string) list"

record ReplayCache =
  rc_capacity :: int
  rc_expireTime :: int
  rc_expireInterval :: int
  rc_current :: signatures
  rc_previous :: signatures

text \<open>The result \<open>None\<close> is a panic.\<close>

definition NewCache :: "int \<Rightarrow> int \<Rightarrow> int \<Rightarrow> ReplayCache option" where
  "NewCache now capacity expireInterval =
     (if capacity < 0 then None
      else if expireInterval \<le> 0 then None
      else Some \<lparr>rc_capacity = capacity, rc_expireTime = now + expireInterval, rc_expireInterval = expireInterval,
        rc_current = [], rc_previous = []\<rparr>)"

text \<open>The 64-bit FNV-1a hash of \<^verbatim>\<open>hash/fnv\<close>.\<close>

definition computeSignature :: "bytes \<Rightarrow> u64" where
  "computeSignature data = foldl (\<lambda>h b. (h XOR ucast b) * 1099511628211) 14695981039346656037 data"

definition expire :: "int \<Rightarrow> ReplayCache \<Rightarrow> ReplayCache" where
  "expire now c =
     (if now - rc_expireTime c > rc_expireInterval c
      then c\<lparr>rc_current := [], rc_previous := [], rc_expireTime := now + rc_expireInterval c\<rparr> else c)"

definition rotate_gen :: "int \<Rightarrow> ReplayCache \<Rightarrow> ReplayCache" where
  "rotate_gen now c =
     (if int (length (rc_current c)) \<ge> rc_capacity c \<or> now > rc_expireTime c
      then c\<lparr>rc_previous := rc_current c, rc_current := [], rc_expireTime := now + rc_expireInterval c\<rparr> else c)"

definition same_packet :: "string \<Rightarrow> string \<Rightarrow> bool" where
  "same_packet existingTag tag = (if existingTag = EmptyTag \<or> tag = EmptyTag then True else existingTag \<noteq> tag)"

definition lookup_tag :: "u64 \<Rightarrow> string \<Rightarrow> ReplayCache \<Rightarrow> bool \<times> ReplayCache" where
  "lookup_tag signature tag c =
     (case map_of (rc_current c) signature of
        Some existingTag \<Rightarrow> (same_packet existingTag tag, c)
      | None \<Rightarrow>
          let c = c\<lparr>rc_current := (signature, tag) # rc_current c\<rparr>
          in (case map_of (rc_previous c) signature of
                Some existingTag \<Rightarrow> (same_packet existingTag tag, c)
              | None \<Rightarrow> (False, c)))"

definition IsDuplicate :: "int \<Rightarrow> bytes \<Rightarrow> string \<Rightarrow> ReplayCache option \<Rightarrow> bool \<times> ReplayCache option" where
  "IsDuplicate now data tag copt =
     (case copt of
        None \<Rightarrow> (False, None)
      | Some c \<Rightarrow>
          if rc_capacity c = 0 then (False, Some c)
          else map_prod id Some (lookup_tag (computeSignature data) tag (rotate_gen now (expire now c))))"

definition Sizes :: "ReplayCache \<Rightarrow> nat \<times> nat" where
  "Sizes c = (length (rc_current c), length (rc_previous c))"

definition Clear_cache :: "ReplayCache \<Rightarrow> ReplayCache" where
  "Clear_cache c = c\<lparr>rc_current := [], rc_previous := []\<rparr>"

section \<open>Invariant\<close>

text \<open>
  A call is the time, the data and the tag.  In an enabled cache each generation has distinct keys and at most
  \<^verbatim>\<open>capacity\<close> entries.
\<close>

type_synonym replay_call = "int \<times> bytes \<times> string"

definition call :: "replay_call \<Rightarrow> ReplayCache \<Rightarrow> bool \<times> ReplayCache" where
  "call x c = (case x of (now, data, tag) \<Rightarrow> lookup_tag (computeSignature data) tag (rotate_gen now (expire now c)))"

lemma IsDuplicate_call:
  "rc_capacity c \<noteq> 0 \<Longrightarrow> IsDuplicate now data tag (Some c) = map_prod id Some (call (now, data, tag) c)"
  by (simp add: IsDuplicate_def call_def)

fun calls :: "replay_call list \<Rightarrow> ReplayCache \<Rightarrow> ReplayCache" where
  "calls [] c = c"
| "calls (x # xs) c = calls xs (snd (call x c))"

lemma calls_append [simp]: "calls (xs @ ys) c = calls ys (calls xs c)"
  by (induction xs arbitrary: c) simp_all

definition cache_inv :: "ReplayCache \<Rightarrow> bool" where
  "cache_inv c \<longleftrightarrow> rc_capacity c > 0 \<and> rc_expireInterval c > 0 \<and>
     distinct (map fst (rc_current c)) \<and> int (length (rc_current c)) \<le> rc_capacity c \<and>
     distinct (map fst (rc_previous c)) \<and> int (length (rc_previous c)) \<le> rc_capacity c"

lemma rotate_room: "rc_capacity c > 0 \<Longrightarrow> int (length (rc_current (rotate_gen now c))) < rc_capacity c"
  by (simp add: rotate_gen_def)

lemma maintenance_simps [simp]:
  "rc_capacity (rotate_gen now c) = rc_capacity c" "rc_capacity (expire now c) = rc_capacity c"
  "rc_expireInterval (rotate_gen now c) = rc_expireInterval c" "rc_expireInterval (expire now c) = rc_expireInterval c"
  by (simp_all add: rotate_gen_def expire_def)

lemma maintenance_inv: "cache_inv c \<Longrightarrow> cache_inv (rotate_gen now (expire now c))"
  by (auto simp: cache_inv_def rotate_gen_def expire_def)

lemma lookup_tag_state:
  "snd (lookup_tag s g c) = (if map_of (rc_current c) s = None then c\<lparr>rc_current := (s, g) # rc_current c\<rparr> else c)"
  by (auto simp: lookup_tag_def Let_def split: option.splits)

lemma call_inv: "cache_inv c \<Longrightarrow> cache_inv (snd (call x c))"
proof -
  assume i: "cache_inv c"
  obtain now data tag where x: "x = (now, data, tag)" by (cases x)
  let ?m = "rotate_gen now (expire now c)"
  have m: "cache_inv ?m" "int (length (rc_current ?m)) < rc_capacity ?m"
    using maintenance_inv [OF i] rotate_room [of "expire now c" now] i by (simp_all add: cache_inv_def)
  have "cache_inv (snd (lookup_tag s tag ?m))" for s
    using m by (auto simp: lookup_tag_state cache_inv_def map_of_eq_None_iff)
  then show ?thesis by (simp add: call_def x)
qed

lemma calls_inv: "cache_inv c \<Longrightarrow> cache_inv (calls xs c)"
  by (induction xs arbitrary: c) (simp_all add: call_inv)

lemma NewCache_inv: "NewCache now cap ival = Some c \<Longrightarrow> cap \<noteq> 0 \<Longrightarrow> cache_inv c"
  by (auto simp: NewCache_def cache_inv_def split: if_splits)

section \<open>Detection\<close>

text \<open>
  A signature that has been accepted with some tag at time \<open>t\<close> is remembered: it is in the current generation, or it is in the
  previous one and the current one is younger than \<open>t\<close> and has had at most \<open>k\<close> calls.  Every tag stored for
  it makes a packet with tag \<open>g\<close> a duplicate.
\<close>

definition held :: "u64 \<Rightarrow> string \<Rightarrow> signatures \<Rightarrow> bool" where
  "held s g m \<longleftrightarrow> (\<exists>x. map_of m s = Some x \<and> same_packet x g)"

definition remembered :: "u64 \<Rightarrow> string \<Rightarrow> int \<Rightarrow> nat \<Rightarrow> ReplayCache \<Rightarrow> bool" where
  "remembered s g t k c \<longleftrightarrow> t \<le> rc_expireTime c \<and> (\<forall>x. map_of (rc_current c) s = Some x \<longrightarrow> same_packet x g) \<and>
     (held s g (rc_current c) \<or>
      held s g (rc_previous c) \<and> t + rc_expireInterval c \<le> rc_expireTime c \<and> length (rc_current c) \<le> k)"

lemma remembered_hit:
  assumes "remembered s g t k c"
  shows "fst (lookup_tag s g c)"
  using assms by (auto simp: remembered_def held_def lookup_tag_def Let_def split: option.splits)

lemma remembered_maintenance:
  assumes "remembered s g t k c" and "t \<le> now" and "now \<le> t + rc_expireInterval c" and "int k < rc_capacity c"
    and "rc_expireInterval c > 0"
  shows "remembered s g t k (rotate_gen now (expire now c))"
proof -
  have e: "expire now c = c" using assms(1,3) by (simp add: expire_def remembered_def)
  show ?thesis
  proof (cases "int (length (rc_current c)) \<ge> rc_capacity c \<or> now > rc_expireTime c")
    case True
    then have "held s g (rc_current c)" using assms(1,3,4) by (auto simp: remembered_def)
    then show ?thesis using True e assms(2,5) by (auto simp: remembered_def rotate_gen_def)
  next
    case False
    then show ?thesis using assms(1) e by (simp add: rotate_gen_def)
  qed
qed

lemma remembered_lookup:
  assumes "remembered s g t k c" and "s' = s \<longrightarrow> same_packet g' g"
  shows "remembered s g t (Suc k) (snd (lookup_tag s' g' c))"
  using assms by (auto simp: remembered_def held_def lookup_tag_state split: if_splits)

lemma remembered_call:
  assumes "remembered s g t k c" and "t \<le> now" and "now \<le> t + rc_expireInterval c" and "int k < rc_capacity c"
    and "rc_expireInterval c > 0" and "computeSignature data = s \<longrightarrow> same_packet g' g"
  shows "remembered s g t (Suc k) (snd (call (now, data, g') c))"
  using remembered_lookup [OF remembered_maintenance [OF assms(1-5)] assms(6)] by (simp add: call_def)

lemma call_config [simp]:
  "rc_capacity (snd (call x c)) = rc_capacity c" "rc_expireInterval (snd (call x c)) = rc_expireInterval c"
  by (cases x; simp add: call_def lookup_tag_state)+

lemma remembered_calls:
  assumes "remembered s g t k c" and "\<forall>(now, data, g') \<in> set xs. t \<le> now \<and> now \<le> t + rc_expireInterval c \<and>
      (computeSignature data = s \<longrightarrow> same_packet g' g)"
    and "int (k + length xs) \<le> rc_capacity c" and "rc_expireInterval c > 0"
  shows "remembered s g t (k + length xs) (calls xs c)"
  using assms
proof (induction xs arbitrary: c k)
  case (Cons x xs)
  obtain now data g' where x: "x = (now, data, g')" by (cases x)
  have "remembered s g t (Suc k) (snd (call x c))"
    using Cons.prems remembered_call [of s g t k c now data g'] by (simp add: x)
  then show ?case using Cons.IH [of "Suc k" "snd (call x c)"] Cons.prems by simp
qed simp

lemma accepted_remembered:
  assumes "call (t, data, g0) c = (False, c')" and "cache_inv c" and "same_packet g0 g"
  shows "remembered (computeSignature data) g t 0 c'"
proof -
  let ?m = "rotate_gen t (expire t c)" and ?s = "computeSignature data"
  have t: "t \<le> rc_expireTime ?m" using assms(2) by (auto simp: rotate_gen_def expire_def cache_inv_def)
  have l: "lookup_tag ?s g0 ?m = (False, c')" using assms(1) by (simp add: call_def)
  then have "map_of (rc_current c') ?s = Some g0"
    by (auto simp: lookup_tag_def Let_def same_packet_def split: option.splits if_splits)
  moreover have "rc_expireTime c' = rc_expireTime ?m"
    using l lookup_tag_state [of ?s g0 ?m] by (simp split: if_splits)
  ultimately show ?thesis using t assms(3) by (simp add: remembered_def held_def)
qed

text \<open>
  C36.  A replayed packet is detected.  Let a packet have been accepted with a tag, and let the same data arrive again within the
  expire interval, with another tag or when one of the tags is empty, and fewer than \<^verbatim>\<open>capacity\<close> calls in between.
  Then it is reported as a duplicate, provided that no call in between has presented the same signature with the
  later tag.
\<close>

theorem replay_is_detected:
  assumes "cache_inv c" and "IsDuplicate t data g0 (Some c) = (False, Some c1)"
    and "\<forall>(now, data', g') \<in> set xs. t \<le> now \<and> now \<le> t' \<and> (computeSignature data' = computeSignature data \<longrightarrow> same_packet g' g)"
    and "t \<le> t'" and "t' \<le> t + rc_expireInterval c" and "int (length xs) < rc_capacity c"
    and "g = EmptyTag \<or> g0 = EmptyTag \<or> g \<noteq> g0"
  shows "fst (IsDuplicate t' data g (Some (calls xs c1)))"
proof -
  let ?s = "computeSignature data"
  have cap: "rc_capacity c > 0" "rc_expireInterval c > 0" using assms(1) by (simp_all add: cache_inv_def)
  then have d: "call (t, data, g0) c = (False, c1)" using assms(2) by (simp add: IsDuplicate_call map_prod_def split: prod.splits)
  have c1: "rc_capacity c1 = rc_capacity c" "rc_expireInterval c1 = rc_expireInterval c"
    using call_config [of "(t, data, g0)" c] d by simp_all
  have "remembered ?s g t 0 c1" using accepted_remembered [OF d assms(1)] assms(7) by (auto simp: same_packet_def)
  then have "remembered ?s g t (length xs) (calls xs c1)"
    using remembered_calls [of ?s g t 0 c1 xs] assms(3,5,6) c1 cap by fastforce
  moreover have "rc_capacity (calls xs c1) = rc_capacity c" "rc_expireInterval (calls xs c1) = rc_expireInterval c"
    using c1 by (induction xs arbitrary: c1) auto
  ultimately have "remembered ?s g t (length xs) (rotate_gen t' (expire t' (calls xs c1)))"
    using remembered_maintenance assms(4-6) cap by simp
  then show ?thesis
    using remembered_hit cap \<open>rc_capacity (calls xs c1) = rc_capacity c\<close> by (simp add: IsDuplicate_call call_def)
qed

definition sample_cache :: ReplayCache where
  "sample_cache = \<lparr>rc_capacity = 2, rc_expireTime = 100, rc_expireInterval = 100, rc_current = [], rc_previous = []\<rparr>"

lemma sample_cache_inv: "cache_inv sample_cache"
  by (simp add: cache_inv_def sample_cache_def)

theorem replay_is_detected_witness:
  "fst (IsDuplicate 60 [1, 2] ''b'' (Some (calls [(20, [3], ''a'')] (snd (call (10, [1, 2], ''a'') sample_cache)))))"
proof (rule replay_is_detected [OF sample_cache_inv])
  show "IsDuplicate 10 [1, 2] ''a'' (Some sample_cache) = (False, Some (snd (call (10, [1, 2], ''a'') sample_cache)))"
    by code_simp
  have "computeSignature [3] \<noteq> computeSignature [1, 2]" by code_simp
  then show "\<forall>(now, data', g') \<in> set [(20 :: int, [3], ''a'')]. 10 \<le> now \<and> now \<le> 60 \<and>
      (computeSignature data' = computeSignature [1, 2] \<longrightarrow> same_packet g' ''b'')" by simp
qed (simp_all add: sample_cache_def EmptyTag_def)

text \<open>
  C37.  A replay that has been rejected can be accepted when it is repeated.  Once the original packet is in the previous
  generation, the rejected replay enters the current generation with its own tag, so that the same packet with the same
  tag is not a duplicate any more.
\<close>

theorem rejected_replay_passes_later:
  assumes "rc_capacity c > 1" and "length (rc_current c) + 1 < nat (rc_capacity c)" and "now \<le> now'" and "now' \<le> rc_expireTime c"
    and "rc_expireInterval c > 0" and "map_of (rc_current c) (computeSignature data) = None"
    and "map_of (rc_previous c) (computeSignature data) = Some g0" and "g0 \<noteq> EmptyTag" and "g \<noteq> EmptyTag" and "g \<noteq> g0"
  shows "\<exists>c1 c2. IsDuplicate now data g (Some c) = (True, Some c1) \<and> IsDuplicate now' data g (Some c1) = (False, Some c2)"
proof -
  let ?s = "computeSignature data"
  let ?c1 = "c\<lparr>rc_current := (?s, g) # rc_current c\<rparr>"
  have quiet: "rotate_gen n (expire n x) = x"
    if "n \<le> rc_expireTime x" "rc_expireInterval x > 0" "int (length (rc_current x)) < rc_capacity x" for n x
    using that by (simp add: rotate_gen_def expire_def)
  have 1: "IsDuplicate now data g (Some c) = (True, Some ?c1)"
    using quiet [of now c] assms by (simp add: IsDuplicate_def lookup_tag_def same_packet_def Let_def)
  have "IsDuplicate now' data g (Some ?c1) = (False, Some ?c1)"
    using quiet [of now' ?c1] assms by (simp add: IsDuplicate_def lookup_tag_def same_packet_def Let_def)
  with 1 show ?thesis by blast
qed

definition aged_cache :: ReplayCache where
  "aged_cache = \<lparr>rc_capacity = 4, rc_expireTime = 100, rc_expireInterval = 100, rc_current = [],
     rc_previous = [(computeSignature [1, 2], ''alice'')]\<rparr>"

theorem rejected_replay_passes_later_witness:
  "\<exists>c1 c2. IsDuplicate 10 [1, 2] ''mallory'' (Some aged_cache) = (True, Some c1) \<and>
     IsDuplicate 11 [1, 2] ''mallory'' (Some c1) = (False, Some c2)"
  using rejected_replay_passes_later [of aged_cache 10 11 "[1, 2]" "''alice''" "''mallory''"]
  by (simp add: aged_cache_def EmptyTag_def)

section \<open>Fresh packets and memory\<close>

definition seen :: "ReplayCache \<Rightarrow> u64 set" where
  "seen c = fst ` set (rc_current c) \<union> fst ` set (rc_previous c)"

lemma maintenance_seen: "seen (rotate_gen now (expire now c)) \<subseteq> seen c"
  by (auto simp: seen_def rotate_gen_def expire_def)

lemma call_seen: "seen (snd (call (now, data, g) c)) \<subseteq> insert (computeSignature data) (seen c)"
  using maintenance_seen [of now c] by (auto simp: call_def lookup_tag_state seen_def)

lemma calls_seen: "seen (calls xs c) \<subseteq> seen c \<union> (\<lambda>(now, data, g). computeSignature data) ` set xs"
proof (induction xs arbitrary: c)
  case (Cons x xs)
  obtain now data g where x: "x = (now, data, g)" by (cases x)
  show ?case using Cons.IH [of "snd (call x c)"] call_seen [of now data g c] by (auto simp: x)
qed simp

lemma unseen_passes:
  assumes "computeSignature data \<notin> seen c"
  shows "\<not> fst (call (now, data, g) c)"
proof -
  let ?m = "rotate_gen now (expire now c)"
  have "computeSignature data \<notin> seen ?m" using assms maintenance_seen by blast
  then have "map_of (rc_current ?m) (computeSignature data) = None" "map_of (rc_previous ?m) (computeSignature data) = None"
    by (auto simp: seen_def map_of_eq_None_iff)
  then show ?thesis by (simp add: call_def lookup_tag_def Let_def)
qed

text \<open>
  Only packets whose signature has been presented before are reported, whatever the times and tags of the calls, and the
  two generations never hold more than \<^verbatim>\<open>capacity\<close> entries each.
\<close>

theorem fresh_packet_passes:
  assumes "NewCache t0 cap ival = Some c" and "cap \<noteq> 0"
  shows "(fst (IsDuplicate t data g (Some (calls xs c))) \<longrightarrow> (\<exists>(now, data', g') \<in> set xs. computeSignature data' = computeSignature data)) \<and>
    int (fst (Sizes (calls xs c))) \<le> cap \<and> int (snd (Sizes (calls xs c))) \<le> cap"
proof -
  have c: "cache_inv c" "seen c = {}" "rc_capacity c = cap"
    using NewCache_inv [OF assms] assms(1) by (auto simp: NewCache_def seen_def split: if_splits)
  have i: "cache_inv (calls xs c)" by (rule calls_inv [OF c(1)])
  have cap: "rc_capacity (calls xs c) = cap" using c(3) by (induction xs arbitrary: c) auto
  have s: "computeSignature data \<in> seen (calls xs c)" if "fst (IsDuplicate t data g (Some (calls xs c)))"
    using that unseen_passes [of data "calls xs c" t g] i by (auto simp: IsDuplicate_call cache_inv_def)
  have "\<exists>(now, data', g') \<in> set xs. computeSignature data' = computeSignature data"
    if "fst (IsDuplicate t data g (Some (calls xs c)))"
  proof -
    from that have "computeSignature data \<in> (\<lambda>(now, data, g). computeSignature data) ` set xs"
      using calls_seen [of xs c] c(2) s by blast
    then obtain x where x: "x \<in> set xs" "computeSignature data = (case x of (now, data, g) \<Rightarrow> computeSignature data)" by blast
    then show ?thesis by (intro bexI [of _ x]) (auto split: prod.splits)
  qed
  then show ?thesis using i cap by (simp add: cache_inv_def Sizes_def)
qed

theorem fresh_packet_passes_witness:
  "\<exists>c. NewCache 0 8 100 = Some c \<and> int (fst (Sizes (calls [(1, [1], ''a''), (2, [2], ''b'')] c))) \<le> 8"
proof -
  obtain c where c: "NewCache 0 8 100 = Some c" by (simp add: NewCache_def)
  then show ?thesis using fresh_packet_passes [OF c, of 3 "[3]" "''a''" "[(1, [1], ''a''), (2, [2], ''b'')]"]
    by (intro exI [of _ c]) simp
qed

end
