(* ===== verification/Sha256.thy ===== *)
theory Sha256
  imports Prelude
begin

text \<open>
  SHA-256 as in \<^verbatim>\<open>crypto/sha256\<close>, which the key schedule, the user hints and the hashed passwords use.  The
  development needs its length only; the function itself is executable.
\<close>

text \<open>
  The constants are the fractional parts of the cube roots of the first 64 primes and of the square roots of the first eight, to 32 bits.
  They are computed: \<open>int_root k x n 0\<close> is the \<open>k\<close>-th root of \<open>x\<close>, rounded down, if it has at most \<open>n\<close> bits.
\<close>

fun int_root :: "nat \<Rightarrow> int \<Rightarrow> nat \<Rightarrow> int \<Rightarrow> int" where
  "int_root k x 0 r = r"
| "int_root k x (Suc n) r = (let r' = r + 2 ^ n in int_root k x n (if r' ^ k \<le> x then r' else r))"

definition prime_list :: "int \<Rightarrow> int list" where
  "prime_list n = filter (\<lambda>p. list_all (\<lambda>d. p mod d \<noteq> 0) [2..p - 1]) [2..n]"

definition K256 :: "u32 list" where
  "K256 = map (\<lambda>p. word_of_int (int_root 3 (p * 2 ^ 96) 35 0)) (prime_list 311)"

type_synonym sha_state = "u32 \<times> u32 \<times> u32 \<times> u32 \<times> u32 \<times> u32 \<times> u32 \<times> u32"

definition sqrt_word :: "int \<Rightarrow> u32" where
  "sqrt_word p = word_of_int (int_root 2 (p * 2 ^ 64) 35 0)"

definition sha_init :: sha_state where
  "sha_init = (sqrt_word 2, sqrt_word 3, sqrt_word 5, sqrt_word 7, sqrt_word 11, sqrt_word 13, sqrt_word 17, sqrt_word 19)"

definition rotr :: "nat \<Rightarrow> u32 \<Rightarrow> u32" where
  "rotr n x = drop_bit n x OR push_bit (32 - n) x"

text \<open>The message schedule, with the most recent word first.\<close>

fun schedule :: "nat \<Rightarrow> u32 list \<Rightarrow> u32 list" where
  "schedule 0 w = w"
| "schedule (Suc n) w =
     (let w2 = w ! 1; w7 = w ! 6; w15 = w ! 14; w16 = w ! 15;
          s0 = rotr 7 w15 XOR rotr 18 w15 XOR drop_bit 3 w15;
          s1 = rotr 17 w2 XOR rotr 19 w2 XOR drop_bit 10 w2
      in schedule n ((w16 + s0 + w7 + s1) # w))"

fun sha_round :: "sha_state \<Rightarrow> u32 \<times> u32 \<Rightarrow> sha_state" where
  "sha_round (a, b, c, d, e, f, g, h) (k, w) =
     (let s1 = rotr 6 e XOR rotr 11 e XOR rotr 25 e;
          ch = (e AND f) XOR (NOT e AND g);
          t1 = h + s1 + ch + k + w;
          s0 = rotr 2 a XOR rotr 13 a XOR rotr 22 a;
          maj = (a AND b) XOR (a AND c) XOR (b AND c);
          t2 = s0 + maj
      in (t1 + t2, a, b, c, d + t1, e, f, g))"

fun sha_add :: "sha_state \<Rightarrow> sha_state \<Rightarrow> sha_state" where
  "sha_add (a, b, c, d, e, f, g, h) (a', b', c', d', e', f', g', h') =
     (a + a', b + b', c + c', d + d', e + e', f + f', g + g', h + h')"

definition sha_words :: "bytes \<Rightarrow> u32 list" where
  "sha_words blk = map (\<lambda>i. Uint32 blk (4 * i)) [0..<16]"

definition sha_block :: "sha_state \<Rightarrow> bytes \<Rightarrow> sha_state" where
  "sha_block st blk = sha_add st (foldl sha_round st (zip K256 (rev (schedule 48 (rev (sha_words blk))))))"

definition sha_pad :: "bytes \<Rightarrow> bytes" where
  "sha_pad m = m @ [0x80] @ replicate ((119 - length m mod 64) mod 64) 0 @ PutUint64 (of_nat (8 * length m))"

fun sha_blocks :: "nat \<Rightarrow> bytes \<Rightarrow> sha_state \<Rightarrow> sha_state" where
  "sha_blocks 0 m st = st"
| "sha_blocks (Suc n) m st = sha_blocks n (drop 64 m) (sha_block st (take 64 m))"

fun sha_output :: "sha_state \<Rightarrow> bytes" where
  "sha_output (a, b, c, d, e, f, g, h) = concat (map PutUint32 [a, b, c, d, e, f, g, h])"

definition Sum256 :: "bytes \<Rightarrow> bytes" where
  "Sum256 m = (let p = sha_pad m in sha_output (sha_blocks (length p div 64) p sha_init))"

lemma int_root_step:
  assumes "0 \<le> r" and "r ^ k \<le> x" and "x < (r + 2 ^ n) ^ k"
  shows "int_root k x n r ^ k \<le> x \<and> x < (int_root k x n r + 1) ^ k"
  using assms
proof (induction k x n r rule: int_root.induct)
  case (2 k x n r)
  then show ?case by (cases "(r + 2 ^ n) ^ k \<le> x") (simp_all add: Let_def algebra_simps)
qed simp

lemma int_root_correct:
  "0 < k \<Longrightarrow> 0 \<le> x \<Longrightarrow> x < (2 ^ n) ^ k \<Longrightarrow> int_root k x n 0 ^ k \<le> x \<and> x < (int_root k x n 0 + 1) ^ k"
  by (rule int_root_step) (simp_all add: power_0_left)

lemma length_sha_output [simp]: "length (sha_output st) = 32"
  by (cases st rule: sha_output.cases) simp

lemma length_Sum256 [simp]: "length (Sum256 m) = 32"
  by (simp add: Sum256_def Let_def)

end
