(* ===== verification/Rng.thy ===== *)
theory Rng
  imports Complex_Main Low_Entropy Net_Addr Sha256
begin

text \<open>
  Random numbers of \<^verbatim>\<open>pkg/rng/rng.go\<close> and printable bytes of \<^verbatim>\<open>pkg/common/ascii.go\<close>.  What the random sources
  return is an argument: \<open>mrand\<close> for \<^verbatim>\<open>mrand.Intn\<close>, a factor for \<^verbatim>\<open>scaleDown\<close>, whose product is taken
  exactly, and a list of 16-bit draws for \<^verbatim>\<open>crand.Read\<close>.
\<close>

section \<open>Random integers\<close>

text \<open>\<open>None\<close> is the panic of \<^verbatim>\<open>math/rand\<close> on an empty range.\<close>

definition Intn :: "(int \<Rightarrow> int) \<Rightarrow> rat \<Rightarrow> int \<Rightarrow> int option" where
  "Intn mrand scale n = (if n + 1 \<le> 0 then None else Some \<lfloor>of_int (mrand (n + 1)) * scale\<rfloor>)"

definition IntRange :: "(int \<Rightarrow> int) \<Rightarrow> rat \<Rightarrow> int \<Rightarrow> int \<Rightarrow> int option" where
  "IntRange mrand scale m n = map_option (\<lambda>x. m + x) (Intn mrand scale (n - m))"

text \<open>The documented behaviour of the random sources.\<close>

definition mrand_ok :: "(int \<Rightarrow> int) \<Rightarrow> bool" where
  "mrand_ok mrand \<longleftrightarrow> (\<forall>n > 0. 0 \<le> mrand n \<and> mrand n < n)"

definition scale_ok :: "rat \<Rightarrow> bool" where
  "scale_ok s \<longleftrightarrow> 0 \<le> s \<and> s < 1"

lemma Intn_range:
  assumes "mrand_ok mrand" and "scale_ok s" and "0 < n"
  shows "\<exists>x. Intn mrand s n = Some x \<and> 0 \<le> x \<and> x < n"
proof -
  have m: "0 \<le> mrand (n + 1)" "mrand (n + 1) \<le> n" using assms(1,3) by (auto simp: mrand_ok_def dest: spec [of _ "n + 1"])
  have "of_int (mrand (n + 1)) * s \<le> of_int n * s"
    using m assms(2) by (intro mult_right_mono) (simp_all add: scale_ok_def)
  also have "\<dots> < of_int n * 1"
    using assms(2,3) by (intro mult_strict_left_mono) (simp_all add: scale_ok_def)
  finally have "\<lfloor>of_int (mrand (n + 1)) * s\<rfloor> < n" by (simp add: floor_less_iff)
  moreover have "0 \<le> \<lfloor>of_int (mrand (n + 1)) * s\<rfloor>"
    using m assms(2) by (simp add: scale_ok_def)
  ultimately show ?thesis using assms(3) by (simp add: Intn_def)
qed

section \<open>Words with a given number of bits\<close>

definition swap_pos :: "nat \<Rightarrow> nat \<Rightarrow> 'a list \<Rightarrow> 'a list" where
  "swap_pos i j xs = xs[i := xs ! j, j := xs ! i]"

text \<open>\<open>draws i\<close> is the draw of round \<open>i\<close>.\<close>

fun pick_bits :: "(nat \<Rightarrow> nat) \<Rightarrow> nat \<Rightarrow> nat \<Rightarrow> nat list \<Rightarrow> u32 \<Rightarrow> u32" where
  "pick_bits draws i 0 bitPositions result = result"
| "pick_bits draws i (Suc k) bitPositions result =
     (let j = i + draws i;
          bitPositions = swap_pos i j bitPositions
      in pick_bits draws (Suc i) k bitPositions (result OR push_bit (bitPositions ! i) 1))"

definition Uint32WithBits :: "(nat \<Rightarrow> nat) \<Rightarrow> int \<Rightarrow> u32 option" where
  "Uint32WithBits draws n =
     (if n < 0 \<or> n > 32 then None else Some (pick_bits draws 0 (nat n) [0..<32] 0))"

definition newLowEntropyHalfMask :: "(nat \<Rightarrow> nat) \<Rightarrow> int \<Rightarrow> (le_error + u32) option" where
  "newLowEntropyHalfMask draws mode =
     (case buildLowEntropyParams mode of
        Inl e \<Rightarrow> Some (Inl e)
      | Inr params \<Rightarrow> map_option Inr (Uint32WithBits draws (int (halfMaskOnes params))))"

lemma swap_pos_props:
  assumes "i < length xs" and "j < length xs" and "i \<le> j" and "distinct xs"
  shows "length (swap_pos i j xs) = length xs" "set (swap_pos i j xs) = set xs" "distinct (swap_pos i j xs)"
    "take i (swap_pos i j xs) = take i xs"
  using assms by (simp_all add: swap_pos_def distinct_swap set_swap)

lemma pick_bits_set:
  assumes "distinct ps" and "length ps = 32" and "set ps \<subseteq> {0..<32}" and "i + k \<le> 32"
    and "\<And>i. i < 32 \<Longrightarrow> draws i < 32 - i" and "\<And>p. bit result p \<longleftrightarrow> p \<in> set (take i ps)"
  shows "\<exists>qs. distinct qs \<and> length qs = i + k \<and> set qs \<subseteq> {0..<32} \<and> (\<forall>p. bit (pick_bits draws i k ps result) p \<longleftrightarrow> p \<in> set qs)"
  using assms
proof (induction k arbitrary: i ps result)
  case 0
  then show ?case by (intro exI [of _ "take i ps"]) (auto dest: in_set_takeD)
next
  case (Suc k)
  let ?j = "i + draws i" and ?r = "\<lambda>ps. result OR push_bit (ps ! i) 1"
  have j: "i < 32" "?j < 32" using Suc.prems(4) Suc.prems(5) [of i] by linarith+
  define qs where "qs = swap_pos i ?j ps"
  have q: "length qs = 32" "set qs = set ps" "distinct qs" "take i qs = take i ps"
    using swap_pos_props [of i ps ?j] Suc.prems(1,2) j by (simp_all add: qs_def)
  have "qs ! i < 32" using Suc.prems(3) q j(1) nth_mem [of i qs] by auto
  then have "bit (?r qs) p \<longleftrightarrow> p \<in> set (take (Suc i) qs)" for p
    using Suc.prems(6) q j(1) by (auto simp: bit_simps take_Suc_conv_app_nth)
  then show ?case
    using Suc.IH [of qs "Suc i" "?r qs"] Suc.prems(3-5) q by (simp add: qs_def Let_def)
qed

lemma length_ones_of_set:
  assumes "distinct qs" and "\<And>p. bit w p \<longleftrightarrow> p \<in> set qs"
  shows "length (ones w) = length qs"
proof -
  have "set (ones w) = set qs" using assms(2) by (auto simp: set_ones)
  then show ?thesis using assms(1) distinct_ones [of w] distinct_card by metis
qed

lemma Uint32WithBits_ones:
  assumes "0 \<le> n" and "n \<le> 32" and "\<And>i. i < 32 \<Longrightarrow> draws i < 32 - i"
  shows "\<exists>w. Uint32WithBits draws n = Some w \<and> OnesCount32 w = nat n"
proof -
  obtain qs where q: "distinct qs" "length qs = nat n" "\<And>p. bit (pick_bits draws 0 (nat n) [0..<32] 0) p \<longleftrightarrow> p \<in> set qs"
    using pick_bits_set [of "[0..<32]" 0 "nat n" draws 0, OF _ _ _ _ assms(3)] assms(2) by (auto simp: nat_le_iff)
  then show ?thesis
    using length_ones_of_set [OF q(1) q(3)] assms(1,2) by (simp add: Uint32WithBits_def OnesCount32_def)
qed

lemma newLowEntropyHalfMask_valid:
  assumes "buildLowEntropyParams mode = Inr params" and "isValidLowEntropyRotation rotation"
    and "\<And>i. i < 32 \<Longrightarrow> draws i < 32 - i"
  shows "\<exists>mask. newLowEntropyHalfMask draws mode = Some (Inr mask) \<and> validateLowEntropyCodecParams mode mask rotation = Inr params"
proof -
  have "halfMaskOnes params \<le> 32"
    using assms(1) by (auto simp: buildLowEntropyParams_def split: if_splits)
  then obtain w where "Uint32WithBits draws (int (halfMaskOnes params)) = Some w" "OnesCount32 w = halfMaskOnes params"
    using Uint32WithBits_ones [of "int (halfMaskOnes params)" draws] assms(3) by auto
  then show ?thesis
    using assms(1,2) by (simp add: newLowEntropyHalfMask_def validateLowEntropyCodecParams_def)
qed

text \<open>
  C40.  A fresh half mask is always valid: whatever the random source draws, for every mode other than off a mask is returned that has
  exactly the number of set bits of the mode, so that the codec accepts it with every valid rotation.
\<close>

theorem fresh_mask_is_valid:
  assumes "buildLowEntropyParams mode = Inr params" and "isValidLowEntropyRotation rotation"
    and "\<And>i. i < 32 \<Longrightarrow> draws i < 32 - i"
  shows "\<exists>mask. newLowEntropyHalfMask draws mode = Some (Inr mask) \<and> validateLowEntropyCodecParams mode mask rotation = Inr params"
  using assms by (rule newLowEntropyHalfMask_valid)

theorem fresh_mask_is_valid_witness:
  "\<exists>mask. newLowEntropyHalfMask (\<lambda>_. 0) LOW_ENTROPY_MODE_32 = Some (Inr mask) \<and>
     validateLowEntropyCodecParams LOW_ENTROPY_MODE_32 mask ROTATE_NONE = Inr \<lparr>sourceBytesPerChunk = 4, halfMaskOnes = 16\<rparr>"
  by (rule fresh_mask_is_valid) (simp_all add: buildLowEntropyParams_def isValidLowEntropyRotation_def)

section \<open>Fixed integers\<close>

text \<open>The cache of hints is a map; \<open>seed\<close> is the hint, followed by the version for \<^verbatim>\<open>FixedIntV\<close>.\<close>

definition hint_value :: "string \<Rightarrow> int" where
  "hint_value seed = (let b = Sum256 (bytes_of seed) in uint (Uint32 ((b ! 0 AND 0x7f) # take 3 (tl b)) 0))"

type_synonym hint_cache = "string \<rightharpoonup> int"

definition cached_hint :: "string \<Rightarrow> string \<Rightarrow> int \<Rightarrow> hint_cache \<Rightarrow> int \<times> hint_cache" where
  "cached_hint hint seed n fixed =
     (case fixed hint of
        Some v \<Rightarrow> (v mod n, fixed)
      | None \<Rightarrow> let v = hint_value seed in (v mod n, fixed(hint \<mapsto> v)))"

definition FixedInt :: "int \<Rightarrow> string \<Rightarrow> hint_cache \<Rightarrow> int \<times> hint_cache" where
  "FixedInt n hint fixed = (if n \<le> 0 then (0, fixed) else cached_hint hint hint n fixed)"

definition FixedIntV :: "string \<Rightarrow> int \<Rightarrow> string \<Rightarrow> hint_cache \<Rightarrow> int \<times> hint_cache" where
  "FixedIntV AppVersion n hint fixedV = (if n \<le> 0 then (0, fixedV) else cached_hint hint (hint @ '' '' @ AppVersion) n fixedV)"

definition hints_ok :: "(string \<Rightarrow> string) \<Rightarrow> hint_cache \<Rightarrow> bool" where
  "hints_ok seed m \<longleftrightarrow> (\<forall>h v. m h = Some v \<longrightarrow> v = hint_value (seed h))"

lemma cached_hint_value:
  assumes "hints_ok seed m"
  shows "fst (cached_hint h (seed h) n m) = hint_value (seed h) mod n \<and> hints_ok seed (snd (cached_hint h (seed h) n m))"
  using assms by (auto simp: cached_hint_def hints_ok_def Let_def split: option.splits)

fun fixed_calls :: "(int \<times> string) list \<Rightarrow> hint_cache \<Rightarrow> hint_cache" where
  "fixed_calls [] m = m"
| "fixed_calls ((n, h) # cs) m = fixed_calls cs (snd (FixedInt n h m))"

lemma fixed_calls_ok: "hints_ok (\<lambda>h. h) m \<Longrightarrow> hints_ok (\<lambda>h. h) (fixed_calls cs m)"
proof (induction cs m rule: fixed_calls.induct)
  case (2 n h cs m)
  then show ?case using cached_hint_value [of "\<lambda>h. h" m h n] by (simp add: FixedInt_def)
qed simp

text \<open>
  \<^verbatim>\<open>FixedInt\<close> is a function of the hint: whatever has been asked before, the cache does not change the answer, and the
  answer lies in the range.
\<close>

theorem fixed_int_is_fixed:
  assumes "0 < n"
  shows "fst (FixedInt n h (fixed_calls cs Map.empty)) = fst (FixedInt n h Map.empty) \<and>
    0 \<le> fst (FixedInt n h Map.empty) \<and> fst (FixedInt n h Map.empty) < n"
proof -
  have "hints_ok (\<lambda>h. h) (fixed_calls cs Map.empty)" by (rule fixed_calls_ok) (simp add: hints_ok_def)
  then show ?thesis
    using cached_hint_value [of "\<lambda>h. h" _ h n] assms by (simp add: FixedInt_def cached_hint_def Let_def)
qed

theorem fixed_int_is_fixed_witness:
  "fst (FixedInt 7 ''a'' (fixed_calls [(3, ''b''), (5, ''a'')] Map.empty)) < 7"
  using fixed_int_is_fixed [of 7 "''a''" "[(3, ''b''), (5, ''a'')]"] by simp

section \<open>Printable bytes\<close>

definition PrintableCharSub :: u8 where "PrintableCharSub = 0x20"
definition PrintableCharSup :: u8 where "PrintableCharSup = 0x7E"
definition printableCharLen :: nat where "printableCharLen = 95"

definition Common64Set :: string where
  "Common64Set = ''WKYu29q87rl6ifoVgGGyiAN7JwYx8sgTSAebhHsySEeTfZKzWDOzhX6D1xneQlx0''"

definition printableUint16Limit :: nat where
  "printableUint16Limit = 2 ^ 16 - 2 ^ 16 mod printableCharLen"

definition printable :: "u8 \<Rightarrow> bool" where
  "printable b \<longleftrightarrow> PrintableCharSub \<le> b \<and> b \<le> PrintableCharSup"

definition clear_high_bit :: "u8 \<Rightarrow> u8" where
  "clear_high_bit b =
     (if \<not> printable b \<and> b AND 0x80 > 0 \<and> printable (b AND 0x7F) then b AND 0x7F else b)"

text \<open>
  The second loop works on the bytes from position \<^verbatim>\<open>next\<close> on.  A batch never holds more draws than characters are still
  needed, so the draws are used one after the other.
\<close>

datatype draw_result = Drawn bytes "u16 list" | MoreRandom | AsciiPanic

fun prepend :: "bytes \<Rightarrow> draw_result \<Rightarrow> draw_result" where
  "prepend p (Drawn b ds) = Drawn (p @ b) ds"
| "prepend p MoreRandom = MoreRandom"
| "prepend p AsciiPanic = AsciiPanic"

fun fill_printable :: "nat \<Rightarrow> bytes \<Rightarrow> u16 list \<Rightarrow> draw_result" where
  "fill_printable 0 b ds = Drawn b ds"
| "fill_printable (Suc randCount) b [] = MoreRandom"
| "fill_printable (Suc randCount) b (r # ds) =
     (if unat r \<ge> printableUint16Limit then fill_printable (Suc randCount) b ds
      else (case dropWhile printable b of
          [] \<Rightarrow> AsciiPanic
        | _ # rest \<Rightarrow>
            prepend (takeWhile printable b @ [of_nat (unat r mod printableCharLen) + PrintableCharSub])
              (fill_printable randCount rest ds)))"

definition ToPrintableChar :: "bytes \<Rightarrow> nat \<Rightarrow> nat \<Rightarrow> u16 list \<Rightarrow> draw_result" where
  "ToPrintableChar b beginIdx endIdx ds =
     (if beginIdx > endIdx then AsciiPanic
      else if endIdx > length b then AsciiPanic
      else
        let region = map clear_high_bit (take (endIdx - beginIdx) (drop beginIdx b));
            randCount = length (filter (\<lambda>x. \<not> printable x) region)
        in prepend (take beginIdx b) (fill_printable randCount (region @ drop endIdx b) ds))"

definition ToCommon64Set :: "bytes \<Rightarrow> nat \<Rightarrow> nat \<Rightarrow> bytes option" where
  "ToCommon64Set b beginIdx endIdx =
     (if beginIdx > endIdx then None
      else if endIdx > length b then None
      else Some (take beginIdx b @
        map (\<lambda>x. of_nat (of_char (Common64Set ! unat (x AND 0x3f)))) (take (endIdx - beginIdx) (drop beginIdx b)) @
        drop endIdx b))"

definition usable :: "u16 list \<Rightarrow> nat" where
  "usable ds = length (filter (\<lambda>r. unat r < printableUint16Limit) ds)"

lemma drawn_printable: "printable (of_nat (unat (r :: u16) mod printableCharLen) + PrintableCharSub)"
proof -
  have l: "unat r mod 95 \<le> 94" by (simp add: less_Suc_eq_le [symmetric])
  then have "unat (of_nat (unat r mod 95) + 0x20 :: u8) = unat r mod 95 + 32"
    by (subst unat_plus_if_size) (simp_all add: unat_of_nat take_bit_nat_eq_self word_size)
  then show ?thesis
    using l by (simp add: printable_def PrintableCharSub_def PrintableCharSup_def printableCharLen_def word_le_nat_alt)
qed

lemma fill_printable_ends:
  assumes "k = length (filter (\<lambda>x. \<not> printable x) region)"
  shows "fill_printable k (region @ post) ds \<noteq> AsciiPanic \<and>
    (usable ds \<ge> k \<longrightarrow> (\<exists>region' ds'. fill_printable k (region @ post) ds = Drawn (region' @ post) ds' \<and>
       length region' = length region \<and> list_all printable region' \<and>
       (\<forall>i < length region. printable (region ! i) \<longrightarrow> region' ! i = region ! i)))"
  using assms
proof (induction ds arbitrary: k region)
  case Nil
  show ?case
  proof (cases k)
    case 0
    then show ?thesis using Nil by (auto simp: filter_empty_conv list_all_iff)
  qed (simp add: usable_def)
next
  case (Cons r ds)
  show ?case
  proof (cases k)
    case 0
    then show ?thesis using Cons.prems by (auto simp: filter_empty_conv list_all_iff)
  next
    case k: (Suc m)
    show ?thesis
    proof (cases "unat r \<ge> printableUint16Limit")
      case True
      then have "fill_printable k (region @ post) (r # ds) = fill_printable k (region @ post) ds" "usable (r # ds) = usable ds"
        using k by (simp_all add: usable_def)
      then show ?thesis using Cons.IH [OF Cons.prems] by simp
    next
      case False
      obtain p x rest where s: "region = p @ x # rest" "\<not> printable x" "\<forall>y \<in> set p. printable y"
        using k Cons.prems split_list_first_prop [of region "\<lambda>x. \<not> printable x"] by (metis filter_empty_conv length_0_conv nat.distinct(1))
      let ?c = "of_nat (unat r mod printableCharLen) + PrintableCharSub"
      have w: "takeWhile printable (region @ post) = p" "dropWhile printable (region @ post) = x # rest @ post"
        using s by (simp_all add: takeWhile_append dropWhile_append takeWhile_eq_all_conv)
      have step: "fill_printable k (region @ post) (r # ds) = prepend (p @ [?c]) (fill_printable m (rest @ post) ds)"
        using False k w by simp
      have m: "m = length (filter (\<lambda>x. \<not> printable x) rest)"
        using Cons.prems k s by (simp add: filter_empty_conv)
      note IH = Cons.IH [OF m]
      have panic: "fill_printable k (region @ post) (r # ds) \<noteq> AsciiPanic"
        using IH step by (cases "fill_printable m (rest @ post) ds") simp_all
      have "\<exists>region' ds'. fill_printable k (region @ post) (r # ds) = Drawn (region' @ post) ds' \<and>
          length region' = length region \<and> list_all printable region' \<and>
          (\<forall>i < length region. printable (region ! i) \<longrightarrow> region' ! i = region ! i)" if "usable (r # ds) \<ge> k"
      proof -
        have "usable ds \<ge> m" using that False k by (simp add: usable_def)
        then obtain rest' ds' where r': "fill_printable m (rest @ post) ds = Drawn (rest' @ post) ds'" "length rest' = length rest"
            "list_all printable rest'" "\<forall>i < length rest. printable (rest ! i) \<longrightarrow> rest' ! i = rest ! i"
          using IH by blast
        have keep: "(p @ ?c # rest') ! i = region ! i" if "i < length region" "printable (region ! i)" for i
          using that s r'(2,4) by (auto simp: nth_append nth_Cons split: nat.splits if_splits)
        show ?thesis
          using step r' s drawn_printable [of r] keep
          by (intro exI [of _ "p @ ?c # rest'"] exI [of _ ds']) (auto simp: list_all_iff)
      qed
      then show ?thesis using panic by blast
    qed
  qed
qed

lemma printable_no_panic:
  assumes "beginIdx \<le> endIdx" and "endIdx \<le> length b"
  shows "ToPrintableChar b beginIdx endIdx ds \<noteq> AsciiPanic"
proof -
  let ?region = "map clear_high_bit (take (endIdx - beginIdx) (drop beginIdx b))"
  have "fill_printable (length (filter (\<lambda>x. \<not> printable x) ?region)) (?region @ drop endIdx b) ds \<noteq> AsciiPanic"
    using fill_printable_ends [OF refl] by blast
  then show ?thesis
    using assms by (cases "fill_printable (length (filter (\<lambda>x. \<not> printable x) ?region)) (?region @ drop endIdx b) ds")
      (simp_all add: ToPrintableChar_def Let_def)
qed

lemma printable_drawn:
  assumes "beginIdx \<le> endIdx" and "endIdx \<le> length b" and "endIdx - beginIdx \<le> usable ds"
  shows "\<exists>q ds'. ToPrintableChar b beginIdx endIdx ds = Drawn q ds' \<and> length q = length b"
proof -
  let ?region = "map clear_high_bit (take (endIdx - beginIdx) (drop beginIdx b))"
  have "length (filter (\<lambda>x. \<not> printable x) ?region) \<le> usable ds"
    using length_filter_le [of "\<lambda>x. \<not> printable x" ?region] assms(3) by simp
  then obtain region' ds' where "fill_printable (length (filter (\<lambda>x. \<not> printable x) ?region)) (?region @ drop endIdx b) ds =
      Drawn (region' @ drop endIdx b) ds'" "length region' = length ?region"
    using fill_printable_ends [OF refl, of ?region "drop endIdx b" ds] by blast
  then show ?thesis using assms by (simp add: ToPrintableChar_def Let_def)
qed

text \<open>
  C39.  \<^verbatim>\<open>ToPrintableChar\<close> ends as soon as the random source has delivered as many usable values as there are bytes to replace, and it never
  indexes out of range, whatever is drawn.  Then the bytes of the range are printable, those that were printable are
  unchanged, and so are the bytes outside.
\<close>

theorem to_printable_ends:
  assumes "beginIdx \<le> endIdx" and "endIdx \<le> length b"
  shows "ToPrintableChar b beginIdx endIdx ds \<noteq> AsciiPanic \<and>
    (usable ds \<ge> endIdx - beginIdx \<longrightarrow>
      (\<exists>mid ds'. ToPrintableChar b beginIdx endIdx ds = Drawn (take beginIdx b @ mid @ drop endIdx b) ds' \<and>
         length mid = endIdx - beginIdx \<and> list_all printable mid \<and>
         (\<forall>i < endIdx - beginIdx. printable (b ! (beginIdx + i)) \<longrightarrow> mid ! i = b ! (beginIdx + i))))"
proof -
  define region where "region = map clear_high_bit (take (endIdx - beginIdx) (drop beginIdx b))"
  define k where "k = length (filter (\<lambda>x. \<not> printable x) region)"
  have len: "length region = endIdx - beginIdx" using assms by (simp add: region_def)
  have k: "k \<le> endIdx - beginIdx" unfolding k_def using len length_filter_le [of _ region] by metis
  have p: "ToPrintableChar b beginIdx endIdx ds = prepend (take beginIdx b) (fill_printable k (region @ drop endIdx b) ds)"
    using assms by (simp add: ToPrintableChar_def region_def k_def Let_def)
  note F = fill_printable_ends [OF k_def, of "drop endIdx b" ds]
  have "ToPrintableChar b beginIdx endIdx ds \<noteq> AsciiPanic"
    by (rule printable_no_panic [OF assms])
  moreover have "\<exists>mid ds'. ToPrintableChar b beginIdx endIdx ds = Drawn (take beginIdx b @ mid @ drop endIdx b) ds' \<and>
      length mid = endIdx - beginIdx \<and> list_all printable mid \<and>
      (\<forall>i < endIdx - beginIdx. printable (b ! (beginIdx + i)) \<longrightarrow> mid ! i = b ! (beginIdx + i))"
    if u: "usable ds \<ge> endIdx - beginIdx"
  proof -
    obtain mid ds' where m: "fill_printable k (region @ drop endIdx b) ds = Drawn (mid @ drop endIdx b) ds'"
        "length mid = length region" "list_all printable mid" "\<forall>i < length region. printable (region ! i) \<longrightarrow> mid ! i = region ! i"
      using F le_trans [OF k u] by blast
    have "region ! i = b ! (beginIdx + i)" if "i < endIdx - beginIdx" "printable (b ! (beginIdx + i))" for i
      using that assms by (simp add: region_def clear_high_bit_def)
    then show ?thesis using m len p by (intro exI [of _ mid] exI [of _ ds']) simp
  qed
  ultimately show ?thesis by blast
qed

theorem to_printable_ends_witness:
  "\<exists>mid ds'. ToPrintableChar [1, 2, 0x41, 3] 1 3 [5, 6] = Drawn ([1] @ mid @ [3]) ds' \<and> list_all printable mid"
proof -
  have "usable [5, 6] = 2" by (simp add: usable_def printableUint16Limit_def printableCharLen_def)
  then show ?thesis using to_printable_ends [of 1 3 "[1, 2, 0x41, 3]" "[5, 6]"] by auto
qed

end
