(* ===== verification/Padding.thy ===== *)
theory Padding
  imports Rng Segment Congestion
begin

text \<open>
  Padding of \<^verbatim>\<open>pkg/protocol/padding.go\<close>, with the bit counts of \<^verbatim>\<open>pkg/common/entropy.go\<close>.  The results of the random sources are
  the fields of a record, and floating point operations are arguments.  The lemmas bound the length of padding, which keeps packets within the MTU.
\<close>

datatype paddingPosition = middlePadding | endPadding

record asciiPaddingOpts =
  ap_minConsecutiveASCIILen :: int

record entropyPaddingOpts =
  ep_existingData :: bytes
  ep_targetProbability :: f64

record paddingOpts =
  po_maxLen :: int
  po_ascii :: "asciiPaddingOpts option"
  po_entropy :: "entropyPaddingOpts option"

record pad_floats = float_ops +
  f64_lt :: "f64 \<Rightarrow> f64 \<Rightarrow> bool"

text \<open>
  \<open>pr_mrand\<close> and \<open>pr_scale\<close> feed \<^verbatim>\<open>rng.Intn\<close>, \<open>pr_start\<close> is the draw of the start of the printable bytes, \<open>pr_bits\<close> are the draws of
  bits to flip, \<open>pr_bytes\<close> is what \<^verbatim>\<open>crand.Read\<close> returns and \<open>pr_draws\<close> what is drawn for printable bytes.
\<close>

record pad_rand =
  pr_mrand :: "int \<Rightarrow> int"
  pr_scale :: rat
  pr_start :: "int \<Rightarrow> int"
  pr_bits :: "nat \<Rightarrow> int \<Rightarrow> int"
  pr_bytes :: "nat \<Rightarrow> bytes"
  pr_draws :: "u16 list"

definition pad_rand_ok :: "pad_rand \<Rightarrow> bool" where
  "pad_rand_ok R \<longleftrightarrow> mrand_ok (pr_mrand R) \<and> scale_ok (pr_scale R) \<and> mrand_ok (pr_start R) \<and>
     (\<forall>i. mrand_ok (pr_bits R i)) \<and> (\<forall>n. length (pr_bytes R n) = n)"

section \<open>Sizes\<close>

definition maxPaddingSize :: "int \<Rightarrow> TransportProtocol \<Rightarrow> int \<Rightarrow> int \<Rightarrow> int" where
  "maxPaddingSize mtu transport fragmentSize existingPaddingSize =
     (if transport = StreamTransport then 255
      else
        let res = mtu - fragmentSize - packetOverhead
        in if res \<le> existingPaddingSize then 0 else Min_go (res - existingPaddingSize) 255)"

definition maxPaddingSizeWithTrafficPattern ::
    "int \<Rightarrow> TransportProtocol \<Rightarrow> int \<Rightarrow> int \<Rightarrow> TrafficPattern option \<Rightarrow> paddingPosition \<Rightarrow> int" where
  "maxPaddingSizeWithTrafficPattern mtu transport fragmentSize existingPaddingSize trafficPattern position =
     (let maxSize = maxPaddingSize mtu transport fragmentSize existingPaddingSize
      in case trafficPattern of
           None \<Rightarrow> maxSize
         | Some tp \<Rightarrow>
             (case tp_Padding tp of
                None \<Rightarrow> maxSize
              | Some padding \<Rightarrow>
                  let configured = (case position of
                        middlePadding \<Rightarrow> pp_MaxMiddlePaddingLen padding | endPadding \<Rightarrow> pp_MaxEndPaddingLen padding)
                  in (case configured of
                        None \<Rightarrow> maxSize
                      | Some n \<Rightarrow> if n < 0 then 0 else Min_go maxSize n)))"

section \<open>Bit counts\<close>

record BitDistribution =
  bd_Bit0 :: f64
  bd_Bit1 :: f64
  bd_Bit0Count :: int
  bd_Bit1Count :: int

definition ToBitDistribution :: "pad_floats \<Rightarrow> bytes \<Rightarrow> BitDistribution" where
  "ToBitDistribution fl arr =
     (if length arr = 0 then
        \<lparr>bd_Bit0 = f64_lit fl 1 2, bd_Bit1 = f64_lit fl 1 2, bd_Bit0Count = 0, bd_Bit1Count = 0\<rparr>
      else
        let bits = concat (map (\<lambda>b. map (\<lambda>i. drop_bit i b AND 1) [0..<8]) arr);
            bit0Count = int (length (filter (\<lambda>x. x = 0) bits)); bit1Count = int (length (filter (\<lambda>x. x \<noteq> 0) bits));
            total = f64_of_int fl (int (length arr * 8))
        in \<lparr>bd_Bit0 = f64_div fl (f64_of_int fl bit0Count) total, bd_Bit1 = f64_div fl (f64_of_int fl bit1Count) total,
            bd_Bit0Count = bit0Count, bd_Bit1Count = bit1Count\<rparr>)"

definition FillBytes :: "bytes \<Rightarrow> u8 \<Rightarrow> bytes" where
  "FillBytes b v = map (\<lambda>_. v) b"

section \<open>Generating padding\<close>

datatype pad_result = Padding bytes | PadWaiting | PadPanic

text \<open>\<open>PadWaiting\<close> is the loop for printable bytes that needs more random values.\<close>

fun flip_bits :: "(nat \<Rightarrow> int \<Rightarrow> int) \<Rightarrow> (nat \<Rightarrow> u8 \<Rightarrow> u8) \<Rightarrow> nat \<Rightarrow> nat \<Rightarrow> bytes \<Rightarrow> pad_result" where
  "flip_bits draw op i 0 p = Padding p"
| "flip_bits draw op i (Suc flip) p =
     (if length p * 8 = 0 then PadPanic
      else
        let j = nat (draw i (int (length p * 8)))
        in if j div 8 < length p then flip_bits draw op (Suc i) flip (p[j div 8 := op (j mod 8) (p ! (j div 8))])
           else PadPanic)"

definition ascii_padding :: "pad_rand \<Rightarrow> int \<Rightarrow> int \<Rightarrow> pad_result" where
  "ascii_padding R maxLen minLen =
     (if maxLen < minLen then PadPanic
      else (case Intn (pr_mrand R) (pr_scale R) (maxLen - minLen + 1) of
          None \<Rightarrow> PadPanic
        | Some n \<Rightarrow>
            let len = n + minLen
            in if len < 0 then PadPanic
               else
                 let p = pr_bytes R (nat len);
                     beginIdx = (if len > minLen then pr_start R (len - minLen) else 0)
                 in (case ToPrintableChar p (nat beginIdx) (nat (beginIdx + minLen)) (pr_draws R) of
                       Drawn q _ \<Rightarrow> Padding q
                     | MoreRandom \<Rightarrow> PadWaiting
                     | AsciiPanic \<Rightarrow> PadPanic)))"

definition entropy_length :: "pad_floats \<Rightarrow> pad_rand \<Rightarrow> int \<Rightarrow> entropyPaddingOpts \<Rightarrow> int \<Rightarrow> int option" where
  "entropy_length fl R maxLen opts lowerBitCount =
     (let minPaddingBits = f64_to_int fl (f64_sub fl (f64_div fl (f64_of_int fl lowerBitCount) (ep_targetProbability opts))
            (f64_of_int fl (int (length (ep_existingData opts) * 8))));
          minPaddingBits = Max_go minPaddingBits 0;
          minPaddingBytes = (minPaddingBits + 7) div 8
      in if minPaddingBytes \<ge> maxLen then Some maxLen
         else map_option (\<lambda>x. x + minPaddingBytes) (Intn (pr_mrand R) (pr_scale R) (maxLen - minPaddingBytes + 1)))"

definition entropy_padding :: "pad_floats \<Rightarrow> pad_rand \<Rightarrow> int \<Rightarrow> entropyPaddingOpts \<Rightarrow> pad_result" where
  "entropy_padding fl R maxLen opts =
     (if f64_le_0 fl (ep_targetProbability opts) \<or> f64_lt fl (f64_lit fl 1 2) (ep_targetProbability opts) then PadPanic
      else
        let current = ToBitDistribution fl (ep_existingData opts);
            lowerIsOne = f64_lt fl (bd_Bit1 current) (bd_Bit0 current);
            lowerBitCount = (if lowerIsOne then bd_Bit1Count current else bd_Bit0Count current)
        in (case entropy_length fl R maxLen opts lowerBitCount of
              None \<Rightarrow> PadPanic
            | Some len \<Rightarrow>
                if len < 0 then PadPanic
                else
                  let p = replicate (nat len) 0;
                      flip = Max_go (f64_to_int fl (f64_mul fl (f64_mul fl
                        (f64_of_int fl (int (length (ep_existingData opts)) + len)) (f64_of_int fl 8)) (ep_targetProbability opts)) - lowerBitCount) 0;
                      flip = Min_go flip (len * 8)
                  in if \<not> lowerIsOne
                     then flip_bits (pr_bits R) (\<lambda>i b. b AND NOT (push_bit i 1)) 0 (nat flip) (FillBytes p 0xFF)
                     else flip_bits (pr_bits R) (\<lambda>i b. b OR push_bit i 1) 0 (nat flip) p))"

definition newPadding :: "pad_floats \<Rightarrow> pad_rand \<Rightarrow> paddingOpts \<Rightarrow> pad_result" where
  "newPadding fl R opts =
     (case po_ascii opts of
        Some a \<Rightarrow> ascii_padding R (po_maxLen opts) (ap_minConsecutiveASCIILen a)
      | None \<Rightarrow>
          (case po_entropy opts of
             Some e \<Rightarrow> entropy_padding fl R (po_maxLen opts) e
           | None \<Rightarrow> PadPanic))"

definition recommendedTargetProbability :: "pad_floats \<Rightarrow> f64" where
  "recommendedTargetProbability fl = f64_lit fl 325 1000"

text \<open>
  \<open>strategy\<close> is \<^verbatim>\<open>rng.FixedIntV(2, strategySource)\<close>, \<open>asciiLen\<close> is \<^verbatim>\<open>recommendedConsecutiveASCIILen\<close>, which is fixed when
  the program starts, and \<open>randomData\<close> are the random bytes.
\<close>

definition buildRecommendedPaddingOpts :: "pad_floats \<Rightarrow> int \<Rightarrow> int \<Rightarrow> bytes \<Rightarrow> int \<Rightarrow> paddingOpts" where
  "buildRecommendedPaddingOpts fl strategy asciiLen randomData maxLen =
     (if strategy = 0 then
        \<lparr>po_maxLen = maxLen, po_ascii = Some \<lparr>ap_minConsecutiveASCIILen = Min_go maxLen asciiLen\<rparr>, po_entropy = None\<rparr>
      else
        \<lparr>po_maxLen = maxLen, po_ascii = None,
         po_entropy = Some \<lparr>ep_existingData = randomData, ep_targetProbability = recommendedTargetProbability fl\<rparr>\<rparr>)"

section \<open>Bounds\<close>

lemma maxPaddingSize_bounds:
  "0 \<le> maxPaddingSizeWithTrafficPattern mtu t n e tp pos" (is ?A)
  "maxPaddingSizeWithTrafficPattern mtu t n e tp pos \<le> 255" (is ?B)
  "t \<noteq> StreamTransport \<Longrightarrow> n + packetOverhead + e \<le> mtu \<Longrightarrow>
     n + packetOverhead + e + maxPaddingSizeWithTrafficPattern mtu t n e tp pos \<le> mtu"
proof -
  have m: "0 \<le> maxPaddingSize mtu t n e" "maxPaddingSize mtu t n e \<le> 255"
    "t \<noteq> StreamTransport \<Longrightarrow> n + packetOverhead + e \<le> mtu \<Longrightarrow> n + packetOverhead + e + maxPaddingSize mtu t n e \<le> mtu"
    by (auto simp: maxPaddingSize_def Let_def Min_go_def)
  have w: "0 \<le> maxPaddingSizeWithTrafficPattern mtu t n e tp pos"
    "maxPaddingSizeWithTrafficPattern mtu t n e tp pos \<le> maxPaddingSize mtu t n e"
    using m(1) by (auto simp: maxPaddingSizeWithTrafficPattern_def Let_def Min_go_def split: option.splits)
  show ?A ?B using w m(2) by simp_all
  show "n + packetOverhead + e + maxPaddingSizeWithTrafficPattern mtu t n e tp pos \<le> mtu"
    if "t \<noteq> StreamTransport" "n + packetOverhead + e \<le> mtu"
    using w(2) m(3) [OF that] by simp
qed

lemma flip_bits_ends:
  assumes "\<And>i. mrand_ok (draw i)" and "k = 0 \<or> p \<noteq> []"
  shows "\<exists>q. flip_bits draw op i k p = Padding q \<and> length q = length p"
  using assms(2)
proof (induction k arbitrary: i p)
  case (Suc k)
  have "draw i (int (length p * 8)) < int (length p * 8)"
    using assms(1) [of i] Suc.prems by (simp add: mrand_ok_def)
  then have "nat (draw i (int (length p * 8))) < length p * 8" using assms(1) [of i] Suc.prems
    by (subst nat_less_iff) (auto simp: mrand_ok_def)
  then have j: "nat (draw i (int (length p * 8))) div 8 < length p" by (rule less_mult_imp_div_less)
  then show ?case using Suc.IH [of "p[_ := _]"] Suc.prems by (simp add: Let_def)
qed simp

lemma length_prepend: "prepend p r = Drawn q ds \<Longrightarrow> \<exists>b. r = Drawn b ds \<and> q = p @ b"
  by (cases r) auto

lemma length_fill_printable: "fill_printable k b ds = Drawn q ds' \<Longrightarrow> length q = length b"
proof (induction k b ds arbitrary: q rule: fill_printable.induct)
  case (3 k b r ds)
  show ?case
  proof (cases "unat r \<ge> printableUint16Limit")
    case False
    then obtain x rest where x: "dropWhile printable b = x # rest"
      using 3(3) by (cases "dropWhile printable b") auto
    obtain q' where q: "fill_printable k rest ds = Drawn q' ds'"
        "q = takeWhile printable b @ [of_nat (unat r mod printableCharLen) + PrintableCharSub] @ q'"
      using 3(3) False x by (auto dest: length_prepend)
    then have "length q' = length rest" using 3(2) [OF False x] by simp
    then show ?thesis
      using q(2) x takeWhile_dropWhile_id [of printable b] by (metis append_Cons append_Nil length_Cons length_append)
  qed (use 3 in simp)
qed auto

lemma length_ToPrintableChar: "ToPrintableChar b i j ds = Drawn q ds' \<Longrightarrow> length q = length b"
  by (auto simp: ToPrintableChar_def Let_def dest!: length_prepend length_fill_printable split: if_splits)

lemma ascii_padding_bounds:
  assumes "pad_rand_ok R" and "0 \<le> minLen" and "minLen \<le> maxLen"
  shows "ascii_padding R maxLen minLen \<noteq> PadPanic" and "ascii_padding R maxLen minLen = Padding p \<Longrightarrow> int (length p) \<le> maxLen"
proof -
  obtain n where n: "Intn (pr_mrand R) (pr_scale R) (maxLen - minLen + 1) = Some n" "0 \<le> n" "n \<le> maxLen - minLen"
    using Intn_range [of "pr_mrand R" "pr_scale R" "maxLen - minLen + 1"] assms by (auto simp: pad_rand_ok_def)
  define start where "start = (if 0 < n then pr_start R n else 0)"
  have start: "0 \<le> start" "start + minLen \<le> n + minLen"
    using assms(1) n(2) by (auto simp: start_def pad_rand_ok_def mrand_ok_def dest!: spec [of _ n])
  let ?b = "pr_bytes R (nat (n + minLen))"
  have len: "length ?b = nat (n + minLen)" using assms(1) by (simp add: pad_rand_ok_def)
  have e: "ascii_padding R maxLen minLen = (case ToPrintableChar ?b (nat start) (nat (start + minLen)) (pr_draws R) of
      Drawn q _ \<Rightarrow> Padding q | MoreRandom \<Rightarrow> PadWaiting | AsciiPanic \<Rightarrow> PadPanic)"
    using n assms(2,3) by (simp add: ascii_padding_def start_def Let_def)
  have "ToPrintableChar ?b (nat start) (nat (start + minLen)) (pr_draws R) \<noteq> AsciiPanic"
    using printable_no_panic [of "nat start" "nat (start + minLen)" ?b] start assms(2) len by simp
  then show "ascii_padding R maxLen minLen \<noteq> PadPanic" unfolding e by (simp split: draw_result.splits)
  assume "ascii_padding R maxLen minLen = Padding p"
  then have "length p = length ?b"
    unfolding e by (auto dest: length_ToPrintableChar split: draw_result.splits)
  then show "int (length p) \<le> maxLen" using len n assms(2) by simp
qed

lemma entropy_length_bounds:
  assumes "pad_rand_ok R" and "0 \<le> maxLen"
  shows "\<exists>len. entropy_length fl R maxLen opts c = Some len \<and> 0 \<le> len \<and> len \<le> maxLen"
proof -
  define m where "m = (Max_go (f64_to_int fl (f64_sub fl (f64_div fl (f64_of_int fl c) (ep_targetProbability opts))
    (f64_of_int fl (int (length (ep_existingData opts) * 8))))) 0 + 7) div 8"
  have m: "0 \<le> m" by (simp add: m_def Max_go_def)
  have e: "entropy_length fl R maxLen opts c = (if m \<ge> maxLen then Some maxLen
      else map_option (\<lambda>x. x + m) (Intn (pr_mrand R) (pr_scale R) (maxLen - m + 1)))"
    by (simp add: entropy_length_def Let_def m_def)
  show ?thesis
    using Intn_range [of "pr_mrand R" "pr_scale R" "maxLen - m + 1"] assms m
    by (cases "m \<ge> maxLen") (auto simp: e pad_rand_ok_def)
qed

lemma entropy_padding_bounds:
  assumes "pad_rand_ok R" and "0 \<le> maxLen" and "\<not> f64_le_0 fl (ep_targetProbability opts)"
    and "\<not> f64_lt fl (f64_lit fl 1 2) (ep_targetProbability opts)"
  shows "\<exists>p. entropy_padding fl R maxLen opts = Padding p \<and> int (length p) \<le> maxLen"
proof -
  define d where "d = ToBitDistribution fl (ep_existingData opts)"
  define low where "low = f64_lt fl (bd_Bit1 d) (bd_Bit0 d)"
  define c where "c = (if low then bd_Bit1Count d else bd_Bit0Count d)"
  obtain len where len: "entropy_length fl R maxLen opts c = Some len" "0 \<le> len" "len \<le> maxLen"
    using entropy_length_bounds [OF assms(1,2)] by blast
  define flip where "flip = nat (Min_go (Max_go (f64_to_int fl (f64_mul fl (f64_mul fl
      (f64_of_int fl (int (length (ep_existingData opts)) + len)) (f64_of_int fl 8)) (ep_targetProbability opts)) - c) 0) (len * 8))"
  have k: "flip = 0 \<or> replicate (nat len) x \<noteq> []" for x :: u8
    using len(2) by (auto simp: flip_def Min_go_def)
  have f: "FillBytes (replicate (nat len) 0) x = replicate (nat len) x" for x
    by (simp add: FillBytes_def map_replicate_const)
  have "entropy_padding fl R maxLen opts = (if \<not> low
      then flip_bits (pr_bits R) (\<lambda>i b. b AND NOT (push_bit i 1)) 0 flip (replicate (nat len) 0xFF)
      else flip_bits (pr_bits R) (\<lambda>i b. b OR push_bit i 1) 0 flip (replicate (nat len) 0))"
    unfolding entropy_padding_def Let_def d_def [symmetric] low_def [symmetric] c_def [symmetric] len(1)
    using assms(3,4) len(2) f by (simp add: flip_def)
  moreover have "\<exists>q. flip_bits (pr_bits R) op 0 flip (replicate (nat len) x) = Padding q \<and> int (length q) \<le> maxLen" for op x
    using flip_bits_ends [of "pr_bits R" flip _ op 0, OF _ k [of x]] assms(1) len by (force simp: pad_rand_ok_def)
  ultimately show ?thesis by presburger
qed

lemma recommended_padding_bounds:
  assumes "pad_rand_ok R" and "0 \<le> asciiLen"
    and "\<not> f64_le_0 fl (f64_lit fl 325 1000)" and "\<not> f64_lt fl (f64_lit fl 1 2) (f64_lit fl 325 1000)"
    and "maxLen = maxPaddingSizeWithTrafficPattern mtu transport fragmentSize existing trafficPattern position"
    and "r = newPadding fl R (buildRecommendedPaddingOpts fl strategy asciiLen randomData maxLen)"
  shows "r \<noteq> PadPanic \<and> (\<forall>p. r = Padding p \<longrightarrow> length p \<le> 255 \<and> int (length p) \<le> maxLen \<and>
      (transport \<noteq> StreamTransport \<longrightarrow> fragmentSize + packetOverhead + existing \<le> mtu \<longrightarrow>
         fragmentSize + packetOverhead + existing + int (length p) \<le> mtu))"
proof -
  note b = maxPaddingSize_bounds [where mtu = mtu and t = transport and n = fragmentSize and e = existing
      and tp = trafficPattern and pos = position, folded assms(5)]
  have r: "r \<noteq> PadPanic \<and> (r = Padding p \<longrightarrow> int (length p) \<le> maxLen)" for p
  proof (cases "strategy = 0")
    case True
    then have "r = ascii_padding R maxLen (Min_go maxLen asciiLen)"
      by (simp add: assms(6) newPadding_def buildRecommendedPaddingOpts_def)
    then show ?thesis
      using ascii_padding_bounds [OF assms(1), of "Min_go maxLen asciiLen" maxLen] assms(2) b(1) by (simp add: Min_go_def)
  next
    case False
    then have "r = entropy_padding fl R maxLen \<lparr>ep_existingData = randomData, ep_targetProbability = f64_lit fl 325 1000\<rparr>"
      by (simp add: assms(6) newPadding_def buildRecommendedPaddingOpts_def recommendedTargetProbability_def)
    then show ?thesis
      using entropy_padding_bounds [OF assms(1) b(1),
        of fl "\<lparr>ep_existingData = randomData, ep_targetProbability = f64_lit fl 325 1000\<rparr>"] assms(3,4) by auto
  qed
  then show ?thesis using b(2,3) by fastforce
qed

text \<open>
  C38.  Padding always fits.  The padding that is built with the recommended options for the room that is left never panics, is
  at most 255 bytes long, so that its length is a byte of the metadata, is at most as long as the traffic pattern allows, and for a packet
  transport keeps the packet within the MTU.
\<close>

theorem recommended_padding_fits:
  assumes "pad_rand_ok R" and "0 \<le> asciiLen"
    and "\<not> f64_le_0 fl (f64_lit fl 325 1000)" and "\<not> f64_lt fl (f64_lit fl 1 2) (f64_lit fl 325 1000)"
    and "maxLen = maxPaddingSizeWithTrafficPattern mtu transport fragmentSize existing trafficPattern position"
    and "r = newPadding fl R (buildRecommendedPaddingOpts fl strategy asciiLen randomData maxLen)"
  shows "r \<noteq> PadPanic \<and> (\<forall>p. r = Padding p \<longrightarrow> length p \<le> 255 \<and> int (length p) \<le> maxLen \<and>
      (transport \<noteq> StreamTransport \<longrightarrow> fragmentSize + packetOverhead + existing \<le> mtu \<longrightarrow>
         fragmentSize + packetOverhead + existing + int (length p) \<le> mtu))"
  using assms by (rule recommended_padding_bounds)

definition sample_pad_floats :: pad_floats where
  "sample_pad_floats =
    \<lparr>f64_lit = \<lambda>n d. word_of_int (n * 1000 div d), f64_of_int = \<lambda>n. word_of_int (n * 1000),
     f64_add = (+), f64_sub = (-), f64_mul = \<lambda>x y. x * y div 1000, f64_div = \<lambda>x y. x * 1000 div y,
     f64_Cbrt = id, f64_to_uint32 = \<lambda>x. ucast (x div 1000), f64_to_int = \<lambda>x. sint x div 1000,
     f64_le_0 = \<lambda>x. sint x \<le> 0, f32_lit = \<lambda>n d. word_of_int (n * 1000 div d),
     f32_of_int = \<lambda>n. word_of_int (n * 1000), f32_add = (+), f32_mul = \<lambda>x y. x * y div 1000,
     f32_to_int = \<lambda>x. sint x div 1000, f64_lt = \<lambda>x y. sint x < sint y\<rparr>"

definition sample_pad_rand :: pad_rand where
  "sample_pad_rand = \<lparr>pr_mrand = \<lambda>_. 0, pr_scale = 0, pr_start = \<lambda>_. 0, pr_bits = \<lambda>_ _. 0, pr_bytes = \<lambda>n. replicate n 0x41, pr_draws = []\<rparr>"

theorem recommended_padding_fits_witness:
  "newPadding sample_pad_floats sample_pad_rand (buildRecommendedPaddingOpts sample_pad_floats 0 24 []
     (maxPaddingSizeWithTrafficPattern 1400 PacketTransport 1300 2 None endPadding)) \<noteq> PadPanic \<and>
   newPadding sample_pad_floats sample_pad_rand (buildRecommendedPaddingOpts sample_pad_floats 0 24 []
     (maxPaddingSizeWithTrafficPattern 1400 PacketTransport 1300 2 None endPadding)) = Padding (replicate 10 0x41) \<and>
   int (length (replicate 10 (0x41 :: u8))) \<le> maxPaddingSizeWithTrafficPattern 1400 PacketTransport 1300 2 None endPadding"
proof -
  have R: "pad_rand_ok sample_pad_rand" by (simp add: pad_rand_ok_def sample_pad_rand_def mrand_ok_def scale_ok_def)
  have f: "\<not> f64_le_0 sample_pad_floats (f64_lit sample_pad_floats 325 1000)"
    "\<not> f64_lt sample_pad_floats (f64_lit sample_pad_floats 1 2) (f64_lit sample_pad_floats 325 1000)"
    by (simp_all add: sample_pad_floats_def)
  have p: "newPadding sample_pad_floats sample_pad_rand (buildRecommendedPaddingOpts sample_pad_floats 0 24 []
     (maxPaddingSizeWithTrafficPattern 1400 PacketTransport 1300 2 None endPadding)) = Padding (replicate 10 0x41)"
    by code_simp
  show ?thesis
    using recommended_padding_fits [OF R _ f refl refl, where asciiLen = 24 and mtu = 1400 and transport = PacketTransport
      and fragmentSize = 1300 and existing = 2 and trafficPattern = None and position = endPadding and strategy = 0
      and randomData = "[]"] p by simp
qed

end
