(* ===== verification/Source_User_Cache.thy ===== *)
theory Source_User_Cache
  imports Net_Addr "HOL-Library.Multiset"
begin

text \<open>
  The cache from source addresses to users of \<^verbatim>\<open>pkg/protocol/serveruser\<close>, with its statistics.  A table is a function from
  bucket numbers to buckets, a bucket is the list of its four ways, and the hash function with its random seed, \<^verbatim>\<open>maphash.Bytes\<close>, is an argument, as is the current
  tick.  Writers of a bucket hold its lock, so the compare and swap of a slot does not fail.
\<close>

definition sourceUserCacheBucketCount :: nat where "sourceUserCacheBucketCount = 4096"
definition sourceUserCacheWays :: nat where "sourceUserCacheWays = 4"
definition sourceUserCacheUsers :: nat where "sourceUserCacheUsers = 16"
definition sourceUserCacheLifeSeconds :: u32 where "sourceUserCacheLifeSeconds = 10 * 60"

record sourceUserCacheStats =
  st_lookups :: u64
  st_sourceHits :: u64
  st_sourceMisses :: u64
  st_authenticationHits :: u64
  st_fullFallbacks :: u64
  st_insertions :: u64
  st_expiries :: u64
  st_evictions :: u64

record sourceUserCacheEntry =
  en_key :: bytes
  en_lastActive :: u32
  en_users :: "u64 list"

type_synonym sourceUserCacheBucket = "sourceUserCacheEntry option list"
type_synonym sourceUserCacheTable = "nat \<Rightarrow> sourceUserCacheBucket"

text \<open>The table of a retired cache is \<open>None\<close>.\<close>

record sourceUserCache =
  uc_table :: "sourceUserCacheTable option"
  uc_stats :: "sourceUserCacheStats option"

definition newSourceUserCache :: "sourceUserCacheStats option \<Rightarrow> sourceUserCache" where
  "newSourceUserCache stats = \<lparr>uc_table = Some (\<lambda>_. replicate sourceUserCacheWays None), uc_stats = stats\<rparr>"

definition retire :: "sourceUserCache \<Rightarrow> sourceUserCache" where
  "retire c = c\<lparr>uc_table := None\<rparr>"

definition sourceUserCacheKey :: "bytes option \<Rightarrow> bytes option" where
  "sourceUserCacheKey addr =
     (case addr of None \<Rightarrow> None
      | Some ip \<Rightarrow> if length ip = 4 then Some (v4InV6Prefix @ ip) else if length ip = 16 then Some ip else None)"

definition sourceUserCacheBucketIndex :: "(bytes \<Rightarrow> u64) \<Rightarrow> bytes \<Rightarrow> nat" where
  "sourceUserCacheBucketIndex hash key = unat (ucast (hash key) AND (of_nat sourceUserCacheBucketCount - 1) :: u32)"

definition sourceUserCachePackUser :: "u32 \<Rightarrow> u32 \<Rightarrow> u64" where
  "sourceUserCachePackUser userID tick = push_bit 32 (ucast userID) OR ucast tick"

definition sourceUserCacheUnpackUser :: "u64 \<Rightarrow> u32 \<times> u32" where
  "sourceUserCacheUnpackUser packed = (ucast (drop_bit 32 packed), ucast packed)"

definition sourceUserCacheAge :: "u32 \<Rightarrow> u32 \<Rightarrow> u32" where
  "sourceUserCacheAge now seen = now - seen"

definition sourceUserCacheExpired :: "u32 \<Rightarrow> u32 \<Rightarrow> bool" where
  "sourceUserCacheExpired now seen \<longleftrightarrow> sourceUserCacheAge now seen \<ge> sourceUserCacheLifeSeconds"

section \<open>Lookup\<close>

definition count_stat :: "(sourceUserCacheStats \<Rightarrow> sourceUserCacheStats) \<Rightarrow> sourceUserCache \<Rightarrow> sourceUserCache" where
  "count_stat f c = c\<lparr>uc_stats := map_option f (uc_stats c)\<rparr>"

text \<open>A candidate is a user with its age.\<close>

fun add_candidate :: "u32 \<Rightarrow> u32 \<Rightarrow> (u32 \<times> u32) list \<Rightarrow> (u32 \<times> u32) list" where
  "add_candidate userID age [] = [(userID, age)]"
| "add_candidate userID age ((i, a) # cs) =
     (if i = userID then (i, if age < a then age else a) # cs else (i, a) # add_candidate userID age cs)"

definition collect_candidate :: "u32 \<Rightarrow> u64 \<Rightarrow> (u32 \<times> u32) list \<Rightarrow> (u32 \<times> u32) list" where
  "collect_candidate now packed candidates =
     (let (userID, seen) = sourceUserCacheUnpackUser packed
      in if userID = 0 \<or> sourceUserCacheExpired now seen then candidates
         else add_candidate userID (sourceUserCacheAge now seen) candidates)"

text \<open>The candidates before the one that is inserted, the last one first.\<close>

fun shift_in :: "u32 \<times> u32 \<Rightarrow> (u32 \<times> u32) list \<Rightarrow> (u32 \<times> u32) list" where
  "shift_in c [] = [c]"
| "shift_in c (x # xs) = (if snd c < snd x then x # shift_in c xs else c # x # xs)"

definition sort_candidates :: "(u32 \<times> u32) list \<Rightarrow> (u32 \<times> u32) list" where
  "sort_candidates cs = rev (fold shift_in cs [])"

fun find_way :: "bytes \<Rightarrow> sourceUserCacheBucket \<Rightarrow> nat option" where
  "find_way key [] = None"
| "find_way key (w # ws) =
     (if (case w of Some entry \<Rightarrow> en_key entry = key | None \<Rightarrow> False) then Some 0 else map_option Suc (find_way key ws))"

definition lookup :: "(bytes \<Rightarrow> u64) \<Rightarrow> u32 \<Rightarrow> bytes \<Rightarrow> sourceUserCache \<Rightarrow> u32 list \<times> sourceUserCache" where
  "lookup hash now key c =
     (let c = count_stat (\<lambda>s. s\<lparr>st_lookups := st_lookups s + 1\<rparr>) c;
          miss = ([], count_stat (\<lambda>s. s\<lparr>st_sourceMisses := st_sourceMisses s + 1\<rparr>) c)
      in case uc_table c of
           None \<Rightarrow> miss
         | Some table \<Rightarrow>
             let bucket = table (sourceUserCacheBucketIndex hash key)
             in (case find_way key bucket of
                   None \<Rightarrow> miss
                 | Some way \<Rightarrow>
                     let entry = the (bucket ! way)
                     in if sourceUserCacheExpired now (en_lastActive entry) then miss
                        else
                          let candidates = sort_candidates (fold (collect_candidate now) (en_users entry) [])
                          in if candidates \<noteq> []
                             then (map fst candidates, count_stat (\<lambda>s. s\<lparr>st_sourceHits := st_sourceHits s + 1\<rparr>) c)
                             else miss))"

section \<open>Recording\<close>

record sourceUserCacheRecordTransition =
  tr_inserted :: bool
  tr_expired :: bool
  tr_evicted :: bool

definition recordTransition :: "sourceUserCacheRecordTransition \<Rightarrow> sourceUserCache \<Rightarrow> sourceUserCache" where
  "recordTransition t c = count_stat (\<lambda>s.
     s\<lparr>st_insertions := st_insertions s + (if tr_inserted t then 1 else 0),
       st_expiries := st_expiries s + (if tr_expired t then 1 else 0),
       st_evictions := st_evictions s + (if tr_evicted t then 1 else 0)\<rparr>) c"

record slot_scan =
  sc_same :: "nat option"
  sc_empty :: "nat option"
  sc_expired :: "nat option"
  sc_oldest :: "(nat \<times> u32) option"

definition scan_slot :: "u32 \<Rightarrow> u32 \<Rightarrow> nat \<times> u64 \<Rightarrow> slot_scan \<Rightarrow> slot_scan" where
  "scan_slot userID now = (\<lambda>(i, packed) s.
     let (id, seen) = sourceUserCacheUnpackUser packed
     in if id = userID \<and> sc_same s = None then s\<lparr>sc_same := Some i\<rparr>
        else if id = 0 \<and> sc_empty s = None then s\<lparr>sc_empty := Some i\<rparr>
        else if id \<noteq> 0 \<and> sourceUserCacheExpired now seen \<and> sc_expired s = None then s\<lparr>sc_expired := Some i\<rparr>
        else if id \<noteq> 0 \<and> \<not> sourceUserCacheExpired now seen then
          let age = sourceUserCacheAge now seen
          in (case sc_oldest s of
                None \<Rightarrow> s\<lparr>sc_oldest := Some (i, age)\<rparr>
              | Some (_, oldestAge) \<Rightarrow> if age > oldestAge then s\<lparr>sc_oldest := Some (i, age)\<rparr> else s)
        else s)"

definition scan_slots :: "u32 \<Rightarrow> u32 \<Rightarrow> u64 list \<Rightarrow> slot_scan" where
  "scan_slots userID now slots =
     fold (scan_slot userID now) (enumerate 0 slots) \<lparr>sc_same = None, sc_empty = None, sc_expired = None, sc_oldest = None\<rparr>"

definition choose_slot :: "slot_scan \<Rightarrow> nat option" where
  "choose_slot s =
     (case sc_same s of Some i \<Rightarrow> Some i
      | None \<Rightarrow> (case sc_empty s of Some i \<Rightarrow> Some i
        | None \<Rightarrow> (case sc_expired s of Some i \<Rightarrow> Some i
          | None \<Rightarrow> map_option fst (sc_oldest s))))"

text \<open>\<open>None\<close> is the panic of an index that is out of range.\<close>

definition recordUser ::
    "u32 \<Rightarrow> u32 \<Rightarrow> sourceUserCacheEntry \<Rightarrow> (sourceUserCacheRecordTransition \<times> sourceUserCacheEntry) option" where
  "recordUser userID now entry =
     (case choose_slot (scan_slots userID now (en_users entry)) of
        None \<Rightarrow> None
      | Some slot \<Rightarrow>
          let (oldID, oldTick) = sourceUserCacheUnpackUser (en_users entry ! slot)
          in if oldID = userID \<and> oldTick = now
             then Some (\<lparr>tr_inserted = False, tr_expired = False, tr_evicted = False\<rparr>, entry)
             else
               let oldExpired = (oldID \<noteq> 0 \<and> sourceUserCacheExpired now oldTick)
               in Some (\<lparr>tr_inserted = (oldID = 0 \<or> oldExpired \<or> oldID \<noteq> userID), tr_expired = oldExpired,
                         tr_evicted = (oldID \<noteq> 0 \<and> \<not> oldExpired \<and> oldID \<noteq> userID)\<rparr>,
                       entry\<lparr>en_users := (en_users entry)[slot := sourceUserCachePackUser userID now]\<rparr>))"

fun first_empty :: "sourceUserCacheBucket \<Rightarrow> nat option" where
  "first_empty [] = None"
| "first_empty (w # ws) = (if w = None then Some 0 else map_option Suc (first_empty ws))"

fun first_expired :: "u32 \<Rightarrow> u32 list \<Rightarrow> nat option" where
  "first_expired now [] = None"
| "first_expired now (t # ts) = (if sourceUserCacheExpired now t then Some 0 else map_option Suc (first_expired now ts))"

fun oldest_way :: "u32 \<Rightarrow> nat \<Rightarrow> nat \<Rightarrow> u32 \<Rightarrow> u32 list \<Rightarrow> nat" where
  "oldest_way now i oldest oldestAge [] = oldest"
| "oldest_way now i oldest oldestAge (t # ts) =
     (let age = sourceUserCacheAge now t
      in if age > oldestAge then oldest_way now (Suc i) i age ts else oldest_way now (Suc i) oldest oldestAge ts)"

record sourceUserCacheWaySelection =
  ws_way :: nat
  ws_entry :: "sourceUserCacheEntry option"
  ws_expired :: bool

definition selectSourceUserCacheWay :: "sourceUserCacheBucket \<Rightarrow> u32 \<Rightarrow> sourceUserCacheWaySelection" where
  "selectSourceUserCacheWay ways now =
     (case first_empty ways of
        Some way \<Rightarrow> \<lparr>ws_way = way, ws_entry = None, ws_expired = False\<rparr>
      | None \<Rightarrow>
          let ticks = map (\<lambda>w. en_lastActive (the w)) ways
          in (case first_expired now ticks of
                Some way \<Rightarrow> \<lparr>ws_way = way, ws_entry = ways ! way, ws_expired = True\<rparr>
              | None \<Rightarrow>
                  let oldest = oldest_way now 1 0 (sourceUserCacheAge now (ticks ! 0)) (tl ticks)
                  in \<lparr>ws_way = oldest, ws_entry = ways ! oldest, ws_expired = False\<rparr>))"

definition recordAuthenticatedInTable ::
    "(bytes \<Rightarrow> u64) \<Rightarrow> u32 \<Rightarrow> sourceUserCacheTable \<Rightarrow> bytes \<Rightarrow> u32 \<Rightarrow> sourceUserCache \<Rightarrow> sourceUserCache option" where
  "recordAuthenticatedInTable hash now table key userID c =
     (if userID = 0 then Some c
      else
        let bucketIndex = sourceUserCacheBucketIndex hash key;
            ways = table bucketIndex
        in case find_way key ways of
             Some match \<Rightarrow>
               let entry = the (ways ! match);
                   sourceExpired = sourceUserCacheExpired now (en_lastActive entry)
               in (case recordUser userID now entry of
                     None \<Rightarrow> None
                   | Some (transition, entry) \<Rightarrow>
                       let transition = (if sourceExpired
                             then transition\<lparr>tr_inserted := True, tr_expired := True, tr_evicted := False\<rparr> else transition);
                           entry = entry\<lparr>en_lastActive := now\<rparr>
                       in Some (recordTransition transition
                            (c\<lparr>uc_table := Some (table(bucketIndex := ways[match := Some entry]))\<rparr>)))
           | None \<Rightarrow>
               let selection = selectSourceUserCacheWay ways now;
                   replacement = \<lparr>en_key = key, en_lastActive = now,
                     en_users = sourceUserCachePackUser userID now # replicate (sourceUserCacheUsers - 1) 0\<rparr>
               in Some (recordTransition
                    \<lparr>tr_inserted = True, tr_expired = ws_expired selection,
                     tr_evicted = (ws_entry selection \<noteq> None \<and> \<not> ws_expired selection)\<rparr>
                    (c\<lparr>uc_table := Some (table(bucketIndex := ways[ws_way selection := Some replacement]))\<rparr>)))"

definition cache_recordAuthenticated ::
    "(bytes \<Rightarrow> u64) \<Rightarrow> u32 \<Rightarrow> bytes \<Rightarrow> u32 \<Rightarrow> sourceUserCache \<Rightarrow> sourceUserCache option" where
  "cache_recordAuthenticated hash now key userID c =
     (if userID = 0 then Some c
      else (case uc_table c of
          None \<Rightarrow> Some c
        | Some table \<Rightarrow> recordAuthenticatedInTable hash now table key userID c))"

section \<open>Statistics\<close>

text \<open>The counter, what has been published of it, and the metric.\<close>

definition flushSourceUserCacheCounter :: "u64 \<Rightarrow> u64 \<Rightarrow> int \<Rightarrow> u64 \<times> int" where
  "flushSourceUserCacheCounter counter published metric =
     (if counter = published then (published, metric) else (counter, metric + sint (counter - published)))"

section \<open>Properties\<close>

lemma unpack_pack [simp]: "sourceUserCacheUnpackUser (sourceUserCachePackUser u t) = (u, t)"
proof -
  have "ucast (drop_bit 32 (push_bit 32 (ucast u :: u64) OR ucast t) :: u64) = u"
    by (rule bit_word_eqI) (auto simp: bit_simps dest: bit_imp_le_length)
  moreover have "ucast (push_bit 32 (ucast u :: u64) OR ucast t :: u64) = t"
    by (rule bit_word_eqI) (auto simp: bit_simps dest: bit_imp_le_length)
  ultimately show ?thesis by (simp add: sourceUserCacheUnpackUser_def sourceUserCachePackUser_def)
qed

lemma unpack_0 [simp]: "sourceUserCacheUnpackUser 0 = (0, 0)"
  by (simp add: sourceUserCacheUnpackUser_def)

lemma not_expired_now [simp]: "\<not> sourceUserCacheExpired now now"
  by (simp add: sourceUserCacheExpired_def sourceUserCacheAge_def sourceUserCacheLifeSeconds_def)

lemma find_way_SomeD:
  "find_way key b = Some w \<Longrightarrow> w < length b \<and> (\<exists>e. b ! w = Some e \<and> en_key e = key) \<and> (\<forall>v e. v < w \<longrightarrow> b ! v = Some e \<longrightarrow> en_key e \<noteq> key)"
proof (induction b arbitrary: w)
  case (Cons x b)
  show ?case
  proof (cases "\<exists>e. x = Some e \<and> en_key e = key")
    case False
    then obtain v where v: "w = Suc v" "find_way key b = Some v" using Cons.prems by (auto split: if_splits option.splits)
    have "en_key e \<noteq> key" if "j < Suc v" "(x # b) ! j = Some e" for j e
      using Cons.IH [OF v(2)] that False by (cases j) auto
    then show ?thesis using Cons.IH [OF v(2)] v(1) by auto
  qed (use Cons.prems in auto)
qed simp

lemma find_way_update:
  assumes "find_way key b = Some w \<or> find_way key b = None \<and> w < length b" and "en_key e = key"
  shows "find_way key (b[w := Some e]) = Some w"
  using assms
proof (induction b arbitrary: w)
  case (Cons x b)
  then show ?case by (cases w) (auto split: if_splits option.splits)
qed simp

section \<open>The users that a lookup returns\<close>

lemma add_candidate_props:
  "fst ` set (add_candidate u a cs) = insert u (fst ` set cs)"
  "distinct (map fst cs) \<Longrightarrow> distinct (map fst (add_candidate u a cs))"
  "length (add_candidate u a cs) \<le> Suc (length cs)"
proof -
  show "fst ` set (add_candidate u a cs) = insert u (fst ` set cs)" by (induction u a cs rule: add_candidate.induct) auto
  then have f: "set (map fst (add_candidate u a cs)) = insert u (set (map fst cs))" for cs
    by (induction u a cs rule: add_candidate.induct) auto
  show "distinct (map fst (add_candidate u a cs))" if "distinct (map fst cs)"
    using that f by (induction u a cs rule: add_candidate.induct) auto
  show "length (add_candidate u a cs) \<le> Suc (length cs)" by (induction u a cs rule: add_candidate.induct) auto
qed

definition live :: "u32 \<Rightarrow> u64 \<Rightarrow> u32 option" where
  "live now packed = (let (u, seen) = sourceUserCacheUnpackUser packed
     in if u = 0 \<or> sourceUserCacheExpired now seen then None else Some u)"

lemma collect_props:
  assumes "distinct (map fst cs)"
  shows "fst ` set (fold (collect_candidate now) slots cs) = fst ` set cs \<union> {u. Some u \<in> live now ` set slots}"
    and "distinct (map fst (fold (collect_candidate now) slots cs))"
    and "length (fold (collect_candidate now) slots cs) \<le> length cs + length slots"
proof -
  have "fst ` set (fold (collect_candidate now) slots cs) = fst ` set cs \<union> {u. Some u \<in> live now ` set slots} \<and>
      distinct (map fst (fold (collect_candidate now) slots cs)) \<and>
      length (fold (collect_candidate now) slots cs) \<le> length cs + length slots"
    using assms
  proof (induction slots arbitrary: cs)
    case (Cons p slots)
    obtain u seen where p: "sourceUserCacheUnpackUser p = (u, seen)" by (cases "sourceUserCacheUnpackUser p") auto
    let ?cs = "collect_candidate now p cs"
    have c: "distinct (map fst ?cs)" "length ?cs \<le> Suc (length cs)"
      "fst ` set ?cs = fst ` set cs \<union> (case live now p of Some u \<Rightarrow> {u} | None \<Rightarrow> {})"
      using add_candidate_props Cons.prems p by (auto simp: collect_candidate_def live_def)
    have "{u. Some u \<in> live now ` set (p # slots)} = (case live now p of Some u \<Rightarrow> {u} | None \<Rightarrow> {}) \<union> {u. Some u \<in> live now ` set slots}"
      by (auto split: option.splits)
    then show ?case using Cons.IH [OF c(1)] c(2,3) by auto
  qed simp
  then show "fst ` set (fold (collect_candidate now) slots cs) = fst ` set cs \<union> {u. Some u \<in> live now ` set slots}"
    "distinct (map fst (fold (collect_candidate now) slots cs))"
    "length (fold (collect_candidate now) slots cs) \<le> length cs + length slots" by simp_all
qed

lemma mset_shift_in: "mset (shift_in c xs) = add_mset c (mset xs)"
  by (induction c xs rule: shift_in.induct) auto

lemma sorted_shift_in: "sorted_wrt (\<lambda>x y. snd x \<ge> snd y) xs \<Longrightarrow> sorted_wrt (\<lambda>x y. snd x \<ge> snd y) (shift_in c xs)"
proof (induction c xs rule: shift_in.induct)
  case (2 c x xs)
  have "set (shift_in c xs) = insert c (set xs)" using mset_shift_in [of c xs] by (metis set_mset_add_mset_insert set_mset_mset)
  then show ?case using 2 by (auto simp: less_imp_le intro: order_trans)
qed simp

lemma sort_candidates_props: "mset (sort_candidates cs) = mset cs" "sorted_wrt (\<lambda>x y. snd x \<le> snd y) (sort_candidates cs)"
proof -
  have "mset (fold shift_in cs xs) = mset cs + mset xs" for xs by (induction cs arbitrary: xs) (simp_all add: mset_shift_in)
  then show "mset (sort_candidates cs) = mset cs" by (simp add: sort_candidates_def)
  have "sorted_wrt (\<lambda>x y. snd x \<ge> snd y) xs \<Longrightarrow> sorted_wrt (\<lambda>x y. snd x \<ge> snd y) (fold shift_in cs xs)" for xs
    by (induction cs arbitrary: xs) (simp_all add: sorted_shift_in)
  from this [of "[]"] show "sorted_wrt (\<lambda>x y. snd x \<le> snd y) (sort_candidates cs)" by (simp add: sort_candidates_def sorted_wrt_rev)
qed

text \<open>The entry of a source address.\<close>

definition entry_of :: "(bytes \<Rightarrow> u64) \<Rightarrow> bytes \<Rightarrow> sourceUserCache \<Rightarrow> sourceUserCacheEntry option" where
  "entry_of hash key c =
     (case uc_table c of None \<Rightarrow> None
      | Some table \<Rightarrow>
          let bucket = table (sourceUserCacheBucketIndex hash key)
          in map_option (\<lambda>w. the (bucket ! w)) (find_way key bucket))"

lemma table_count_stat [simp]: "uc_table (count_stat f c) = uc_table c"
  by (simp add: count_stat_def)

lemma entry_of_count_stat [simp]: "entry_of hash key (count_stat f c) = entry_of hash key c"
  by (simp add: entry_of_def)

lemma uc_table_lookup [simp]: "uc_table (snd (lookup hash now key c)) = uc_table c"
  by (simp add: lookup_def Let_def split: option.splits)

lemma lookup_props:
  "distinct (fst (lookup hash now key c))"
  "set (fst (lookup hash now key c)) = (case entry_of hash key c of None \<Rightarrow> {}
     | Some e \<Rightarrow> if sourceUserCacheExpired now (en_lastActive e) then {} else {u. Some u \<in> live now ` set (en_users e)})"
  "entry_of hash key c = Some e \<Longrightarrow> length (fst (lookup hash now key c)) \<le> length (en_users e)"
proof -
  define cs where "cs e = fold (collect_candidate now) (en_users e) []" for e :: sourceUserCacheEntry
  have cs: "distinct (map fst (sort_candidates (cs e)))" "fst ` set (sort_candidates (cs e)) = {u. Some u \<in> live now ` set (en_users e)}"
      "length (sort_candidates (cs e)) \<le> length (en_users e)" for e
  proof -
    note p = collect_props [of "[]" now "en_users e", simplified, folded cs_def]
    note s = sort_candidates_props(1) [of "cs e"]
    show "distinct (map fst (sort_candidates (cs e)))" using s p(2) by (metis mset_map distinct_count_atmost_1 mset_eq_imp_distinct_iff)
    show "fst ` set (sort_candidates (cs e)) = {u. Some u \<in> live now ` set (en_users e)}" using s p(1) by (metis mset_eq_setD)
    show "length (sort_candidates (cs e)) \<le> length (en_users e)" using s p(3) by (metis mset_eq_length)
  qed
  have l: "fst (lookup hash now key c) = (case entry_of hash key c of None \<Rightarrow> []
      | Some e \<Rightarrow> if sourceUserCacheExpired now (en_lastActive e) then [] else map fst (sort_candidates (cs e)))"
    by (auto simp: lookup_def entry_of_def Let_def cs_def split: option.splits)
  show "distinct (fst (lookup hash now key c))" using cs(1) by (simp add: l split: option.splits)
  show "set (fst (lookup hash now key c)) = (case entry_of hash key c of None \<Rightarrow> {}
     | Some e \<Rightarrow> if sourceUserCacheExpired now (en_lastActive e) then {} else {u. Some u \<in> live now ` set (en_users e)})"
    using cs(2) by (cases "entry_of hash key c") (simp_all add: l)
  show "length (fst (lookup hash now key c)) \<le> length (en_users e)" if "entry_of hash key c = Some e"
    using cs(3) that by (simp add: l)
qed

section \<open>What a record changes\<close>

definition scan_ok :: "nat \<Rightarrow> slot_scan \<Rightarrow> bool" where
  "scan_ok n s \<longleftrightarrow> (\<forall>i. sc_same s = Some i \<longrightarrow> i < n) \<and> (\<forall>i. sc_empty s = Some i \<longrightarrow> i < n) \<and> (\<forall>i. sc_expired s = Some i \<longrightarrow> i < n) \<and>
     (\<forall>i a. sc_oldest s = Some (i, a) \<longrightarrow> i < n) \<and> (n > 0 \<longrightarrow> choose_slot s \<noteq> None)"

lemma scan_slot_ok: "scan_ok n s \<Longrightarrow> scan_ok (Suc n) (scan_slot u now (n, p) s)"
  by (cases "sourceUserCacheUnpackUser p")
    (auto simp: scan_ok_def scan_slot_def choose_slot_def Let_def less_Suc_eq split: option.splits)

lemma scan_slots_ok: "scan_ok (length slots) (scan_slots u now slots)"
proof (induction slots rule: rev_induct)
  case Nil
  then show ?case by (simp add: scan_slots_def scan_ok_def)
next
  case (snoc p slots)
  then show ?case using scan_slot_ok by (simp add: scan_slots_def enumerate_append_eq)
qed

lemma chosen_slot:
  assumes "slots \<noteq> []"
  shows "\<exists>i < length slots. choose_slot (scan_slots u now slots) = Some i"
proof -
  have s: "scan_ok (length slots) (scan_slots u now slots)" by (rule scan_slots_ok)
  then obtain i where "choose_slot (scan_slots u now slots) = Some i" using assms by (auto simp: scan_ok_def)
  moreover from this s have "i < length slots" by (auto simp: scan_ok_def choose_slot_def split: option.splits)
  ultimately show ?thesis by blast
qed

lemma recordUser_props:
  assumes "length (en_users e) = 16"
  shows "\<exists>t e'. recordUser u now e = Some (t, e') \<and> en_key e' = en_key e \<and> length (en_users e') = 16 \<and>
    (\<exists>p \<in> set (en_users e'). sourceUserCacheUnpackUser p = (u, now)) \<and>
    (\<forall>p \<in> set (en_users e'). p \<in> set (en_users e) \<or> sourceUserCacheUnpackUser p = (u, now))"
proof -
  have ne: "en_users e \<noteq> []" using assms by auto
  obtain i where i: "i < 16" "choose_slot (scan_slots u now (en_users e)) = Some i"
    using chosen_slot [OF ne] assms by metis
  obtain u' t where p: "sourceUserCacheUnpackUser (en_users e ! i) = (u', t)" by (cases "sourceUserCacheUnpackUser (en_users e ! i)") auto
  show ?thesis
  proof (cases "u' = u \<and> t = now")
    case True
    then have "\<exists>p \<in> set (en_users e). sourceUserCacheUnpackUser p = (u, now)" using p i assms by (metis nth_mem)
    then show ?thesis using True i p assms by (simp add: recordUser_def Let_def)
  next
    case False
    let ?q = "sourceUserCachePackUser u now"
    have "set ((en_users e)[i := ?q]) \<subseteq> insert ?q (set (en_users e))" "?q \<in> set ((en_users e)[i := ?q])"
      using i assms by (simp_all add: set_update_subset_insert set_update_memI)
    then have "\<exists>p \<in> set ((en_users e)[i := ?q]). sourceUserCacheUnpackUser p = (u, now)"
      "\<forall>p \<in> set ((en_users e)[i := ?q]). p \<in> set (en_users e) \<or> sourceUserCacheUnpackUser p = (u, now)"
      by (auto intro: bexI [of _ ?q])
    then show ?thesis using False i p assms by (auto simp: recordUser_def Let_def)
  qed
qed

lemma first_empty_SomeD: "first_empty b = Some w \<Longrightarrow> w < length b"
  by (induction b arbitrary: w) (auto split: if_splits option.splits)

lemma first_expired_SomeD: "first_expired now ts = Some w \<Longrightarrow> w < length ts"
  by (induction ts arbitrary: w) (auto split: if_splits option.splits)

lemma oldest_way_less: "oldest < i \<Longrightarrow> oldest_way now i oldest a ts < i + length ts"
  by (induction now i oldest a ts rule: oldest_way.induct) (auto simp: Let_def)

lemma selected_way: "length ways = 4 \<Longrightarrow> ws_way (selectSourceUserCacheWay ways now) < 4"
  using oldest_way_less [of 0 1 now "sourceUserCacheAge now (map (\<lambda>w. en_lastActive (the w)) ways ! 0)" "tl (map (\<lambda>w. en_lastActive (the w)) ways)"]
  by (auto simp: selectSourceUserCacheWay_def Let_def dest: first_empty_SomeD first_expired_SomeD split: option.splits)

text \<open>Buckets have four ways, no address twice, and entries with 16 slots whose users have been recorded for the address.\<close>

type_synonym source_record = "u32 \<times> bytes \<times> u32"

definition entry_recorded :: "source_record set \<Rightarrow> sourceUserCacheEntry \<Rightarrow> bool" where
  "entry_recorded H e \<longleftrightarrow> length (en_users e) = 16 \<and>
     (\<forall>p \<in> set (en_users e). \<forall>u t. sourceUserCacheUnpackUser p = (u, t) \<longrightarrow> u = 0 \<or> (t, en_key e, u) \<in> H)"

definition table_inv :: "source_record set \<Rightarrow> sourceUserCacheTable \<Rightarrow> bool" where
  "table_inv H table \<longleftrightarrow> (\<forall>n. length (table n) = 4 \<and> (\<forall>e. Some e \<in> set (table n) \<longrightarrow> entry_recorded H e))"

lemma table_inv_update:
  assumes "table_inv H table" and "entry_recorded H' e" and "H \<subseteq> H'"
  shows "table_inv H' (table(n := (table n)[w := Some e]))"
proof -
  have "entry_recorded H' x" if "entry_recorded H x" for x using that assms(3) by (auto simp: entry_recorded_def)
  then show ?thesis
    using assms(1,2) set_update_subset_insert [of "table n" w "Some e"] by (fastforce simp: table_inv_def)
qed

lemma record_step:
  assumes "table_inv H table" and "uc_table c = Some table" and "u \<noteq> 0"
  shows "\<exists>c' table' e. cache_recordAuthenticated hash now key u c = Some c' \<and> uc_table c' = Some table' \<and>
    table_inv (insert (now, key, u) H) table' \<and> entry_of hash key c' = Some e \<and> en_lastActive e = now \<and>
    (\<exists>p \<in> set (en_users e). sourceUserCacheUnpackUser p = (u, now))"
proof -
  let ?n = "sourceUserCacheBucketIndex hash key"
  have len: "length (table ?n) = 4" using assms(1) by (simp add: table_inv_def)
  have finish: "\<exists>c' table' e. cache_recordAuthenticated hash now key u c = Some c' \<and> uc_table c' = Some table' \<and>
      table_inv (insert (now, key, u) H) table' \<and> entry_of hash key c' = Some e \<and> en_lastActive e = now \<and>
      (\<exists>p \<in> set (en_users e). sourceUserCacheUnpackUser p = (u, now))"
    if "cache_recordAuthenticated hash now key u c = Some (recordTransition t (c\<lparr>uc_table := Some (table(?n := (table ?n)[w := Some e]))\<rparr>))"
      "find_way key (table ?n) = Some w \<or> find_way key (table ?n) = None \<and> w < length (table ?n)" "en_key e = key"
      "en_lastActive e = now" "entry_recorded (insert (now, key, u) H) e"
      "\<exists>p \<in> set (en_users e). sourceUserCacheUnpackUser p = (u, now)" for t w e
  proof -
    have w: "find_way key ((table ?n)[w := Some e]) = Some w" "w < length (table ?n)"
      using find_way_update [OF that(2,3)] that(2) find_way_SomeD [of key "table ?n" w] by auto
    have "table_inv (insert (now, key, u) H) (table(?n := (table ?n)[w := Some e]))"
      by (rule table_inv_update [OF assms(1) that(5)]) auto
    then show ?thesis using that(1,4,6) w by (simp add: recordTransition_def entry_of_def)
  qed
  show ?thesis
  proof (cases "find_way key (table ?n)")
    case None
    let ?e = "\<lparr>en_key = key, en_lastActive = now, en_users = sourceUserCachePackUser u now # replicate 15 0\<rparr>"
    have "entry_recorded (insert (now, key, u) H) ?e" by (auto simp: entry_recorded_def)
    then show ?thesis
      using finish [of _ "ws_way (selectSourceUserCacheWay (table ?n) now)" ?e] None selected_way [OF len, of now] len assms(2,3)
      by (simp add: cache_recordAuthenticated_def recordAuthenticatedInTable_def Let_def sourceUserCacheUsers_def)
  next
    case (Some w)
    then obtain e where e: "w < length (table ?n)" "table ?n ! w = Some e" "en_key e = key" using find_way_SomeD by blast
    then have r: "entry_recorded H e" using assms(1) unfolding table_inv_def by (metis nth_mem)
    obtain t e' where e': "recordUser u now e = Some (t, e')" "en_key e' = en_key e" "length (en_users e') = 16"
        "\<exists>p \<in> set (en_users e'). sourceUserCacheUnpackUser p = (u, now)"
        "\<forall>p \<in> set (en_users e'). p \<in> set (en_users e) \<or> sourceUserCacheUnpackUser p = (u, now)"
      using recordUser_props [of e u now] r by (auto simp: entry_recorded_def)
    have "entry_recorded (insert (now, key, u) H) (e'\<lparr>en_lastActive := now\<rparr>)"
      using e' e(3) r by (fastforce simp: entry_recorded_def)
    then show ?thesis
      using finish [of _ w "e'\<lparr>en_lastActive := now\<rparr>"] Some e e' assms(2,3)
      by (simp add: cache_recordAuthenticated_def recordAuthenticatedInTable_def Let_def)
  qed
qed

text \<open>A sequence of records, the last one last; \<open>None\<close> if one of them panics.\<close>

fun record_all :: "(bytes \<Rightarrow> u64) \<Rightarrow> source_record list \<Rightarrow> sourceUserCache \<Rightarrow> sourceUserCache option" where
  "record_all hash [] c = Some c"
| "record_all hash ((now, key, u) # rs) c =
     (case cache_recordAuthenticated hash now key u c of None \<Rightarrow> None | Some c \<Rightarrow> record_all hash rs c)"

lemma record_all_ok:
  assumes "table_inv H table" and "uc_table c = Some table" and "\<forall>(_, _, u) \<in> set rs. u \<noteq> 0"
  shows "\<exists>c' table'. record_all hash rs c = Some c' \<and> uc_table c' = Some table' \<and> table_inv (H \<union> set rs) table'"
  using assms
proof (induction rs arbitrary: H table c)
  case (Cons r rs)
  obtain now key u where r: "r = (now, key, u)" by (cases r)
  then obtain c' table' where s: "cache_recordAuthenticated hash now key u c = Some c'" "uc_table c' = Some table'"
      "table_inv (insert (now, key, u) H) table'"
    using record_step [OF Cons.prems(1,2), of u] Cons.prems(3) by fastforce
  then show ?case using Cons.IH [OF s(3,2)] Cons.prems(3) r by auto
qed auto

lemma record_all_snoc:
  "record_all hash (rs @ [(now, key, u)]) c = Option.bind (record_all hash rs c) (cache_recordAuthenticated hash now key u)"
  by (induction hash rs c rule: record_all.induct) (auto split: option.splits)

text \<open>
  C23.  The cache of users per source address serves only users that have been recorded for the address in the last ten minutes.  Records never
  fail.  After any sequence of them, a lookup returns distinct users, at most 16, each of which was recorded for
  this address less than 600 ticks before, whatever the hash function, and the user that was recorded last is among them for
  600 ticks, however full the cache is.  Ticks are 32 bits wide and wrap around.
\<close>

theorem cache_serves_recent_users:
  assumes "\<forall>(_, _, u) \<in> set (rs @ [(tick, key, user)]). u \<noteq> 0"
  shows "\<exists>c. record_all hash (rs @ [(tick, key, user)]) (newSourceUserCache stats) = Some c \<and>
    (\<forall>now addr. distinct (fst (lookup hash now addr c)) \<and> length (fst (lookup hash now addr c)) \<le> 16 \<and>
      (\<forall>u \<in> set (fst (lookup hash now addr c)). \<exists>t. (t, addr, u) \<in> set (rs @ [(tick, key, user)]) \<and> now - t < 600)) \<and>
    (\<forall>now. now - tick < 600 \<longrightarrow> user \<in> set (fst (lookup hash now key c)))"
proof -
  have n: "table_inv {} (\<lambda>_. replicate 4 None)" by (simp add: table_inv_def)
  obtain c table where c: "record_all hash rs (newSourceUserCache stats) = Some c" "uc_table c = Some table" "table_inv (set rs) table"
    using record_all_ok [OF n, of "newSourceUserCache stats" rs hash] assms by (auto simp: newSourceUserCache_def sourceUserCacheWays_def)
  have "user \<noteq> 0" using assms by auto
  from record_step [OF c(3,2) this, of hash tick key] obtain c' table' e where
    r: "cache_recordAuthenticated hash tick key user c = Some c'" "uc_table c' = Some table'" "table_inv (insert (tick, key, user) (set rs)) table'"
      "entry_of hash key c' = Some e" "en_lastActive e = tick" "\<exists>p \<in> set (en_users e). sourceUserCacheUnpackUser p = (user, tick)"
    by blast
  let ?H = "insert (tick, key, user) (set rs)"
  have rec: "entry_recorded ?H x \<and> en_key x = addr" if x: "entry_of hash addr c' = Some x" for addr x
  proof -
    obtain w where "find_way addr (table' (sourceUserCacheBucketIndex hash addr)) = Some w"
        "x = the (table' (sourceUserCacheBucketIndex hash addr) ! w)"
      using x r(2) by (auto simp: entry_of_def Let_def)
    then show ?thesis using r(3) unfolding table_inv_def by (metis find_way_SomeD nth_mem option.sel)
  qed
  have "\<exists>t. (t, addr, u) \<in> ?H \<and> now - t < 600" if u: "u \<in> set (fst (lookup hash now addr c'))" for now addr u
  proof -
    obtain x p where x: "entry_of hash addr c' = Some x" "p \<in> set (en_users x)" "live now p = Some u"
      using u by (auto simp: lookup_props(2) split: option.splits if_splits)
    obtain t where t: "sourceUserCacheUnpackUser p = (u, t)" "u \<noteq> 0" "\<not> sourceUserCacheExpired now t"
      using x(3) by (auto simp: live_def Let_def split: prod.splits if_splits)
    then have "(t, addr, u) \<in> ?H" using rec [OF x(1)] x(2) unfolding entry_recorded_def by metis
    then show ?thesis
      using t(3) by (intro exI [of _ t])
        (simp add: sourceUserCacheExpired_def sourceUserCacheAge_def sourceUserCacheLifeSeconds_def not_le)
  qed
  moreover have "length (fst (lookup hash now addr c')) \<le> 16" for now addr
    using lookup_props(3) [of hash addr c' _ now] lookup_props(2) [of hash now addr c'] rec
    by (cases "entry_of hash addr c'") (auto simp: entry_recorded_def)
  moreover have "user \<in> set (fst (lookup hash now key c'))" if now: "now - tick < 600" for now
  proof -
    obtain p where p: "p \<in> set (en_users e)" "sourceUserCacheUnpackUser p = (user, tick)" using r(6) by blast
    have x: "\<not> sourceUserCacheExpired now tick"
      using now by (simp add: sourceUserCacheExpired_def sourceUserCacheAge_def sourceUserCacheLifeSeconds_def not_le)
    then have "live now p = Some user" using p(2) \<open>user \<noteq> 0\<close> by (simp add: live_def)
    then show ?thesis using p(1) x r(4,5) by (auto simp: lookup_props(2) image_iff intro: bexI [of _ p])
  qed
  ultimately show ?thesis
    using c(1) r(1) lookup_props(1) by (intro exI [of _ c']) (simp add: record_all_snoc)
qed

theorem cache_serves_recent_users_witness:
  "\<exists>c. record_all (\<lambda>_. 0) ([(0, [1], 5)] @ [(3, [2], 6)]) (newSourceUserCache None) = Some c \<and>
     6 \<in> set (fst (lookup (\<lambda>_. 0) 602 [2] c))"
  using cache_serves_recent_users [of "[(0, [1], 5)]" 3 "[2]" 6 "\<lambda>_. 0" None] by fastforce

end
