(* ===== verification/Cipher.thy ===== *)
theory Cipher
  imports Rng
begin

text \<open>
  The block ciphers of \<^verbatim>\<open>pkg/cipher\<close>: \<^verbatim>\<open>cipher.go\<close>, \<^verbatim>\<open>keygen.go\<close>, \<^verbatim>\<open>cache.go\<close> and
  \<^verbatim>\<open>api.go\<close>.  XChaCha20-Poly1305 and PBKDF2 come from \<^verbatim>\<open>golang.org/x/crypto\<close>; they are the fields of the record
  \<open>crypto\<close>, and what is documented of them is \<open>crypto_ok\<close>.  A destination slice is the room it has left, and the result is what is appended
  to it.  A time is a number of nanoseconds since 1970; the epoch of Go's \<^verbatim>\<open>time.Round\<close> differs from it by a multiple of
  the refresh interval.
\<close>

record crypto =
  cr_NonceSize :: nat
  cr_Overhead :: nat
  cr_Seal :: "bytes \<Rightarrow> bytes \<Rightarrow> bytes \<Rightarrow> bytes"
  cr_Open :: "bytes \<Rightarrow> bytes \<Rightarrow> bytes \<Rightarrow> bytes option"
  cr_Key :: "bytes \<Rightarrow> bytes \<Rightarrow> nat \<Rightarrow> nat \<Rightarrow> bytes"

definition crypto_ok :: "crypto \<Rightarrow> bool" where
  "crypto_ok cr \<longleftrightarrow> cr_NonceSize cr = 24 \<and> cr_Overhead cr = 16 \<and>
     (\<forall>k n p. length n = 24 \<longrightarrow> cr_Open cr k n (cr_Seal cr k n p) = Some p) \<and>
     (\<forall>k n p. length (cr_Seal cr k n p) = length p + 16) \<and>
     (\<forall>k n c p. cr_Open cr k n c = Some p \<longrightarrow> length c = length p + 16) \<and>
     (\<forall>pw s i n. length (cr_Key cr pw s i n) = n)"

definition DefaultNonceSize :: nat where "DefaultNonceSize = 24"
definition DefaultOverhead :: nat where "DefaultOverhead = 16"
definition DefaultKeyLen :: nat where "DefaultKeyLen = 32"
definition NoncePrefixLenForUserHint :: nat where "NoncePrefixLenForUserHint = 16"
definition NonceSuffixLenForUserHint :: nat where "NonceSuffixLenForUserHint = 4"
definition MaxUserNameLen :: nat where "MaxUserNameLen = 64"

lemmas cipher_consts = DefaultNonceSize_def DefaultOverhead_def DefaultKeyLen_def NoncePrefixLenForUserHint_def
  NonceSuffixLenForUserHint_def MaxUserNameLen_def

datatype AEADType = AES128GCM | AES256GCM | ChaCha20Poly1305 | XChaCha20Poly1305

text \<open>\<open>CipherPanic\<close> is a panic, and \<open>CipherWaiting\<close> the loop for printable bytes that needs more random values.\<close>

datatype cipher_error =
    CiphertextTooShort
  | DestinationTooSmall
  | ImplicitNonceEnabled
  | WrongNonceSize
  | OpenFailed
  | WrongKeyLength
  | EmptyPassword
  | UnableToDecrypt
  | NoRandom
  | NilDecryptor
  | CipherPanic
  | CipherWaiting

record BlockContext =
  bc_UserName :: string

record aeadBlockCipher =
  ac_aeadType :: AEADType
  ac_key :: bytes
  ac_enableImplicitNonce :: bool
  ac_implicitNonce :: bytes
  ac_ctx :: BlockContext
  ac_noncePattern :: "NoncePattern option"
  ac_noncePatternApplied :: bool

text \<open>The \<^verbatim>\<open>aead\<close> of a cipher is determined by its key.\<close>

definition newXChaCha20Poly1305BlockCipher :: "bytes \<Rightarrow> cipher_error + aeadBlockCipher" where
  "newXChaCha20Poly1305BlockCipher key =
     (if length key \<noteq> 32 then Inl WrongKeyLength
      else Inr \<lparr>ac_aeadType = XChaCha20Poly1305, ac_key = key, ac_enableImplicitNonce = False, ac_implicitNonce = [],
                ac_ctx = \<lparr>bc_UserName = ''''\<rparr>, ac_noncePattern = None, ac_noncePatternApplied = False\<rparr>)"

definition SetImplicitNonceMode :: "bool \<Rightarrow> aeadBlockCipher \<Rightarrow> aeadBlockCipher" where
  "SetImplicitNonceMode enable c =
     (let c = c\<lparr>ac_enableImplicitNonce := enable\<rparr> in if \<not> enable then c\<lparr>ac_implicitNonce := []\<rparr> else c)"

definition IsStateless :: "aeadBlockCipher \<Rightarrow> bool" where
  "IsStateless c \<longleftrightarrow> \<not> ac_enableImplicitNonce c"

definition SetBlockContext :: "BlockContext \<Rightarrow> aeadBlockCipher \<Rightarrow> aeadBlockCipher" where
  "SetBlockContext bc c = c\<lparr>ac_ctx := bc\<rparr>"

definition SetNoncePattern :: "NoncePattern option \<Rightarrow> aeadBlockCipher \<Rightarrow> aeadBlockCipher" where
  "SetNoncePattern pattern c = c\<lparr>ac_noncePattern := pattern\<rparr>"

definition cloneStatelessFast :: "aeadBlockCipher \<Rightarrow> aeadBlockCipher" where
  "cloneStatelessFast c =
     \<lparr>ac_aeadType = ac_aeadType c, ac_key = ac_key c, ac_enableImplicitNonce = False, ac_implicitNonce = [],
      ac_ctx = \<lparr>bc_UserName = ''''\<rparr>, ac_noncePattern = None, ac_noncePatternApplied = False\<rparr>"

definition Clone :: "aeadBlockCipher \<Rightarrow> cipher_error + aeadBlockCipher" where
  "Clone c =
     (if ac_aeadType c \<noteq> XChaCha20Poly1305 then Inl CipherPanic
      else (case newXChaCha20Poly1305BlockCipher (ac_key c) of
          Inl _ \<Rightarrow> Inl CipherPanic
        | Inr n \<Rightarrow> Inr (n\<lparr>ac_enableImplicitNonce := ac_enableImplicitNonce c, ac_implicitNonce := ac_implicitNonce c,
                       ac_ctx := ac_ctx c, ac_noncePattern := ac_noncePattern c\<rparr>)))"

section \<open>Nonces\<close>

text \<open>\<^verbatim>\<open>hex.DecodeString\<close>\<close>

definition hex_value :: "char \<Rightarrow> nat option" where
  "hex_value ch =
     (let n = of_char ch :: nat
      in if 48 \<le> n \<and> n \<le> 57 then Some (n - 48)
         else if 97 \<le> n \<and> n \<le> 102 then Some (n - 87)
         else if 65 \<le> n \<and> n \<le> 70 then Some (n - 55)
         else None)"

fun hex_DecodeString :: "string \<Rightarrow> bytes option" where
  "hex_DecodeString [] = Some []"
| "hex_DecodeString [_] = None"
| "hex_DecodeString (a # b # r) =
     (case (hex_value a, hex_value b) of
        (Some x, Some y) \<Rightarrow> map_option (\<lambda>rest. of_nat (16 * x + y) # rest) (hex_DecodeString r)
      | _ \<Rightarrow> None)"

text \<open>\<open>nr_read n\<close> is what \<^verbatim>\<open>crand.Read\<close> puts into a slice of length \<open>n\<close>; \<open>nr_len\<close> and \<open>nr_pick\<close> are calls of \<^verbatim>\<open>mrand.Intn\<close>.\<close>

record nonce_rand =
  nr_read :: "nat \<Rightarrow> bytes option"
  nr_len :: "int \<Rightarrow> int"
  nr_pick :: "int \<Rightarrow> int"
  nr_draws :: "u16 list"

definition nonceRewriteLen :: "crypto \<Rightarrow> (int \<Rightarrow> int) \<Rightarrow> NoncePattern \<Rightarrow> int" where
  "nonceRewriteLen cr mrand pattern =
     (let minLen = GetMinLen pattern; maxLen = GetMaxLen pattern;
          maxLen = (if maxLen > int (cr_NonceSize cr) then int (cr_NonceSize cr) else maxLen);
          minLen = (if minLen > maxLen then maxLen else minLen)
      in if minLen = maxLen then minLen else minLen + mrand (maxLen - minLen + 1))"

definition apply_pattern :: "crypto \<Rightarrow> nonce_rand \<Rightarrow> NoncePattern \<Rightarrow> bytes \<Rightarrow> cipher_error + bytes" where
  "apply_pattern cr R pattern nonce =
     (if GetNonceType pattern = NONCE_TYPE_PRINTABLE then
        let rewriteLen = nonceRewriteLen cr (nr_len R) pattern
        in if rewriteLen < 0 then Inl CipherPanic
           else (case ToPrintableChar nonce 0 (nat rewriteLen) (nr_draws R) of
               Drawn b _ \<Rightarrow> Inr b | MoreRandom \<Rightarrow> Inl CipherWaiting | AsciiPanic \<Rightarrow> Inl CipherPanic)
      else if GetNonceType pattern = NONCE_TYPE_PRINTABLE_SUBSET then
        let rewriteLen = nonceRewriteLen cr (nr_len R) pattern
        in if rewriteLen < 0 then Inl CipherPanic
           else (case ToCommon64Set nonce 0 (nat rewriteLen) of Some b \<Rightarrow> Inr b | None \<Rightarrow> Inl CipherPanic)
      else if GetNonceType pattern = NONCE_TYPE_FIXED then
        let hexStrings = np_CustomHexStrings pattern
        in if length hexStrings > 0 then
             (case hex_DecodeString (hexStrings ! nat (nr_pick R (int (length hexStrings)))) of
                Some prefix \<Rightarrow>
                  let copyLen = (if length prefix > cr_NonceSize cr then cr_NonceSize cr else length prefix)
                  in Inr (take copyLen prefix @ drop copyLen nonce)
              | None \<Rightarrow> Inl CipherPanic)
           else Inr nonce
      else Inr nonce)"

text \<open>Both callers pass a slice of the length of a nonce; the result is what it holds.\<close>

definition newNonceTo :: "crypto \<Rightarrow> nonce_rand \<Rightarrow> aeadBlockCipher \<Rightarrow> (cipher_error + bytes) \<times> aeadBlockCipher" where
  "newNonceTo cr R c =
     (case nr_read R (cr_NonceSize cr) of
        None \<Rightarrow> (Inl NoRandom, c)
      | Some nonce \<Rightarrow>
          (case ac_noncePattern c of
             None \<Rightarrow> (Inr nonce, c)
           | Some pattern \<Rightarrow>
               if \<not> ac_enableImplicitNonce c \<and> ac_noncePatternApplied c \<and> \<not> GetApplyToAllUDPPacket pattern
               then (Inr nonce, c)
               else (case apply_pattern cr R pattern nonce of
                   Inl e \<Rightarrow> (Inl e, c)
                 | Inr nonce \<Rightarrow> (Inr nonce, c\<lparr>ac_noncePatternApplied := True\<rparr>))))"

fun inc_bytes :: "bytes \<Rightarrow> bytes" where
  "inc_bytes [] = []"
| "inc_bytes (b # bs) = (let b' = b + 1 in if b' \<noteq> 0 then b' # bs else b' # inc_bytes bs)"

text \<open>The loop runs from the last byte on.\<close>

definition increaseNonce :: "aeadBlockCipher \<Rightarrow> cipher_error + aeadBlockCipher" where
  "increaseNonce c =
     (if \<not> ac_enableImplicitNonce c \<or> length (ac_implicitNonce c) = 0 then Inl CipherPanic
      else Inr (c\<lparr>ac_implicitNonce := rev (inc_bytes (rev (ac_implicitNonce c)))\<rparr>))"

definition hint_of :: "bytes \<Rightarrow> bytes \<Rightarrow> bytes" where
  "hint_of user nonce = take NonceSuffixLenForUserHint (Sum256 (user @ take NoncePrefixLenForUserHint nonce))"

definition addUserHintToNonce :: "aeadBlockCipher \<Rightarrow> bytes \<Rightarrow> cipher_error + bytes" where
  "addUserHintToNonce c nonce =
     (if bc_UserName (ac_ctx c) = '''' then Inr nonce
      else if length (bc_UserName (ac_ctx c)) > MaxUserNameLen then Inl CipherPanic
      else if length nonce < NoncePrefixLenForUserHint + NonceSuffixLenForUserHint then Inl CipherPanic
      else Inr (take (length nonce - NonceSuffixLenForUserHint) nonce @ hint_of (bytes_of (bc_UserName (ac_ctx c))) nonce))"

text \<open>\<open>None\<close> is a panic.\<close>

definition CheckUserFromHint :: "bytes \<Rightarrow> bytes \<Rightarrow> bool option" where
  "CheckUserFromHint user nonce =
     (if length user = 0 then None
      else if length user > MaxUserNameLen then None
      else if length nonce < NoncePrefixLenForUserHint + NonceSuffixLenForUserHint then None
      else Some (hint_of user nonce = drop (length nonce - NonceSuffixLenForUserHint) nonce))"

section \<open>Encryption\<close>

definition choose_nonce :: "crypto \<Rightarrow> nonce_rand \<Rightarrow> aeadBlockCipher \<Rightarrow> (cipher_error + bytes) \<times> aeadBlockCipher" where
  "choose_nonce cr R c =
     (if ac_enableImplicitNonce c \<and> length (ac_implicitNonce c) \<noteq> 0 then
        (case increaseNonce c of Inl e \<Rightarrow> (Inl e, c) | Inr c \<Rightarrow> (Inr (ac_implicitNonce c), c))
      else
        (case newNonceTo cr R c of
           (Inl e, c) \<Rightarrow> (Inl e, c)
         | (Inr nonce, c) \<Rightarrow>
             (case addUserHintToNonce c nonce of
                Inl e \<Rightarrow> (Inl e, c)
              | Inr nonce \<Rightarrow> (Inr nonce, if ac_enableImplicitNonce c then c\<lparr>ac_implicitNonce := nonce\<rparr> else c))))"

definition Encrypt :: "crypto \<Rightarrow> nonce_rand \<Rightarrow> nat \<Rightarrow> bytes \<Rightarrow> aeadBlockCipher \<Rightarrow> (cipher_error + bytes) \<times> aeadBlockCipher" where
  "Encrypt cr R room plaintext c =
     (let needSendNonce = (\<not> ac_enableImplicitNonce c \<or> length (ac_implicitNonce c) = 0);
          resultLen = length plaintext + cr_Overhead cr + (if needSendNonce then cr_NonceSize cr else 0)
      in if room < resultLen then (Inl DestinationTooSmall, c)
         else (case choose_nonce cr R c of
             (Inl e, c) \<Rightarrow> (Inl e, c)
           | (Inr nonce, c) \<Rightarrow> (Inr ((if needSendNonce then nonce else []) @ cr_Seal cr (ac_key c) nonce plaintext), c)))"

definition EncryptWithNonce :: "crypto \<Rightarrow> nat \<Rightarrow> bytes \<Rightarrow> bytes \<Rightarrow> aeadBlockCipher \<Rightarrow> cipher_error + bytes" where
  "EncryptWithNonce cr room nonce plaintext c =
     (if ac_enableImplicitNonce c then Inl ImplicitNonceEnabled
      else if length nonce \<noteq> cr_NonceSize cr then Inl WrongNonceSize
      else if room < length plaintext + cr_Overhead cr then Inl DestinationTooSmall
      else Inr (cr_Seal cr (ac_key c) nonce plaintext))"

definition open_with :: "crypto \<Rightarrow> bytes \<Rightarrow> bytes \<Rightarrow> aeadBlockCipher \<Rightarrow> (cipher_error + bytes) \<times> aeadBlockCipher" where
  "open_with cr nonce ciphertext c =
     ((case cr_Open cr (ac_key c) nonce ciphertext of Some p \<Rightarrow> Inr p | None \<Rightarrow> Inl OpenFailed), c)"

definition Decrypt :: "crypto \<Rightarrow> bytes \<Rightarrow> aeadBlockCipher \<Rightarrow> (cipher_error + bytes) \<times> aeadBlockCipher" where
  "Decrypt cr ciphertext c =
     (if ac_enableImplicitNonce c then
        if length (ac_implicitNonce c) = 0 then
          if length ciphertext < cr_NonceSize cr then (Inl CiphertextTooShort, c)
          else
            let c = c\<lparr>ac_implicitNonce := take (cr_NonceSize cr) ciphertext\<rparr>
            in open_with cr (ac_implicitNonce c) (drop (cr_NonceSize cr) ciphertext) c
        else (case increaseNonce c of
            Inl e \<Rightarrow> (Inl e, c)
          | Inr c \<Rightarrow> open_with cr (ac_implicitNonce c) ciphertext c)
      else
        if length ciphertext < cr_NonceSize cr then (Inl CiphertextTooShort, c)
        else open_with cr (take (cr_NonceSize cr) ciphertext) (drop (cr_NonceSize cr) ciphertext) c)"

definition DecryptWithNonce :: "crypto \<Rightarrow> bytes \<Rightarrow> bytes \<Rightarrow> aeadBlockCipher \<Rightarrow> cipher_error + bytes" where
  "DecryptWithNonce cr ciphertext nonce c =
     (if ac_enableImplicitNonce c then Inl ImplicitNonceEnabled
      else if length nonce \<noteq> cr_NonceSize cr then Inl WrongNonceSize
      else fst (open_with cr nonce ciphertext c))"

definition DecryptStatelessTo :: "crypto \<Rightarrow> bytes \<Rightarrow> bytes \<Rightarrow> aeadBlockCipher \<Rightarrow> cipher_error + bytes" where
  "DecryptStatelessTo cr ciphertext dst c =
     (if length ciphertext < cr_NonceSize cr then Inl CiphertextTooShort
      else map_sum id (\<lambda>p. dst @ p)
        (fst (open_with cr (take (cr_NonceSize cr) ciphertext) (drop (cr_NonceSize cr) ciphertext) c)))"

text \<open>The ciphers that fail to decrypt are copies that nothing else refers to.\<close>

fun selectDecrypt :: "crypto \<Rightarrow> bytes \<Rightarrow> aeadBlockCipher list \<Rightarrow> cipher_error + aeadBlockCipher \<times> bytes" where
  "selectDecrypt cr data [] = Inl UnableToDecrypt"
| "selectDecrypt cr data (block # blocks) =
     (case Decrypt cr data block of
        (Inr decrypted, block) \<Rightarrow> Inr (block, decrypted)
      | (Inl _, _) \<Rightarrow> selectDecrypt cr data blocks)"

fun selectDecryptStateless :: "crypto \<Rightarrow> bytes \<Rightarrow> bytes \<Rightarrow> aeadBlockCipher list \<Rightarrow> cipher_error + aeadBlockCipher \<times> bytes" where
  "selectDecryptStateless cr ciphertext dst [] = Inl UnableToDecrypt"
| "selectDecryptStateless cr ciphertext dst (block # blocks) =
     (case DecryptStatelessTo cr ciphertext dst block of
        Inr decrypted \<Rightarrow> Inr (block, decrypted)
      | Inl _ \<Rightarrow> selectDecryptStateless cr ciphertext dst blocks)"

section \<open>Keys\<close>

definition KeyIter :: nat where "KeyIter = 64"
definition second :: int where "second = 10 ^ 9"
definition KeyRefreshInterval :: int where "KeyRefreshInterval = 2 * (60 * second)"

definition time_Round :: "int \<Rightarrow> int \<Rightarrow> int" where
  "time_Round t d = (let r = t mod d in if r + r < d then t - r else t + (d - r))"

definition time_Unix :: "int \<Rightarrow> int" where
  "time_Unix t = t div second"

record pbkdf2Gen =
  kg_Salt :: bytes
  kg_Iter :: nat

definition NewKey :: "crypto \<Rightarrow> pbkdf2Gen \<Rightarrow> bytes \<Rightarrow> nat \<Rightarrow> cipher_error + bytes" where
  "NewKey cr g password keyLen =
     (if length password = 0 then Inl EmptyPassword else Inr (cr_Key cr password (kg_Salt g) (kg_Iter g) keyLen))"

definition saltFromTime :: "int \<Rightarrow> bytes list" where
  "saltFromTime t =
     (let rounded = time_Round t KeyRefreshInterval
      in map (\<lambda>t. Sum256 (PutUint64 (word_of_int (time_Unix t)))) [rounded - KeyRefreshInterval, rounded, rounded + KeyRefreshInterval])"

definition HashPassword :: "bytes \<Rightarrow> bytes \<Rightarrow> bytes" where
  "HashPassword rawPassword uniqueValue = Sum256 (rawPassword @ [0] @ uniqueValue)"

fun ciphers_of_salts :: "crypto \<Rightarrow> bytes \<Rightarrow> bytes list \<Rightarrow> cipher_error + aeadBlockCipher list" where
  "ciphers_of_salts cr password [] = Inr []"
| "ciphers_of_salts cr password (salt # salts) =
     and_then (NewKey cr \<lparr>kg_Salt = salt, kg_Iter = KeyIter\<rparr> password DefaultKeyLen) (\<lambda>cipherKey.
     and_then (newXChaCha20Poly1305BlockCipher cipherKey) (\<lambda>blockCipher.
     and_then (ciphers_of_salts cr password salts) (\<lambda>blockCiphers. Inr (blockCipher # blockCiphers))))"

definition newBlockCipherList :: "crypto \<Rightarrow> bytes \<Rightarrow> int \<Rightarrow> cipher_error + aeadBlockCipher list" where
  "newBlockCipherList cr password now = ciphers_of_salts cr password (saltFromTime now)"

definition cipherKeyEpoch :: "int \<Rightarrow> int" where
  "cipherKeyEpoch t = time_Unix (time_Round t KeyRefreshInterval)"

section \<open>The cache of ciphers\<close>

definition cacheValidInterval :: int where "cacheValidInterval = KeyRefreshInterval div 4"

record cachedCiphers =
  cc_cipherList :: "aeadBlockCipher list"
  cc_createTime :: int
  cc_epoch :: int

type_synonym cipher_cache = "bytes \<rightharpoonup> cachedCiphers"

text \<open>\<open>jitterMs\<close> is \<^verbatim>\<open>mrand.Intn(cacheValidMaxJitterMs)\<close>.\<close>

definition getCachedCiphers ::
    "crypto \<Rightarrow> int \<Rightarrow> bytes \<Rightarrow> int \<Rightarrow> cipher_cache \<Rightarrow> (cipher_error + cachedCiphers) \<times> cipher_cache" where
  "getCachedCiphers cr jitterMs password now blockCipherCache =
     (let jitter = jitterMs * 10 ^ 6;
          found = (case blockCipherCache password of
              Some entry \<Rightarrow>
                if cc_epoch entry \<noteq> cipherKeyEpoch now \<or> cc_createTime entry + (cacheValidInterval - jitter) < now
                then None else Some entry
            | None \<Rightarrow> None)
      in case found of
           Some entry \<Rightarrow> (Inr entry, blockCipherCache)
         | None \<Rightarrow>
             (case newBlockCipherList cr password now of
                Inl e \<Rightarrow> (Inl e, blockCipherCache)
              | Inr blockCiphers \<Rightarrow>
                  let entry = \<lparr>cc_cipherList = blockCiphers, cc_createTime = now, cc_epoch = cipherKeyEpoch now\<rparr>
                  in (Inr entry, blockCipherCache(password \<mapsto> entry))))"

definition implicit_clone :: "bool \<Rightarrow> aeadBlockCipher \<Rightarrow> aeadBlockCipher" where
  "implicit_clone stateless template =
     (let block = cloneStatelessFast template in if \<not> stateless then SetImplicitNonceMode True block else block)"

definition getBlockCipherList ::
    "crypto \<Rightarrow> int \<Rightarrow> bytes \<Rightarrow> bool \<Rightarrow> int \<Rightarrow> cipher_cache \<Rightarrow> (cipher_error + aeadBlockCipher list) \<times> cipher_cache" where
  "getBlockCipherList cr jitterMs password stateless now cache =
     (case getCachedCiphers cr jitterMs password now cache of
        (Inl e, cache) \<Rightarrow> (Inl e, cache)
      | (Inr entry, cache) \<Rightarrow>
          (Inr (map (\<lambda>block. if stateless then block else implicit_clone stateless block) (cc_cipherList entry)), cache))"

definition BlockCipherFromPassword ::
    "crypto \<Rightarrow> int \<Rightarrow> bytes \<Rightarrow> bool \<Rightarrow> int \<Rightarrow> cipher_cache \<Rightarrow> (cipher_error + aeadBlockCipher) \<times> cipher_cache" where
  "BlockCipherFromPassword cr jitterMs password stateless now cache =
     (case getCachedCiphers cr jitterMs password now cache of
        (Inl e, cache) \<Rightarrow> (Inl e, cache)
      | (Inr entry, cache) \<Rightarrow> (Inr (implicit_clone stateless (cc_cipherList entry ! 1)), cache))"

definition BlockCipherListFromPassword ::
    "crypto \<Rightarrow> int \<Rightarrow> bytes \<Rightarrow> bool \<Rightarrow> int \<Rightarrow> cipher_cache \<Rightarrow> (cipher_error + aeadBlockCipher list) \<times> cipher_cache" where
  "BlockCipherListFromPassword cr jitterMs password stateless now cache =
     (case getCachedCiphers cr jitterMs password now cache of
        (Inl e, cache) \<Rightarrow> (Inl e, cache)
      | (Inr entry, cache) \<Rightarrow> (Inr (map (implicit_clone stateless) (cc_cipherList entry)), cache))"

definition try_entry :: "crypto \<Rightarrow> bytes \<Rightarrow> bytes \<Rightarrow> cachedCiphers \<Rightarrow> cipher_error + aeadBlockCipher \<times> bytes" where
  "try_entry cr ciphertext dst entry =
     map_sum id (\<lambda>(block, plaintext). (cloneStatelessFast block, plaintext))
       (selectDecryptStateless cr ciphertext dst (cc_cipherList entry))"

definition TryDecrypt ::
    "crypto \<Rightarrow> int \<Rightarrow> bytes \<Rightarrow> bytes \<Rightarrow> bool \<Rightarrow> int \<Rightarrow> cipher_cache \<Rightarrow> (cipher_error + aeadBlockCipher \<times> bytes) \<times> cipher_cache" where
  "TryDecrypt cr jitterMs data password stateless now cache =
     (if stateless then
        (case getCachedCiphers cr jitterMs password now cache of
           (Inl e, cache) \<Rightarrow> (Inl e, cache)
         | (Inr entry, cache) \<Rightarrow>
             (try_entry cr data [] entry, cache))
      else
        (case getBlockCipherList cr jitterMs password stateless now cache of
           (Inl e, cache) \<Rightarrow> (Inl e, cache)
         | (Inr blocks, cache) \<Rightarrow> (selectDecrypt cr data blocks, cache)))"

record StatelessDecryptor =
  sd_password :: bytes
  sd_ciphers :: "cachedCiphers option"

definition NewStatelessDecryptor :: "bytes \<Rightarrow> cipher_error + StatelessDecryptor" where
  "NewStatelessDecryptor password =
     (if length password = 0 then Inl EmptyPassword else Inr \<lparr>sd_password = password, sd_ciphers = None\<rparr>)"

text \<open>A nil decryptor is \<open>None\<close>.\<close>

definition tryDecryptAt ::
    "crypto \<Rightarrow> int \<Rightarrow> bytes \<Rightarrow> bytes \<Rightarrow> int \<Rightarrow> StatelessDecryptor option \<Rightarrow> cipher_cache \<Rightarrow>
     (cipher_error + aeadBlockCipher \<times> bytes) \<times> StatelessDecryptor option \<times> cipher_cache" where
  "tryDecryptAt cr jitterMs ciphertext dst now decryptor cache =
     (case decryptor of
        None \<Rightarrow> (Inl NilDecryptor, decryptor, cache)
      | Some d \<Rightarrow>
          let epoch = cipherKeyEpoch now;
              refresh = (case getCachedCiphers cr jitterMs (sd_password d) now cache of
                  (Inl e, cache) \<Rightarrow> (Inl e, decryptor, cache)
                | (Inr entry, cache) \<Rightarrow> (try_entry cr ciphertext dst entry, Some (d\<lparr>sd_ciphers := Some entry\<rparr>), cache))
          in case sd_ciphers d of
               None \<Rightarrow> refresh
             | Some entry \<Rightarrow> if cc_epoch entry \<noteq> epoch then refresh else (try_entry cr ciphertext dst entry, decryptor, cache))"

end
