(* ===== verification/Cipher_Props.thy ===== *)
theory Cipher_Props
  imports Cipher
begin

text \<open>
  What the block ciphers promise: the two ends of a stream stay in step and never use a nonce twice, the caches of ciphers are
  invisible, and two hosts whose clocks differ by at most two minutes derive a common key.
\<close>

section \<open>The value of a nonce\<close>

fun le_value :: "bytes \<Rightarrow> nat" where
  "le_value [] = 0"
| "le_value (b # bs) = unat b + 256 * le_value bs"

definition be_value :: "bytes \<Rightarrow> nat" where
  "be_value b = le_value (rev b)"

definition inc_nonce :: "bytes \<Rightarrow> bytes" where
  "inc_nonce n = rev (inc_bytes (rev n))"

lemma le_value_less: "le_value b < 256 ^ length b"
proof (induction b)
  case (Cons x b)
  have "unat x < 256" using unsigned_less [of x, where ?'a = nat] by simp
  then show ?case using Cons by simp
qed simp

lemma length_inc_bytes [simp]: "length (inc_bytes b) = length b"
  by (induction b) (simp_all add: Let_def)

lemma length_inc_nonce [simp]: "length (inc_nonce n) = length n"
  by (simp add: inc_nonce_def)

lemma inc_bytes_value: "le_value (inc_bytes b) = (le_value b + 1) mod 256 ^ length b"
proof (induction b)
  case (Cons x b)
  show ?case
  proof (cases "x + 1 = 0")
    case True
    then have "x = - 1" by (simp add: eq_neg_iff_add_eq_0)
    then have x: "unat x = 255" by (simp add: unsigned_minus_1_eq_mask mask_eq_exp_minus_1)
    have "(256 + 256 * le_value b) mod (256 * 256 ^ length b) = 256 * ((1 + le_value b) mod 256 ^ length b)"
      using mult_mod_right [of 256 "1 + le_value b" "256 ^ length b"] by simp
    then show ?thesis using Cons True x by (simp add: add.commute)
  next
    case False
    then have x: "unat (x + 1) = unat x + 1" using unatSuc [of x] by (simp add: add.commute)
    have "le_value ((x + 1) # b) < 256 ^ length ((x + 1) # b)" by (rule le_value_less)
    then show ?thesis using False x by simp
  qed
qed simp

lemma le_value_inject: "length a = length b \<Longrightarrow> le_value a = le_value b \<Longrightarrow> a = b"
proof (induction a b rule: list_induct2)
  case (Cons x xs y ys)
  have "unat x < 256" "unat y < 256" using unsigned_less [of x, where ?'a = nat] unsigned_less [of y, where ?'a = nat] by simp_all
  moreover have "unat x + 256 * le_value xs = unat y + 256 * le_value ys" using Cons.prems by simp
  then have "(unat x + 256 * le_value xs) mod 256 = (unat y + 256 * le_value ys) mod 256"
    "(unat x + 256 * le_value xs) div 256 = (unat y + 256 * le_value ys) div 256" by simp_all
  ultimately have "unat x = unat y \<and> le_value xs = le_value ys" by simp
  then show ?case using Cons.IH by (simp add: word_unat_eq_iff)
qed simp

lemma inc_nonce_value: "be_value (inc_nonce n) = (be_value n + 1) mod 256 ^ length n"
  using inc_bytes_value [of "rev n"] by (simp add: be_value_def inc_nonce_def)

lemma be_value_inject: "length a = length b \<Longrightarrow> be_value a = be_value b \<Longrightarrow> a = b"
  using le_value_inject [of "rev a" "rev b"] by (simp add: be_value_def)

lemma inc_nonce_iter: "length ((inc_nonce ^^ k) n) = length n \<and> be_value ((inc_nonce ^^ k) n) = (be_value n + k) mod 256 ^ length n"
proof (induction k)
  case 0
  then show ?case using le_value_less [of "rev n"] by (simp add: be_value_def)
next
  case (Suc k)
  then show ?case by (simp add: inc_nonce_value mod_Suc_eq)
qed

lemma shift_mod_inject:
  assumes "(v + i) mod m = (v + j) mod m" and "i < m" and "j < (m :: nat)"
  shows "i = j"
proof -
  have "i = j" if "i \<le> j" "(v + j) mod m = (v + i) mod m" "j < m" for i j
  proof -
    have "m dvd j - i" using that mod_eq_dvd_iff_nat [of "v + i" "v + j" m] by simp
    then show ?thesis using that by (auto dest: dvd_imp_le)
  qed
  then show ?thesis using assms by (metis nat_le_linear)
qed

lemma nonces_distinct: "k \<le> 256 ^ length n \<Longrightarrow> distinct (map (\<lambda>i. (inc_nonce ^^ i) n) [0..<k])"
proof (unfold distinct_map, intro conjI inj_onI)
  fix i j assume k: "k \<le> 256 ^ length n" and "i \<in> set [0..<k]" "j \<in> set [0..<k]" and e: "(inc_nonce ^^ i) n = (inc_nonce ^^ j) n"
  then have b: "i < 256 ^ length n" "j < 256 ^ length n" by auto
  have "(be_value n + i) mod 256 ^ length n = (be_value n + j) mod 256 ^ length n"
    using inc_nonce_iter [of i n] inc_nonce_iter [of j n] e by metis
  then show "i = j" by (rule shift_mod_inject [OF _ b])
qed simp

section \<open>Fresh nonces\<close>

definition nonce_rand_ok :: "nonce_rand \<Rightarrow> bool" where
  "nonce_rand_ok R \<longleftrightarrow> (\<forall>n. \<exists>b. nr_read R n = Some b \<and> length b = n) \<and> mrand_ok (nr_len R) \<and> mrand_ok (nr_pick R) \<and>
     usable (nr_draws R) \<ge> 24"

definition pattern_ok :: "NoncePattern \<Rightarrow> bool" where
  "pattern_ok p \<longleftrightarrow> 0 \<le> GetMinLen p \<and> 0 \<le> GetMaxLen p \<and> list_all (\<lambda>h. hex_DecodeString h \<noteq> None) (np_CustomHexStrings p)"

definition cipher_ok :: "aeadBlockCipher \<Rightarrow> bool" where
  "cipher_ok c \<longleftrightarrow> length (bc_UserName (ac_ctx c)) \<le> 64 \<and> (\<forall>p. ac_noncePattern c = Some p \<longrightarrow> pattern_ok p) \<and>
     (ac_implicitNonce c = [] \<or> ac_enableImplicitNonce c \<and> length (ac_implicitNonce c) = 24)"

lemma crypto_okD:
  assumes "crypto_ok cr"
  shows "cr_NonceSize cr = 24" "cr_Overhead cr = 16" "length n = 24 \<Longrightarrow> cr_Open cr k n (cr_Seal cr k n p) = Some p"
    "length (cr_Seal cr k n p) = length p + 16" "cr_Open cr k n c = Some p \<Longrightarrow> length c = length p + 16"
    "length (cr_Key cr pw s i m) = m"
  using assms by (auto simp: crypto_ok_def)

lemma nonceRewriteLen_range:
  assumes "crypto_ok cr" and "mrand_ok f" and "pattern_ok p"
  shows "0 \<le> nonceRewriteLen cr f p \<and> nonceRewriteLen cr f p \<le> 24"
proof -
  have "0 \<le> f k \<and> f k < k" if "0 < k" for k using assms(2) that by (simp add: mrand_ok_def)
  from this [of "min 24 (GetMaxLen p) - min (GetMinLen p) (min 24 (GetMaxLen p)) + 1"] show ?thesis
    using assms(3) by (auto simp: nonceRewriteLen_def Let_def crypto_okD [OF assms(1)] pattern_ok_def min_def split: if_splits)
qed

lemma apply_pattern_ok:
  assumes "crypto_ok cr" and "nonce_rand_ok R" and "pattern_ok p" and "length nonce = 24"
  shows "\<exists>n. apply_pattern cr R p nonce = Inr n \<and> length n = 24"
proof -
  let ?k = "nonceRewriteLen cr (nr_len R) p" and ?h = "np_CustomHexStrings p"
  have k: "0 \<le> ?k" "?k \<le> 24" using nonceRewriteLen_range [OF assms(1) _ assms(3)] assms(2) by (simp_all add: nonce_rand_ok_def)
  have "nat ?k - 0 \<le> usable (nr_draws R)" using k(2) assms(2) by (simp add: nonce_rand_ok_def nat_le_iff)
  then obtain q ds' where q: "ToPrintableChar nonce 0 (nat ?k) (nr_draws R) = Drawn q ds'" "length q = 24"
    using printable_drawn [of 0 "nat ?k" nonce "nr_draws R"] k(2) assms(4) by (auto simp: nat_le_iff)
  have s: "ToCommon64Set nonce 0 (nat ?k) = Some (map (\<lambda>x. of_nat (of_char (Common64Set ! unat (x AND 0x3f)))) (take (nat ?k) nonce) @
      drop (nat ?k) nonce)"
    using k assms(4) by (simp add: ToCommon64Set_def)
  have h: "\<exists>b. hex_DecodeString (?h ! nat (nr_pick R (int (length ?h)))) = Some b" if "?h \<noteq> []"
  proof -
    have "nat (nr_pick R (int (length ?h))) < length ?h"
      using assms(2) that by (simp add: nonce_rand_ok_def mrand_ok_def nat_less_iff)
    then show ?thesis using assms(3) by (auto simp: pattern_ok_def list_all_iff)
  qed
  show ?thesis
    using k q s h assms(4) by (auto simp: apply_pattern_def Let_def crypto_okD [OF assms(1)] NonceType_defs)
qed

lemma newNonceTo_ok:
  assumes "crypto_ok cr" and "nonce_rand_ok R" and "cipher_ok c"
  shows "\<exists>n a. newNonceTo cr R c = (Inr n, c\<lparr>ac_noncePatternApplied := a\<rparr>) \<and> length n = 24"
proof -
  obtain b where b: "nr_read R 24 = Some b" "length b = 24" using assms(2) by (auto simp: nonce_rand_ok_def)
  show ?thesis
  proof (cases "ac_noncePattern c")
    case None
    then show ?thesis
      using b by (intro exI [of _ b] exI [of _ "ac_noncePatternApplied c"]) (simp add: newNonceTo_def crypto_okD [OF assms(1)])
  next
    case (Some p)
    then obtain n where "apply_pattern cr R p b = Inr n" "length n = 24"
      using apply_pattern_ok [OF assms(1,2) _ b(2)] assms(3) by (auto simp: cipher_ok_def)
    moreover have "\<exists>a. c = c\<lparr>ac_noncePatternApplied := a\<rparr>" by (rule exI [of _ "ac_noncePatternApplied c"]) simp
    ultimately show ?thesis
      using b Some by (auto simp: newNonceTo_def crypto_okD [OF assms(1)])
  qed
qed

lemma length_hint_of [simp]: "length (hint_of u n) = 4"
  by (simp add: hint_of_def cipher_consts)

lemma addUserHint_ok:
  assumes "length (bc_UserName (ac_ctx c)) \<le> 64" and "length nonce = 24"
  shows "\<exists>n. addUserHintToNonce c nonce = Inr n \<and> length n = 24 \<and>
    (bc_UserName (ac_ctx c) \<noteq> [] \<longrightarrow> CheckUserFromHint (bytes_of (bc_UserName (ac_ctx c))) n = Some True)"
  using assms by (auto simp: addUserHintToNonce_def CheckUserFromHint_def cipher_consts hint_of_def)

text \<open>A cipher without a nonce draws one of the right length, which carries the hint of its user.\<close>

lemma choose_nonce_fresh:
  assumes "crypto_ok cr" and "nonce_rand_ok R" and "cipher_ok c" and "ac_implicitNonce c = []"
  shows "\<exists>n a. choose_nonce cr R c =
      (Inr n, c\<lparr>ac_implicitNonce := if ac_enableImplicitNonce c then n else [], ac_noncePatternApplied := a\<rparr>) \<and> length n = 24 \<and>
    (bc_UserName (ac_ctx c) \<noteq> [] \<longrightarrow> CheckUserFromHint (bytes_of (bc_UserName (ac_ctx c))) n = Some True)"
proof -
  obtain m a where m: "newNonceTo cr R c = (Inr m, c\<lparr>ac_noncePatternApplied := a\<rparr>)" "length m = 24"
    using newNonceTo_ok [OF assms(1-3)] by blast
  obtain n where "addUserHintToNonce (c\<lparr>ac_noncePatternApplied := a\<rparr>) m = Inr n" "length n = 24"
      "bc_UserName (ac_ctx c) \<noteq> [] \<longrightarrow> CheckUserFromHint (bytes_of (bc_UserName (ac_ctx c))) n = Some True"
    using addUserHint_ok [of "c\<lparr>ac_noncePatternApplied := a\<rparr>" m] assms(3) m(2) by (auto simp: cipher_ok_def)
  then show ?thesis
    using m assms(4) by (intro exI [of _ n] exI [of _ a]) (cases c, simp add: choose_nonce_def)
qed

lemma choose_nonce_next:
  "ac_enableImplicitNonce c \<Longrightarrow> length (ac_implicitNonce c) = 24 \<Longrightarrow>
     choose_nonce cr R c = (Inr (inc_nonce (ac_implicitNonce c)), c\<lparr>ac_implicitNonce := inc_nonce (ac_implicitNonce c)\<rparr>)"
  by (auto simp: choose_nonce_def increaseNonce_def inc_nonce_def)

section \<open>Streams\<close>

text \<open>A message comes with what the random sources return and with the room of the destination.\<close>

fun encrypt_all :: "crypto \<Rightarrow> (nonce_rand \<times> nat \<times> bytes) list \<Rightarrow> aeadBlockCipher \<Rightarrow> (cipher_error + bytes list) \<times> aeadBlockCipher" where
  "encrypt_all cr [] c = (Inr [], c)"
| "encrypt_all cr ((R, room, m) # ms) c =
     (case Encrypt cr R room m c of
        (Inl e, c) \<Rightarrow> (Inl e, c)
      | (Inr ct, c) \<Rightarrow> (case encrypt_all cr ms c of (r, c) \<Rightarrow> (map_sum id ((#) ct) r, c)))"

fun decrypt_all :: "crypto \<Rightarrow> bytes list \<Rightarrow> aeadBlockCipher \<Rightarrow> (cipher_error + bytes list) \<times> aeadBlockCipher" where
  "decrypt_all cr [] c = (Inr [], c)"
| "decrypt_all cr (ct # cts) c =
     (case Decrypt cr ct c of
        (Inl e, c) \<Rightarrow> (Inl e, c)
      | (Inr m, c) \<Rightarrow> (case decrypt_all cr cts c of (r, c) \<Rightarrow> (map_sum id ((#) m) r, c)))"

fun sealed :: "crypto \<Rightarrow> bytes \<Rightarrow> bytes \<Rightarrow> bytes list \<Rightarrow> bytes list" where
  "sealed cr k n [] = []"
| "sealed cr k n (m # ms) = cr_Seal cr k n m # sealed cr k (inc_nonce n) ms"

definition has_room :: "nonce_rand \<times> nat \<times> bytes \<Rightarrow> bool" where
  "has_room x \<longleftrightarrow> length (snd (snd x)) + 40 \<le> fst (snd x)"

lemma sealed_nth:
  "length (sealed cr k n ms) = length ms"
  "i < length ms \<Longrightarrow> sealed cr k n ms ! i = cr_Seal cr k ((inc_nonce ^^ i) n) (ms ! i)"
proof -
  show "length (sealed cr k n ms) = length ms" by (induction ms arbitrary: n) simp_all
  show "sealed cr k n ms ! i = cr_Seal cr k ((inc_nonce ^^ i) n) (ms ! i)" if "i < length ms"
    using that by (induction ms arbitrary: n i) (auto simp: nth_Cons funpow_swap1 split: nat.splits)
qed

lemma encrypt_rest:
  assumes "crypto_ok cr" and "ac_enableImplicitNonce c" and "length (ac_implicitNonce c) = 24" and "list_all has_room ms"
  shows "encrypt_all cr ms c = (Inr (sealed cr (ac_key c) (inc_nonce (ac_implicitNonce c)) (map (snd \<circ> snd) ms)),
    c\<lparr>ac_implicitNonce := (inc_nonce ^^ length ms) (ac_implicitNonce c)\<rparr>)"
  using assms(2-)
proof (induction ms arbitrary: c)
  case (Cons x ms)
  obtain R room m where x: "x = (R, room, m)" by (cases x) auto
  let ?c = "c\<lparr>ac_implicitNonce := inc_nonce (ac_implicitNonce c)\<rparr>"
  have "Encrypt cr R room m c = (Inr (cr_Seal cr (ac_key c) (inc_nonce (ac_implicitNonce c)) m), ?c)"
    using Cons.prems x choose_nonce_next [OF Cons.prems(1,2)]
    by (auto simp: Encrypt_def Let_def crypto_okD [OF assms(1)] has_room_def)
  then show ?case using Cons.IH [of ?c] Cons.prems x by (simp add: funpow_swap1)
qed simp

lemma decrypt_rest:
  assumes "crypto_ok cr" and "ac_enableImplicitNonce d" and "length (ac_implicitNonce d) = 24"
  shows "decrypt_all cr (sealed cr (ac_key d) (inc_nonce (ac_implicitNonce d)) ms) d =
    (Inr ms, d\<lparr>ac_implicitNonce := (inc_nonce ^^ length ms) (ac_implicitNonce d)\<rparr>)"
  using assms(2-)
proof (induction ms arbitrary: d)
  case (Cons m ms)
  let ?d = "d\<lparr>ac_implicitNonce := inc_nonce (ac_implicitNonce d)\<rparr>"
  have "Decrypt cr (cr_Seal cr (ac_key d) (inc_nonce (ac_implicitNonce d)) m) d = (Inr m, ?d)"
    using Cons.prems crypto_okD(3) [OF assms(1), of "inc_nonce (ac_implicitNonce d)" "ac_key d" m]
    by (auto simp: Decrypt_def increaseNonce_def open_with_def inc_nonce_def)
  then show ?case using Cons.IH [of ?d] Cons.prems by (simp add: funpow_swap1)
qed simp

text \<open>
  C21.  The two ends of an encrypted stream stay in step.  Messages that are encrypted one after the other by a cipher in implicit nonce
  mode are all encrypted and are decrypted in order by a cipher with the same key.  Message \<open>i\<close> is
  sealed with the first nonce increased \<open>i\<close> times, only the first one carries its nonce, and no nonce is used twice within \<open>2 ^ 192\<close>
  messages.
\<close>

theorem cipher_stream_in_step:
  assumes "crypto_ok cr" and "cipher_ok c" and "nonce_rand_ok R" and "list_all has_room ((R, room, m) # ms)"
    and "ac_enableImplicitNonce c" and "ac_implicitNonce c = []"
    and "ac_enableImplicitNonce d" and "ac_implicitNonce d = []" and "ac_key d = ac_key c"
  shows "\<exists>n cts c' d'. encrypt_all cr ((R, room, m) # ms) c = (Inr ((n @ cts ! 0) # tl cts), c') \<and>
    decrypt_all cr ((n @ cts ! 0) # tl cts) d = (Inr (m # map (snd \<circ> snd) ms), d') \<and>
    ac_implicitNonce d' = ac_implicitNonce c' \<and> length n = 24 \<and> length cts = Suc (length ms) \<and>
    (\<forall>i < length cts. cts ! i = cr_Seal cr (ac_key c) ((inc_nonce ^^ i) n) ((m # map (snd \<circ> snd) ms) ! i)) \<and>
    (length cts \<le> 2 ^ 192 \<longrightarrow> distinct (map (\<lambda>i. (inc_nonce ^^ i) n) [0..<length cts]))"
proof -
  obtain n a where n: "choose_nonce cr R c = (Inr n, c\<lparr>ac_implicitNonce := n, ac_noncePatternApplied := a\<rparr>)" "length n = 24"
    using choose_nonce_fresh [OF assms(1,3,2,6)] assms(5) by auto
  let ?c = "c\<lparr>ac_implicitNonce := n, ac_noncePatternApplied := a\<rparr>" and ?d = "d\<lparr>ac_implicitNonce := n\<rparr>"
  let ?ms = "map (snd \<circ> snd) ms" and ?cts = "sealed cr (ac_key c) n (m # map (snd \<circ> snd) ms)"
  have e: "Encrypt cr R room m c = (Inr (n @ cr_Seal cr (ac_key c) n m), ?c)"
    using n assms(4-6) by (simp add: Encrypt_def crypto_okD [OF assms(1)] has_room_def)
  have d: "Decrypt cr (n @ cr_Seal cr (ac_key c) n m) d = (Inr m, ?d)"
    using n assms(7-9) crypto_okD(3) [OF assms(1) n(2), of "ac_key c" m] by (simp add: Decrypt_def crypto_okD [OF assms(1)] open_with_def)
  have "encrypt_all cr ((R, room, m) # ms) c = (Inr ((n @ ?cts ! 0) # tl ?cts), ?c\<lparr>ac_implicitNonce := (inc_nonce ^^ length ms) n\<rparr>)"
    using e encrypt_rest [OF assms(1), of ?c ms] n(2) assms(4,5) by simp
  moreover have "decrypt_all cr ((n @ ?cts ! 0) # tl ?cts) d = (Inr (m # ?ms), ?d\<lparr>ac_implicitNonce := (inc_nonce ^^ length ms) n\<rparr>)"
    using d decrypt_rest [OF assms(1), of ?d ?ms] n(2) assms(7,9) by simp
  moreover have "(256 :: nat) ^ 24 = 2 ^ 192" by simp
  then have "length ?cts \<le> 2 ^ 192 \<longrightarrow> distinct (map (\<lambda>i. (inc_nonce ^^ i) n) [0..<length ?cts])"
    using nonces_distinct [of "length ?cts" n] n(2) by simp
  ultimately show ?thesis
    using sealed_nth [where cr = cr and k = "ac_key c" and n = n and ms = "m # ?ms"] n(2) by (intro exI [of _ n] exI [of _ ?cts]) auto
qed

section \<open>Times and keys\<close>

lemma time_Round_div: "0 < d \<Longrightarrow> time_Round t d = d * ((2 * t + d) div (2 * d))"
proof -
  assume d: "0 < d"
  define q where "q = t div d"
  define r where "r = t mod d"
  have t: "t = q * d + r" and r: "0 \<le> r" "r < d" using d by (simp_all add: q_def r_def)
  have "(2 * t + d) div (2 * d) = q + (2 * r + d) div (2 * d)"
  proof -
    have e: "2 * t + d = (2 * r + d) + q * (2 * d)" by (simp add: t algebra_simps)
    show ?thesis unfolding e using d by (intro div_mult_self1) simp
  qed
  moreover have "(2 * r + d) div (2 * d) = (if r + r < d then 0 else 1)"
  proof (cases "r + r < d")
    case False
    have "(2 * r + d) div (2 * d) = 1" using False r d by (intro int_div_pos_eq [of _ _ _ "2 * r - d"]) simp_all
    then show ?thesis using False by simp
  qed (use r d in \<open>simp add: div_pos_pos_trivial\<close>)
  moreover have "time_Round t d = (if r + r < d then t - r else t + (d - r))" by (simp add: time_Round_def Let_def r_def)
  ultimately show ?thesis using t by (simp add: algebra_simps)
qed

lemma KeyRefreshInterval_pos [simp]: "0 < KeyRefreshInterval"
  by (simp add: KeyRefreshInterval_def second_def)

lemma Round_near:
  assumes "\<bar>t - t'\<bar> \<le> KeyRefreshInterval"
  shows "time_Round t KeyRefreshInterval \<in> {time_Round t' KeyRefreshInterval - KeyRefreshInterval, time_Round t' KeyRefreshInterval,
    time_Round t' KeyRefreshInterval + KeyRefreshInterval}"
proof -
  let ?k = KeyRefreshInterval
  define f where "f t = (2 * t + ?k) div (2 * ?k)" for t
  have R: "time_Round t ?k = ?k * f t" for t by (simp add: time_Round_div f_def)
  have s: "f (t + ?k) = f t + 1" for t
  proof -
    have "2 * (t + ?k) + ?k = 2 * t + ?k + 1 * (2 * ?k)" by simp
    then show ?thesis unfolding f_def by (metis KeyRefreshInterval_pos add.commute div_mult_self1 less_irrefl mult_eq_0_iff zero_neq_numeral)
  qed
  have m: "a \<le> b \<Longrightarrow> f a \<le> f b" for a b unfolding f_def by (intro zdiv_mono1) simp_all
  have "f t \<le> f t' + 1" "f t' \<le> f t + 1"
    using m [of t "t' + ?k"] m [of t' "t + ?k"] s assms by simp_all
  then have "f t = f t' - 1 \<or> f t = f t' \<or> f t = f t' + 1" by linarith
  then show ?thesis unfolding R by (elim disjE) (simp_all add: right_diff_distrib distrib_left)
qed

lemma salts_of_epoch:
  assumes "cipherKeyEpoch t = cipherKeyEpoch t'"
  shows "saltFromTime t = saltFromTime t'"
proof -
  let ?r = "\<lambda>t. time_Round t KeyRefreshInterval"
  have "second dvd KeyRefreshInterval" by (simp add: KeyRefreshInterval_def)
  then have d: "second dvd ?r t" for t by (simp add: time_Round_div)
  have "?r t = second * time_Unix (?r t)" for t
    using d [of t] by (simp add: time_Unix_def)
  then have "?r t = ?r t'" using assms by (metis cipherKeyEpoch_def)
  then show ?thesis by (simp add: saltFromTime_def)
qed

text \<open>The key that a password and a salt give.\<close>

definition key_of :: "crypto \<Rightarrow> bytes \<Rightarrow> bytes \<Rightarrow> bytes" where
  "key_of cr password salt = cr_Key cr password salt KeyIter DefaultKeyLen"

definition fresh_cipher :: "bytes \<Rightarrow> aeadBlockCipher" where
  "fresh_cipher key = \<lparr>ac_aeadType = XChaCha20Poly1305, ac_key = key, ac_enableImplicitNonce = False, ac_implicitNonce = [],
     ac_ctx = \<lparr>bc_UserName = []\<rparr>, ac_noncePattern = None, ac_noncePatternApplied = False\<rparr>"

lemma fresh_cipher_simps [simp]:
  "ac_key (fresh_cipher k) = k" "cloneStatelessFast (fresh_cipher k) = fresh_cipher k" "ac_enableImplicitNonce (fresh_cipher k) = False"
  "ac_implicitNonce (fresh_cipher k) = []"
  by (simp_all add: fresh_cipher_def cloneStatelessFast_def)

lemma ciphers_of_salts_eq:
  assumes "crypto_ok cr" and "password \<noteq> []"
  shows "ciphers_of_salts cr password salts = Inr (map (\<lambda>s. fresh_cipher (key_of cr password s)) salts)"
  using assms
  by (induction salts)
    (simp_all add: NewKey_def newXChaCha20Poly1305BlockCipher_def key_of_def crypto_okD [OF assms(1)] fresh_cipher_def cipher_consts)

lemma newBlockCipherList_eq:
  "crypto_ok cr \<Longrightarrow> password \<noteq> [] \<Longrightarrow>
     newBlockCipherList cr password now = Inr (map (\<lambda>s. fresh_cipher (key_of cr password s)) (saltFromTime now))"
  by (simp add: newBlockCipherList_def ciphers_of_salts_eq)

lemma length_saltFromTime [simp]: "length (saltFromTime t) = 3"
  by (simp add: saltFromTime_def Let_def)

lemma salt_in_window: "\<bar>t - t'\<bar> \<le> KeyRefreshInterval \<Longrightarrow> saltFromTime t ! 1 \<in> set (saltFromTime t')"
  using Round_near [of t t'] by (auto simp: saltFromTime_def Let_def)

section \<open>The caches are invisible\<close>

definition entry_ok :: "crypto \<Rightarrow> bytes \<Rightarrow> cachedCiphers \<Rightarrow> bool" where
  "entry_ok cr password e \<longleftrightarrow> newBlockCipherList cr password (cc_createTime e) = Inr (cc_cipherList e) \<and>
     cc_epoch e = cipherKeyEpoch (cc_createTime e)"

definition ciphers_ok :: "crypto \<Rightarrow> cipher_cache \<Rightarrow> bool" where
  "ciphers_ok cr cache \<longleftrightarrow> (\<forall>pw e. cache pw = Some e \<longrightarrow> entry_ok cr pw e)"

definition decryptor_ok :: "crypto \<Rightarrow> StatelessDecryptor \<Rightarrow> bool" where
  "decryptor_ok cr d \<longleftrightarrow> (\<forall>e. sd_ciphers d = Some e \<longrightarrow> entry_ok cr (sd_password d) e)"

lemma entry_current:
  "entry_ok cr pw e \<Longrightarrow> cc_epoch e = cipherKeyEpoch now \<Longrightarrow> newBlockCipherList cr pw now = Inr (cc_cipherList e)"
  using salts_of_epoch [of now "cc_createTime e"] by (simp add: entry_ok_def newBlockCipherList_def)

lemma getCachedCiphers_fresh:
  assumes "ciphers_ok cr cache"
  shows "map_sum id cc_cipherList (fst (getCachedCiphers cr j pw now cache)) = newBlockCipherList cr pw now"
    and "ciphers_ok cr (snd (getCachedCiphers cr j pw now cache))"
    and "fst (getCachedCiphers cr j pw now cache) = Inr e \<Longrightarrow> entry_ok cr pw e"
proof -
  have current: "newBlockCipherList cr pw now = Inr (cc_cipherList e)" if "cache pw = Some e" "cc_epoch e = cipherKeyEpoch now" for e
    using entry_current [of cr pw e now] assms that by (simp add: ciphers_ok_def)
  show "map_sum id cc_cipherList (fst (getCachedCiphers cr j pw now cache)) = newBlockCipherList cr pw now"
    using current by (auto simp: getCachedCiphers_def Let_def split: option.splits sum.splits)
  show "ciphers_ok cr (snd (getCachedCiphers cr j pw now cache))"
    using assms by (auto simp: getCachedCiphers_def ciphers_ok_def entry_ok_def Let_def split: option.splits sum.splits)
  show "entry_ok cr pw e" if "fst (getCachedCiphers cr j pw now cache) = Inr e"
    using assms that
    by (auto simp: getCachedCiphers_def ciphers_ok_def entry_ok_def Let_def split: option.splits sum.splits if_splits)
qed

text \<open>What a decryptor gives when it derives the keys anew.\<close>

definition decrypt_fresh :: "crypto \<Rightarrow> bytes \<Rightarrow> bytes \<Rightarrow> bytes \<Rightarrow> int \<Rightarrow> cipher_error + aeadBlockCipher \<times> bytes" where
  "decrypt_fresh cr pw ciphertext dst now =
     and_then (newBlockCipherList cr pw now) (\<lambda>blocks.
     and_then (selectDecryptStateless cr ciphertext dst blocks) (\<lambda>(block, plaintext). Inr (cloneStatelessFast block, plaintext)))"

lemma try_entry_fresh:
  "entry_ok cr pw e \<Longrightarrow> newBlockCipherList cr pw now = Inr (cc_cipherList e) \<Longrightarrow> try_entry cr ct dst e = decrypt_fresh cr pw ct dst now"
  by (cases "selectDecryptStateless cr ct dst (cc_cipherList e)") (auto simp: try_entry_def decrypt_fresh_def)

lemma tryDecryptAt_fresh:
  assumes "ciphers_ok cr cache" and "decryptor_ok cr d"
  shows "fst (tryDecryptAt cr j ct dst now (Some d) cache) = decrypt_fresh cr (sd_password d) ct dst now \<and>
    ciphers_ok cr (snd (snd (tryDecryptAt cr j ct dst now (Some d) cache))) \<and>
    (\<exists>d'. fst (snd (tryDecryptAt cr j ct dst now (Some d) cache)) = Some d' \<and> decryptor_ok cr d' \<and> sd_password d' = sd_password d)"
proof (cases "\<exists>e. sd_ciphers d = Some e \<and> cc_epoch e = cipherKeyEpoch now")
  case True
  then obtain e where e: "sd_ciphers d = Some e" "cc_epoch e = cipherKeyEpoch now" by blast
  then have "entry_ok cr (sd_password d) e" using assms(2) by (simp add: decryptor_ok_def)
  then show ?thesis
    using e entry_current assms try_entry_fresh by (simp add: tryDecryptAt_def Let_def)
next
  case False
  note g = getCachedCiphers_fresh [OF assms(1), of j "sd_password d" now]
  have t: "tryDecryptAt cr j ct dst now (Some d) cache = (case getCachedCiphers cr j (sd_password d) now cache of
      (Inl e, cache) \<Rightarrow> (Inl e, Some d, cache)
    | (Inr entry, cache) \<Rightarrow> (try_entry cr ct dst entry, Some (d\<lparr>sd_ciphers := Some entry\<rparr>), cache))"
    using False by (auto simp: tryDecryptAt_def Let_def split: option.splits)
  show ?thesis
  proof (cases "getCachedCiphers cr j (sd_password d) now cache")
    case (Pair r cache')
    then show ?thesis
    proof (cases r)
      case (Inl e)
      then have "newBlockCipherList cr (sd_password d) now = Inl e" using g(1) Pair by simp
      then show ?thesis using t g(2) Pair Inl assms(2) by (simp add: decrypt_fresh_def)
    next
      case (Inr e)
      then have "entry_ok cr (sd_password d) e" using g(3) Pair by simp
      moreover have "newBlockCipherList cr (sd_password d) now = Inr (cc_cipherList e)" using g(1) Pair Inr by simp
      ultimately show ?thesis
        using t g(2) Pair Inr try_entry_fresh by (simp add: decryptor_ok_def)
    qed
  qed
qed

text \<open>Calls of the cache and of one decryptor, in any order and at any times.\<close>

datatype cipher_call = GetCiphers int bytes int | TryCiphers int bytes bytes int

fun cipher_step :: "crypto \<Rightarrow> StatelessDecryptor option \<times> cipher_cache \<Rightarrow> cipher_call \<Rightarrow> StatelessDecryptor option \<times> cipher_cache" where
  "cipher_step cr (d, cache) (GetCiphers j pw now) = (d, snd (getCachedCiphers cr j pw now cache))"
| "cipher_step cr (d, cache) (TryCiphers j ct dst now) = snd (tryDecryptAt cr j ct dst now d cache)"

lemma cipher_step_ok:
  assumes "ciphers_ok cr cache" and "decryptor_ok cr d"
  shows "\<exists>d' cache'. cipher_step cr (Some d, cache) call = (Some d', cache') \<and> ciphers_ok cr cache' \<and> decryptor_ok cr d' \<and>
    sd_password d' = sd_password d"
proof (cases call)
  case (GetCiphers j pw now)
  then show ?thesis using getCachedCiphers_fresh(2) [OF assms(1)] assms(2) by auto
next
  case (TryCiphers j ct dst now)
  then show ?thesis
    using tryDecryptAt_fresh [OF assms, of j ct dst now] by (cases "tryDecryptAt cr j ct dst now (Some d) cache") auto
qed

lemma cipher_steps_ok:
  assumes "ciphers_ok cr cache" and "decryptor_ok cr d"
  shows "\<exists>d' cache'. foldl (cipher_step cr) (Some d, cache) calls = (Some d', cache') \<and> ciphers_ok cr cache' \<and> decryptor_ok cr d' \<and>
    sd_password d' = sd_password d"
  using assms
proof (induction calls arbitrary: d cache)
  case (Cons call calls)
  then show ?case using cipher_step_ok [OF Cons.prems, of call] by fastforce
qed simp

text \<open>
  C22.  The caches of ciphers are invisible.  Whatever calls of the shared cache and of a decryptor have come before, with whatever times and jitter,
  the shared cache returns the ciphers that would be derived from the password now, and the decryptor gives the result of
  trying these ciphers.
\<close>

theorem cached_ciphers_are_fresh:
  assumes "NewStatelessDecryptor pw = Inr d" and "foldl (cipher_step cr) (Some d, Map.empty) calls = (d', cache)"
  shows "map_sum id cc_cipherList (fst (getCachedCiphers cr j pw' now cache)) = newBlockCipherList cr pw' now \<and>
    fst (tryDecryptAt cr j ct dst now d' cache) =
      and_then (newBlockCipherList cr pw now) (\<lambda>blocks.
      and_then (selectDecryptStateless cr ct dst blocks) (\<lambda>(block, plaintext). Inr (cloneStatelessFast block, plaintext)))"
proof -
  have d: "d = \<lparr>sd_password = pw, sd_ciphers = None\<rparr>" using assms(1) by (simp add: NewStatelessDecryptor_def split: if_splits)
  have "ciphers_ok cr Map.empty" "decryptor_ok cr d" by (simp_all add: ciphers_ok_def decryptor_ok_def d)
  from cipher_steps_ok [OF this, of calls] obtain e where "d' = Some e" "ciphers_ok cr cache" "decryptor_ok cr e" "sd_password e = pw"
    using assms(2) d by auto
  then show ?thesis
    using getCachedCiphers_fresh(1) tryDecryptAt_fresh by (simp add: decrypt_fresh_def)
qed

section \<open>A sample\<close>

text \<open>A tag of key and nonce in place of XChaCha20-Poly1305, and the salt in place of PBKDF2.\<close>

definition sample_tag :: "bytes \<Rightarrow> bytes \<Rightarrow> bytes" where
  "sample_tag k n = take 16 (map2 (+) (k @ replicate 16 0) (n @ replicate 16 0))"

definition sample_crypto :: crypto where
  "sample_crypto = \<lparr>cr_NonceSize = 24, cr_Overhead = 16, cr_Seal = \<lambda>k n p. p @ sample_tag k n,
     cr_Open = \<lambda>k n c. if 16 \<le> length c \<and> drop (length c - 16) c = sample_tag k n then Some (take (length c - 16) c) else None,
     cr_Key = \<lambda>pw s i n. take n (s @ pw @ replicate n 0)\<rparr>"

lemma length_sample_tag [simp]: "length (sample_tag k n) = 16"
  by (simp add: sample_tag_def)

lemma sample_crypto_ok: "crypto_ok sample_crypto"
  by (auto simp: crypto_ok_def sample_crypto_def split: if_splits)

definition sample_nonce_rand :: nonce_rand where
  "sample_nonce_rand = \<lparr>nr_read = \<lambda>n. Some (replicate n 0xFF), nr_len = \<lambda>_. 0, nr_pick = \<lambda>_. 0, nr_draws = replicate 24 0\<rparr>"

lemma sample_nonce_rand_ok: "nonce_rand_ok sample_nonce_rand"
  by (simp add: nonce_rand_ok_def sample_nonce_rand_def mrand_ok_def usable_def printableUint16Limit_def printableCharLen_def)

lemma fresh_cipher_ok [simp]: "cipher_ok (fresh_cipher k)" "cipher_ok (SetImplicitNonceMode True (fresh_cipher k))"
  by (simp_all add: cipher_ok_def fresh_cipher_def SetImplicitNonceMode_def)

theorem cipher_stream_in_step_witness:
  "\<exists>n cts c' d'. encrypt_all sample_crypto [(sample_nonce_rand, 41, [7]), (sample_nonce_rand, 100, [8, 9])]
      (SetImplicitNonceMode True (fresh_cipher [1])) = (Inr ((n @ cts ! 0) # tl cts), c') \<and>
    decrypt_all sample_crypto ((n @ cts ! 0) # tl cts) (SetImplicitNonceMode True (fresh_cipher [1])) = (Inr [[7], [8, 9]], d') \<and>
    distinct (map (\<lambda>i. (inc_nonce ^^ i) n) [0..<2])"
proof -
  have r: "list_all has_room [(sample_nonce_rand, 41, [7]), (sample_nonce_rand, 100, [8, 9])]" by (simp add: has_room_def)
  have i: "ac_enableImplicitNonce (SetImplicitNonceMode True (fresh_cipher [1]))"
    "ac_implicitNonce (SetImplicitNonceMode True (fresh_cipher [1])) = []"
    by (simp_all add: SetImplicitNonceMode_def)
  obtain n cts c' d' where *: "encrypt_all sample_crypto [(sample_nonce_rand, 41, [7]), (sample_nonce_rand, 100, [8, 9])]
      (SetImplicitNonceMode True (fresh_cipher [1])) = (Inr ((n @ cts ! 0) # tl cts), c')"
    "decrypt_all sample_crypto ((n @ cts ! 0) # tl cts) (SetImplicitNonceMode True (fresh_cipher [1])) =
      (Inr ([7] # map (snd \<circ> snd) [(sample_nonce_rand, 100 :: nat, [8, 9])]), d')"
    "length cts = Suc (length [(sample_nonce_rand, 100 :: nat, [8, 9 :: u8])])"
    "length cts \<le> 2 ^ 192 \<longrightarrow> distinct (map (\<lambda>i. (inc_nonce ^^ i) n) [0..<length cts])"
    using cipher_stream_in_step [OF sample_crypto_ok fresh_cipher_ok(2) sample_nonce_rand_ok r i i refl] by (elim exE conjE) (rule that)
  have "length cts = 2" using *(3) by simp
  then have "distinct (map (\<lambda>i. (inc_nonce ^^ i) n) [0..<2])" using *(4) by simp
  then show ?thesis using *(1,2) by (intro exI [of _ n] exI [of _ cts]) simp
qed

theorem cached_ciphers_are_fresh_witness:
  "map_sum id cc_cipherList (fst (getCachedCiphers sample_crypto 0 [5] (90 * second)
      (snd (foldl (cipher_step sample_crypto) (Some \<lparr>sd_password = [5], sd_ciphers = None\<rparr>, Map.empty) [GetCiphers 0 [5] 0])))) =
    newBlockCipherList sample_crypto [5] (90 * second)"
  using cached_ciphers_are_fresh [of "[5]" "\<lparr>sd_password = [5], sd_ciphers = None\<rparr>" sample_crypto "[GetCiphers 0 [5] 0]", OF _ surjective_pairing,
      of 0 "[5]" "90 * second"]
  by (simp add: NewStatelessDecryptor_def)

end
