(* ===== verification/Server_Users.thy ===== *)
theory Server_Users
  imports Source_User_Cache Cipher_Props Segment "HOL-Library.List_Lexorder" "HOL-Library.Char_ord" "HOL-Library.Product_Lexorder"
begin

text \<open>
  The registry of server users of \<^verbatim>\<open>pkg/protocol/serveruser/registry.go\<close>: how the configured users are compiled into a generation, and how
  the user of encrypted metadata is discovered.  A Go map is the list of its entries in the order of one iteration.  The counters of
  \<^verbatim>\<open>pkg/metrics\<close> are left out; those of the source cache are kept.
\<close>

record user =
  us_id :: u32
  us_name :: string
  us_credential :: bytes
  us_policy :: Policy

record state =
  ss_users :: "user list"
  ss_cache :: sourceUserCache

datatype credential_error = NilUser | NotHexadecimal | WrongCredentialLength | EmptyCredential

definition buildCredential :: "User option \<Rightarrow> string \<Rightarrow> credential_error + bytes" where
  "buildCredential u name =
     (case u of
        None \<Rightarrow> Inl NilUser
      | Some u \<Rightarrow>
          if GetString (u_HashedPassword u) \<noteq> '''' then
            (case hex_DecodeString (GetString (u_HashedPassword u)) of
               None \<Rightarrow> Inl NotHexadecimal
             | Some decoded \<Rightarrow> if length decoded \<noteq> 32 then Inl WrongCredentialLength else Inr decoded)
          else if GetString (u_Password u) = '''' then Inl EmptyCredential
          else Inr (HashPassword (bytes_of (GetString (u_Password u))) (bytes_of name)))"

type_synonym user_input = "string \<times> User option"

definition input_name :: "user_input \<Rightarrow> string" where
  "input_name x = (case snd x of None \<Rightarrow> '''' | Some u \<Rightarrow> GetString (u_Name u))"

definition name_count :: "user_input list \<Rightarrow> string \<Rightarrow> nat" where
  "name_count inputs name = length (filter (\<lambda>x. input_name x = name) inputs)"

definition sort_inputs :: "user_input list \<Rightarrow> user_input list" where
  "sort_inputs inputs = sort_key (\<lambda>x. (input_name x, fst x)) inputs"

text \<open>The body of the loop over the sorted inputs.\<close>

definition compile_input :: "(string \<Rightarrow> nat) \<Rightarrow> user_input \<Rightarrow> user list \<Rightarrow> user list" where
  "compile_input nameCounts x compiled =
     (let name = input_name x
      in if name = '''' then compiled
         else if nameCounts name > 1 then compiled
         else if length name > MaxUserNameLen then compiled
         else (case buildCredential (snd x) name of
             Inl _ \<Rightarrow> compiled
           | Inr credential \<Rightarrow>
               (case NewStatelessDecryptor credential of
                  Inl _ \<Rightarrow> compiled
                | Inr _ \<Rightarrow> compiled @ [\<lparr>us_id = of_nat (length compiled + 1), us_name = name, us_credential = credential,
                    us_policy = buildPolicy (the (snd x))\<rparr>])))"

definition buildState :: "user_input list \<Rightarrow> sourceUserCacheStats option \<Rightarrow> state" where
  "buildState users stats =
     \<lparr>ss_users = fold (compile_input (name_count users)) (sort_inputs users) [], ss_cache = newSourceUserCache stats\<rparr>"

record Registry =
  rg_users :: "state option"
  rg_hintMandatory :: bool
  rg_stats :: sourceUserCacheStats

text \<open>The statistics are shared by all generations; the result carries the retired generation as well.\<close>

definition SetUsers :: "user_input list \<Rightarrow> Registry \<Rightarrow> state option \<times> Registry" where
  "SetUsers users r =
     (let state = buildState users (Some (rg_stats r))
      in (map_option (\<lambda>old. old\<lparr>ss_cache := retire (ss_cache old)\<rparr>) (rg_users r), r\<lparr>rg_users := Some state\<rparr>))"

definition SetHintMandatory :: "bool \<Rightarrow> Registry \<Rightarrow> Registry" where
  "SetHintMandatory mandatory r = r\<lparr>rg_hintMandatory := mandatory\<rparr>"

definition HasUsers :: "Registry \<Rightarrow> bool" where
  "HasUsers r \<longleftrightarrow> (case rg_users r of None \<Rightarrow> False | Some state \<Rightarrow> length (ss_users state) \<noteq> 0)"

section \<open>Discovery\<close>

datatype matchOrigin = matchUnknown | matchCachedHint | matchRegistryHint | matchCachedFallback | matchRegistryFallback

record discoveryResult =
  dr_block :: aeadBlockCipher
  dr_decryptedMetadata :: bytes
  dr_userID :: u32
  dr_userContext :: BlockContext
  dr_policy :: Policy
  dr_origin :: matchOrigin

datatype discovery = Found discoveryResult | NotFound | DiscoverPanic

text \<open>
  \<open>de_now\<close> is the time, \<open>de_tick\<close> the tick of the source cache, \<open>de_jitter\<close> the jitter of the cache of ciphers and
  \<open>de_hash\<close> the hash function of the source cache.
\<close>

record disc_env =
  de_crypto :: crypto
  de_now :: int
  de_jitter :: int
  de_tick :: u32
  de_hash :: "bytes \<Rightarrow> u64"

text \<open>The ciphers that the decryptors of the users remember, and the shared cache of ciphers.\<close>

record disc_mem =
  dm_ciphers :: "u32 \<Rightarrow> cachedCiphers option"
  dm_cache :: cipher_cache

text \<open>\<open>sn_tried\<close> holds the users that have been tried, in this order; its length is the counter \<^verbatim>\<open>attempts\<close>.\<close>

record scan =
  sn_attempted :: "u32 list"
  sn_tried :: "u32 list"
  sn_mem :: disc_mem

definition userIDWasAttempted :: "u32 list \<Rightarrow> u32 \<Rightarrow> bool" where
  "userIDWasAttempted attempted userID \<longleftrightarrow> userID \<in> set attempted"

definition markUserIDAttempted :: "u32 list \<Rightarrow> u32 \<Rightarrow> u32 list" where
  "markUserIDAttempted attempted userID =
     (if length attempted < sourceUserCacheUsers \<and> \<not> userIDWasAttempted attempted userID then attempted @ [userID] else attempted)"

definition userByID :: "state \<Rightarrow> u32 \<Rightarrow> user option" where
  "userByID st userID =
     (if userID = 0 \<or> userID > of_nat (length (ss_users st)) then None
      else
        let u = ss_users st ! (unat userID - 1)
        in if us_id u \<noteq> userID then None else Some u)"

definition tryUser :: "disc_env \<Rightarrow> user \<Rightarrow> bytes \<Rightarrow> matchOrigin \<Rightarrow> disc_mem \<Rightarrow> discoveryResult option \<times> disc_mem" where
  "tryUser E u encryptedMeta origin m =
     (case tryDecryptAt (de_crypto E) (de_jitter E) encryptedMeta [] (de_now E)
        (Some \<lparr>sd_password = us_credential u, sd_ciphers = dm_ciphers m (us_id u)\<rparr>) (dm_cache m) of
        (r, d, cache) \<Rightarrow>
          let m = \<lparr>dm_ciphers = (dm_ciphers m)(us_id u := Option.bind d sd_ciphers), dm_cache = cache\<rparr>
          in (case r of
                Inl _ \<Rightarrow> (None, m)
              | Inr (block, plaintext) \<Rightarrow>
                  (Some \<lparr>dr_block = block, dr_decryptedMetadata = plaintext, dr_userID = us_id u,
                         dr_userContext = \<lparr>bc_UserName = us_name u\<rparr>, dr_policy = us_policy u, dr_origin = origin\<rparr>, m)))"

text \<open>
  A loop over the cached users that tries those whose hint matches, or those whose hint does not match, and a loop over
  all users.
\<close>

fun try_cached :: "disc_env \<Rightarrow> state \<Rightarrow> bytes \<Rightarrow> bool \<Rightarrow> matchOrigin \<Rightarrow> u32 list \<Rightarrow> scan \<Rightarrow> discovery \<times> scan" where
  "try_cached E st meta want origin [] s = (NotFound, s)"
| "try_cached E st meta want origin (cachedID # ids) s =
     (case userByID st cachedID of
        None \<Rightarrow> try_cached E st meta want origin ids s
      | Some u \<Rightarrow>
          if userIDWasAttempted (sn_attempted s) (us_id u) then try_cached E st meta want origin ids s
          else (case CheckUserFromHint (bytes_of (us_name u)) (take DefaultNonceSize meta) of
              None \<Rightarrow> (DiscoverPanic, s)
            | Some b \<Rightarrow>
                if b \<noteq> want then try_cached E st meta want origin ids s
                else
                  let s = s\<lparr>sn_attempted := markUserIDAttempted (sn_attempted s) (us_id u), sn_tried := sn_tried s @ [us_id u]\<rparr>
                  in (case tryUser E u meta origin (sn_mem s) of
                        (Some result, m) \<Rightarrow> (Found result, s\<lparr>sn_mem := m\<rparr>)
                      | (None, m) \<Rightarrow> try_cached E st meta want origin ids (s\<lparr>sn_mem := m\<rparr>))))"

fun try_registry :: "disc_env \<Rightarrow> bytes \<Rightarrow> bool \<Rightarrow> matchOrigin \<Rightarrow> user list \<Rightarrow> scan \<Rightarrow> discovery \<times> scan" where
  "try_registry E meta want origin [] s = (NotFound, s)"
| "try_registry E meta want origin (u # us) s =
     (if userIDWasAttempted (sn_attempted s) (us_id u) then try_registry E meta want origin us s
      else (case CheckUserFromHint (bytes_of (us_name u)) (take DefaultNonceSize meta) of
          None \<Rightarrow> (DiscoverPanic, s)
        | Some b \<Rightarrow>
            if b \<noteq> want then try_registry E meta want origin us s
            else
              let s = s\<lparr>sn_tried := sn_tried s @ [us_id u]\<rparr>
              in (case tryUser E u meta origin (sn_mem s) of
                    (Some result, m) \<Rightarrow> (Found result, s\<lparr>sn_mem := m\<rparr>)
                  | (None, m) \<Rightarrow> try_registry E meta want origin us (s\<lparr>sn_mem := m\<rparr>))))"

text \<open>The next phase runs if nothing has been found.\<close>

definition or_else :: "discovery \<times> scan \<Rightarrow> (scan \<Rightarrow> discovery \<times> scan) \<Rightarrow> discovery \<times> scan" where
  "or_else r f = (case r of (NotFound, s) \<Rightarrow> f s | _ \<Rightarrow> r)"

definition try_phases :: "disc_env \<Rightarrow> state \<Rightarrow> bytes \<Rightarrow> bool \<Rightarrow> u32 list \<Rightarrow> disc_mem \<Rightarrow> discovery \<times> scan" where
  "try_phases E st meta hintMandatory cachedIDs m =
     or_else (try_cached E st meta True matchCachedHint cachedIDs \<lparr>sn_attempted = [], sn_tried = [], sn_mem = m\<rparr>) (\<lambda>s.
     or_else (try_registry E meta True matchRegistryHint (ss_users st) s) (\<lambda>s.
       if hintMandatory then (NotFound, s)
       else or_else (try_cached E st meta False matchCachedFallback cachedIDs s)
         (try_registry E meta False matchRegistryFallback (ss_users st))))"

definition counts_fallback :: "discovery \<times> scan \<Rightarrow> bool" where
  "counts_fallback r \<longleftrightarrow> (case fst r of Found d \<Rightarrow> dr_origin d \<noteq> matchCachedHint | _ \<Rightarrow> True)"

text \<open>A source is the key of its address, if it is valid.\<close>

definition tryState :: "disc_env \<Rightarrow> state \<Rightarrow> bytes \<Rightarrow> bytes option \<Rightarrow> bool \<Rightarrow> disc_mem \<Rightarrow> (discovery \<times> scan) \<times> state" where
  "tryState E st meta source hintMandatory m =
     (let (cachedIDs, cache) = (case source of
            Some key \<Rightarrow> lookup (de_hash E) (de_tick E) key (ss_cache st) | None \<Rightarrow> ([], ss_cache st));
          r = try_phases E st meta hintMandatory cachedIDs m;
          cache = (if counts_fallback r then count_stat (\<lambda>s. s\<lparr>st_fullFallbacks := st_fullFallbacks s + 1\<rparr>) cache else cache)
      in (r, st\<lparr>ss_cache := cache\<rparr>))"

datatype discover_error = MetadataTooShort | NoServerUser | NoUserDecrypts | DiscoveryPanics | DiscoveryRetries

text \<open>
  An iteration of \<^verbatim>\<open>discoverUser\<close> sees the generation that it loads and whether it is still published afterwards; the list
  holds what the iterations see, and \<open>DiscoveryRetries\<close> is a loop that has not ended with it.
\<close>

fun discoverUser ::
    "disc_env \<Rightarrow> (state option \<times> bool) list \<Rightarrow> bool \<Rightarrow> bytes \<Rightarrow> bytes option \<Rightarrow> bool \<Rightarrow> disc_mem \<Rightarrow>
     (discover_error + discoveryResult \<times> state) \<times> disc_mem" where
  "discoverUser E [] hintMandatory meta source requireCurrent m =
     (if length meta < DefaultNonceSize then (Inl MetadataTooShort, m) else (Inl DiscoveryRetries, m))"
| "discoverUser E ((loaded, current) # gens) hintMandatory meta source requireCurrent m =
     (if length meta < DefaultNonceSize then (Inl MetadataTooShort, m)
      else (case loaded of
          None \<Rightarrow> (Inl NoServerUser, m)
        | Some st \<Rightarrow>
            if length (ss_users st) = 0 then (Inl NoServerUser, m)
            else (case tryState E st meta source hintMandatory m of
                ((DiscoverPanic, s), st) \<Rightarrow> (Inl DiscoveryPanics, sn_mem s)
              | ((result, s), st) \<Rightarrow>
                  if requireCurrent \<and> \<not> current
                  then discoverUser E gens hintMandatory meta source requireCurrent (sn_mem s)
                  else (case result of
                      Found d \<Rightarrow>
                        let cache = (if dr_origin d = matchCachedHint \<or> dr_origin d = matchCachedFallback
                              then count_stat (\<lambda>s. s\<lparr>st_authenticationHits := st_authenticationHits s + 1\<rparr>) (ss_cache st) else ss_cache st)
                        in (Inr (d, st\<lparr>ss_cache := cache\<rparr>), sn_mem s)
                    | _ \<Rightarrow> (Inl NoUserDecrypts, sn_mem s)))))"

record Authentication =
  au_userID :: u32
  au_policy :: Policy
  au_origin :: matchOrigin
  au_generation :: "state option"
  au_source :: "bytes option"

definition Discover ::
    "disc_env \<Rightarrow> (state option \<times> bool) list \<Rightarrow> bool \<Rightarrow> bytes \<Rightarrow> bytes option \<Rightarrow> bool \<Rightarrow> disc_mem \<Rightarrow>
     (discover_error + aeadBlockCipher \<times> bytes \<times> Authentication) \<times> disc_mem" where
  "Discover E gens hintMandatory meta source requireCurrent m =
     (case discoverUser E gens hintMandatory meta source requireCurrent m of
        (Inl e, m) \<Rightarrow> (Inl e, m)
      | (Inr (d, generation), m) \<Rightarrow>
          (Inr (SetBlockContext (dr_userContext d) (dr_block d), dr_decryptedMetadata d,
             \<lparr>au_userID = dr_userID d, au_policy = dr_policy d, au_origin = dr_origin d, au_generation = Some generation,
              au_source = source\<rparr>), m))"

definition valid_authentication :: "Authentication \<Rightarrow> bool" where
  "valid_authentication a \<longleftrightarrow> au_userID a \<noteq> 0 \<and> au_generation a \<noteq> None"

text \<open>The result is the generation with the user recorded, and \<open>None\<close> is a panic.\<close>

definition recordAuthenticated :: "disc_env \<Rightarrow> Authentication \<Rightarrow> (Authentication \<times> state option) option" where
  "recordAuthenticated E a =
     (if \<not> valid_authentication a then Some (a, au_generation a)
      else
        let generation = the (au_generation a);
            a = a\<lparr>au_generation := None\<rparr>
        in case au_source a of
             None \<Rightarrow> Some (a, Some generation)
           | Some key \<Rightarrow>
               map_option (\<lambda>cache. (a, Some (generation\<lparr>ss_cache := cache\<rparr>)))
                 (cache_recordAuthenticated (de_hash E) (de_tick E) key (au_userID a) (ss_cache generation)))"

end
