(* ===== verification/Underlay_Base.thy ===== *)
theory Underlay_Base
  imports Padding Server_Users Session Net_Addr
begin

text \<open>
  What the two underlays share, \<^verbatim>\<open>pkg/protocol/underlay_base.go\<close>: the map of sessions, the checks on segments that a server receives, and
  the low entropy form of an encrypted payload.  An underlay holds a session with what the model of the session leaves out: the
  cipher that \<^verbatim>\<open>Session.block\<close> points to, the remote address and the channel of received segments.  A
  session is named by its identifier.  An outer \<open>None\<close> is a panic.
\<close>

section \<open>Low entropy form of encrypted payloads\<close>

datatype le_wire_error =
    EncryptedLenWant nat nat
  | EncodedLenWant nat nat
  | CodecFailed le_error
  | MetadataInvalid md_error
  | NotLowEntropy u8
  | PlaintextLenWant nat nat
  | PayloadLenWant u16 u16
  | RotationInvalid int
  | LowEntropyPanic

text \<open>The metadata is never nil.  \<open>paddingBit\<close> is \<^verbatim>\<open>lowEntropyPaddingBit\<close>.\<close>

definition encodeLowEntropyEncryptedPayload :: "u8 \<Rightarrow> bytes \<Rightarrow> dataAckStruct \<Rightarrow> le_wire_error + bytes" where
  "encodeLowEntropyEncryptedPayload paddingBit encryptedPayload das =
     (let extractedPayloadLen = unat (das_extractedPayloadLen das);
          expectedEncryptedLen = extractedPayloadLen + DefaultOverhead
      in if length encryptedPayload \<noteq> expectedEncryptedLen
         then Inl (EncryptedLenWant (length encryptedPayload) expectedEncryptedLen)
         else (case encodeLowEntropyPayload paddingBit (take extractedPayloadLen encryptedPayload) (uint (das_lowEntropyMode das))
                  (das_lowEntropyMask das) (uint (das_lowEntropyMaskRotation das)) of
             Inl e \<Rightarrow> Inl (CodecFailed e)
           | Inr encodedBody \<Rightarrow>
               if length encodedBody \<noteq> unat (das_payloadLen das)
               then Inl (EncodedLenWant (length encodedBody) (unat (das_payloadLen das)))
               else Inr (encodedBody @ drop extractedPayloadLen encryptedPayload)))"

definition decodeLowEntropyEncryptedPayload :: "bytes \<Rightarrow> dataAckStruct \<Rightarrow> le_wire_error + bytes" where
  "decodeLowEntropyEncryptedPayload encryptedPayload das =
     (case validateLowEntropyDataAckMetadata das of
        Some e \<Rightarrow> Inl (MetadataInvalid e)
      | None \<Rightarrow>
          let wirePayloadLen = unat (das_payloadLen das) + DefaultOverhead
          in if length encryptedPayload \<noteq> wirePayloadLen
             then Inl (EncryptedLenWant (length encryptedPayload) wirePayloadLen)
             else (case decodeLowEntropyPayload (take (unat (das_payloadLen das)) encryptedPayload) (uint (das_extractedPayloadLen das))
                      (uint (das_lowEntropyMode das)) (das_lowEntropyMask das) (uint (das_lowEntropyMaskRotation das)) of
                 Inl e \<Rightarrow> Inl (CodecFailed e)
               | Inr decodedBody \<Rightarrow> Inr (decodedBody @ drop (unat (das_payloadLen das)) encryptedPayload)))"

text \<open>\<open>draws\<close> are the random positions for the fresh half mask.\<close>

definition prepareLowEntropyDataAckForSend :: "(nat \<Rightarrow> nat) \<Rightarrow> dataAckStruct \<Rightarrow> nat \<Rightarrow> le_wire_error option \<times> dataAckStruct" where
  "prepareLowEntropyDataAckForSend draws das plaintextPayloadLen =
     (if \<not> isLowEntropyProtocol (das_protocol das) then (Some (NotLowEntropy (das_protocol das)), das)
      else if plaintextPayloadLen \<noteq> unat (das_extractedPayloadLen das)
        then (Some (PlaintextLenWant plaintextPayloadLen (unat (das_extractedPayloadLen das))), das)
      else
        let mode = uint (das_lowEntropyMode das)
        in case lowEntropyEncodedPayloadLen (int plaintextPayloadLen) mode of
             Inl e \<Rightarrow> (Some (CodecFailed e), das)
           | Inr expectedPayloadLen \<Rightarrow>
               if das_payloadLen das \<noteq> expectedPayloadLen then (Some (PayloadLenWant (das_payloadLen das) expectedPayloadLen), das)
               else
                 let rotation = uint (das_lowEntropyMaskRotation das)
                 in if \<not> isValidLowEntropyRotation rotation then (Some (RotationInvalid rotation), das)
                    else (case newLowEntropyHalfMask draws mode of
                        None \<Rightarrow> (Some LowEntropyPanic, das)
                      | Some (Inl e) \<Rightarrow> (Some (CodecFailed e), das\<lparr>das_lowEntropyMask := 0\<rparr>)
                      | Some (Inr halfMask) \<Rightarrow>
                          let das = das\<lparr>das_lowEntropyMask := halfMask\<rparr>
                          in (map_option MetadataInvalid (validateLowEntropyDataAckMetadata das), das)))"

lemma validateLowEntropy_None:
  assumes "validateLowEntropyDataAckMetadata das = None" and "das_extractedPayloadLen das \<noteq> 0"
  obtains ps where "validateLowEntropyCodecParams (uint (das_lowEntropyMode das)) (das_lowEntropyMask das) (uint (das_lowEntropyMaskRotation das)) = Inr ps"
    "chunks (sourceBytesPerChunk ps) (unat (das_extractedPayloadLen das)) \<le> 8191"
    "das_payloadLen das = of_nat (8 * chunks (sourceBytesPerChunk ps) (unat (das_extractedPayloadLen das)))"
proof -
  obtain ps where ps: "validateLowEntropyCodecParams (uint (das_lowEntropyMode das)) (das_lowEntropyMask das) (uint (das_lowEntropyMaskRotation das)) = Inr ps"
      "lowEntropyEncodedPayloadLen (uint (das_extractedPayloadLen das)) (uint (das_lowEntropyMode das)) = Inr (das_payloadLen das)"
    using assms by (auto simp: validateLowEntropyDataAckMetadata_def split: if_splits sum.splits)
  have "uint (das_extractedPayloadLen das) = int (unat (das_extractedPayloadLen das))" by simp
  then show ?thesis
    using that [OF ps(1)] ps lowEntropyEncodedPayloadLen_eq [of "uint (das_lowEntropyMode das)" ps "unat (das_extractedPayloadLen das)"]
    by (auto simp: validateLowEntropyCodecParams_Inr_iff split: if_splits)
qed

text \<open>An encrypted payload comes back from its low entropy form.\<close>

lemma low_entropy_wire:
  assumes "validateLowEntropyDataAckMetadata das = None" and "das_extractedPayloadLen das \<noteq> 0"
    and "length encrypted = unat (das_extractedPayloadLen das) + 16" and "paddingBit \<le> 1"
  shows "\<exists>w. encodeLowEntropyEncryptedPayload paddingBit encrypted das = Inr w \<and> length w = unat (das_payloadLen das) + 16 \<and>
    decodeLowEntropyEncryptedPayload w das = Inr encrypted"
proof -
  let ?n = "unat (das_extractedPayloadLen das)" and ?m = "uint (das_lowEntropyMode das)" and ?r = "uint (das_lowEntropyMaskRotation das)"
  obtain ps where ps: "validateLowEntropyCodecParams ?m (das_lowEntropyMask das) ?r = Inr ps" "chunks (sourceBytesPerChunk ps) ?n \<le> 8191"
      "das_payloadLen das = of_nat (8 * chunks (sourceBytesPerChunk ps) ?n)"
    using assms(1,2) by (rule validateLowEntropy_None)
  have n: "length (take ?n encrypted) = ?n" "take ?n encrypted \<noteq> []" using assms(2,3) by (auto simp: unat_eq_0)
  obtain e where e: "encodeLowEntropyPayloadWithPaddingBit (take ?n encrypted) ?m (das_lowEntropyMask das) ?r paddingBit = Inr e"
    using encodeLowEntropyPayload_Inr_iff [of "take ?n encrypted" ?m "das_lowEntropyMask das" ?r paddingBit] ps(1,2) n assms(4) by auto
  have len: "length e = unat (das_payloadLen das)"
    using decode_of_encode(2) [OF e, of ps] ps unat_encoded_len [OF ps(2)] n(1) by (simp add: validateLowEntropyCodecParams_Inr_iff)
  have "decodeLowEntropyPayload e (uint (das_extractedPayloadLen das)) ?m (das_lowEntropyMask das) ?r = Inr (take ?n encrypted)"
    using decode_of_encode(1) [OF e] n(1) by simp
  then show ?thesis
    using e len assms(1,3) n(1)
    by (intro exI [of _ "e @ drop ?n encrypted"])
       (simp add: encodeLowEntropyEncryptedPayload_def decodeLowEntropyEncryptedPayload_def encodeLowEntropyPayload_def Let_def DefaultOverhead_def)
qed

text \<open>A segment that a session has cut to size can be prepared, and what is prepared is valid.\<close>

definition low_entropy_ready :: "dataAckStruct \<Rightarrow> nat \<Rightarrow> bool" where
  "low_entropy_ready das n \<longleftrightarrow> isLowEntropyProtocol (das_protocol das) \<and> n = unat (das_extractedPayloadLen das) \<and> 0 < n \<and> n \<le> maxPDU \<and>
     lowEntropyEncodedPayloadLen (int n) (uint (das_lowEntropyMode das)) = Inr (das_payloadLen das) \<and>
     isValidLowEntropyRotation (uint (das_lowEntropyMaskRotation das))"

lemma prepared_is_valid:
  assumes "low_entropy_ready das n" and "\<And>i. i < 32 \<Longrightarrow> draws i < 32 - i"
  shows "\<exists>m. prepareLowEntropyDataAckForSend draws das n = (None, das\<lparr>das_lowEntropyMask := m\<rparr>) \<and>
    validateLowEntropyDataAckMetadata (das\<lparr>das_lowEntropyMask := m\<rparr>) = None"
proof -
  let ?mode = "uint (das_lowEntropyMode das)" and ?r = "uint (das_lowEntropyMaskRotation das)"
  have r: "isLowEntropyProtocol (das_protocol das)" "n = unat (das_extractedPayloadLen das)" "0 < n" "n \<le> maxPDU"
      "lowEntropyEncodedPayloadLen (int n) ?mode = Inr (das_payloadLen das)" "isValidLowEntropyRotation ?r"
    using assms(1) unfolding low_entropy_ready_def by blast+
  obtain ps where ps: "buildLowEntropyParams ?mode = Inr ps"
    using r(5) by (auto simp: lowEntropyEncodedPayloadLen_def split: sum.splits)
  obtain m where m: "newLowEntropyHalfMask draws ?mode = Some (Inr m)" "validateLowEntropyCodecParams ?mode m ?r = Inr ps"
    using newLowEntropyHalfMask_valid [OF ps r(6), of draws] assms(2) by blast
  have "chunks (sourceBytesPerChunk ps) n \<le> 8191" "das_payloadLen das = of_nat (8 * chunks (sourceBytesPerChunk ps) n)"
    using r(3,5) lowEntropyEncodedPayloadLen_eq [OF ps, of n] by (simp_all split: if_splits)
  then have "unat (das_payloadLen das) mod 8 = 0" using unat_encoded_len by simp
  moreover have "das_extractedPayloadLen das \<noteq> 0" "uint (das_extractedPayloadLen das) = int n" using r(3) unfolding r(2) by auto
  ultimately have "validateLowEntropyDataAckMetadata (das\<lparr>das_lowEntropyMask := m\<rparr>) = None"
    using r m(2) by (simp add: validateLowEntropyDataAckMetadata_def lowEntropyChunkLen_def)
  then show ?thesis
    using r m(1) by (auto simp: prepareLowEntropyDataAckForSend_def Let_def)
qed

section \<open>Segments of an underlay\<close>

text \<open>
  \<open>in_block\<close> is the cipher of the segment, of which \<open>seg_block\<close> is the user name, and \<open>in_authentication\<close> the authentication that
  is still to be recorded.
\<close>

record inseg =
  in_seg :: segment
  in_block :: "aeadBlockCipher option"
  in_authentication :: Authentication

definition zeroAuthentication :: Authentication where
  "zeroAuthentication =
     \<lparr>au_userID = 0, au_policy = zeroPolicy, au_origin = matchUnknown, au_generation = None, au_source = None\<rparr>"

definition plain_inseg :: "segment \<Rightarrow> inseg" where
  "plain_inseg seg = \<lparr>in_seg = seg, in_block = None, in_authentication = zeroAuthentication\<rparr>"

definition set_block :: "aeadBlockCipher \<Rightarrow> inseg \<Rightarrow> inseg" where
  "set_block c s = s\<lparr>in_seg := in_seg s\<lparr>seg_block := Some (bc_UserName (ac_ctx c))\<rparr>, in_block := Some c\<rparr>"

definition set_policy :: "Policy \<Rightarrow> inseg \<Rightarrow> inseg" where
  "set_policy p s = s\<lparr>in_seg := in_seg s\<lparr>seg_serverUserPolicy := p\<rparr>\<rparr>"

datatype check_error = CannotCreateSession protocolType | ReservedSessionID | WrongDirection protocolType

definition validateNewServerSessionSegment :: "segment \<Rightarrow> check_error option" where
  "validateNewServerSessionSegment seg =
     (case seg_metadata seg of
        SessionMD ss \<Rightarrow>
          if ss_protocol ss \<noteq> openSessionRequest then Some (CannotCreateSession (seg_Protocol seg))
          else if ss_sessionID ss = 0 then Some ReservedSessionID
          else None
      | DataAckMD _ \<Rightarrow> Some (CannotCreateSession (seg_Protocol seg)))"

definition validateServerSegmentDirection :: "segment \<Rightarrow> check_error option" where
  "validateServerSegmentDirection seg =
     (let p = seg_Protocol seg
      in if p = openSessionRequest \<or> p = closeSessionRequest \<or> p = closeSessionResponse \<or> p = dataClientToServer \<or>
            p = dataClientToServerLowEntropy \<or> p = ackClientToServer
         then None else Some (WrongDirection p))"

section \<open>Addresses\<close>

text \<open>A \<^verbatim>\<open>*net.UDPAddr\<close>, which may be nil, or another address with its network and text.\<close>

datatype net_addr = UDPPeer "UDPAddr option" | OtherPeer string string

definition NilNetAddr :: net_addr where "NilNetAddr = OtherPeer '''' ''''"

fun addr_String :: "net_addr \<Rightarrow> string" where
  "addr_String (UDPPeer (Some a)) = UDPAddr_String a"
| "addr_String (UDPPeer None) = ''<nil>''"
| "addr_String (OtherPeer _ s) = s"

definition IsNilNetAddr :: "net_addr option \<Rightarrow> bool" where
  "IsNilNetAddr addr \<longleftrightarrow> (case addr of None \<Rightarrow> True | Some a \<Rightarrow> a = NilNetAddr)"

definition SourceFromAddr :: "net_addr \<Rightarrow> bytes option" where
  "SourceFromAddr addr = (case addr of UDPPeer (Some a) \<Rightarrow> sourceUserCacheKey (Some (udp_IP a)) | _ \<Rightarrow> None)"

section \<open>Sessions of an underlay\<close>

definition sessionChanCapacity :: nat where "sessionChanCapacity = 64"
definition segmentChanCapacity :: nat where "segmentChanCapacity = 256"

record attached =
  at_session :: session
  at_block :: "aeadBlockCipher option"
  at_remoteAddr :: "net_addr option"
  at_recvChan :: "inseg list"

record baseUnderlay =
  bu_isClient :: bool
  bu_mtu :: int
  bu_done :: bool
  bu_sessionMap :: "u32 \<rightharpoonup> attached"
  bu_readySessions :: "u32 list"
  bu_trafficPattern :: "TrafficPattern option"
  bu_inBytes :: int
  bu_outBytes :: int

datatype session_error = ZeroSessionID | AlreadyAttached u32 | ServerSessionInClient | ClientSessionInServer | AlreadyExists | NotAttached u32

definition base_AddSession :: "attached \<Rightarrow> net_addr option \<Rightarrow> 'a baseUnderlay_scheme \<Rightarrow> session_error + 'a baseUnderlay_scheme" where
  "base_AddSession s remoteAddr b =
     (let sid = s_id (at_session s)
      in if sid = 0 then Inl ZeroSessionID
         else if isStateAfter (at_session s) sessionAttached True then Inl (AlreadyAttached sid)
         else if bu_isClient b \<and> \<not> s_isClient (at_session s) then Inl ServerSessionInClient
         else if \<not> bu_isClient b \<and> s_isClient (at_session s) then Inl ClientSessionInServer
         else if bu_sessionMap b sid \<noteq> None then Inl AlreadyExists
         else Inr (b\<lparr>bu_sessionMap := (bu_sessionMap b)(sid \<mapsto> s\<lparr>at_remoteAddr := remoteAddr\<rparr>)\<rparr>))"

text \<open>\<^verbatim>\<open>AddSession\<close> of the stream underlay and of the packet underlay, which differ in the transport.\<close>

definition AddSession ::
    "TransportProtocol \<Rightarrow> attached \<Rightarrow> net_addr option \<Rightarrow> 'a baseUnderlay_scheme \<Rightarrow> session_error + 'a baseUnderlay_scheme" where
  "AddSession transport s remoteAddr b =
     and_then (base_AddSession s remoteAddr b) (\<lambda>b.
       let a = the (bu_sessionMap b (s_id (at_session s)));
           a = a\<lparr>at_session := forwardStateTo sessionAttached (at_session a\<lparr>s_transport := transport\<rparr>)\<rparr>
       in Inr (b\<lparr>bu_sessionMap := (bu_sessionMap b)(s_id (at_session s) \<mapsto> a)\<rparr>))"

text \<open>The session that is removed is closed as well; the wait for its goroutines is left out.\<close>

definition RemoveSession :: "env \<Rightarrow> attached \<Rightarrow> 'a baseUnderlay_scheme \<Rightarrow> (session_error + session \<times> 'a baseUnderlay_scheme) option" where
  "RemoveSession E s b =
     (let sid = s_id (at_session s)
      in if isStateBefore (at_session s) sessionAttached False then Some (Inl (NotAttached sid))
         else do {
           closed \<leftarrow> Close E (at_session s);
           Some (Inr (closed, b\<lparr>bu_sessionMap := (bu_sessionMap b)(sid := None)\<rparr>)) })"

text \<open>\<open>order\<close> is the order in which \<^verbatim>\<open>sync.Map.Range\<close> visits the sessions.\<close>

fun close_sessions :: "env \<Rightarrow> u32 list \<Rightarrow> (u32 \<rightharpoonup> attached) \<Rightarrow> (u32 \<rightharpoonup> attached) option" where
  "close_sessions E [] m = Some m"
| "close_sessions E (sid # order) m =
     (case m sid of
        None \<Rightarrow> close_sessions E order m
      | Some a \<Rightarrow> do {
          closed \<leftarrow> Close E (at_session a);
          close_sessions E order (m(sid \<mapsto> a\<lparr>at_session := closed\<rparr>)) })"

definition base_Close :: "env \<Rightarrow> u32 list \<Rightarrow> 'a baseUnderlay_scheme \<Rightarrow> 'a baseUnderlay_scheme option" where
  "base_Close E order b =
     (if bu_done b then Some b
      else do {
        m \<leftarrow> close_sessions E order (bu_sessionMap b);
        Some (b\<lparr>bu_sessionMap := m, bu_done := True\<rparr>) })"

text \<open>A select takes one of its ready cases; \<open>pick\<close> chooses.\<close>

definition select :: "nat \<Rightarrow> 'r list \<Rightarrow> 'r option" where
  "select pick ready = (if ready = [] then None else Some (ready ! (pick mod length ready)))"

datatype accepted = AcceptSession u32 | AcceptClosedPipe

definition base_Accept :: "nat \<Rightarrow> 'a baseUnderlay_scheme \<Rightarrow> (accepted \<times> 'a baseUnderlay_scheme) option" where
  "base_Accept pick b =
     select pick
       ((case bu_readySessions b of [] \<Rightarrow> [] | sid # ready \<Rightarrow> [(AcceptSession sid, b\<lparr>bu_readySessions := ready\<rparr>)]) @
        (if bu_done b then [(AcceptClosedPipe, b)] else []))"

definition SessionCount :: "'a baseUnderlay_scheme \<Rightarrow> nat" where
  "SessionCount b = card (dom (bu_sessionMap b))"

text \<open>
  \<open>None\<close> is a delivery that blocks: the channel of the session is full, and neither the session nor the underlay is closed.
\<close>

definition deliverSegmentToSession :: "nat \<Rightarrow> u32 \<Rightarrow> inseg \<Rightarrow> 'a baseUnderlay_scheme \<Rightarrow> (bool \<times> 'a baseUnderlay_scheme) option" where
  "deliverSegmentToSession pick sid seg b =
     (case bu_sessionMap b sid of
        None \<Rightarrow> None
      | Some s \<Rightarrow>
          select pick
            ((if length (at_recvChan s) < segmentChanCapacity
              then [(True, b\<lparr>bu_sessionMap := (bu_sessionMap b)(sid \<mapsto> s\<lparr>at_recvChan := at_recvChan s @ [seg]\<rparr>)\<rparr>)] else []) @
             (if s_closed (at_session s) then [(False, b)] else []) @
             (if bu_done b then [(False, b)] else [])))"

text \<open>
  The session takes the next segment from its channel.  \<^verbatim>\<open>Session.input\<close> also stores the cipher of the segment; when it
  returns early because of the protocol, it has not.
\<close>

definition session_takes :: "env \<Rightarrow> attached \<Rightarrow> (input_result \<times> attached) option" where
  "session_takes E a =
     (case at_recvChan a of
        [] \<Rightarrow> Some (InOK, a)
      | seg # rest \<Rightarrow> do {
          (r, s) \<leftarrow> input_loop_step E (in_seg seg) (at_session a);
          Some (r, a\<lparr>at_session := s, at_recvChan := rest,
            at_block := (if \<not> s_closed (at_session a) \<and> accepts_protocol (s_isClient (at_session a)) (seg_Protocol (in_seg seg)) \<and> in_block seg \<noteq> None
                         then in_block seg else at_block a)\<rparr>) })"

end
