(* ===== verification/Underlay_Packet.thy ===== *)
theory Underlay_Packet
  imports Underlay_Base Replay
begin

text \<open>
  The packet underlay, \<^verbatim>\<open>pkg/protocol/underlay_packet.go\<close>: how a segment becomes a datagram and a datagram a segment, and one iteration of
  the event loop.  What is drawn at random, the clock and the outcome of system calls are fields of records.  The ciphers of a packet underlay are
  stateless, so that the parts of a datagram fill the buffer exactly; a datagram is their concatenation.  Counters of
  \<^verbatim>\<open>pkg/metrics\<close> and logging are left out.
\<close>

definition packetNonHeaderPosition :: nat where
  "packetNonHeaderPosition = DefaultNonceSize + MetadataLength + DefaultOverhead"

text \<open>The time in microseconds after which a session without received segments is removed.\<close>

definition idleSessionTimeout :: int where "idleSessionTimeout = 60 * 10 ^ 6"

record PacketUnderlay = baseUnderlay +
  pu_serverAddr :: net_addr
  pu_block :: "aeadBlockCipher option"
  pu_serverUsers :: "Registry option"

section \<open>Construction and addresses\<close>

datatype new_error = UnsupportedNetwork string | CipherNotStateless | ResolveFailed net_error | ListenFailed

text \<open>\<open>resolved\<close> is the result of \<^verbatim>\<open>ResolveUDPAddr\<close>, and \<open>listens\<close> tells whether \<^verbatim>\<open>ListenPacket\<close> succeeds.\<close>

definition NewPacketUnderlay ::
    "string \<Rightarrow> net_error + UDPAddr \<Rightarrow> bool \<Rightarrow> int \<Rightarrow> aeadBlockCipher \<Rightarrow> TrafficPattern option \<Rightarrow> new_error + PacketUnderlay" where
  "NewPacketUnderlay network resolved listens mtu block trafficPattern =
     (if network \<notin> {''udp'', ''udp4'', ''udp6''} then Inl (UnsupportedNetwork network)
      else if \<not> IsStateless block then Inl CipherNotStateless
      else (case resolved of
          Inl e \<Rightarrow> Inl (ResolveFailed e)
        | Inr remoteUDPAddr \<Rightarrow>
            if \<not> listens then Inl ListenFailed
            else Inr \<lparr>bu_isClient = True, bu_mtu = mtu, bu_done = False, bu_sessionMap = Map.empty, bu_readySessions = [],
                      bu_trafficPattern = trafficPattern, bu_inBytes = 0, bu_outBytes = 0,
                      pu_serverAddr = UDPPeer (Some remoteUDPAddr), pu_block = Some block, pu_serverUsers = None\<rparr>))"

definition packet_RemoteAddr :: "PacketUnderlay \<Rightarrow> net_addr" where
  "packet_RemoteAddr u = (if bu_isClient u then pu_serverAddr u else NilNetAddr)"

definition session_RemoteAddr :: "attached \<Rightarrow> PacketUnderlay \<Rightarrow> net_addr" where
  "session_RemoteAddr s u = (if \<not> IsNilNetAddr (at_remoteAddr s) then the (at_remoteAddr s) else packet_RemoteAddr u)"

definition isSamePacketAddr :: "net_addr \<Rightarrow> net_addr \<Rightarrow> bool" where
  "isSamePacketAddr a b \<longleftrightarrow>
     (case (a, b) of
        (UDPPeer (Some x), UDPPeer (Some y)) \<Rightarrow>
          udp_Port x = udp_Port y \<and> udp_Zone x = udp_Zone y \<and> IP_Equal (udp_IP x) (udp_IP y)
      | (UDPPeer x, UDPPeer y) \<Rightarrow> x = None \<and> y = None
      | _ \<Rightarrow> addr_String a = addr_String b)"

section \<open>Writing a segment\<close>

text \<open>
  \<open>wv_now\<close> is the Unix time, \<open>wv_pad1\<close> and \<open>wv_pad2\<close> are the random sources for the middle and the end padding, \<open>wv_strategy\<close> is
  \<^verbatim>\<open>rng.FixedIntV(2, userName)\<close>, \<open>wv_randomData\<close> the random bytes for the entropy strategy, \<open>wv_mask\<close> the draws for a half mask, and
  \<open>wv_writes\<close> tells whether the system call succeeds.
\<close>

record write_env =
  wv_crypto :: crypto
  wv_fl :: pad_floats
  wv_now :: nat
  wv_nonce :: nonce_rand
  wv_pad1 :: pad_rand
  wv_pad2 :: pad_rand
  wv_strategy :: "string \<Rightarrow> int"
  wv_asciiLen :: int
  wv_randomData :: "nat \<Rightarrow> bytes"
  wv_mask :: "nat \<Rightarrow> nat"
  wv_paddingBit :: u8
  wv_writes :: bool

datatype write_error =
    WrongPeer
  | SessionNotFound u32
  | CipherNotReady
  | EncryptFailed cipher_error
  | PrepareFailed le_wire_error
  | EncodeFailed le_wire_error
  | DatagramTooLong nat
  | WriteToFailed
  | NotSendable
  | WritePanic
  | PaddingWaits

text \<open>Where the cipher of a write is held; encryption may change it.\<close>

datatype cipher_place = InUnderlay | InSegment | InSession u32

definition packet_cipher :: "inseg \<Rightarrow> PacketUnderlay \<Rightarrow> write_error + cipher_place \<times> aeadBlockCipher" where
  "packet_cipher seg u =
     (if bu_isClient u then
        (case pu_block u of None \<Rightarrow> Inl WritePanic | Some c \<Rightarrow> Inr (InUnderlay, c))
      else (case in_block seg of
          Some c \<Rightarrow> Inr (InSegment, c)
        | None \<Rightarrow>
            let sid = SessionID (in_seg seg)
            in (case bu_sessionMap u sid of
                  None \<Rightarrow> Inl (SessionNotFound sid)
                | Some s \<Rightarrow> (case at_block s of None \<Rightarrow> Inl CipherNotReady | Some c \<Rightarrow> Inr (InSession sid, c)))))"

definition store_cipher :: "cipher_place \<Rightarrow> aeadBlockCipher \<Rightarrow> PacketUnderlay \<Rightarrow> PacketUnderlay" where
  "store_cipher place c u =
     (case place of
        InUnderlay \<Rightarrow> u\<lparr>pu_block := Some c\<rparr>
      | InSegment \<Rightarrow> u
      | InSession sid \<Rightarrow> u\<lparr>bu_sessionMap := (bu_sessionMap u)(sid := map_option (\<lambda>s. s\<lparr>at_block := Some c\<rparr>) (bu_sessionMap u sid))\<rparr>)"

definition end_padding :: "write_env \<Rightarrow> TransportProtocol \<Rightarrow> int \<Rightarrow> int \<Rightarrow> TrafficPattern option \<Rightarrow> string \<Rightarrow> int \<Rightarrow> pad_result" where
  "end_padding W transport overhead mtu trafficPattern userName payloadLen =
     newPadding (wv_fl W) (wv_pad2 W)
       (buildRecommendedPaddingOpts (wv_fl W) (wv_strategy W userName) (wv_asciiLen W) (wv_randomData W (nat (overhead + payloadLen)))
          (maxPaddingSizeWithTrafficPattern mtu transport payloadLen 0 trafficPattern endPadding))"

text \<open>The datagram of a session segment, the metadata with the fields that are set, and the cipher.\<close>

definition session_datagram ::
    "write_env \<Rightarrow> int \<Rightarrow> TrafficPattern option \<Rightarrow> aeadBlockCipher \<Rightarrow> sessionStruct \<Rightarrow> bytes \<Rightarrow>
     (write_error + bytes) \<times> sessionStruct \<times> aeadBlockCipher" where
  "session_datagram W mtu trafficPattern c ss payload =
     (case end_padding W PacketTransport packetOverhead mtu trafficPattern (bc_UserName (ac_ctx c)) (uint (ss_payloadLen ss)) of
        PadPanic \<Rightarrow> (Inl WritePanic, ss, c)
      | PadWaiting \<Rightarrow> (Inl PaddingWaits, ss, c)
      | Padding padding \<Rightarrow>
          let cr = wv_crypto W;
              (ss, plaintextMetadata) = marshal_session (wv_now W) (ss\<lparr>ss_suffixLen := of_nat (length padding)\<rparr>);
              encryptedMetadataLen = length plaintextMetadata + cr_NonceSize cr + cr_Overhead cr;
              encryptedPayloadLen = (if length payload > 0 then length payload + cr_Overhead cr else 0);
              size = encryptedMetadataLen + encryptedPayloadLen + length padding
          in (case Encrypt cr (wv_nonce W) size plaintextMetadata c of
                (Inl e, c) \<Rightarrow> (Inl (EncryptFailed e), ss, c)
              | (Inr encryptedMetadata, c) \<Rightarrow>
                  if length payload > 0 then
                    (case EncryptWithNonce cr (size - encryptedMetadataLen) (take (cr_NonceSize cr) encryptedMetadata) payload c of
                       Inl e \<Rightarrow> (Inl (EncryptFailed e), ss, c)
                     | Inr encryptedPayload \<Rightarrow> (Inr (encryptedMetadata @ encryptedPayload @ padding), ss, c))
                  else (Inr (encryptedMetadata @ padding), ss, c)))"

definition ascii_opts :: "int \<Rightarrow> paddingOpts" where
  "ascii_opts maxLen = \<lparr>po_maxLen = maxLen, po_ascii = Some \<lparr>ap_minConsecutiveASCIILen = 0\<rparr>, po_entropy = None\<rparr>"

text \<open>The two paddings of a data or ack segment.\<close>

definition two_paddings :: "write_env \<Rightarrow> TransportProtocol \<Rightarrow> int \<Rightarrow> TrafficPattern option \<Rightarrow> int \<Rightarrow> write_error + bytes \<times> bytes" where
  "two_paddings W transport mtu trafficPattern payloadLen =
     (case newPadding (wv_fl W) (wv_pad1 W)
             (ascii_opts (maxPaddingSizeWithTrafficPattern mtu transport payloadLen 0 trafficPattern middlePadding)) of
        PadPanic \<Rightarrow> Inl WritePanic
      | PadWaiting \<Rightarrow> Inl PaddingWaits
      | Padding padding1 \<Rightarrow>
          (case newPadding (wv_fl W) (wv_pad2 W)
                  (ascii_opts (maxPaddingSizeWithTrafficPattern mtu transport payloadLen (int (length padding1)) trafficPattern endPadding)) of
             PadPanic \<Rightarrow> Inl WritePanic
           | PadWaiting \<Rightarrow> Inl PaddingWaits
           | Padding padding2 \<Rightarrow> Inr (padding1, padding2)))"

text \<open>An encrypted payload in the form for the wire.\<close>

definition wire_payload :: "u8 \<Rightarrow> dataAckStruct \<Rightarrow> bytes \<Rightarrow> write_error + bytes" where
  "wire_payload paddingBit das encryptedPayload =
     (if isLowEntropyProtocol (das_protocol das)
      then (case encodeLowEntropyEncryptedPayload paddingBit encryptedPayload das of Inl e \<Rightarrow> Inl (EncodeFailed e) | Inr w \<Rightarrow> Inr w)
      else Inr encryptedPayload)"

definition dataAck_datagram ::
    "write_env \<Rightarrow> int \<Rightarrow> TrafficPattern option \<Rightarrow> aeadBlockCipher \<Rightarrow> dataAckStruct \<Rightarrow> bytes \<Rightarrow>
     (write_error + bytes) \<times> dataAckStruct \<times> aeadBlockCipher" where
  "dataAck_datagram W mtu trafficPattern c das payload =
     (let lowEntropy = isLowEntropyProtocol (das_protocol das);
          (err, das) = (if lowEntropy then prepareLowEntropyDataAckForSend (wv_mask W) das (length payload) else (None, das))
      in case err of
           Some e \<Rightarrow> (Inl (PrepareFailed e), das, c)
         | None \<Rightarrow>
             (case two_paddings W PacketTransport mtu trafficPattern (uint (das_payloadLen das)) of
                Inl e \<Rightarrow> (Inl e, das, c)
              | Inr (padding1, padding2) \<Rightarrow>
                  let cr = wv_crypto W;
                      (das, plaintextMetadata) = marshal_dataAck (wv_now W)
                        (das\<lparr>das_prefixLen := of_nat (length padding1), das_suffixLen := of_nat (length padding2)\<rparr>);
                      encryptedMetadataLen = length plaintextMetadata + cr_NonceSize cr + cr_Overhead cr;
                      wirePayloadLen = (if length payload > 0
                        then (if lowEntropy then unat (das_payloadLen das) else length payload) + cr_Overhead cr else 0);
                      size = encryptedMetadataLen + length padding1 + wirePayloadLen + length padding2
                  in (case Encrypt cr (wv_nonce W) size plaintextMetadata c of
                        (Inl e, c) \<Rightarrow> (Inl (EncryptFailed e), das, c)
                      | (Inr encryptedMetadata, c) \<Rightarrow>
                          let body =
                            (if length payload > 0 then
                               (case EncryptWithNonce cr (size - encryptedMetadataLen - length padding1)
                                       (take (cr_NonceSize cr) encryptedMetadata) payload c of
                                  Inl e \<Rightarrow> Inl (EncryptFailed e)
                                | Inr encryptedPayload \<Rightarrow> wire_payload (wv_paddingBit W) das encryptedPayload)
                             else Inr [])
                          in (case body of
                                Inl e \<Rightarrow> (Inl e, das, c)
                              | Inr wire \<Rightarrow>
                                  let dataToSend = encryptedMetadata @ padding1 @ wire @ padding2
                                  in if lowEntropy \<and> int (length dataToSend) > mtu then (Inl (DatagramTooLong (length dataToSend)), das, c)
                                     else (Inr dataToSend, das, c)))))"

text \<open>The segment is returned with its new metadata.\<close>

definition packet_writeOneSegment ::
    "write_env \<Rightarrow> inseg \<Rightarrow> net_addr \<Rightarrow> PacketUnderlay \<Rightarrow> (write_error + bytes) \<times> inseg \<times> PacketUnderlay" where
  "packet_writeOneSegment W seg addr u =
     (if bu_isClient u \<and> addr_String addr \<noteq> addr_String (pu_serverAddr u) then (Inl WrongPeer, seg, u)
      else (case packet_cipher seg u of
          Inl e \<Rightarrow> (Inl e, seg, u)
        | Inr (place, c) \<Rightarrow>
            let (r, md, c) =
              (case toSessionStruct (seg_metadata (in_seg seg)) of
                 None \<Rightarrow> (Inl WritePanic, seg_metadata (in_seg seg), c)
               | Some (Some ss) \<Rightarrow>
                   (case session_datagram W (bu_mtu u) (bu_trafficPattern u) c ss (seg_payload (in_seg seg)) of
                      (r, ss, c) \<Rightarrow> (r, SessionMD ss, c))
               | Some None \<Rightarrow>
                   (case toDataAckStruct (seg_metadata (in_seg seg)) of
                      None \<Rightarrow> (Inl WritePanic, seg_metadata (in_seg seg), c)
                    | Some (Some das) \<Rightarrow>
                        (case dataAck_datagram W (bu_mtu u) (bu_trafficPattern u) c das (seg_payload (in_seg seg)) of
                           (r, das, c) \<Rightarrow> (r, DataAckMD das, c))
                    | Some None \<Rightarrow> (Inl NotSendable, seg_metadata (in_seg seg), c)));
                seg = seg\<lparr>in_seg := in_seg seg\<lparr>seg_metadata := md\<rparr>\<rparr>;
                u = store_cipher place c u
            in (case r of
                  Inl e \<Rightarrow> (Inl e, seg, u)
                | Inr dataToSend \<Rightarrow>
                    if \<not> wv_writes W then (Inl WriteToFailed, seg, u)
                    else (Inr dataToSend, seg, u\<lparr>bu_outBytes := bu_outBytes u + int (length dataToSend)\<rparr>))))"

section \<open>Reading a segment\<close>

text \<open>
  \<open>rv_disc\<close> is what discovery reads, with the primitives of encryption, \<open>rv_now\<close> the Unix time, \<open>rv_nanos\<close> the time of the
  replay cache and \<open>rv_order\<close> the order in which the map of sessions is visited.
\<close>

record read_env =
  rv_disc :: disc_env
  rv_now :: nat
  rv_nanos :: int
  rv_order :: "u32 list"

text \<open>The state outside of the underlay: the replay cache of the package, and what the decryptors remember.\<close>

record outside =
  ou_replay :: "ReplayCache option"
  ou_mem :: disc_mem

datatype parse_error =
    IncompletePacket
  | PaddingSizeMismatch
  | PrefixTooLong
  | PayloadDecryptFailed cipher_error
  | PayloadDecodeFailed le_wire_error
  | MetadataRejected md_error
  | ParsePanic

text \<open>\<open>own\<close> is \<^verbatim>\<open>u.block\<close>; the sum of the payload length and the overhead is a 16-bit number in the first one.\<close>

definition payload_cipher :: "bool \<Rightarrow> aeadBlockCipher option \<Rightarrow> aeadBlockCipher option \<Rightarrow> parse_error + aeadBlockCipher" where
  "payload_cipher isClient own blockCipher =
     (case (case blockCipher of Some c \<Rightarrow> Some c | None \<Rightarrow> if isClient then own else None) of
        None \<Rightarrow> Inl ParsePanic | Some c \<Rightarrow> Inr c)"

definition parseSessionSegment ::
    "crypto \<Rightarrow> bool \<Rightarrow> aeadBlockCipher option \<Rightarrow> sessionStruct \<Rightarrow> bytes \<Rightarrow> bytes \<Rightarrow> aeadBlockCipher option \<Rightarrow> parse_error + segment" where
  "parseSessionSegment cr isClient own ss nonce remaining blockCipher =
     (if ss_payloadLen ss > 0 then
        if length remaining < unat (ss_payloadLen ss) + DefaultOverhead then Inl IncompletePacket
        else
          and_then (payload_cipher isClient own blockCipher) (\<lambda>c.
          (case DecryptWithNonce cr (take (unat (ss_payloadLen ss + of_nat DefaultOverhead)) remaining) nonce c of
             Inl e \<Rightarrow> Inl (PayloadDecryptFailed e)
           | Inr decryptedPayload \<Rightarrow>
               if unat (ss_payloadLen ss) + DefaultOverhead + unat (ss_suffixLen ss) \<noteq> length remaining then Inl PaddingSizeMismatch
               else Inr (mk_segment (SessionMD ss) decryptedPayload PacketTransport)))
      else if unat (ss_suffixLen ss) \<noteq> length remaining then Inl PaddingSizeMismatch
      else Inr (mk_segment (SessionMD ss) [] PacketTransport))"

definition parseDataAckSegment ::
    "crypto \<Rightarrow> bool \<Rightarrow> aeadBlockCipher option \<Rightarrow> dataAckStruct \<Rightarrow> bytes \<Rightarrow> bytes \<Rightarrow> aeadBlockCipher option \<Rightarrow> parse_error + segment" where
  "parseDataAckSegment cr isClient own das nonce remaining blockCipher =
     (let lowEntropy = isLowEntropyProtocol (das_protocol das);
          invalid = (if lowEntropy then validateLowEntropyDataAckMetadata das else None)
      in case invalid of
           Some e \<Rightarrow> Inl (MetadataRejected e)
         | None \<Rightarrow>
             if unat (das_prefixLen das) > length remaining then Inl PrefixTooLong
             else
               let remaining = drop (unat (das_prefixLen das)) remaining
               in if das_payloadLen das > 0 then
                    let wirePayloadLen = unat (das_payloadLen das) + DefaultOverhead
                    in if length remaining < wirePayloadLen then Inl IncompletePacket
                       else if length remaining \<noteq> wirePayloadLen + unat (das_suffixLen das) then Inl PaddingSizeMismatch
                       else
                         and_then (payload_cipher isClient own blockCipher) (\<lambda>c.
                         and_then (if lowEntropy
                                   then (case decodeLowEntropyEncryptedPayload (take wirePayloadLen remaining) das of
                                           Inl e \<Rightarrow> Inl (PayloadDecodeFailed e) | Inr p \<Rightarrow> Inr p)
                                   else Inr (take wirePayloadLen remaining)) (\<lambda>encryptedPayload.
                         (case DecryptWithNonce cr encryptedPayload nonce c of
                            Inl e \<Rightarrow> Inl (PayloadDecryptFailed e)
                          | Inr decryptedPayload \<Rightarrow> Inr (mk_segment (DataAckMD das) decryptedPayload PacketTransport))))
                  else if unat (das_suffixLen das) \<noteq> length remaining then Inl PaddingSizeMismatch
                  else Inr (mk_segment (DataAckMD das) [] PacketTransport))"

text \<open>The sessions of a server whose remote address is the source of the packet are tried first.\<close>

fun tryDecryptExistingSession ::
    "crypto \<Rightarrow> u32 list \<Rightarrow> bytes \<Rightarrow> net_addr \<Rightarrow> PacketUnderlay \<Rightarrow> (bytes \<times> aeadBlockCipher \<times> Policy) option" where
  "tryDecryptExistingSession cr [] encryptedMeta addr u = None"
| "tryDecryptExistingSession cr (sid # order) encryptedMeta addr u =
     (case bu_sessionMap u sid of
        None \<Rightarrow> tryDecryptExistingSession cr order encryptedMeta addr u
      | Some s \<Rightarrow>
          (case at_block s of
             None \<Rightarrow> tryDecryptExistingSession cr order encryptedMeta addr u
           | Some sessionBlock \<Rightarrow>
               if isSamePacketAddr (session_RemoteAddr s u) addr then
                 (case fst (Decrypt cr encryptedMeta sessionBlock) of
                    Inr plaintext \<Rightarrow>
                      Some (plaintext, sessionBlock, case s_userPolicy (at_session s) of Some p \<Rightarrow> p | None \<Rightarrow> zeroPolicy)
                  | Inl _ \<Rightarrow> tryDecryptExistingSession cr order encryptedMeta addr u)
               else tryDecryptExistingSession cr order encryptedMeta addr u))"

text \<open>
  The registry publishes one generation during a call.  The generation that comes back holds the statistics of a successful discovery; those of
  a failed one are left out.
\<close>

definition serverTryDecryptMetadataForNewSession ::
    "disc_env \<Rightarrow> bytes \<Rightarrow> bytes option \<Rightarrow> disc_mem \<Rightarrow> PacketUnderlay \<Rightarrow>
     (discover_error + aeadBlockCipher \<times> bytes \<times> Authentication) option \<times> disc_mem \<times> PacketUnderlay" where
  "serverTryDecryptMetadataForNewSession D encryptedMeta source m u =
     (case pu_serverUsers u of
        None \<Rightarrow> (None, m, u)
      | Some r \<Rightarrow>
          (case Discover D [(rg_users r, True)] (rg_hintMandatory r) encryptedMeta source False m of
             (Inl e, m) \<Rightarrow> (Some (Inl e), m, u)
           | (Inr (matchedBlock, decryptedMetadata, authentication), m) \<Rightarrow>
               (Some (Inr (case bu_trafficPattern u of None \<Rightarrow> matchedBlock | Some tp \<Rightarrow> SetNoncePattern (tp_Nonce tp) matchedBlock,
                  decryptedMetadata, authentication)), m,
                u\<lparr>pu_serverUsers := Some (r\<lparr>rg_users := au_generation authentication\<rparr>)\<rparr>)))"

datatype read_out = Dropped | GotSegment inseg | ReadPanic

text \<open>A decrypted metadata with the cipher, the policy and the authentication, if the packet is not dropped.\<close>

type_synonym opened = "bytes \<times> aeadBlockCipher option \<times> Policy \<times> Authentication"

datatype open_out = NotOpened | Opened opened | OpenPanic

definition open_as_client :: "crypto \<Rightarrow> bytes \<Rightarrow> PacketUnderlay \<Rightarrow> open_out" where
  "open_as_client cr encryptedMeta u =
     (case pu_block u of
        None \<Rightarrow> OpenPanic
      | Some c \<Rightarrow> (case fst (Decrypt cr encryptedMeta c) of
            Inl _ \<Rightarrow> NotOpened
          | Inr decryptedMeta \<Rightarrow> Opened (decryptedMeta, None, zeroPolicy, zeroAuthentication)))"

definition open_as_server ::
    "read_env \<Rightarrow> bytes \<Rightarrow> net_addr \<Rightarrow> bool \<Rightarrow> disc_mem \<Rightarrow> PacketUnderlay \<Rightarrow> open_out \<times> disc_mem \<times> PacketUnderlay" where
  "open_as_server R encryptedMeta addr isNewSessionReplay m u =
     (case tryDecryptExistingSession (de_crypto (rv_disc R)) (rv_order R) encryptedMeta addr u of
        Some (decryptedMeta, blockCipher, matchedPolicy) \<Rightarrow>
          (if isNewSessionReplay then NotOpened else Opened (decryptedMeta, Some blockCipher, matchedPolicy, zeroAuthentication), m, u)
      | None \<Rightarrow>
          (case serverTryDecryptMetadataForNewSession (rv_disc R) encryptedMeta (SourceFromAddr addr) m u of
             (Some (Inr (blockCipher, decryptedMeta, authentication)), m, u) \<Rightarrow>
               (if isNewSessionReplay then NotOpened else Opened (decryptedMeta, Some blockCipher, au_policy authentication, authentication), m, u)
           | (Some (Inl DiscoveryPanics), m, u) \<Rightarrow> (OpenPanic, m, u)
           | (_, m, u) \<Rightarrow> (NotOpened, m, u)))"

text \<open>The checks that follow the parsing of a segment.\<close>

definition finish_segment :: "bool \<Rightarrow> opened \<Rightarrow> segment \<Rightarrow> read_out" where
  "finish_segment isSession op seg =
     (case op of (_, blockCipher, matchedPolicy, authentication) \<Rightarrow>
        let s = plain_inseg seg;
            s = (case blockCipher of None \<Rightarrow> s | Some c \<Rightarrow> set_policy matchedPolicy (set_block c s))
        in if \<not> valid_authentication authentication then GotSegment s
           else if validateServerSegmentDirection seg \<noteq> None then Dropped
           else if isSession \<and> seg_Protocol seg = openSessionRequest then
             (if validateNewServerSessionSegment seg \<noteq> None then Dropped
              else GotSegment (s\<lparr>in_authentication := authentication\<rparr>))
           else GotSegment s)"

definition parse_packet :: "crypto \<Rightarrow> nat \<Rightarrow> bool \<Rightarrow> aeadBlockCipher option \<Rightarrow> bytes \<Rightarrow> opened \<Rightarrow> read_out" where
  "parse_packet cr now isClient own b op =
     (case op of (decryptedMeta, blockCipher, _, _) \<Rightarrow>
        let nonce = take DefaultNonceSize b; remaining = drop packetNonHeaderPosition b
        in if length decryptedMeta \<noteq> MetadataLength then Dropped
           else if isSessionProtocol (decryptedMeta ! 0) then
             (case unmarshal_session now decryptedMeta of
                Inl _ \<Rightarrow> Dropped
              | Inr ss \<Rightarrow>
                  (case parseSessionSegment cr isClient own ss nonce remaining blockCipher of
                     Inl ParsePanic \<Rightarrow> ReadPanic
                   | Inl _ \<Rightarrow> Dropped
                   | Inr seg \<Rightarrow> finish_segment True op seg))
           else if isDataAckProtocol (decryptedMeta ! 0) then
             (case unmarshal_dataAck now decryptedMeta of
                Inl _ \<Rightarrow> Dropped
              | Inr das \<Rightarrow>
                  (case parseDataAckSegment cr isClient own das nonce remaining blockCipher of
                     Inl ParsePanic \<Rightarrow> ReadPanic
                   | Inl _ \<Rightarrow> Dropped
                   | Inr seg \<Rightarrow> finish_segment False op seg))
           else Dropped)"

text \<open>One iteration of the loop in \<^verbatim>\<open>readOneSegment\<close>, for a packet that has been received.  The buffer has 1500 bytes.\<close>

definition read_datagram ::
    "read_env \<Rightarrow> bytes \<Rightarrow> net_addr \<Rightarrow> outside \<Rightarrow> PacketUnderlay \<Rightarrow> read_out \<times> outside \<times> PacketUnderlay" where
  "read_datagram R datagram addr w u =
     (let b = take 1500 datagram
      in if bu_isClient u \<and> addr_String addr \<noteq> addr_String (pu_serverAddr u) then (Dropped, w, u)
         else if length b < packetNonHeaderPosition then (Dropped, w, u)
         else
           let u = u\<lparr>bu_inBytes := bu_inBytes u + int (length b)\<rparr>;
               encryptedMeta = take packetNonHeaderPosition b;
               (isNewSessionReplay, replay) = IsDuplicate (rv_nanos R) (take DefaultOverhead encryptedMeta) (addr_String addr) (ou_replay w);
               cr = de_crypto (rv_disc R);
               (opening, m, u) = (if bu_isClient u then (open_as_client cr encryptedMeta u, ou_mem w, u)
                                  else open_as_server R encryptedMeta addr isNewSessionReplay (ou_mem w) u)
           in (case opening of NotOpened \<Rightarrow> Dropped | OpenPanic \<Rightarrow> ReadPanic
                 | Opened op \<Rightarrow> parse_packet cr (rv_now R) (bu_isClient u) (pu_block u) b op,
               \<lparr>ou_replay = replay, ou_mem = m\<rparr>, u))"

text \<open>The loop, over what \<^verbatim>\<open>ReadFrom\<close> returns; \<open>ReadWaits\<close> is a loop that waits for more.\<close>

datatype arrival = Datagram bytes net_addr | ReadTimeout | ReadFailed

datatype read_result = ReadSegment inseg net_addr | ReadNothing | ReadClosedPipe | ReadFromFailed | ReadLoopPanic | ReadWaits

fun packet_readOneSegment ::
    "(read_env \<times> arrival) list \<Rightarrow> outside \<Rightarrow> PacketUnderlay \<Rightarrow> read_result \<times> outside \<times> PacketUnderlay" where
  "packet_readOneSegment [] w u = (if bu_done u then ReadClosedPipe else ReadWaits, w, u)"
| "packet_readOneSegment ((R, a) # arrivals) w u =
     (if bu_done u then (ReadClosedPipe, w, u)
      else (case a of
          ReadTimeout \<Rightarrow> (ReadNothing, w, u)
        | ReadFailed \<Rightarrow> (ReadFromFailed, w, u)
        | Datagram datagram addr \<Rightarrow>
            (case read_datagram R datagram addr w u of
               (Dropped, w, u) \<Rightarrow> packet_readOneSegment arrivals w u
             | (GotSegment seg, w, u) \<Rightarrow> (ReadSegment seg addr, w, u)
             | (ReadPanic, w, u) \<Rightarrow> (ReadLoopPanic, w, u))))"

section \<open>The event loop\<close>

datatype loop_out = LoopGoesOn | LoopFails write_error | LoopBlocks | LoopPanics

datatype handler_error = InvalidOperation | ReservedID | AddFailed session_error | NotDelivered | ClosedPipe | UnknownSession

text \<open>\<open>HandlerBlocks\<close> is a handler that waits for a full channel.\<close>

datatype handler_out = HandlerOK | HandlerErr handler_error | HandlerBlocks | HandlerPanic

definition commitServerUserAuthentication :: "disc_env \<Rightarrow> inseg \<Rightarrow> PacketUnderlay \<Rightarrow> PacketUnderlay option" where
  "commitServerUserAuthentication D seg u =
     (if \<not> valid_authentication (in_authentication seg) then Some u
      else do {
        (_, generation) \<leftarrow> recordAuthenticated D (in_authentication seg);
        Some (u\<lparr>pu_serverUsers := map_option (\<lambda>r. r\<lparr>rg_users := generation\<rparr>) (pu_serverUsers u)\<rparr>) })"

text \<open>\<open>picks\<close> are the choices of the two select statements.\<close>

definition packet_onOpenSessionRequest ::
    "env \<Rightarrow> disc_env \<Rightarrow> nat \<times> nat \<Rightarrow> inseg \<Rightarrow> net_addr \<Rightarrow> PacketUnderlay \<Rightarrow> handler_out \<times> PacketUnderlay" where
  "packet_onOpenSessionRequest E D picks seg remoteAddr u =
     (if bu_isClient u then (HandlerErr InvalidOperation, u)
      else
        let sid = SessionID (in_seg seg)
        in if sid = 0 then (HandlerErr ReservedID, u)
           else if bu_sessionMap u sid \<noteq> None then (HandlerOK, u)
           else (case newSessionWithServerUserPolicy E sid False (bu_mtu u) (seg_serverUserPolicy (in_seg seg)) None (bu_trafficPattern u) of
               None \<Rightarrow> (HandlerPanic, u)
             | Some s \<Rightarrow>
                 (case AddSession PacketTransport \<lparr>at_session = s, at_block = None, at_remoteAddr = None, at_recvChan = []\<rparr> (Some remoteAddr) u of
                    Inl e \<Rightarrow> (HandlerErr (AddFailed e), u)
                  | Inr u \<Rightarrow>
                      (case deliverSegmentToSession (fst picks) sid seg u of
                         None \<Rightarrow> (HandlerBlocks, u)
                       | Some (False, u) \<Rightarrow> (HandlerErr NotDelivered, u)
                       | Some (True, u) \<Rightarrow>
                           (case select (snd picks)
                                   ((if length (bu_readySessions u) < sessionChanCapacity
                                     then [Some (u\<lparr>bu_readySessions := bu_readySessions u @ [sid]\<rparr>)] else []) @
                                    (if bu_done u then [None] else [])) of
                              None \<Rightarrow> (HandlerBlocks, u)
                            | Some None \<Rightarrow> (HandlerErr ClosedPipe, u)
                            | Some (Some u) \<Rightarrow>
                                (case commitServerUserAuthentication D seg u of None \<Rightarrow> (HandlerPanic, u) | Some u \<Rightarrow> (HandlerOK, u)))))))"

text \<open>A segment that is not delivered because the session or the underlay is closed is dropped.\<close>

definition deliver_or_drop :: "nat \<Rightarrow> u32 \<Rightarrow> inseg \<Rightarrow> PacketUnderlay \<Rightarrow> handler_out \<times> PacketUnderlay" where
  "deliver_or_drop pick sid seg u = (case deliverSegmentToSession pick sid seg u of None \<Rightarrow> (HandlerBlocks, u) | Some (_, u) \<Rightarrow> (HandlerOK, u))"

definition packet_onOpenSessionResponse :: "nat \<Rightarrow> inseg \<Rightarrow> PacketUnderlay \<Rightarrow> handler_out \<times> PacketUnderlay" where
  "packet_onOpenSessionResponse pick seg u =
     (if \<not> bu_isClient u then (HandlerErr InvalidOperation, u)
      else
        let sid = SessionID (in_seg seg)
        in if bu_sessionMap u sid = None then (HandlerErr UnknownSession, u) else deliver_or_drop pick sid seg u)"

definition packet_onCloseSession :: "nat \<Rightarrow> inseg \<Rightarrow> PacketUnderlay \<Rightarrow> handler_out \<times> PacketUnderlay" where
  "packet_onCloseSession pick seg u =
     (let sid = SessionID (in_seg seg)
      in if bu_sessionMap u sid = None then (HandlerOK, u) else deliver_or_drop pick sid seg u)"

definition close_request :: "dataAckStruct \<Rightarrow> inseg \<Rightarrow> inseg" where
  "close_request das seg =
     \<lparr>in_seg = mk_segment (SessionMD \<lparr>ss_protocol = closeSessionRequest, ss_timestamp = 0, ss_sessionID = das_sessionID das,
         ss_seq = das_unAckSeq das, ss_statusCode = 0, ss_payloadLen = 0, ss_suffixLen = 0\<rparr>) [] PacketTransport\<lparr>seg_block := seg_block (in_seg seg)\<rparr>,
      in_block = in_block seg, in_authentication = zeroAuthentication\<rparr>"

text \<open>
  What the event loop does with a segment, the datagrams that it sends included.  \<open>E\<close> is for new sessions, \<open>W\<close> for what is sent.
\<close>

definition packet_dispatch ::
    "env \<Rightarrow> disc_env \<Rightarrow> write_env \<Rightarrow> nat \<times> nat \<Rightarrow> inseg \<Rightarrow> net_addr \<Rightarrow> PacketUnderlay \<Rightarrow>
     loop_out \<times> (bytes \<times> net_addr) list \<times> PacketUnderlay" where
  "packet_dispatch E D W picks seg addr u =
     (let handled = (\<lambda>(r, u). (case r of HandlerBlocks \<Rightarrow> LoopBlocks | HandlerPanic \<Rightarrow> LoopPanics | _ \<Rightarrow> LoopGoesOn, [], u));
          p = seg_Protocol (in_seg seg)
      in if isSessionProtocol p then
           (if p = openSessionRequest then handled (packet_onOpenSessionRequest E D picks seg addr u)
            else if p = openSessionResponse then handled (packet_onOpenSessionResponse (fst picks) seg u)
            else handled (packet_onCloseSession (fst picks) seg u))
         else (case toDataAckStruct (seg_metadata (in_seg seg)) of
             Some (Some das) \<Rightarrow>
               if bu_sessionMap u (das_sessionID das) \<noteq> None then handled (deliver_or_drop (fst picks) (das_sessionID das) seg u)
               else if bu_isClient u \<or> in_block seg \<noteq> None then
                 (case packet_writeOneSegment W (close_request das seg) addr u of
                    (Inl WritePanic, _, u) \<Rightarrow> (LoopPanics, [], u)
                  | (Inl e, _, u) \<Rightarrow> (LoopFails e, [], u)
                  | (Inr dataToSend, _, u) \<Rightarrow> (LoopGoesOn, [(dataToSend, addr)], u))
               else (LoopGoesOn, [], u)
           | Some None \<Rightarrow> (LoopGoesOn, [], u)
           | None \<Rightarrow> (LoopPanics, [], u)))"

text \<open>The removal of closed and idle sessions.\<close>

fun packet_cleanSessions :: "env \<Rightarrow> u32 list \<Rightarrow> PacketUnderlay \<Rightarrow> PacketUnderlay option" where
  "packet_cleanSessions E [] u = Some u"
| "packet_cleanSessions E (sid # order) u =
     (case bu_sessionMap u sid of
        None \<Rightarrow> packet_cleanSessions E order u
      | Some s \<Rightarrow>
          if s_closed (at_session s) \<or> e_now E - s_lastRXTime (at_session s) > idleSessionTimeout then do {
            r \<leftarrow> RemoveSession E s u;
            packet_cleanSessions E order (case r of Inl _ \<Rightarrow> u | Inr (_, u) \<Rightarrow> u) }
          else packet_cleanSessions E order u)"

definition packet_Close :: "env \<Rightarrow> u32 list \<Rightarrow> PacketUnderlay \<Rightarrow> PacketUnderlay option" where
  "packet_Close E order u = (if bu_done u then Some u else base_Close E order u)"

end
