(* ===== verification/Server_Users_Props.thy ===== *)
theory Server_Users_Props
  imports Server_Users
begin

text \<open>
  What the registry of server users promises: the generation does not depend on the order of the configuration, discovery is sound and complete for
  every content of its caches and tries no user twice, and a client with the right password is discovered.
\<close>

section \<open>Generations\<close>

definition state_ok :: "state \<Rightarrow> bool" where
  "state_ok st \<longleftrightarrow> length (ss_users st) < 2 ^ 32 \<and>
     (\<forall>i < length (ss_users st). us_id (ss_users st ! i) = of_nat (i + 1)) \<and>
     (\<forall>u \<in> set (ss_users st). us_name u \<noteq> [] \<and> length (us_name u) \<le> 64 \<and> us_credential u \<noteq> []) \<and>
     distinct (map us_name (ss_users st))"

lemma unat_small: "n < 2 ^ 32 \<Longrightarrow> unat (of_nat n :: u32) = n"
  by (simp add: unat_of_nat)

lemma state_ids:
  assumes "state_ok st" and "i < length (ss_users st)"
  shows "unat (us_id (ss_users st ! i)) = i + 1"
proof -
  have "us_id (ss_users st ! i) = of_nat (i + 1)" "i + 1 < 2 ^ 32" using assms by (auto simp: state_ok_def)
  then show ?thesis using unat_small [of "i + 1"] by simp
qed

lemma distinct_ids:
  assumes "state_ok st"
  shows "distinct (map us_id (ss_users st))"
proof (unfold distinct_conv_nth, intro allI impI)
  fix i j assume "i < length (map us_id (ss_users st))" "j < length (map us_id (ss_users st))" "i \<noteq> j"
  then show "map us_id (ss_users st) ! i \<noteq> map us_id (ss_users st) ! j"
    using state_ids [OF assms, of i] state_ids [OF assms, of j] by auto
qed

lemma user_of_id: "state_ok st \<Longrightarrow> u \<in> set (ss_users st) \<Longrightarrow> v \<in> set (ss_users st) \<Longrightarrow> us_id u = us_id v \<Longrightarrow> u = v"
  using distinct_ids by (metis distinct_map inj_on_def)

lemma userByID_Some:
  assumes "state_ok st"
  shows "userByID st i = Some u \<longleftrightarrow> u \<in> set (ss_users st) \<and> us_id u = i"
proof
  assume u: "userByID st i = Some u"
  have "unat i \<le> length (ss_users st)" "i \<noteq> 0"
    using u assms by (auto simp: userByID_def state_ok_def not_less word_le_nat_alt unat_small split: if_splits)
  then have "unat i - 1 < length (ss_users st)" using unat_gt_0 [of i] by linarith
  moreover have "ss_users st ! (unat i - 1) = u" "us_id u = i" using u by (auto simp: userByID_def Let_def split: if_splits)
  ultimately show "u \<in> set (ss_users st) \<and> us_id u = i" by (metis nth_mem)
next
  assume u: "u \<in> set (ss_users st) \<and> us_id u = i"
  then obtain k where k: "k < length (ss_users st)" "ss_users st ! k = u" by (auto simp: in_set_conv_nth)
  have i: "unat i = k + 1" using state_ids [OF assms k(1)] k(2) u by simp
  then have "i \<noteq> 0" by auto
  moreover have "\<not> i > of_nat (length (ss_users st))"
    using i k(1) assms by (simp add: state_ok_def not_less word_le_nat_alt unat_small)
  ultimately show "userByID st i = Some u" using i k u by (simp add: userByID_def)
qed

lemma hint_decided: "state_ok st \<Longrightarrow> u \<in> set (ss_users st) \<Longrightarrow> 24 \<le> length meta \<Longrightarrow>
    \<exists>b. CheckUserFromHint (bytes_of (us_name u)) (take DefaultNonceSize meta) = Some b"
  by (auto simp: state_ok_def CheckUserFromHint_def cipher_consts)

definition hints :: "bytes \<Rightarrow> user \<Rightarrow> bool" where
  "hints meta u \<longleftrightarrow> CheckUserFromHint (bytes_of (us_name u)) (take DefaultNonceSize meta) = Some True"

lemma hint_eq: "state_ok st \<Longrightarrow> u \<in> set (ss_users st) \<Longrightarrow> 24 \<le> length meta \<Longrightarrow>
    CheckUserFromHint (bytes_of (us_name u)) (take DefaultNonceSize meta) = Some (hints meta u)"
  using hint_decided [of st u meta] by (auto simp: hints_def)

section \<open>One attempt\<close>

definition mem_ok :: "disc_env \<Rightarrow> state \<Rightarrow> disc_mem \<Rightarrow> bool" where
  "mem_ok E st m \<longleftrightarrow> ciphers_ok (de_crypto E) (dm_cache m) \<and>
     (\<forall>u \<in> set (ss_users st). \<forall>e. dm_ciphers m (us_id u) = Some e \<longrightarrow> entry_ok (de_crypto E) (us_credential u) e)"

definition opens :: "disc_env \<Rightarrow> bytes \<Rightarrow> user \<Rightarrow> (aeadBlockCipher \<times> bytes) option" where
  "opens E meta u = (case decrypt_fresh (de_crypto E) (us_credential u) meta [] (de_now E) of Inl _ \<Rightarrow> None | Inr r \<Rightarrow> Some r)"

definition found :: "user \<Rightarrow> aeadBlockCipher \<times> bytes \<Rightarrow> matchOrigin \<Rightarrow> discoveryResult" where
  "found u r origin = \<lparr>dr_block = fst r, dr_decryptedMetadata = snd r, dr_userID = us_id u,
     dr_userContext = \<lparr>bc_UserName = us_name u\<rparr>, dr_policy = us_policy u, dr_origin = origin\<rparr>"

lemma tryUser_eq:
  assumes "state_ok st" and "mem_ok E st m" and "u \<in> set (ss_users st)"
  shows "\<exists>m'. tryUser E u meta origin m = (map_option (\<lambda>r. found u r origin) (opens E meta u), m') \<and> mem_ok E st m'"
proof -
  let ?d = "\<lparr>sd_password = us_credential u, sd_ciphers = dm_ciphers m (us_id u)\<rparr>" and ?cr = "de_crypto E"
  have "ciphers_ok ?cr (dm_cache m)" "decryptor_ok ?cr ?d" using assms(2,3) by (auto simp: mem_ok_def decryptor_ok_def)
  from tryDecryptAt_fresh [OF this, of "de_jitter E" meta "[]" "de_now E"] obtain r d cache where
    t: "tryDecryptAt ?cr (de_jitter E) meta [] (de_now E) (Some ?d) (dm_cache m) = (r, Some d, cache)"
      "r = decrypt_fresh ?cr (us_credential u) meta [] (de_now E)" "ciphers_ok ?cr cache" "decryptor_ok ?cr d"
      "sd_password d = us_credential u"
    by (cases "tryDecryptAt ?cr (de_jitter E) meta [] (de_now E) (Some ?d) (dm_cache m)") auto
  let ?m = "\<lparr>dm_ciphers = (dm_ciphers m)(us_id u := sd_ciphers d), dm_cache = cache\<rparr>"
  have "entry_ok ?cr (us_credential v) e" if v: "v \<in> set (ss_users st)" "dm_ciphers ?m (us_id v) = Some e" for v e
  proof (cases "us_id v = us_id u")
    case True
    then have "v = u" using user_of_id [OF assms(1) v(1) assms(3)] by simp
    then show ?thesis using v t(4,5) by (simp add: decryptor_ok_def)
  qed (use v assms(2) in \<open>simp add: mem_ok_def\<close>)
  then have "mem_ok E st ?m" using t(3) by (simp add: mem_ok_def)
  moreover have "tryUser E u meta origin m = (map_option (\<lambda>r. found u r origin) (opens E meta u), ?m)"
    using t(1,2) by (auto simp: tryUser_def opens_def found_def split: sum.splits)
  ultimately show ?thesis by blast
qed

section \<open>The loops\<close>

text \<open>
  What a loop does to a scan: it tries the users \<open>new\<close>, whose hint matches or does not match as wanted, none of them for the second time.  The last of them
  is the one that is found, and all others do not open the metadata.
\<close>

definition outcome :: "disc_env \<Rightarrow> bytes \<Rightarrow> matchOrigin \<Rightarrow> user list \<Rightarrow> discovery \<Rightarrow> bool" where
  "outcome E meta origin new d \<longleftrightarrow> (case d of
     NotFound \<Rightarrow> \<forall>u \<in> set new. opens E meta u = None
   | Found x \<Rightarrow> \<exists>front u b. new = front @ [u] \<and> opens E meta u = Some b \<and> x = found u b origin \<and> (\<forall>v \<in> set front. opens E meta v = None)
   | DiscoverPanic \<Rightarrow> False)"

lemma outcome_Cons: "opens E meta u = None \<Longrightarrow> outcome E meta origin new d \<Longrightarrow> outcome E meta origin (u # new) d"
proof (cases d)
  case (Found x)
  assume u: "opens E meta u = None" and "outcome E meta origin new d"
  then obtain front w b where "new = front @ [w]" "opens E meta w = Some b" "x = found w b origin" "\<forall>v \<in> set front. opens E meta v = None"
    unfolding outcome_def Found by (simp only: discovery.case) (elim exE conjE)
  then show ?thesis
    unfolding outcome_def Found discovery.case using u
    by (intro exI [of _ "u # front"] exI [of _ w] exI [of _ b]) simp
qed (simp_all add: outcome_def)

definition tries :: "disc_env \<Rightarrow> state \<Rightarrow> bytes \<Rightarrow> bool \<Rightarrow> matchOrigin \<Rightarrow> user list \<Rightarrow> scan \<Rightarrow> discovery \<times> scan \<Rightarrow> bool" where
  "tries E st meta want origin new s r \<longleftrightarrow> mem_ok E st (sn_mem (snd r)) \<and> sn_tried (snd r) = sn_tried s @ map us_id new \<and> distinct (map us_id new) \<and>
     (\<forall>u \<in> set new. u \<in> set (ss_users st) \<and> hints meta u = want \<and> us_id u \<notin> set (sn_attempted s)) \<and> outcome E meta origin new (fst r)"

lemma tries_none: "mem_ok E st (sn_mem s) \<Longrightarrow> tries E st meta want origin [] s (NotFound, s)"
  by (simp add: tries_def outcome_def)

lemma tries_found:
  assumes "mem_ok E st m" and "u \<in> set (ss_users st)" and "hints meta u = want" and "us_id u \<notin> set (sn_attempted s)" and "opens E meta u = Some b"
    and "sn_tried s' = sn_tried s @ [us_id u]" and "sn_mem s' = m"
  shows "tries E st meta want origin [u] s (Found (found u b origin), s')"
  using assms by (cases b) (simp add: tries_def outcome_def)

lemma tries_step:
  assumes "u \<in> set (ss_users st)" and "hints meta u = want" and "us_id u \<notin> set (sn_attempted s)" and "opens E meta u = None"
    and "sn_tried s' = sn_tried s @ [us_id u]" and "set (sn_attempted s) \<subseteq> set (sn_attempted s')"
    and "tries E st meta want origin new s' r" and "us_id u \<notin> us_id ` set new"
  shows "tries E st meta want origin (u # new) s r"
proof -
  have "\<forall>v \<in> set new. v \<in> set (ss_users st) \<and> hints meta v = want \<and> us_id v \<notin> set (sn_attempted s)"
    using assms(6,7) by (auto simp: tries_def)
  then show ?thesis using assms(1-5,7,8) outcome_Cons [OF assms(4)] by (simp add: tries_def)
qed

definition covers :: "state \<Rightarrow> bytes \<Rightarrow> bool \<Rightarrow> u32 list \<Rightarrow> scan \<Rightarrow> bool" where
  "covers st meta want ids s \<longleftrightarrow> (\<forall>i \<in> set ids. \<forall>u. userByID st i = Some u \<longrightarrow> hints meta u = want \<longrightarrow> i \<in> set (sn_attempted s))"

lemma covers_Cons:
  "covers st meta want (i # ids) s \<longleftrightarrow> covers st meta want ids s \<and> (\<forall>u. userByID st i = Some u \<longrightarrow> hints meta u = want \<longrightarrow> i \<in> set (sn_attempted s))"
  by (auto simp: covers_def)

lemma try_cached_skip:
  assumes "state_ok st" and "24 \<le> length meta" and "\<forall>u. userByID st i = Some u \<longrightarrow> us_id u \<in> set (sn_attempted s) \<or> hints meta u \<noteq> want"
  shows "try_cached E st meta want origin (i # ids) s = try_cached E st meta want origin ids s"
proof (cases "userByID st i")
  case (Some u)
  then have "u \<in> set (ss_users st)" using userByID_Some [OF assms(1)] by blast
  then show ?thesis using Some assms(3) hint_eq [OF assms(1) _ assms(2)] by (auto simp: userIDWasAttempted_def)
qed simp

lemma try_cached_step:
  assumes "state_ok st" and "24 \<le> length meta" and "mem_ok E st (sn_mem s)" and "length (sn_attempted s) < 16"
    and "userByID st i = Some u" and "us_id u \<notin> set (sn_attempted s)" and "hints meta u = want"
  shows "\<exists>m. mem_ok E st m \<and> try_cached E st meta want origin (i # ids) s =
    (let s1 = s\<lparr>sn_attempted := sn_attempted s @ [i], sn_tried := sn_tried s @ [i], sn_mem := m\<rparr>
     in case opens E meta u of Some b \<Rightarrow> (Found (found u b origin), s1) | None \<Rightarrow> try_cached E st meta want origin ids s1)"
proof -
  have us: "u \<in> set (ss_users st)" "us_id u = i" using userByID_Some [OF assms(1)] assms(5) by auto
  obtain m where m: "tryUser E u meta origin (sn_mem s) = (map_option (\<lambda>r. found u r origin) (opens E meta u), m)" "mem_ok E st m"
    using tryUser_eq [OF assms(1,3) us(1)] by blast
  have "markUserIDAttempted (sn_attempted s) i = sn_attempted s @ [i]"
    using assms(4,6) us(2) by (simp add: markUserIDAttempted_def userIDWasAttempted_def sourceUserCacheUsers_def)
  then show ?thesis
    using assms(5-7) us m hint_eq [OF assms(1) us(1) assms(2)]
    by (intro exI [of _ m]) (cases "opens E meta u", simp_all add: userIDWasAttempted_def Let_def)
qed

declare try_cached.simps(2) [simp del]

text \<open>What the array of attempted users may have to hold.\<close>

definition slots_needed :: "scan \<Rightarrow> u32 list \<Rightarrow> nat" where
  "slots_needed s ids = length (sn_attempted s) + length (filter (\<lambda>i. i \<notin> set (sn_attempted s)) ids)"

lemma room_step:
  assumes "slots_needed s (i # ids) \<le> 16" and "i \<notin> set (sn_attempted s)" and "sn_attempted s1 = sn_attempted s @ [i]"
  shows "length (sn_attempted s) < 16" and "slots_needed s1 ids \<le> 16"
proof -
  have "filter (\<lambda>j. j \<notin> set (sn_attempted s1)) ids = filter (\<lambda>j. j \<noteq> i) (filter (\<lambda>j. j \<notin> set (sn_attempted s)) ids)"
    using assms(3) by (auto intro: filter_cong)
  then have "length (filter (\<lambda>j. j \<notin> set (sn_attempted s1)) ids) \<le> length (filter (\<lambda>j. j \<notin> set (sn_attempted s)) ids)" by (metis length_filter_le)
  then show "length (sn_attempted s) < 16" "slots_needed s1 ids \<le> 16" using assms by (simp_all add: slots_needed_def)
qed

lemma try_cached_tries:
  assumes "state_ok st" and "24 \<le> length meta" and "mem_ok E st (sn_mem s)" and "slots_needed s ids \<le> 16"
  shows "\<exists>new. tries E st meta want origin new s (try_cached E st meta want origin ids s) \<and>
    sn_attempted (snd (try_cached E st meta want origin ids s)) = sn_attempted s @ map us_id new \<and> us_id ` set new \<subseteq> set ids \<and>
    (fst (try_cached E st meta want origin ids s) = NotFound \<longrightarrow> covers st meta want ids (snd (try_cached E st meta want origin ids s)))"
  using assms(3,4)
proof (induction ids arbitrary: s)
  case Nil
  then show ?case using tries_none [OF Nil(1)] by (intro exI [of _ "[]"]) (simp add: covers_def)
next
  case (Cons i ids)
  show ?case
  proof (cases "\<forall>u. userByID st i = Some u \<longrightarrow> us_id u \<in> set (sn_attempted s) \<or> hints meta u \<noteq> want")
    case True
    have l: "slots_needed s ids \<le> 16" using Cons.prems(2) by (simp add: slots_needed_def split: if_splits)
    obtain new where n: "tries E st meta want origin new s (try_cached E st meta want origin ids s)"
        "sn_attempted (snd (try_cached E st meta want origin ids s)) = sn_attempted s @ map us_id new" "us_id ` set new \<subseteq> set ids"
        "fst (try_cached E st meta want origin ids s) = NotFound \<longrightarrow> covers st meta want ids (snd (try_cached E st meta want origin ids s))"
      using Cons.IH [OF Cons.prems(1) l] by (elim exE conjE) (rule that)
    have "userByID st i = Some u \<Longrightarrow> hints meta u = want \<Longrightarrow> i \<in> set (sn_attempted s)" for u
      using True userByID_Some [OF assms(1), of i u] by auto
    then show ?thesis
      using n unfolding try_cached_skip [OF assms(1,2) True] covers_Cons by (intro exI [of _ new]) auto
  next
    case False
    then obtain u where u: "userByID st i = Some u" "us_id u \<notin> set (sn_attempted s)" "hints meta u = want" by blast
    then have us: "u \<in> set (ss_users st)" "us_id u = i" using userByID_Some [OF assms(1), of i u] by simp_all
    have l: "length (sn_attempted s) < 16" using room_step(1) [OF Cons.prems(2), of "s\<lparr>sn_attempted := sn_attempted s @ [i]\<rparr>"] u(2) us(2) by simp
    obtain m where m: "mem_ok E st m" "try_cached E st meta want origin (i # ids) s =
        (let s1 = s\<lparr>sn_attempted := sn_attempted s @ [i], sn_tried := sn_tried s @ [i], sn_mem := m\<rparr>
         in case opens E meta u of Some b \<Rightarrow> (Found (found u b origin), s1) | None \<Rightarrow> try_cached E st meta want origin ids s1)"
      using try_cached_step [OF assms(1,2) Cons.prems(1) l u, of origin ids] by (elim exE conjE) (rule that)
    define s1 where "s1 = s\<lparr>sn_attempted := sn_attempted s @ [i], sn_tried := sn_tried s @ [i], sn_mem := m\<rparr>"
    have s1: "sn_attempted s1 = sn_attempted s @ [i]" "sn_tried s1 = sn_tried s @ [us_id u]" "sn_mem s1 = m" using us(2) by (simp_all add: s1_def)
    note step = m(2) [unfolded Let_def, folded s1_def]
    show ?thesis
    proof (cases "opens E meta u")
      case (Some b)
      then show ?thesis
        using step tries_found [OF m(1) us(1) u(3,2) Some s1(2,3), of origin] us(2) s1(1) by (intro exI [of _ "[u]"]) simp
    next
      case None
      have l1: "mem_ok E st (sn_mem s1)" "slots_needed s1 ids \<le> 16" using room_step(2) [OF Cons.prems(2) _ s1(1)] u(2) us(2) m(1) s1(3) by simp_all
      obtain new where n: "tries E st meta want origin new s1 (try_cached E st meta want origin ids s1)"
          "sn_attempted (snd (try_cached E st meta want origin ids s1)) = sn_attempted s1 @ map us_id new" "us_id ` set new \<subseteq> set ids"
          "fst (try_cached E st meta want origin ids s1) = NotFound \<longrightarrow> covers st meta want ids (snd (try_cached E st meta want origin ids s1))"
        using Cons.IH [OF l1] by (elim exE conjE) (rule that)
      have "us_id u \<notin> us_id ` set new" using n(1) us(2) s1(1) by (auto simp: tries_def)
      then have "tries E st meta want origin (u # new) s (try_cached E st meta want origin ids s1)"
        using tries_step [OF us(1) u(3,2) None s1(2) _ n(1)] s1(1) by auto
      then show ?thesis using n(2-4) step None us(2) s1(1) by (intro exI [of _ "u # new"]) (auto simp: covers_Cons)
    qed
  qed
qed

lemma try_registry_step:
  assumes "state_ok st" and "24 \<le> length meta" and "mem_ok E st (sn_mem s)" and "u \<in> set (ss_users st)" and "us_id u \<notin> set (sn_attempted s)"
    and "hints meta u = want"
  shows "\<exists>m. mem_ok E st m \<and> try_registry E meta want origin (u # us) s =
    (let s1 = s\<lparr>sn_tried := sn_tried s @ [us_id u], sn_mem := m\<rparr>
     in case opens E meta u of Some b \<Rightarrow> (Found (found u b origin), s1) | None \<Rightarrow> try_registry E meta want origin us s1)"
proof -
  obtain m where m: "tryUser E u meta origin (sn_mem s) = (map_option (\<lambda>r. found u r origin) (opens E meta u), m)" "mem_ok E st m"
    using tryUser_eq [OF assms(1,3,4)] by blast
  then show ?thesis
    using assms(5,6) hint_eq [OF assms(1,4,2)]
    by (intro exI [of _ m]) (cases "opens E meta u", simp_all add: userIDWasAttempted_def Let_def)
qed

lemma try_registry_skip:
  assumes "state_ok st" and "24 \<le> length meta" and "u \<in> set (ss_users st)" and "us_id u \<in> set (sn_attempted s) \<or> hints meta u \<noteq> want"
  shows "try_registry E meta want origin (u # us) s = try_registry E meta want origin us s"
  using assms(4) hint_eq [OF assms(1,3,2)] by (auto simp: userIDWasAttempted_def)

declare try_registry.simps(2) [simp del]

definition refuted :: "disc_env \<Rightarrow> bytes \<Rightarrow> bool \<Rightarrow> user list \<Rightarrow> scan \<Rightarrow> bool" where
  "refuted E meta want us s \<longleftrightarrow> (\<forall>u \<in> set us. hints meta u = want \<longrightarrow> us_id u \<notin> set (sn_attempted s) \<longrightarrow> opens E meta u = None)"

lemma refuted_Cons:
  "refuted E meta want (u # us) s \<longleftrightarrow> refuted E meta want us s \<and> (hints meta u = want \<longrightarrow> us_id u \<notin> set (sn_attempted s) \<longrightarrow> opens E meta u = None)"
  by (auto simp: refuted_def)

lemma try_registry_tries:
  assumes "state_ok st" and "24 \<le> length meta" and "mem_ok E st (sn_mem s)" and "set us \<subseteq> set (ss_users st)" and "distinct (map us_id us)"
  shows "\<exists>new. tries E st meta want origin new s (try_registry E meta want origin us s) \<and> set new \<subseteq> set us \<and>
    sn_attempted (snd (try_registry E meta want origin us s)) = sn_attempted s \<and>
    (fst (try_registry E meta want origin us s) = NotFound \<longrightarrow> refuted E meta want us s)"
  using assms(3-)
proof (induction us arbitrary: s)
  case Nil
  then show ?case using tries_none [OF Nil(1)] by (intro exI [of _ "[]"]) (simp add: refuted_def)
next
  case (Cons u us)
  have u: "u \<in> set (ss_users st)" "set us \<subseteq> set (ss_users st)" "distinct (map us_id us)" "us_id u \<notin> us_id ` set us" using Cons.prems by auto
  show ?case
  proof (cases "us_id u \<notin> set (sn_attempted s) \<and> hints meta u = want")
    case False
    have skip: "try_registry E meta want origin (u # us) s = try_registry E meta want origin us s"
      using try_registry_skip [OF assms(1,2) u(1)] False by blast
    obtain new where n: "tries E st meta want origin new s (try_registry E meta want origin us s)" "set new \<subseteq> set us"
        "sn_attempted (snd (try_registry E meta want origin us s)) = sn_attempted s"
        "fst (try_registry E meta want origin us s) = NotFound \<longrightarrow> refuted E meta want us s"
      using Cons.IH [OF Cons.prems(1) u(2,3)] by (elim exE conjE) (rule that)
    then show ?thesis using False unfolding skip refuted_Cons by (intro exI [of _ new]) auto
  next
    case True
    obtain m where m: "mem_ok E st m" "try_registry E meta want origin (u # us) s =
        (let s1 = s\<lparr>sn_tried := sn_tried s @ [us_id u], sn_mem := m\<rparr>
         in case opens E meta u of Some b \<Rightarrow> (Found (found u b origin), s1) | None \<Rightarrow> try_registry E meta want origin us s1)"
      using try_registry_step [OF assms(1,2) Cons.prems(1) u(1), of want origin us] True by (elim conjE) (drule meta_mp, assumption, drule meta_mp, assumption, elim exE conjE, rule that)
    define s1 where "s1 = s\<lparr>sn_tried := sn_tried s @ [us_id u], sn_mem := m\<rparr>"
    have s1: "sn_attempted s1 = sn_attempted s" "sn_tried s1 = sn_tried s @ [us_id u]" "sn_mem s1 = m" by (simp_all add: s1_def)
    note step = m(2) [unfolded Let_def, folded s1_def]
    show ?thesis
    proof (cases "opens E meta u")
      case (Some b)
      then show ?thesis
        using step tries_found [OF m(1) u(1) _ _ Some s1(2,3), of want origin] True s1(1) by (intro exI [of _ "[u]"]) simp
    next
      case None
      have m1: "mem_ok E st (sn_mem s1)" using m(1) s1(3) by simp
      obtain new where n: "tries E st meta want origin new s1 (try_registry E meta want origin us s1)" "set new \<subseteq> set us"
          "sn_attempted (snd (try_registry E meta want origin us s1)) = sn_attempted s1"
          "fst (try_registry E meta want origin us s1) = NotFound \<longrightarrow> refuted E meta want us s1"
        using Cons.IH [OF m1 u(2,3)] by (elim exE conjE) (rule that)
      have "us_id u \<notin> us_id ` set new" using n(2) u(4) by auto
      then have "tries E st meta want origin (u # new) s (try_registry E meta want origin us s1)"
        using tries_step [OF u(1) _ _ None s1(2) _ n(1)] True s1(1) by simp
      moreover have "refuted E meta want us s1 \<longleftrightarrow> refuted E meta want us s" by (simp add: refuted_def s1(1))
      ultimately show ?thesis
        using n(2-4) step None s1(1) by (intro exI [of _ "u # new"]) (auto simp: refuted_Cons)
    qed
  qed
qed

section \<open>The phases\<close>

text \<open>The users \<open>T\<close> have been tried, and none of them opens the metadata.\<close>

definition progress :: "disc_env \<Rightarrow> state \<Rightarrow> bytes \<Rightarrow> user list \<Rightarrow> scan \<Rightarrow> bool" where
  "progress E st meta T s \<longleftrightarrow> mem_ok E st (sn_mem s) \<and> sn_tried s = map us_id T \<and> distinct (map us_id T) \<and> set T \<subseteq> set (ss_users st) \<and>
     (\<forall>u \<in> set T. opens E meta u = None)"

definition success :: "disc_env \<Rightarrow> state \<Rightarrow> bytes \<Rightarrow> bool \<Rightarrow> matchOrigin \<Rightarrow> discovery \<times> scan \<Rightarrow> bool" where
  "success E st meta want origin r \<longleftrightarrow> mem_ok E st (sn_mem (snd r)) \<and> distinct (sn_tried (snd r)) \<and> set (sn_tried (snd r)) \<subseteq> us_id ` set (ss_users st) \<and>
     (\<exists>u \<in> set (ss_users st). \<exists>b. opens E meta u = Some b \<and> hints meta u = want \<and> fst r = Found (found u b origin))"

lemma disjoint_ids:
  assumes "state_ok st" and "set A \<subseteq> set (ss_users st)" and "set B \<subseteq> set (ss_users st)" and "set A \<inter> set B = {}"
  shows "us_id ` set A \<inter> us_id ` set B = {}"
proof -
  have "False" if "a \<in> set A" "b \<in> set B" "us_id a = us_id b" for a b
  proof -
    have "a = b" by (rule user_of_id [OF assms(1)]) (use that assms(2,3) in auto)
    then show False using that(1,2) assms(4) by auto
  qed
  then show ?thesis by blast
qed

lemma phase:
  assumes "state_ok st" and "progress E st meta T s" and "tries E st meta want origin new s r" and "set T \<inter> set new = {}"
  shows "fst r = NotFound \<and> progress E st meta (T @ new) (snd r) \<or> success E st meta want origin r"
proof -
  have T: "set T \<subseteq> set (ss_users st)" "distinct (map us_id T)" "sn_tried s = map us_id T" "\<forall>u \<in> set T. opens E meta u = None"
    using assms(2) by (simp_all add: progress_def)
  have n: "mem_ok E st (sn_mem (snd r))" "sn_tried (snd r) = sn_tried s @ map us_id new" "distinct (map us_id new)"
      "\<forall>u \<in> set new. u \<in> set (ss_users st) \<and> hints meta u = want" "outcome E meta origin new (fst r)"
    using assms(3) by (simp_all add: tries_def)
  have sub: "set new \<subseteq> set (ss_users st)" using n(4) by blast
  have d: "distinct (map us_id (T @ new))"
    using disjoint_ids [OF assms(1) T(1) sub assms(4)] T(2) n(3) by simp
  show ?thesis
  proof (cases "fst r")
    case NotFound
    then have "\<forall>u \<in> set new. opens E meta u = None" using n(5) by (simp add: outcome_def)
    then show ?thesis using NotFound n(1,2) T sub d by (auto simp: progress_def)
  next
    case (Found x)
    then obtain front u b where u: "new = front @ [u]" "opens E meta u = Some b" "x = found u b origin"
      using n(5) unfolding outcome_def by (simp only: discovery.case) (elim exE conjE, rule that)
    have w: "u \<in> set (ss_users st)" "hints meta u = want" using u(1) n(4) by simp_all
    have "\<exists>u \<in> set (ss_users st). \<exists>b. opens E meta u = Some b \<and> hints meta u = want \<and> fst r = Found (found u b origin)"
      by (rule bexI [OF _ w(1)], rule exI [of _ b]) (simp add: u(2,3) w(2) Found)
    moreover have "set (sn_tried (snd r)) \<subseteq> us_id ` set (ss_users st)" "distinct (sn_tried (snd r))" using n(2) T(1,3) sub d by auto
    ultimately show ?thesis using n(1) by (simp only: success_def simp_thms)
  next
    case DiscoverPanic
    then show ?thesis using n(5) by (simp add: outcome_def)
  qed
qed

text \<open>What all phases together give.\<close>

definition exact :: "disc_env \<Rightarrow> state \<Rightarrow> bytes \<Rightarrow> bool \<Rightarrow> discovery \<times> scan \<Rightarrow> bool" where
  "exact E st meta mandatory r \<longleftrightarrow> mem_ok E st (sn_mem (snd r)) \<and> distinct (sn_tried (snd r)) \<and> set (sn_tried (snd r)) \<subseteq> us_id ` set (ss_users st) \<and>
     (case fst r of
        Found d \<Rightarrow> \<exists>u \<in> set (ss_users st). \<exists>b. opens E meta u = Some b \<and> d = found u b (dr_origin d) \<and>
          (hints meta u \<or> \<not> mandatory \<and> (\<forall>v \<in> set (ss_users st). hints meta v \<longrightarrow> opens E meta v = None))
      | NotFound \<Rightarrow> \<forall>u \<in> set (ss_users st). hints meta u \<or> \<not> mandatory \<longrightarrow> opens E meta u = None
      | DiscoverPanic \<Rightarrow> False)"

lemma success_exact:
  assumes "success E st meta want origin r" and "want \<or> \<not> mandatory \<and> (\<forall>v \<in> set (ss_users st). hints meta v \<longrightarrow> opens E meta v = None)"
  shows "exact E st meta mandatory r"
proof -
  obtain u b where u: "u \<in> set (ss_users st)" "opens E meta u = Some b" "hints meta u = want" "fst r = Found (found u b origin)"
    using assms(1) unfolding success_def by (elim bexE exE conjE) (rule that)
  have "dr_origin (found u b origin) = origin" by (simp add: found_def)
  then show ?thesis
    unfolding exact_def u(4) discovery.case using assms u(1-3) by (intro conjI bexI [OF _ u(1)] exI [of _ b]) (auto simp: success_def)
qed

lemma success_or_else: "success E st meta want origin r \<Longrightarrow> or_else r f = r"
  by (cases r) (auto simp: success_def or_else_def)

lemma NotFound_or_else: "fst r = NotFound \<Longrightarrow> or_else r f = f (snd r)"
  by (cases r) (auto simp: or_else_def)

lemma or_else_assoc: "or_else (or_else r f) g = or_else r (\<lambda>s. or_else (f s) g)"
  by (cases r) (auto simp: or_else_def split: discovery.splits)

text \<open>The cached users and then all users, with matching or with other hints.\<close>

definition both_loops :: "disc_env \<Rightarrow> state \<Rightarrow> bytes \<Rightarrow> bool \<Rightarrow> matchOrigin \<Rightarrow> matchOrigin \<Rightarrow> u32 list \<Rightarrow> scan \<Rightarrow> discovery \<times> scan" where
  "both_loops E st meta want o1 o2 ids s = or_else (try_cached E st meta want o1 ids s) (try_registry E meta want o2 (ss_users st))"

lemma both_loops_cases:
  assumes "state_ok st" and "24 \<le> length meta" and "progress E st meta T s" and "slots_needed s ids \<le> 16"
    and "\<forall>u \<in> set T. hints meta u \<noteq> want" and "\<forall>u \<in> set (ss_users st). hints meta u = want \<longrightarrow> us_id u \<notin> set (sn_attempted s)"
  shows "(\<exists>origin. success E st meta want origin (both_loops E st meta want o1 o2 ids s)) \<or>
    fst (both_loops E st meta want o1 o2 ids s) = NotFound \<and> (\<forall>u \<in> set (ss_users st). hints meta u = want \<longrightarrow> opens E meta u = None) \<and>
    (\<exists>new1 new2. progress E st meta (T @ new1 @ new2) (snd (both_loops E st meta want o1 o2 ids s)) \<and> (\<forall>u \<in> set (new1 @ new2). hints meta u = want) \<and>
       sn_attempted (snd (both_loops E st meta want o1 o2 ids s)) = sn_attempted s @ map us_id new1 \<and> us_id ` set new1 \<subseteq> set ids)"
proof -
  let ?r1 = "try_cached E st meta want o1 ids s"
  have m: "mem_ok E st (sn_mem s)" using assms(3) by (simp add: progress_def)
  obtain new1 where n1: "tries E st meta want o1 new1 s ?r1" "sn_attempted (snd ?r1) = sn_attempted s @ map us_id new1" "us_id ` set new1 \<subseteq> set ids"
    using try_cached_tries [OF assms(1,2) m assms(4), of want o1] by (elim exE conjE) (rule that)
  have h1: "\<forall>u \<in> set new1. hints meta u = want" using n1(1) by (simp add: tries_def)
  have "set T \<inter> set new1 = {}" using h1 assms(5) by blast
  from phase [OF assms(1,3) n1(1) this] show ?thesis
  proof
    assume "success E st meta want o1 ?r1"
    then show ?thesis by (auto simp: both_loops_def success_or_else)
  next
    assume p1: "fst ?r1 = NotFound \<and> progress E st meta (T @ new1) (snd ?r1)"
    let ?r2 = "try_registry E meta want o2 (ss_users st) (snd ?r1)"
    have b: "both_loops E st meta want o1 o2 ids s = ?r2" using p1 by (simp add: both_loops_def NotFound_or_else)
    have m1: "mem_ok E st (sn_mem (snd ?r1))" using p1 by (simp add: progress_def)
    obtain new2 where n2: "tries E st meta want o2 new2 (snd ?r1) ?r2" "sn_attempted (snd ?r2) = sn_attempted (snd ?r1)"
        "fst ?r2 = NotFound \<longrightarrow> refuted E meta want (ss_users st) (snd ?r1)"
      using try_registry_tries [OF assms(1,2) m1 subset_refl distinct_ids [OF assms(1)], of want o2] by (elim exE conjE) (rule that)
    have h2: "\<forall>u \<in> set new2. hints meta u = want \<and> us_id u \<notin> set (sn_attempted (snd ?r1))" using n2(1) by (simp add: tries_def)
    have "set (T @ new1) \<inter> set new2 = {}" using h2 assms(5) n1(2) by auto
    from phase [OF assms(1) conjunct2 [OF p1] n2(1) this] show ?thesis
    proof
      assume p2: "fst ?r2 = NotFound \<and> progress E st meta ((T @ new1) @ new2) (snd ?r2)"
      have "opens E meta u = None" if u: "u \<in> set (ss_users st)" "hints meta u = want" for u
      proof (cases "us_id u \<in> us_id ` set new1")
        case True
        then obtain v where v: "v \<in> set new1" "us_id v = us_id u" by auto
        moreover have "v \<in> set (ss_users st)" "opens E meta v = None" using p1 v(1) by (auto simp: progress_def)
        ultimately show ?thesis using user_of_id [OF assms(1) _ u(1)] by metis
      next
        case False
        then have "us_id u \<notin> set (sn_attempted (snd ?r1))" using n1(2) u assms(6) by auto
        then show ?thesis using n2(3) p2 u by (simp add: refuted_def)
      qed
      then show ?thesis
        unfolding b using p2 h1 h2 n1(2,3) n2(2) by (intro disjI2 conjI exI [of _ new1] exI [of _ new2]) auto
    qed (auto simp: b)
  qed
qed

lemma room_after:
  assumes "distinct ids" and "length ids \<le> 16" and "distinct (sn_attempted s)" and "set (sn_attempted s) \<subseteq> set ids"
  shows "slots_needed s ids \<le> 16"
proof -
  have "length (filter (\<lambda>i. i \<notin> set (sn_attempted s)) ids) = card (set ids - set (sn_attempted s))"
    using assms(1) by (simp add: distinct_card [symmetric] set_diff_eq)
  moreover have "length (sn_attempted s) = card (set (sn_attempted s))" using assms(3) by (simp add: distinct_card)
  moreover have "card (set (sn_attempted s)) + card (set ids - set (sn_attempted s)) = card (set ids)"
    using assms(4) by (metis List.finite_set card_Diff_subset card_mono le_add_diff_inverse)
  ultimately show ?thesis using assms(1,2) by (simp add: slots_needed_def distinct_card)
qed

lemma try_phases_exact:
  assumes "state_ok st" and "24 \<le> length meta" and "mem_ok E st m" and "distinct ids" and "length ids \<le> 16"
  shows "exact E st meta mandatory (try_phases E st meta mandatory ids m)"
proof -
  define s0 where "s0 = \<lparr>sn_attempted = [], sn_tried = [], sn_mem = m\<rparr>"
  define r1 where "r1 = both_loops E st meta True matchCachedHint matchRegistryHint ids s0"
  have e: "try_phases E st meta mandatory ids m = or_else r1 (\<lambda>s. if mandatory then (NotFound, s)
      else both_loops E st meta False matchCachedFallback matchRegistryFallback ids s)"
    unfolding try_phases_def r1_def both_loops_def s0_def by (simp add: or_else_assoc)
  have p0: "progress E st meta [] s0" "slots_needed s0 ids \<le> 16" using assms(3,5) by (simp_all add: progress_def s0_def slots_needed_def)
  consider (hit) origin where "success E st meta True origin r1"
    | (miss) new1 new2 where "fst r1 = NotFound" "\<forall>u \<in> set (ss_users st). hints meta u = True \<longrightarrow> opens E meta u = None"
        "progress E st meta (new1 @ new2) (snd r1)" "\<forall>u \<in> set (new1 @ new2). hints meta u = True"
        "sn_attempted (snd r1) = map us_id new1" "us_id ` set new1 \<subseteq> set ids"
    using both_loops_cases [OF assms(1,2) p0, of True matchCachedHint matchRegistryHint] unfolding r1_def s0_def by auto
  then show ?thesis
  proof cases
    case hit
    then show ?thesis using e success_or_else [OF hit] success_exact [OF hit] by simp
  next
    case miss
    have p: "mem_ok E st (sn_mem (snd r1))" "sn_tried (snd r1) = map us_id (new1 @ new2)" "distinct (map us_id (new1 @ new2))"
        "set (new1 @ new2) \<subseteq> set (ss_users st)"
      using miss(3) by (simp_all add: progress_def)
    show ?thesis
    proof (cases mandatory)
      case True
      then show ?thesis using e NotFound_or_else [OF miss(1)] miss(2) p by (auto simp: exact_def)
    next
      case False
      let ?r2 = "both_loops E st meta False matchCachedFallback matchRegistryFallback ids (snd r1)"
      have r: "try_phases E st meta mandatory ids m = ?r2" using e NotFound_or_else [OF miss(1)] False by simp
      have "slots_needed (snd r1) ids \<le> 16" using room_after [OF assms(4,5)] miss(5,6) p(3) by simp
      moreover have "us_id u \<notin> set (sn_attempted (snd r1))" if u: "u \<in> set (ss_users st)" "hints meta u = False" for u
      proof
        assume "us_id u \<in> set (sn_attempted (snd r1))"
        then obtain v where v: "v \<in> set new1" "us_id v = us_id u" using miss(5) by auto
        then have "v = u" using user_of_id [OF assms(1) _ u(1)] p(4) by auto
        then show False using v(1) miss(4) u(2) by auto
      qed
      ultimately consider (found) origin where "success E st meta False origin ?r2"
        | (none) new where "fst ?r2 = NotFound" "\<forall>u \<in> set (ss_users st). hints meta u = False \<longrightarrow> opens E meta u = None"
            "progress E st meta new (snd ?r2)"
        using both_loops_cases [OF assms(1,2) miss(3), of ids False matchCachedFallback matchRegistryFallback] miss(4) by auto
      then show ?thesis
      proof cases
        case found
        then show ?thesis using r success_exact [OF found, of mandatory] False miss(2) by simp
      next
        case none
        have "opens E meta u = None" if "u \<in> set (ss_users st)" for u using that miss(2) none(2) by (cases "hints meta u") auto
        then show ?thesis unfolding r using none(1,3) by (auto simp: exact_def progress_def)
      qed
    qed
  qed
qed

section \<open>Compiling the configuration\<close>

definition good_input :: "(string \<Rightarrow> nat) \<Rightarrow> user_input \<Rightarrow> bytes option" where
  "good_input nc x =
     (if input_name x = [] \<or> nc (input_name x) > 1 \<or> length (input_name x) > 64 then None
      else (case buildCredential (snd x) (input_name x) of Inl _ \<Rightarrow> None | Inr c \<Rightarrow> if c = [] then None else Some c))"

definition compiled_user :: "nat \<Rightarrow> user_input \<times> bytes \<Rightarrow> user" where
  "compiled_user i x = \<lparr>us_id = of_nat i, us_name = input_name (fst x), us_credential = snd x, us_policy = buildPolicy (the (snd (fst x)))\<rparr>"

definition good_inputs :: "(string \<Rightarrow> nat) \<Rightarrow> user_input list \<Rightarrow> (user_input \<times> bytes) list" where
  "good_inputs nc xs = map (\<lambda>x. (x, the (good_input nc x))) (filter (\<lambda>x. good_input nc x \<noteq> None) xs)"

lemma compile_input_eq:
  "compile_input nc x acc = (case good_input nc x of None \<Rightarrow> acc | Some c \<Rightarrow> acc @ [compiled_user (length acc + 1) (x, c)])"
  by (auto simp: compile_input_def good_input_def compiled_user_def Let_def NewStatelessDecryptor_def cipher_consts split: sum.splits)

lemma compile_eq:
  "fold (compile_input nc) xs acc = acc @ map (\<lambda>(i, x). compiled_user i x) (enumerate (length acc + 1) (good_inputs nc xs))"
proof (induction xs arbitrary: acc)
  case (Cons x xs)
  show ?case
  proof (cases "good_input nc x")
    case None
    then show ?thesis using Cons.IH [of acc] by (simp add: compile_input_eq good_inputs_def)
  next
    case (Some c)
    then show ?thesis
      using Cons.IH [of "acc @ [compiled_user (length acc + 1) (x, c)]"] by (simp add: compile_input_eq good_inputs_def)
  qed
qed (simp add: good_inputs_def)

lemma distinct_by_count: "(\<And>y. y \<in> set ys \<Longrightarrow> length (filter (\<lambda>z. f z = f y) ys) \<le> 1) \<Longrightarrow> distinct (map f ys)"
proof (induction ys)
  case (Cons a ys)
  have "filter (\<lambda>z. f z = f a) ys = []" using Cons.prems [of a] by simp
  then have "f a \<notin> f ` set ys" by (auto simp: filter_empty_conv)
  moreover have "distinct (map f ys)"
  proof (rule Cons.IH)
    fix y assume "y \<in> set ys"
    then show "length (filter (\<lambda>z. f z = f y) ys) \<le> 1" using Cons.prems [of y] by (simp split: if_splits)
  qed
  ultimately show ?case by simp
qed simp

lemma mset_sort_inputs [simp]: "mset (sort_inputs xs) = mset xs"
  by (simp add: sort_inputs_def)

lemma built_users:
  "ss_users (buildState users stats) = map (\<lambda>(i, x). compiled_user i x) (enumerate 1 (good_inputs (name_count users) (sort_inputs users)))"
  by (simp add: buildState_def compile_eq)

lemma name_count_mset: "mset xs = mset ys \<Longrightarrow> name_count xs = name_count ys"
  unfolding name_count_def by (metis mset_filter size_mset)

lemma enumerate_map: "enumerate n (map f xs) = map (\<lambda>(i, x). (i, f x)) (enumerate n xs)"
  by (induction xs arbitrary: n) simp_all

lemma built_users':
  "ss_users (buildState users stats) = map (\<lambda>(i, x). compiled_user i (x, the (good_input (name_count users) x)))
     (enumerate 1 (filter (\<lambda>x. good_input (name_count users) x \<noteq> None) (sort_inputs users)))"
  by (simp add: built_users good_inputs_def enumerate_map comp_def case_prod_beta)

lemma set_sort_inputs [simp]: "set (sort_inputs users) = set users"
  by (simp add: sort_inputs_def)

lemma built_member:
  "(\<exists>u \<in> set (ss_users (buildState users stats)). us_name u = name \<and> us_credential u = credential \<and> us_policy u = policy) \<longleftrightarrow>
   (\<exists>x \<in> set users. good_input (name_count users) x = Some credential \<and> input_name x = name \<and> buildPolicy (the (snd x)) = policy)"
proof
  assume "\<exists>u \<in> set (ss_users (buildState users stats)). us_name u = name \<and> us_credential u = credential \<and> us_policy u = policy"
  then obtain u where u: "u \<in> set (ss_users (buildState users stats))" "us_name u = name" "us_credential u = credential" "us_policy u = policy"
    by blast
  then obtain i x where x: "(i, x) \<in> set (enumerate 1 (filter (\<lambda>x. good_input (name_count users) x \<noteq> None) (sort_inputs users)))"
      "u = compiled_user i (x, the (good_input (name_count users) x))"
    unfolding built_users' by auto
  from x(1) have "x \<in> set (filter (\<lambda>x. good_input (name_count users) x \<noteq> None) (sort_inputs users))"
    unfolding enumerate_eq_zip by (rule set_zip_rightD)
  then show "\<exists>x \<in> set users. good_input (name_count users) x = Some credential \<and> input_name x = name \<and> buildPolicy (the (snd x)) = policy"
    using u(2-4) x(2) by (intro bexI [of _ x]) (auto simp: compiled_user_def)
next
  assume "\<exists>x \<in> set users. good_input (name_count users) x = Some credential \<and> input_name x = name \<and> buildPolicy (the (snd x)) = policy"
  then obtain x where x: "x \<in> set (filter (\<lambda>x. good_input (name_count users) x \<noteq> None) (sort_inputs users))"
      "good_input (name_count users) x = Some credential" "input_name x = name" "buildPolicy (the (snd x)) = policy"
    by auto
  then obtain i where "(i, x) \<in> set (enumerate 1 (filter (\<lambda>x. good_input (name_count users) x \<noteq> None) (sort_inputs users)))"
    by (metis enumerate_eq_zip in_set_impl_in_set_zip2 length_upt add_diff_cancel_left')
  then have "compiled_user i (x, credential) \<in> set (ss_users (buildState users stats))"
    using x(2) by (force simp: built_users')
  then show "\<exists>u \<in> set (ss_users (buildState users stats)). us_name u = name \<and> us_credential u = credential \<and> us_policy u = policy"
    using x(3,4) by (intro bexI [of _ "compiled_user i (x, credential)"]) (simp_all add: compiled_user_def)
qed

lemma name_count_in: "x \<in> set users \<Longrightarrow> 0 < name_count users (input_name x)"
  by (auto simp: name_count_def filter_empty_conv)

lemma good_input_Some:
  "(\<exists>x \<in> set users. good_input (name_count users) x = Some credential \<and> input_name x = name \<and> buildPolicy (the (snd x)) = policy) \<longleftrightarrow>
   name \<noteq> [] \<and> length name \<le> 64 \<and> name_count users name = 1 \<and>
   (\<exists>key user. (key, Some user) \<in> set users \<and> GetString (u_Name user) = name \<and> buildCredential (Some user) name = Inr credential \<and>
      credential \<noteq> [] \<and> buildPolicy user = policy)"
  (is "?L \<longleftrightarrow> ?R")
proof
  assume ?L
  then obtain key o' where x: "(key, o') \<in> set users" "good_input (name_count users) (key, o') = Some credential" "input_name (key, o') = name"
      "buildPolicy (the o') = policy"
    by auto
  then obtain user where "o' = Some user" by (cases o') (auto simp: input_name_def good_input_def)
  then show ?R
    using x name_count_in [OF x(1)] by (auto simp: good_input_def input_name_def split: if_splits sum.splits)
next
  assume ?R
  then show ?L by (force simp: good_input_def input_name_def)
qed

lemma built_state_ok:
  assumes "length users < 2 ^ 32 - 1"
  shows "state_ok (buildState users stats)"
proof -
  define g where "g = filter (\<lambda>x. good_input (name_count users) x \<noteq> None) (sort_inputs users)"
  have u: "ss_users (buildState users stats) = map (\<lambda>(i, x). compiled_user i (x, the (good_input (name_count users) x))) (enumerate 1 g)"
    by (simp add: built_users' g_def)
  have len: "length g \<le> length users"
    unfolding g_def by (metis length_filter_le mset_eq_length mset_sort_inputs)
  have names: "map us_name (ss_users (buildState users stats)) = map input_name g"
    unfolding u by (rule nth_equalityI) (simp_all add: compiled_user_def nth_enumerate_eq)
  have "length (filter (\<lambda>z. input_name z = input_name y) g) \<le> 1" if y: "y \<in> set g" for y
  proof -
    have "name_count users (input_name y) \<le> 1" using y by (auto simp: g_def good_input_def split: if_splits)
    moreover have "length (filter (\<lambda>z. input_name z = input_name y) g) \<le> length (filter (\<lambda>z. input_name z = input_name y) (sort_inputs users))"
      unfolding g_def using length_filter_le [of "\<lambda>x. good_input (name_count users) x \<noteq> None" "filter (\<lambda>z. input_name z = input_name y) (sort_inputs users)"]
      by (simp add: conj_commute)
    moreover have "length (filter (\<lambda>z. input_name z = input_name y) (sort_inputs users)) = name_count (sort_inputs users) (input_name y)"
      by (simp add: name_count_def)
    ultimately show ?thesis using name_count_mset [OF mset_sort_inputs, of users] by simp
  qed
  then have "distinct (map us_name (ss_users (buildState users stats)))" unfolding names by (rule distinct_by_count)
  moreover have "us_id (ss_users (buildState users stats) ! i) = of_nat (i + 1)" if "i < length (ss_users (buildState users stats))" for i
    using that unfolding u by (simp add: compiled_user_def nth_enumerate_eq)
  moreover have "us_name v \<noteq> [] \<and> length (us_name v) \<le> 64 \<and> us_credential v \<noteq> []" if v: "v \<in> set (ss_users (buildState users stats))" for v
  proof -
    obtain i x where "(i, x) \<in> set (enumerate 1 g)" and x2: "v = compiled_user i (x, the (good_input (name_count users) x))"
      using v unfolding u by auto
    then have "x \<in> set g" unfolding enumerate_eq_zip by (metis set_zip_rightD)
    note x = this x2
    obtain c where "good_input (name_count users) x = Some c" using x(1) by (auto simp: g_def)
    then show ?thesis using x(2) by (auto simp: compiled_user_def good_input_def split: if_splits sum.splits)
  qed
  moreover have "length (ss_users (buildState users stats)) < 2 ^ 32" using len assms unfolding u by simp
  ultimately show ?thesis by (simp add: state_ok_def)
qed

text \<open>
  C20.  The generation that is compiled from a configuration does not depend on the order in which a map delivers its users.  It has exactly the users
  with a valid name that no other entry has and with a valid credential.  Their identifiers are \<open>1, 2, \<dots>\<close>, and their names are
  distinct.
\<close>

theorem generation_ignores_order:
  assumes "mset users = mset users'" and "distinct (map fst users)" and "length users < 2 ^ 32 - 1"
  shows "buildState users stats = buildState users' stats \<and>
    (\<forall>i < length (ss_users (buildState users stats)). us_id (ss_users (buildState users stats) ! i) = of_nat (i + 1)) \<and>
    distinct (map us_name (ss_users (buildState users stats))) \<and>
    (\<forall>name credential policy.
      (\<exists>u \<in> set (ss_users (buildState users stats)). us_name u = name \<and> us_credential u = credential \<and> us_policy u = policy) \<longleftrightarrow>
      name \<noteq> [] \<and> length name \<le> MaxUserNameLen \<and> name_count users name = 1 \<and>
      (\<exists>key user. (key, Some user) \<in> set users \<and> GetString (u_Name user) = name \<and> buildCredential (Some user) name = Inr credential \<and>
         credential \<noteq> [] \<and> buildPolicy user = policy))"
proof -
  have inj: "inj_on (\<lambda>x. (input_name x, fst x)) (set users)" using assms(2) by (auto simp: distinct_map inj_on_def)
  have s: "sort_inputs users = sort_inputs users'"
    unfolding sort_inputs_def by (rule sort_key_inj_key_eq [OF _ inj]) (simp_all add: assms(1))
  have "buildState users stats = buildState users' stats"
    using s name_count_mset [OF assms(1)] by (simp add: buildState_def)
  moreover have "(\<exists>u \<in> set (ss_users (buildState users stats)). us_name u = name \<and> us_credential u = credential \<and> us_policy u = policy) \<longleftrightarrow>
      name \<noteq> [] \<and> length name \<le> MaxUserNameLen \<and> name_count users name = 1 \<and>
      (\<exists>key user. (key, Some user) \<in> set users \<and> GetString (u_Name user) = name \<and> buildCredential (Some user) name = Inr credential \<and>
         credential \<noteq> [] \<and> buildPolicy user = policy)" for name credential policy
    unfolding built_member good_input_Some by (auto simp: cipher_consts)
  ultimately show ?thesis using built_state_ok [OF assms(3), of stats] by (simp add: state_ok_def)
qed

section \<open>Discovery\<close>

text \<open>The source cache of a generation: retired, or the result of records of users.\<close>

definition source_cache_ok :: "(bytes \<Rightarrow> u64) \<Rightarrow> sourceUserCache \<Rightarrow> bool" where
  "source_cache_ok hash c \<longleftrightarrow> uc_table c = None \<or>
     (\<exists>rs stats c'. (\<forall>(_, _, u) \<in> set rs. u \<noteq> 0) \<and> record_all hash rs (newSourceUserCache stats) = Some c' \<and> uc_table c = uc_table c')"

lemma new_cache_ok: "source_cache_ok hash (newSourceUserCache stats)"
  unfolding source_cache_ok_def by (intro disjI2 exI [of _ "[]"]) auto

lemma source_cache_lookup:
  assumes "source_cache_ok hash c"
  shows "length (fst (lookup hash now key c)) \<le> 16"
proof (cases "entry_of hash key c")
  case None
  then have "set (fst (lookup hash now key c)) = {}" by (simp add: lookup_props(2))
  then show ?thesis by simp
next
  case (Some e)
  then obtain table where t: "uc_table c = Some table" by (auto simp: entry_of_def split: option.splits)
  then obtain rs stats c' where r: "\<forall>(_, _, u) \<in> set rs. u \<noteq> 0" "record_all hash rs (newSourceUserCache stats) = Some c'" "uc_table c' = Some table"
    using assms unfolding source_cache_ok_def by auto
  have "table_inv {} (\<lambda>_. replicate 4 None)" "uc_table (newSourceUserCache stats) = Some (\<lambda>_. replicate 4 None)"
    by (simp_all add: table_inv_def newSourceUserCache_def sourceUserCacheWays_def)
  from record_all_ok [OF this r(1), of hash] r(2,3) have i: "table_inv (set rs) table" by auto
  obtain w where w: "find_way key (table (sourceUserCacheBucketIndex hash key)) = Some w" "e = the (table (sourceUserCacheBucketIndex hash key) ! w)"
    using Some t by (auto simp: entry_of_def Let_def)
  then have "entry_recorded (set rs) e"
    using i unfolding table_inv_def by (metis find_way_SomeD nth_mem option.sel)
  then show ?thesis using lookup_props(3) [OF Some, of now] by (simp add: entry_recorded_def)
qed

lemma tryState_exact:
  assumes "state_ok st" and "24 \<le> length meta" and "mem_ok E st m" and "source_cache_ok (de_hash E) (ss_cache st)"
  shows "exact E st meta mandatory (fst (tryState E st meta source mandatory m))"
proof (cases source)
  case None
  then show ?thesis using try_phases_exact [OF assms(1-3), of "[]" mandatory] by (simp add: tryState_def Let_def)
next
  case (Some key)
  have "exact E st meta mandatory (try_phases E st meta mandatory (fst (lookup (de_hash E) (de_tick E) key (ss_cache st))) m)"
    by (rule try_phases_exact [OF assms(1-3) lookup_props(1) source_cache_lookup [OF assms(4)]])
  then show ?thesis using Some by (simp add: tryState_def Let_def case_prod_beta)
qed

text \<open>
  C19.  Discovery of the user of encrypted metadata is exact, whatever the caches hold.  A user is found only if a key of its credential opens the metadata.  A
  user whose hint does not match is found only if hints are optional and no user with a matching hint opens it.  If no
  user is found, none opens it, as far as users without a matching hint are admitted.  No user is tried twice, and nothing panics.
\<close>

theorem discovery_is_exact:
  assumes "ss_users st = ss_users (buildState users stats)" and "length users < 2 ^ 32 - 1" and "DefaultNonceSize \<le> length meta"
    and "mem_ok E st m" and "source_cache_ok (de_hash E) (ss_cache st)" and "fst (tryState E st meta source mandatory m) = (r, s)"
  shows "distinct (sn_tried s) \<and> set (sn_tried s) \<subseteq> us_id ` set (ss_users st) \<and> mem_ok E st (sn_mem s) \<and>
    (case r of
       Found d \<Rightarrow> \<exists>u \<in> set (ss_users st). dr_userID d = us_id u \<and> bc_UserName (dr_userContext d) = us_name u \<and> dr_policy d = us_policy u \<and>
         decrypt_fresh (de_crypto E) (us_credential u) meta [] (de_now E) = Inr (dr_block d, dr_decryptedMetadata d) \<and>
         (hints meta u \<or> \<not> mandatory \<and> (\<forall>v \<in> set (ss_users st). hints meta v \<longrightarrow> opens E meta v = None))
     | NotFound \<Rightarrow> \<forall>u \<in> set (ss_users st). hints meta u \<or> \<not> mandatory \<longrightarrow> opens E meta u = None
     | DiscoverPanic \<Rightarrow> False)"
proof -
  have "state_ok st" using built_state_ok [OF assms(2), of stats] assms(1) by (simp add: state_ok_def)
  then have e: "exact E st meta mandatory (r, s)"
    using tryState_exact [OF _ _ assms(4,5), of meta mandatory source] assms(3,6) by (simp add: DefaultNonceSize_def)
  show ?thesis
  proof (cases r)
    case (Found d)
    then obtain u b where u: "u \<in> set (ss_users st)" "opens E meta u = Some b" "d = found u b (dr_origin d)"
        "hints meta u \<or> \<not> mandatory \<and> (\<forall>v \<in> set (ss_users st). hints meta v \<longrightarrow> opens E meta v = None)"
      using e unfolding exact_def by (simp only: fst_conv snd_conv discovery.case) (elim conjE bexE exE, rule that)
    have d: "dr_userID d = us_id u" "bc_UserName (dr_userContext d) = us_name u" "dr_policy d = us_policy u" "(dr_block d, dr_decryptedMetadata d) = b"
      by (subst u(3), simp add: found_def)+
    have "decrypt_fresh (de_crypto E) (us_credential u) meta [] (de_now E) = Inr b" using u(2) by (simp add: opens_def split: sum.splits)
    then show ?thesis
      unfolding Found discovery.case using e d u(4) by (intro conjI bexI [OF _ u(1)]) (simp_all add: exact_def)
  qed (use e in \<open>simp_all add: exact_def\<close>)
qed

section \<open>A client is discovered\<close>

lemma credential_not_empty: "buildCredential u name = Inr c \<Longrightarrow> c \<noteq> []"
  by (auto simp: buildCredential_def HashPassword_def split: option.splits if_splits
      dest!: arg_cong [of _ _ length])

lemma client_cipher:
  assumes "crypto_ok cr" and "ciphers_ok cr cache" and "password \<noteq> []"
  shows "fst (BlockCipherFromPassword cr j password True t cache) = Inr (fresh_cipher (key_of cr password (saltFromTime t ! 1)))"
proof -
  have g: "map_sum id cc_cipherList (fst (getCachedCiphers cr j password t cache)) = Inr (map (\<lambda>s. fresh_cipher (key_of cr password s)) (saltFromTime t))"
    using getCachedCiphers_fresh(1) [OF assms(2), of j password t] newBlockCipherList_eq [OF assms(1,3)] by simp
  then obtain e cache' where e: "getCachedCiphers cr j password t cache = (Inr e, cache')"
      "cc_cipherList e = map (\<lambda>s. fresh_cipher (key_of cr password s)) (saltFromTime t)"
    by (cases "getCachedCiphers cr j password t cache"; cases "fst (getCachedCiphers cr j password t cache)") auto
  then show ?thesis by (simp add: BlockCipherFromPassword_def implicit_clone_def)
qed

lemma select_own:
  assumes "crypto_ok cr" and "length n = 24" and "k \<in> key_of cr pw ` set salts"
    and "\<forall>s \<in> set salts. key_of cr pw s \<noteq> k \<longrightarrow> cr_Open cr (key_of cr pw s) n (cr_Seal cr k n meta) = None"
  shows "selectDecryptStateless cr (n @ cr_Seal cr k n meta) [] (map (\<lambda>s. fresh_cipher (key_of cr pw s)) salts) = Inr (fresh_cipher k, meta)"
  using assms(3,4)
proof (induction salts)
  case (Cons s salts)
  have d: "DecryptStatelessTo cr (n @ cr_Seal cr k n meta) [] (fresh_cipher (key_of cr pw s)) =
      (case cr_Open cr (key_of cr pw s) n (cr_Seal cr k n meta) of Some p \<Rightarrow> Inr p | None \<Rightarrow> Inl OpenFailed)"
    using assms(2) by (simp add: DecryptStatelessTo_def open_with_def crypto_okD [OF assms(1)] split: option.splits)
  show ?case
  proof (cases "key_of cr pw s = k")
    case True
    then show ?thesis using d crypto_okD(3) [OF assms(1,2)] by simp
  next
    case False
    then show ?thesis using d Cons by auto
  qed
qed simp

text \<open>A user that has sealed metadata is found, if no other user and no other key opens it.\<close>

lemma own_ciphertext_found:
  assumes "crypto_ok (de_crypto E)" and "state_ok st" and "mem_ok E st m" and "source_cache_ok (de_hash E) (ss_cache st)"
    and "u \<in> set (ss_users st)" and "us_credential u \<noteq> []" and "length n = 24" and "CheckUserFromHint (bytes_of (us_name u)) n = Some True"
    and "k \<in> key_of (de_crypto E) (us_credential u) ` set (saltFromTime (de_now E))"
    and "\<forall>v \<in> set (ss_users st). us_name v \<noteq> us_name u \<longrightarrow> opens E (n @ cr_Seal (de_crypto E) k n meta) v = None"
    and "\<forall>s \<in> set (saltFromTime (de_now E)). key_of (de_crypto E) (us_credential u) s \<noteq> k \<longrightarrow>
      cr_Open (de_crypto E) (key_of (de_crypto E) (us_credential u) s) n (cr_Seal (de_crypto E) k n meta) = None"
  shows "\<exists>d. fst (fst (tryState E st (n @ cr_Seal (de_crypto E) k n meta) source mandatory m)) = Found d \<and>
    d = found u (fresh_cipher k, meta) (dr_origin d)"
proof -
  define data where "data = n @ cr_Seal (de_crypto E) k n meta"
  have op: "opens E data u = Some (fresh_cipher k, meta)"
    using select_own [OF assms(1,7,9), of meta] assms(11) newBlockCipherList_eq [OF assms(1,6), of "de_now E"]
    by (simp add: opens_def decrypt_fresh_def data_def)
  have "hints data u" using assms(7,8) by (simp add: hints_def data_def DefaultNonceSize_def)
  moreover have e: "exact E st data mandatory (fst (tryState E st data source mandatory m))"
    using tryState_exact [OF assms(2) _ assms(3,4), of data] assms(7) by (simp add: data_def)
  ultimately obtain d where d: "fst (fst (tryState E st data source mandatory m)) = Found d"
    using op assms(5) by (cases "fst (fst (tryState E st data source mandatory m))") (auto simp: exact_def)
  then obtain v b where v: "v \<in> set (ss_users st)" "opens E data v = Some b" "d = found v b (dr_origin d)"
    using e unfolding exact_def by (simp only: discovery.case) (elim conjE bexE exE, rule that)
  have "us_name v = us_name u" using assms(10) v(1,2) by (fastforce simp: data_def)
  then have "v = u" using assms(2) v(1) assms(5) unfolding state_ok_def by (metis distinct_map inj_on_def)
  then show ?thesis using d v(2,3) op by (auto simp: data_def)
qed

text \<open>
  C18.  A client is discovered.  A client that encrypts metadata with the cipher for its password and with its name as the hint always gets a
  ciphertext, and a server whose configuration has the user, and whose clock differs by at most two minutes, finds the user with its policy, the metadata and the key that the client has
  used.  This holds for any content of the caches on both sides and for both settings of the mandatory hint.  It needs that no key of another user, and no other key of this user, opens
  the ciphertext.
\<close>

theorem client_is_discovered:
  assumes "crypto_ok (de_crypto E)" and "nonce_rand_ok R" and "ciphers_ok (de_crypto E) cache" and "length meta + 40 \<le> room"
    and "\<bar>t - de_now E\<bar> \<le> KeyRefreshInterval"
    and "(key, Some user) \<in> set users" and "length users < 2 ^ 32 - 1" and "GetString (u_Name user) \<noteq> []"
    and "length (GetString (u_Name user)) \<le> MaxUserNameLen" and "name_count users (GetString (u_Name user)) = 1"
    and "buildCredential (Some user) (GetString (u_Name user)) = Inr password"
    and "ss_users st = ss_users (buildState users stats)" and "mem_ok E st m" and "source_cache_ok (de_hash E) (ss_cache st)"
  shows "\<exists>c data c'. fst (BlockCipherFromPassword (de_crypto E) j password True t cache) = Inr c \<and>
    Encrypt (de_crypto E) R room meta (SetBlockContext \<lparr>bc_UserName = GetString (u_Name user)\<rparr> c) = (Inr data, c') \<and>
    ((\<forall>u \<in> set (ss_users st). us_name u \<noteq> GetString (u_Name user) \<longrightarrow> opens E data u = None) \<longrightarrow>
     (\<forall>s \<in> set (saltFromTime (de_now E)). key_of (de_crypto E) password s \<noteq> ac_key c \<longrightarrow>
        cr_Open (de_crypto E) (key_of (de_crypto E) password s) (take 24 data) (drop 24 data) = None) \<longrightarrow>
     (\<exists>d. fst (fst (tryState E st data source mandatory m)) = Found d \<and> dr_decryptedMetadata d = meta \<and>
        bc_UserName (dr_userContext d) = GetString (u_Name user) \<and> dr_policy d = buildPolicy user \<and> ac_key (dr_block d) = ac_key c))"
proof -
  let ?cr = "de_crypto E" and ?name = "GetString (u_Name user)"
  define k where "k = key_of ?cr password (saltFromTime t ! 1)"
  define c where "c = SetBlockContext \<lparr>bc_UserName = ?name\<rparr> (fresh_cipher k)"
  have pw: "password \<noteq> []" by (rule credential_not_empty [OF assms(11)])
  have cl: "fst (BlockCipherFromPassword ?cr j password True t cache) = Inr (fresh_cipher k)"
    unfolding k_def by (rule client_cipher [OF assms(1,3) pw])
  have c: "cipher_ok c" "ac_implicitNonce c = []" "\<not> ac_enableImplicitNonce c" "ac_key c = k" "bc_UserName (ac_ctx c) = ?name"
    using assms(9) by (simp_all add: c_def SetBlockContext_def cipher_ok_def fresh_cipher_def MaxUserNameLen_def)
  obtain n a where n: "choose_nonce ?cr R c = (Inr n, c\<lparr>ac_implicitNonce := [], ac_noncePatternApplied := a\<rparr>)" "length n = 24"
      "CheckUserFromHint (bytes_of ?name) n = Some True"
    using choose_nonce_fresh [OF assms(1,2) c(1,2)] c(3,5) assms(8) by auto
  define data where "data = n @ cr_Seal ?cr k n meta"
  have enc: "Encrypt ?cr R room meta c = (Inr data, c\<lparr>ac_implicitNonce := [], ac_noncePatternApplied := a\<rparr>)"
    using n(1,2) assms(4) c(3,4) by (simp add: Encrypt_def Let_def crypto_okD [OF assms(1)] data_def)
  have ok: "state_ok st" using built_state_ok [OF assms(7), of stats] assms(12) by (simp add: state_ok_def)
  obtain u where u: "u \<in> set (ss_users st)" "us_name u = ?name" "us_credential u = password" "us_policy u = buildPolicy user"
    using iffD2 [OF built_member [where users = users and name = "?name" and credential = password and policy = "buildPolicy user" and stats = stats]]
      assms(6,8-12) pw
    by (auto simp: good_input_Some MaxUserNameLen_def)
  have found: "\<exists>d. fst (fst (tryState E st data source mandatory m)) = Found d \<and> dr_decryptedMetadata d = meta \<and>
      bc_UserName (dr_userContext d) = ?name \<and> dr_policy d = buildPolicy user \<and> ac_key (dr_block d) = k"
    if others: "\<forall>u \<in> set (ss_users st). us_name u \<noteq> ?name \<longrightarrow> opens E data u = None"
      and own: "\<forall>s \<in> set (saltFromTime (de_now E)). key_of ?cr password s \<noteq> k \<longrightarrow> cr_Open ?cr (key_of ?cr password s) (take 24 data) (drop 24 data) = None"
  proof -
    have "k \<in> key_of ?cr password ` set (saltFromTime (de_now E))" using salt_in_window [OF assms(5)] by (simp add: k_def)
    then have "\<exists>d. fst (fst (tryState E st data source mandatory m)) = Found d \<and> d = found u (fresh_cipher k, meta) (dr_origin d)"
      unfolding data_def by (intro own_ciphertext_found [OF assms(1) ok assms(13,14) u(1) _ n(2)])
        (use others own u(2,3) pw n(2,3) in \<open>simp_all add: data_def\<close>)
    then show ?thesis
      using u(2,4) by (metis (no_types, lifting) BlockContext.select_convs(1) discoveryResult.select_convs(1,2,4,5) found_def fresh_cipher_simps(1) fst_conv snd_conv)
  qed
  show ?thesis
  proof (rule exI [of _ "fresh_cipher k"], rule exI [of _ data], rule exI [of _ "c\<lparr>ac_implicitNonce := [], ac_noncePatternApplied := a\<rparr>"], intro conjI impI)
    show "fst (BlockCipherFromPassword ?cr j password True t cache) = Inr (fresh_cipher k)" by (rule cl)
    show "Encrypt ?cr R room meta (SetBlockContext \<lparr>bc_UserName = ?name\<rparr> (fresh_cipher k)) = (Inr data, c\<lparr>ac_implicitNonce := [], ac_noncePatternApplied := a\<rparr>)"
      using enc by (simp only: c_def)
  qed (use found in simp)
qed

section \<open>Samples\<close>

definition sample_user :: User where
  "sample_user = \<lparr>u_Name = Some ''alice'', u_Password = Some ''secret'', u_HashedPassword = None, u_Quotas = [],
     u_AllowPrivateIP = None, u_AllowLoopbackIP = None\<rparr>"

text \<open>The sample cipher with the password as the key, so that keys do not change with the time.\<close>

definition sample_disc_env :: disc_env where
  "sample_disc_env = \<lparr>de_crypto = sample_crypto\<lparr>cr_Key := \<lambda>pw s i n. take n (pw @ replicate n 0)\<rparr>, de_now = 60 * second, de_jitter = 0,
     de_tick = 0, de_hash = \<lambda>_. 0\<rparr>"

definition sample_state :: state where
  "sample_state = buildState [(''a'', Some sample_user)] None"

definition sample_mem :: disc_mem where
  "sample_mem = \<lparr>dm_ciphers = \<lambda>_. None, dm_cache = Map.empty\<rparr>"

lemma sample_disc_ok: "crypto_ok (de_crypto sample_disc_env)" "mem_ok sample_disc_env sample_state sample_mem"
  "source_cache_ok (de_hash sample_disc_env) (ss_cache sample_state)"
proof -
  show "crypto_ok (de_crypto sample_disc_env)"
    by (auto simp: crypto_ok_def sample_crypto_def sample_disc_env_def split: if_splits)
  show "mem_ok sample_disc_env sample_state sample_mem" by (simp add: mem_ok_def ciphers_ok_def sample_mem_def)
  show "source_cache_ok (de_hash sample_disc_env) (ss_cache sample_state)" by (simp add: sample_state_def buildState_def new_cache_ok)
qed

lemma sample_users: "u \<in> set (ss_users sample_state) \<Longrightarrow> us_name u = ''alice''"
  by (auto simp: sample_state_def built_users' compiled_user_def input_name_def sample_user_def sort_inputs_def GetString_def split: if_splits)

theorem generation_ignores_order_witness:
  "buildState [(''a'', Some sample_user), (''b'', None)] None = buildState [(''b'', None), (''a'', Some sample_user)] None"
  using generation_ignores_order [of "[(''a'', Some sample_user), (''b'', None)]" "[(''b'', None), (''a'', Some sample_user)]" None] by simp

theorem discovery_is_exact_witness:
  "distinct (sn_tried (snd (fst (tryState sample_disc_env sample_state (replicate 72 0) None False sample_mem)))) \<and>
   fst (fst (tryState sample_disc_env sample_state (replicate 72 0) None False sample_mem)) \<noteq> DiscoverPanic"
  using discovery_is_exact [of sample_state "[(''a'', Some sample_user)]" None "replicate 72 0" sample_disc_env sample_mem None False,
      OF _ _ _ sample_disc_ok(2,3) surjective_pairing]
  by (auto simp: sample_state_def DefaultNonceSize_def split: discovery.splits)

theorem client_is_discovered_witness:
  "\<exists>c data c'. fst (BlockCipherFromPassword (de_crypto sample_disc_env) 0 (HashPassword (bytes_of ''secret'') (bytes_of ''alice'')) True 0 Map.empty) = Inr c \<and>
    Encrypt (de_crypto sample_disc_env) sample_nonce_rand 100 (replicate 32 1) (SetBlockContext \<lparr>bc_UserName = ''alice''\<rparr> c) = (Inr data, c') \<and>
    (\<exists>d. fst (fst (tryState sample_disc_env sample_state data None True sample_mem)) = Found d \<and> dr_decryptedMetadata d = replicate 32 1 \<and>
       bc_UserName (dr_userContext d) = ''alice'' \<and> dr_policy d = buildPolicy sample_user \<and> ac_key (dr_block d) = ac_key c)"
proof -
  let ?pw = "HashPassword (bytes_of ''secret'') (bytes_of ''alice'')" and ?cr = "de_crypto sample_disc_env"
  have n: "GetString (u_Name sample_user) = ''alice''" by (simp add: sample_user_def GetString_def)
  have p: "ciphers_ok ?cr Map.empty" "length (replicate 32 (1 :: u8)) + 40 \<le> 100"
    "\<bar>0 - de_now sample_disc_env\<bar> \<le> KeyRefreshInterval" "(''a'', Some sample_user) \<in> set [(''a'', Some sample_user)]"
    "length [(''a'', Some sample_user)] < 2 ^ 32 - 1" "''alice'' \<noteq> []" "length ''alice'' \<le> MaxUserNameLen"
    "name_count [(''a'', Some sample_user)] ''alice'' = 1" "buildCredential (Some sample_user) ''alice'' = Inr ?pw"
    by (simp_all add: ciphers_ok_def sample_disc_env_def KeyRefreshInterval_def second_def MaxUserNameLen_def name_count_def input_name_def n
        buildCredential_def sample_user_def GetString_def)
  have k: "key_of ?cr ?pw s = key_of ?cr ?pw s'" for s s' by (simp add: key_of_def sample_disc_env_def)
  have st: "ss_users sample_state = ss_users (buildState [(''a'', Some sample_user)] None)" by (simp add: sample_state_def)
  obtain c data c' where *: "fst (BlockCipherFromPassword ?cr 0 ?pw True 0 Map.empty) = Inr c"
      "Encrypt ?cr sample_nonce_rand 100 (replicate 32 1) (SetBlockContext \<lparr>bc_UserName = ''alice''\<rparr> c) = (Inr data, c')"
      "(\<forall>u \<in> set (ss_users sample_state). us_name u \<noteq> ''alice'' \<longrightarrow> opens sample_disc_env data u = None) \<longrightarrow>
       (\<forall>s \<in> set (saltFromTime (de_now sample_disc_env)). key_of ?cr ?pw s \<noteq> ac_key c \<longrightarrow>
          cr_Open ?cr (key_of ?cr ?pw s) (take 24 data) (drop 24 data) = None) \<longrightarrow>
       (\<exists>d. fst (fst (tryState sample_disc_env sample_state data None True sample_mem)) = Found d \<and> dr_decryptedMetadata d = replicate 32 1 \<and>
          bc_UserName (dr_userContext d) = ''alice'' \<and> dr_policy d = buildPolicy sample_user \<and> ac_key (dr_block d) = ac_key c)"
    using client_is_discovered [where user = sample_user, unfolded n, OF sample_disc_ok(1) sample_nonce_rand_ok p st sample_disc_ok(2,3),
      where j = 0 and source = None and mandatory = True] by (elim exE conjE) (rule that)
  have "c = fresh_cipher (key_of ?cr ?pw (saltFromTime 0 ! 1))"
    using *(1) client_cipher [OF sample_disc_ok(1), of Map.empty ?pw 0 0] credential_not_empty [of "Some sample_user" "''alice''" ?pw]
    by (simp add: ciphers_ok_def buildCredential_def sample_user_def GetString_def)
  then have "ac_key c = key_of ?cr ?pw s" for s using k by simp
  then have "\<exists>d. fst (fst (tryState sample_disc_env sample_state data None True sample_mem)) = Found d \<and> dr_decryptedMetadata d = replicate 32 1 \<and>
       bc_UserName (dr_userContext d) = ''alice'' \<and> dr_policy d = buildPolicy sample_user \<and> ac_key (dr_block d) = ac_key c"
    by (intro *(3) [THEN mp, THEN mp] ballI impI) (simp_all add: sample_users)
  then show ?thesis using *(1,2) by (intro exI [of _ c] exI [of _ data] exI [of _ c'] conjI)
qed

end
