(* ===== verification/Underlay_Packet_Props.thy ===== *)
theory Underlay_Packet_Props
  imports Underlay_Packet Server_Users_Props
begin

text \<open>
  What the packet underlay promises: datagrams fit into the MTU and carry segments unchanged, a client can open a session at a server, and only
  fresh packets of registered users create sessions.
\<close>

section \<open>Datagrams\<close>

definition write_env_ok :: "write_env \<Rightarrow> bool" where
  "write_env_ok W \<longleftrightarrow> crypto_ok (wv_crypto W) \<and> nonce_rand_ok (wv_nonce W) \<and> pad_rand_ok (wv_pad1 W) \<and> pad_rand_ok (wv_pad2 W) \<and>
     0 \<le> wv_asciiLen W \<and> \<not> f64_le_0 (wv_fl W) (f64_lit (wv_fl W) 325 1000) \<and>
     \<not> f64_lt (wv_fl W) (f64_lit (wv_fl W) 1 2) (f64_lit (wv_fl W) 325 1000) \<and> (\<forall>i < 32. wv_mask W i < 32 - i) \<and> wv_paddingBit W \<le> 1"

text \<open>The two hosts agree on the minute, up to one.\<close>

definition clocks_agree :: "nat \<Rightarrow> nat \<Rightarrow> bool" where
  "clocks_agree sent now \<longleftrightarrow> 60 \<le> sent \<and> sent div 60 + 1 < 2 ^ 32 \<and> \<bar>int (now div 60) - int (sent div 60)\<bar> \<le> 1"

text \<open>A segment as a session produces it: its length fields are right, and it has been cut to the MTU.\<close>

definition packet_sendable :: "int \<Rightarrow> segment \<Rightarrow> bool" where
  "packet_sendable mtu seg \<longleftrightarrow>
     (case seg_metadata seg of
        SessionMD ss \<Rightarrow> isSessionProtocol (ss_protocol ss) \<and> unat (ss_payloadLen ss) = length (seg_payload seg) \<and>
          length (seg_payload seg) \<le> MaxSessionOpenPayload \<and> uint (ss_payloadLen ss) + packetOverhead \<le> mtu
      | DataAckMD das \<Rightarrow> isDataAckProtocol (das_protocol das) \<and> uint (das_payloadLen das) + packetOverhead \<le> mtu \<and>
          (if isLowEntropyProtocol (das_protocol das) then low_entropy_ready das (length (seg_payload seg))
           else unat (das_payloadLen das) = length (seg_payload seg) \<and> das_lowEntropyMode das = 0 \<and> das_lowEntropyMask das = 0 \<and>
             das_extractedPayloadLen das = 0 \<and> das_lowEntropyMaskRotation das = 0))"

text \<open>What a write changes in the metadata: the time, the lengths of the padding, and the half mask of a low entropy segment.\<close>

definition restamped :: "nat \<Rightarrow> metadata \<Rightarrow> metadata \<Rightarrow> bool" where
  "restamped now md md' \<longleftrightarrow>
     (case md of
        SessionMD ss \<Rightarrow> \<exists>n. md' = SessionMD (ss\<lparr>ss_timestamp := unix_minute now, ss_suffixLen := n\<rparr>)
      | DataAckMD das \<Rightarrow> \<exists>p n m. md' = DataAckMD (das\<lparr>das_timestamp := unix_minute now, das_prefixLen := p, das_suffixLen := n,
            das_lowEntropyMask := m\<rparr>) \<and> (isLowEntropyProtocol (das_protocol das) \<or> m = das_lowEntropyMask das))"

lemma Encrypt_stateless:
  assumes "crypto_ok cr" and "nonce_rand_ok R" and "cipher_ok c" and "IsStateless c" and "length p + 40 \<le> room"
  obtains n a where "Encrypt cr R room p c = (Inr (n @ cr_Seal cr (ac_key c) n p), c\<lparr>ac_noncePatternApplied := a\<rparr>)" "length n = 24"
    "bc_UserName (ac_ctx c) \<noteq> [] \<longrightarrow> CheckUserFromHint (bytes_of (bc_UserName (ac_ctx c))) n = Some True"
proof -
  have i: "\<not> ac_enableImplicitNonce c" "ac_implicitNonce c = []" using assms(3,4) by (auto simp: IsStateless_def cipher_ok_def)
  then obtain n a where "choose_nonce cr R c = (Inr n, c\<lparr>ac_implicitNonce := [], ac_noncePatternApplied := a\<rparr>)" "length n = 24"
      "bc_UserName (ac_ctx c) \<noteq> [] \<longrightarrow> CheckUserFromHint (bytes_of (bc_UserName (ac_ctx c))) n = Some True"
    using choose_nonce_fresh [OF assms(1-3)] by auto
  then show ?thesis
    using that [of n a] assms(5) i crypto_okD(1,2) [OF assms(1)]
    by (cases c) (simp add: Encrypt_def Let_def)
qed

lemma end_padding_bounds:
  assumes "write_env_ok W" and "end_padding W t oh mtu tp name n \<noteq> PadWaiting"
  obtains p where "end_padding W t oh mtu tp name n = Padding p" "length p \<le> 255"
    "t \<noteq> StreamTransport \<Longrightarrow> n + packetOverhead \<le> mtu \<Longrightarrow> n + packetOverhead + int (length p) \<le> mtu"
proof -
  note b = recommended_padding_bounds [of "wv_pad2 W" "wv_asciiLen W" "wv_fl W", OF _ _ _ _ refl refl,
      where mtu = mtu and transport = t and fragmentSize = n and existing = 0 and trafficPattern = tp and position = endPadding
        and strategy = "wv_strategy W name" and randomData = "wv_randomData W (nat (oh + n))"]
  show ?thesis
    using b assms that by (cases "end_padding W t oh mtu tp name n") (auto simp: end_padding_def write_env_ok_def)
qed

lemma two_paddings_bounds:
  assumes "write_env_ok W" and "two_paddings W t mtu tp n \<noteq> Inl PaddingWaits"
  obtains p q where "two_paddings W t mtu tp n = Inr (p, q)" "length p \<le> 255" "length q \<le> 255"
    "t \<noteq> StreamTransport \<Longrightarrow> n + packetOverhead \<le> mtu \<Longrightarrow> n + packetOverhead + int (length p) + int (length q) \<le> mtu"
proof -
  have a: "newPadding (wv_fl W) R (ascii_opts m) = ascii_padding R m 0" for R m by (simp add: newPadding_def ascii_opts_def)
  note b = maxPaddingSize_bounds [where mtu = mtu and t = t and n = n and tp = tp]
  note c = ascii_padding_bounds [of _ 0, simplified, OF _ b(1)]
  have ok: "pad_rand_ok (wv_pad1 W)" "pad_rand_ok (wv_pad2 W)" using assms(1) by (simp_all add: write_env_ok_def)
  obtain p where p: "ascii_padding (wv_pad1 W) (maxPaddingSizeWithTrafficPattern mtu t n 0 tp middlePadding) 0 = Padding p"
    using assms(2) c(1) [OF ok(1)] by (auto simp: two_paddings_def a split: pad_result.splits)
  obtain q where q: "ascii_padding (wv_pad2 W) (maxPaddingSizeWithTrafficPattern mtu t n (int (length p)) tp endPadding) 0 = Padding q"
    using assms(2) p c(1) [OF ok(2)] by (auto simp: two_paddings_def a split: pad_result.splits)
  have l: "int (length p) \<le> maxPaddingSizeWithTrafficPattern mtu t n 0 tp middlePadding"
    "int (length q) \<le> maxPaddingSizeWithTrafficPattern mtu t n (int (length p)) tp endPadding"
    using c(2) [OF ok(1) p] c(2) [OF ok(2) q] .
  show ?thesis
  proof (rule that [of p q])
    show "two_paddings W t mtu tp n = Inr (p, q)" using p q by (simp add: two_paddings_def a)
    show "length p \<le> 255" "length q \<le> 255" using l b(2) [where e = 0 and pos = middlePadding] b(2) [where e = "int (length p)" and pos = endPadding] by linarith+
    assume t: "t \<noteq> StreamTransport" "n + packetOverhead \<le> mtu"
    then have "n + packetOverhead + int (length p) \<le> mtu" using b(3) [where e = 0 and pos = middlePadding] l(1) by simp
    then show "n + packetOverhead + int (length p) + int (length q) \<le> mtu" using b(3) [OF t(1), where e = "int (length p)" and pos = endPadding] l(2) by simp
  qed
qed

text \<open>The parts of a datagram.\<close>

definition packet_of :: "crypto \<Rightarrow> bytes \<Rightarrow> bytes \<Rightarrow> bytes \<Rightarrow> bytes \<Rightarrow> bytes" where
  "packet_of cr key nonce meta rest = nonce @ cr_Seal cr key nonce meta @ rest"

lemma session_datagram_shape:
  assumes "write_env_ok W" and "cipher_ok c" and "IsStateless c" and "packet_sendable mtu seg" and "seg_metadata seg = SessionMD ss"
    and "fst (session_datagram W mtu tp c ss (seg_payload seg)) \<noteq> Inl PaddingWaits"
  obtains n p a ss' where "session_datagram W mtu tp c ss (seg_payload seg) =
      (Inr (packet_of (wv_crypto W) (ac_key c) n (snd (marshal_session (wv_now W) ss'))
         ((if seg_payload seg = [] then [] else cr_Seal (wv_crypto W) (ac_key c) n (seg_payload seg)) @ p)), ss', c\<lparr>ac_noncePatternApplied := a\<rparr>)"
    "length n = 24" "bc_UserName (ac_ctx c) \<noteq> [] \<longrightarrow> CheckUserFromHint (bytes_of (bc_UserName (ac_ctx c))) n = Some True"
    "ss' = ss\<lparr>ss_timestamp := unix_minute (wv_now W), ss_suffixLen := of_nat (length p)\<rparr>" "length p \<le> 255"
    "88 + length (seg_payload seg) + length p \<le> nat mtu"
proof -
  let ?cr = "wv_crypto W" and ?pl = "seg_payload seg" and ?u = "bc_UserName (ac_ctx c)"
  have cr: "crypto_ok ?cr" "nonce_rand_ok (wv_nonce W)" using assms(1) by (simp_all add: write_env_ok_def)
  note k = crypto_okD [OF cr(1)]
  have s: "uint (ss_payloadLen ss) = int (length ?pl)" "int (length ?pl) + packetOverhead \<le> mtu"
    using assms(4,5) by (simp_all add: packet_sendable_def) (metis uint_nat)+
  obtain p where p: "end_padding W PacketTransport packetOverhead mtu tp ?u (uint (ss_payloadLen ss)) = Padding p" "length p \<le> 255"
      "uint (ss_payloadLen ss) + packetOverhead + int (length p) \<le> mtu"
    using assms(6) s by (rule_tac end_padding_bounds [OF assms(1), of PacketTransport packetOverhead mtu tp ?u "uint (ss_payloadLen ss)"])
      (auto simp: session_datagram_def)
  define ss' where "ss' = ss\<lparr>ss_timestamp := unix_minute (wv_now W), ss_suffixLen := of_nat (length p)\<rparr>"
  define meta where "meta = snd (marshal_session (wv_now W) ss')"
  have m: "marshal_session (wv_now W) (ss\<lparr>ss_suffixLen := of_nat (length p)\<rparr>) = (ss', meta)"
    by (simp add: marshal_session_def ss'_def meta_def Let_def)
  have lm: "length meta = 32" using length_marshal_session [of "wv_now W" ss'] by (simp add: meta_def MetadataLength_def)
  define size where "size = length meta + 24 + 16 + (if length ?pl > 0 then length ?pl + 16 else 0) + length p"
  obtain n a where n: "Encrypt ?cr (wv_nonce W) size meta c = (Inr (n @ cr_Seal ?cr (ac_key c) n meta), c\<lparr>ac_noncePatternApplied := a\<rparr>)"
      "length n = 24" "?u \<noteq> [] \<longrightarrow> CheckUserFromHint (bytes_of ?u) n = Some True"
    by (rule Encrypt_stateless [OF cr assms(2,3), of meta size]) (auto simp: size_def)
  show ?thesis
  proof (rule that [of n ss' p a])
    show "session_datagram W mtu tp c ss ?pl = (Inr (packet_of ?cr (ac_key c) n (snd (marshal_session (wv_now W) ss'))
         ((if ?pl = [] then [] else cr_Seal ?cr (ac_key c) n ?pl) @ p)), ss', c\<lparr>ac_noncePatternApplied := a\<rparr>)"
      unfolding session_datagram_def p(1) pad_result.case m Let_def prod.case k(1,2) size_def [symmetric] n(1) sum.case
      using n(2) assms(3) by (simp add: size_def EncryptWithNonce_def IsStateless_def packet_of_def meta_def [symmetric] k)
  qed (use n p s in \<open>auto simp: ss'_def packetOverhead_def\<close>)
qed

text \<open>\<open>wire\<close> is the encrypted payload in its form for the wire.\<close>

definition carries :: "crypto \<Rightarrow> bytes \<Rightarrow> bytes \<Rightarrow> dataAckStruct \<Rightarrow> bytes \<Rightarrow> bytes \<Rightarrow> bool" where
  "carries cr key n das payload wire \<longleftrightarrow>
     (if payload = [] then wire = [] \<and> das_payloadLen das = 0
      else das_payloadLen das \<noteq> 0 \<and> length wire = unat (das_payloadLen das) + 16 \<and>
        (if isLowEntropyProtocol (das_protocol das) then decodeLowEntropyEncryptedPayload wire das = Inr (cr_Seal cr key n payload)
         else wire = cr_Seal cr key n payload)) \<and>
     (isLowEntropyProtocol (das_protocol das) \<longrightarrow> validateLowEntropyDataAckMetadata das = None)"

lemma validateLowEntropy_stamp:
  "validateLowEntropyDataAckMetadata (das\<lparr>das_prefixLen := p, das_suffixLen := q\<rparr>) = validateLowEntropyDataAckMetadata das"
  "validateLowEntropyDataAckMetadata (das\<lparr>das_timestamp := t\<rparr>) = validateLowEntropyDataAckMetadata das"
  by (cases das; simp only: validateLowEntropyDataAckMetadata_def dataAckStruct.simps)+

lemma wire_payload_carries:
  assumes "crypto_ok cr" and "paddingBit \<le> 1" and "payload \<noteq> []"
    and "if isLowEntropyProtocol (das_protocol das) then validateLowEntropyDataAckMetadata das = None \<and> unat (das_extractedPayloadLen das) = length payload
         else unat (das_payloadLen das) = length payload"
  obtains wire where "wire_payload paddingBit das (cr_Seal cr key n payload) = Inr wire" "carries cr key n das payload wire"
proof (cases "isLowEntropyProtocol (das_protocol das)")
  case True
  have v: "validateLowEntropyDataAckMetadata das = None" "unat (das_extractedPayloadLen das) = length payload" using True assms(4) by simp_all
  have x: "das_extractedPayloadLen das \<noteq> 0" using v(2) assms(3) by auto
  obtain w where w: "encodeLowEntropyEncryptedPayload paddingBit (cr_Seal cr key n payload) das = Inr w" "length w = unat (das_payloadLen das) + 16"
      "decodeLowEntropyEncryptedPayload w das = Inr (cr_Seal cr key n payload)"
    using low_entropy_wire [OF v(1) x, of "cr_Seal cr key n payload" paddingBit] assms(2) v(2) crypto_okD(4) [OF assms(1)] by auto
  obtain ps where ps: "validateLowEntropyCodecParams (uint (das_lowEntropyMode das)) (das_lowEntropyMask das) (uint (das_lowEntropyMaskRotation das)) = Inr ps"
      "chunks (sourceBytesPerChunk ps) (unat (das_extractedPayloadLen das)) \<le> 8191"
      "das_payloadLen das = of_nat (8 * chunks (sourceBytesPerChunk ps) (unat (das_extractedPayloadLen das)))"
    using v(1) x by (rule validateLowEntropy_None)
  have "unat (das_payloadLen das) \<noteq> 0"
    using unat_encoded_len [OF ps(2)] ps(3) chunks_step [OF validated_mask(2) [OF ps(1)], of "unat (das_extractedPayloadLen das)"] v(2) assms(3) by simp
  then show ?thesis using that [of w] w v(1) True assms(3) by (auto simp: wire_payload_def carries_def unat_eq_0)
next
  case False
  moreover have "das_payloadLen das \<noteq> 0" using False assms(3,4) by auto
  ultimately show ?thesis using that assms(3,4) crypto_okD(4) [OF assms(1)] by (auto simp: wire_payload_def carries_def)
qed

lemma chunks_cover: "0 < n \<Longrightarrow> len \<le> n * chunks n len"
  using mult_div_mod_eq [of n "len + n - 1"] mod_less_divisor [of n "len + n - 1"] unfolding chunks_def by linarith

lemma low_entropy_longer:
  assumes "low_entropy_ready das n"
  shows "n \<le> unat (das_payloadLen das)"
proof -
  have r: "lowEntropyEncodedPayloadLen (int n) (uint (das_lowEntropyMode das)) = Inr (das_payloadLen das)" "0 < n"
    using assms unfolding low_entropy_ready_def by blast+
  then obtain ps where ps: "buildLowEntropyParams (uint (das_lowEntropyMode das)) = Inr ps"
    by (auto simp: lowEntropyEncodedPayloadLen_def split: sum.splits)
  have "chunks (sourceBytesPerChunk ps) n \<le> 8191" "das_payloadLen das = of_nat (8 * chunks (sourceBytesPerChunk ps) n)"
    using r lowEntropyEncodedPayloadLen_eq [OF ps, of n] by (simp_all split: if_splits)
  then have "unat (das_payloadLen das) = 8 * chunks (sourceBytesPerChunk ps) n" using unat_encoded_len by simp
  moreover have "n \<le> sourceBytesPerChunk ps * chunks (sourceBytesPerChunk ps) n" "sourceBytesPerChunk ps < 8"
    using chunks_cover buildLowEntropyParams_InrD [OF ps] by auto
  ultimately show ?thesis by (metis le_trans less_imp_le mult_le_mono1)
qed

lemma dataAck_datagram_shape:
  assumes "write_env_ok W" and "cipher_ok c" and "IsStateless c" and "packet_sendable mtu seg" and "seg_metadata seg = DataAckMD das"
    and "fst (dataAck_datagram W mtu tp c das (seg_payload seg)) \<noteq> Inl PaddingWaits"
  obtains n das' p wire q a where "dataAck_datagram W mtu tp c das (seg_payload seg) =
      (Inr (packet_of (wv_crypto W) (ac_key c) n (snd (marshal_dataAck (wv_now W) das')) (p @ wire @ q)), das', c\<lparr>ac_noncePatternApplied := a\<rparr>)"
    "length n = 24" "bc_UserName (ac_ctx c) \<noteq> [] \<longrightarrow> CheckUserFromHint (bytes_of (bc_UserName (ac_ctx c))) n = Some True"
    "restamped (wv_now W) (DataAckMD das) (DataAckMD das')" "das_timestamp das' = unix_minute (wv_now W)"
    "unat (das_prefixLen das') = length p" "unat (das_suffixLen das') = length q"
    "carries (wv_crypto W) (ac_key c) n das' (seg_payload seg) wire"
    "88 + unat (das_payloadLen das') + length p + length q \<le> nat mtu"
proof -
  let ?cr = "wv_crypto W" and ?pl = "seg_payload seg" and ?u = "bc_UserName (ac_ctx c)" and ?le = "isLowEntropyProtocol (das_protocol das)"
  have cr: "crypto_ok ?cr" "nonce_rand_ok (wv_nonce W)" "wv_paddingBit W \<le> 1" "\<And>i. i < 32 \<Longrightarrow> wv_mask W i < 32 - i"
    using assms(1) by (simp_all add: write_env_ok_def)
  note k = crypto_okD [OF cr(1)]
  have s: "uint (das_payloadLen das) + packetOverhead \<le> mtu" "?le \<Longrightarrow> low_entropy_ready das (length ?pl)"
      "\<not> ?le \<Longrightarrow> unat (das_payloadLen das) = length ?pl"
    using assms(4,5) by (simp_all add: packet_sendable_def split: if_splits)
  obtain m where m: "(if ?le then prepareLowEntropyDataAckForSend (wv_mask W) das (length ?pl) else (None, das)) = (None, das\<lparr>das_lowEntropyMask := m\<rparr>)"
      "?le \<Longrightarrow> validateLowEntropyDataAckMetadata (das\<lparr>das_lowEntropyMask := m\<rparr>) = None" "?le \<or> m = das_lowEntropyMask das"
    using prepared_is_valid [OF s(2) cr(4)] by (cases ?le) auto
  define das1 where "das1 = das\<lparr>das_lowEntropyMask := m\<rparr>"
  note pr = m(1,2) [folded das1_def]
  have d1: "das_payloadLen das1 = das_payloadLen das" "das_protocol das1 = das_protocol das" "das_extractedPayloadLen das1 = das_extractedPayloadLen das"
    by (simp_all add: das1_def)
  obtain p q where pq: "two_paddings W PacketTransport mtu tp (uint (das_payloadLen das1)) = Inr (p, q)" "length p \<le> 255" "length q \<le> 255"
      "uint (das_payloadLen das1) + packetOverhead + int (length p) + int (length q) \<le> mtu"
    using assms(6) s(1) pr(1) by (rule_tac two_paddings_bounds [OF assms(1), of PacketTransport mtu tp "uint (das_payloadLen das1)"])
      (auto simp: dataAck_datagram_def d1)
  define das2 where "das2 = das1\<lparr>das_prefixLen := of_nat (length p), das_suffixLen := of_nat (length q)\<rparr>"
  define das' where "das' = das2\<lparr>das_timestamp := unix_minute (wv_now W)\<rparr>"
  define meta where "meta = snd (marshal_dataAck (wv_now W) das')"
  have mm: "marshal_dataAck (wv_now W) das2 = (das', meta)" by (simp add: marshal_dataAck_def das'_def meta_def Let_def)
  have lm: "length meta = 32" using length_marshal_dataAck [of "wv_now W" das'] by (simp add: meta_def MetadataLength_def)
  have d': "das_payloadLen das' = das_payloadLen das" "das_protocol das' = das_protocol das" "das_extractedPayloadLen das' = das_extractedPayloadLen das"
      "?le \<Longrightarrow> validateLowEntropyDataAckMetadata das' = None"
    using pr(2) d1 by (simp_all add: das'_def das2_def validateLowEntropy_stamp)
  define size where "size = length meta + 24 + 16 + length p + (if length ?pl > 0 then (if ?le then unat (das_payloadLen das') else length ?pl) + 16 else 0) + length q"
  obtain n a where n: "Encrypt ?cr (wv_nonce W) size meta c = (Inr (n @ cr_Seal ?cr (ac_key c) n meta), c\<lparr>ac_noncePatternApplied := a\<rparr>)"
      "length n = 24" "?u \<noteq> [] \<longrightarrow> CheckUserFromHint (bytes_of ?u) n = Some True"
    by (rule Encrypt_stateless [OF cr(1,2) assms(2,3), of meta size]) (auto simp: size_def)
  have "\<exists>wire. (if length ?pl > 0 then (case EncryptWithNonce ?cr (size - (length meta + 24 + 16) - length p) n ?pl (c\<lparr>ac_noncePatternApplied := a\<rparr>) of
        Inl e \<Rightarrow> Inl (EncryptFailed e) | Inr x \<Rightarrow> wire_payload (wv_paddingBit W) das' x) else Inr []) = Inr wire \<and>
      carries ?cr (ac_key c) n das' ?pl wire"
  proof (cases "?pl = []")
    case True
    then have "\<not> ?le" using s(2) by (auto simp: low_entropy_ready_def)
    then show ?thesis using True s(3) d' by (simp add: carries_def unat_eq_0)
  next
    case False
    have "length ?pl + 16 \<le> size - (length meta + 24 + 16) - length p"
      using False low_entropy_longer [OF s(2)] d'(1) by (auto simp: size_def)
    then have e: "EncryptWithNonce ?cr (size - (length meta + 24 + 16) - length p) n ?pl (c\<lparr>ac_noncePatternApplied := a\<rparr>) = Inr (cr_Seal ?cr (ac_key c) n ?pl)"
      using n(2) assms(3) k(1,2) by (simp add: EncryptWithNonce_def IsStateless_def)
    have "if ?le then validateLowEntropyDataAckMetadata das' = None \<and> unat (das_extractedPayloadLen das') = length ?pl else unat (das_payloadLen das') = length ?pl"
      using s(2,3) d' by (auto simp: low_entropy_ready_def)
    then obtain wire where "wire_payload (wv_paddingBit W) das' (cr_Seal ?cr (ac_key c) n ?pl) = Inr wire" "carries ?cr (ac_key c) n das' ?pl wire"
      using wire_payload_carries [OF cr(1,3) False, of das' "ac_key c" n] d'(2) by auto
    then show ?thesis using e False by auto
  qed
  then obtain wire where w: "(if length ?pl > 0 then (case EncryptWithNonce ?cr (size - (length meta + 24 + 16) - length p) n ?pl (c\<lparr>ac_noncePatternApplied := a\<rparr>) of
        Inl e \<Rightarrow> Inl (EncryptFailed e) | Inr x \<Rightarrow> wire_payload (wv_paddingBit W) das' x) else Inr []) = Inr wire"
      "carries ?cr (ac_key c) n das' ?pl wire" by blast
  have "int (88 + unat (das_payloadLen das') + length p + length q) \<le> mtu" using pq(4) by (simp add: d1 d' packetOverhead_def)
  then have room: "88 + unat (das_payloadLen das') + length p + length q \<le> nat mtu" by (metis nat_int nat_mono)
  have tk: "take 24 (n @ x) = n" for x using n(2) by simp
  have "length wire \<le> unat (das_payloadLen das') + 16" using w(2) by (simp add: carries_def split: if_splits)
  then have fit: "\<not> mtu < int (length ((n @ cr_Seal ?cr (ac_key c) n meta) @ p @ wire @ q))" using room n(2) lm k(4) by simp
  show ?thesis
  proof (rule that [of n das' p wire q a])
    show "dataAck_datagram W mtu tp c das ?pl = (Inr (packet_of ?cr (ac_key c) n (snd (marshal_dataAck (wv_now W) das')) (p @ wire @ q)), das',
        c\<lparr>ac_noncePatternApplied := a\<rparr>)"
      unfolding dataAck_datagram_def pr(1) Let_def prod.case option.case pq(1) sum.case das2_def [symmetric] mm k(1,2) size_def [symmetric] n(1) tk w(1)
      using fit by (simp add: packet_of_def meta_def [symmetric])
    show "restamped (wv_now W) (DataAckMD das) (DataAckMD das')"
      unfolding restamped_def metadata.case das'_def das2_def das1_def
      by (rule exI [of _ "of_nat (length p)"], rule exI [of _ "of_nat (length q)"], rule exI [of _ m]) (use m(3) in \<open>cases das; simp\<close>)
    show "unat (das_prefixLen das') = length p" "unat (das_suffixLen das') = length q"
      using pq(2,3) by (simp_all add: das'_def das2_def unat_of_nat)
    show "das_timestamp das' = unix_minute (wv_now W)" by (simp add: das'_def)
  qed (use n(2,3) w(2) room in auto)
qed

section \<open>Reading what has been written\<close>

lemma packet_of_parts:
  assumes "crypto_ok cr" and "length n = 24" and "length meta = 32"
  shows "take packetNonHeaderPosition (packet_of cr key n meta rest) = n @ cr_Seal cr key n meta"
    "drop packetNonHeaderPosition (packet_of cr key n meta rest) = rest" "take DefaultNonceSize (packet_of cr key n meta rest) = n"
    "length (packet_of cr key n meta rest) = 72 + length rest"
  using assms crypto_okD(4) [OF assms(1)]
  by (simp_all add: packet_of_def packetNonHeaderPosition_def DefaultNonceSize_def MetadataLength_def DefaultOverhead_def)

lemma DecryptWithNonce_sealed:
  assumes "crypto_ok cr" and "length n = 24" and "IsStateless d"
  shows "DecryptWithNonce cr (cr_Seal cr (ac_key d) n payload) n d = Inr payload"
  using assms crypto_okD(1,3) [OF assms(1)] by (simp add: DecryptWithNonce_def open_with_def IsStateless_def)

lemma parse_session_packet:
  assumes "crypto_ok cr" and "length n = 24" and "clocks_agree sent now" and "isSessionProtocol (ss_protocol ss)"
    and "unat (ss_payloadLen ss) = length payload" and "length payload \<le> MaxSessionOpenPayload"
    and "ss_timestamp ss = unix_minute sent" and "unat (ss_suffixLen ss) = length p"
    and "payload_cipher isClient own bc = Inr d" and "IsStateless d"
  shows "parse_packet cr now isClient own (packet_of cr (ac_key d) n (snd (marshal_session sent ss))
      ((if payload = [] then [] else cr_Seal cr (ac_key d) n payload) @ p)) (snd (marshal_session sent ss), bc, pol, auth) =
    finish_segment True (snd (marshal_session sent ss), bc, pol, auth) (mk_segment (SessionMD ss) payload PacketTransport)"
proof -
  let ?m = "snd (marshal_session sent ss)" and ?rest = "(if payload = [] then [] else cr_Seal cr (ac_key d) n payload) @ p"
  have um: "length ?m = 32 \<and> unmarshal_session now ?m = Inr ss"
    using unmarshal_marshal_session [OF assms(4), of sent now] assms(3,5-7) by (simp add: clocks_agree_def MetadataLength_def)
  have l16: "unat (ss_payloadLen ss + 16) = length payload + 16"
    using assms(5,6) by (subst unat_add_lem [THEN iffD1]) (auto simp: MaxSessionOpenPayload_def)
  have "parseSessionSegment cr isClient own ss n ?rest bc = Inr (mk_segment (SessionMD ss) payload PacketTransport)"
  proof (cases "payload = []")
    case True
    then show ?thesis using assms(5,8) by (simp add: parseSessionSegment_def word_gt_0 unat_eq_0)
  next
    case False
    then have "ss_payloadLen ss > 0" using assms(5) by (auto simp: word_gt_0)
    then show ?thesis
      using False assms(5,8,9) l16 crypto_okD(4) [OF assms(1)] DecryptWithNonce_sealed [OF assms(1,2,10)]
      by (simp add: parseSessionSegment_def DefaultOverhead_def and_then_def)
  qed
  then show ?thesis
    using um assms(4) packet_of_parts [OF assms(1,2), of ?m] marshal_session_fields(1) [of sent ss]
    by (simp add: parse_packet_def Let_def MetadataLength_def)
qed

lemma parse_dataAck_packet:
  assumes "crypto_ok cr" and "length n = 24" and "clocks_agree sent now" and "isDataAckProtocol (das_protocol das)"
    and "carries cr (ac_key d) n das payload wire" and "das_timestamp das = unix_minute sent"
    and "unat (das_prefixLen das) = length p" and "unat (das_suffixLen das) = length q"
    and "\<not> isLowEntropyProtocol (das_protocol das) \<Longrightarrow> das_lowEntropyMode das = 0 \<and> das_lowEntropyMask das = 0 \<and>
      das_extractedPayloadLen das = 0 \<and> das_lowEntropyMaskRotation das = 0"
    and "payload_cipher isClient own bc = Inr d" and "IsStateless d"
  shows "parse_packet cr now isClient own (packet_of cr (ac_key d) n (snd (marshal_dataAck sent das)) (p @ wire @ q))
      (snd (marshal_dataAck sent das), bc, pol, auth) =
    finish_segment False (snd (marshal_dataAck sent das), bc, pol, auth) (mk_segment (DataAckMD das) payload PacketTransport)"
proof -
  let ?m = "snd (marshal_dataAck sent das)"
  have v: "isLowEntropyProtocol (das_protocol das) \<longrightarrow> validateLowEntropyDataAckMetadata das = None" using assms(5) by (simp add: carries_def)
  have "das\<lparr>das_timestamp := unix_minute sent\<rparr> = das" using assms(6) by (cases das) simp
  moreover have "das\<lparr>das_timestamp := unix_minute sent, das_lowEntropyMode := 0, das_lowEntropyMask := 0,
      das_extractedPayloadLen := 0, das_lowEntropyMaskRotation := 0\<rparr> = das" if "\<not> isLowEntropyProtocol (das_protocol das)"
    using assms(6) assms(9) [OF that] by (cases das) simp
  ultimately have um: "length ?m = 32 \<and> unmarshal_dataAck now ?m = Inr das"
    using unmarshal_marshal_dataAck [OF assms(4) v, of sent now] assms(3) by (auto simp: clocks_agree_def MetadataLength_def split: if_splits)
  have pr: "parseDataAckSegment cr isClient own das n (p @ wire @ q) bc = Inr (mk_segment (DataAckMD das) payload PacketTransport)"
  proof (cases "payload = []")
    case True
    then show ?thesis using assms(5,7,8) v by (auto simp: parseDataAckSegment_def carries_def Let_def)
  next
    case False
    then have "das_payloadLen das > 0" "length wire = unat (das_payloadLen das) + 16" using assms(5) by (auto simp: carries_def word_gt_0)
    then show ?thesis
      using False assms(5,7,8,10) v DecryptWithNonce_sealed [OF assms(1,2,11)]
      by (auto simp: parseDataAckSegment_def carries_def Let_def DefaultOverhead_def and_then_def split: if_splits)
  qed
  have ns: "\<not> isSessionProtocol (das_protocol das)" using assms(4) by (auto simp: isProtocol_defs protocolType_defs)
  show ?thesis
    using um ns assms(4) pr packet_of_parts [OF assms(1,2), of ?m] marshal_dataAck_fields(1) [of sent das]
    by (simp add: parse_packet_def Let_def MetadataLength_def)
qed

definition is_session :: "metadata \<Rightarrow> bool" where
  "is_session md = (case md of SessionMD _ \<Rightarrow> True | DataAckMD _ \<Rightarrow> False)"

text \<open>A packet that parses to the segment \<open>seg\<close> at every host that opens it with the same key.\<close>

definition parses_to :: "write_env \<Rightarrow> bytes \<Rightarrow> bytes \<Rightarrow> bytes \<Rightarrow> segment \<Rightarrow> bool" where
  "parses_to W key data meta seg \<longleftrightarrow>
     (\<forall>now isClient own bc pol auth d. clocks_agree (wv_now W) now \<longrightarrow> payload_cipher isClient own bc = Inr d \<longrightarrow> IsStateless d \<longrightarrow> ac_key d = key \<longrightarrow>
        parse_packet (wv_crypto W) now isClient own data (meta, bc, pol, auth) =
        finish_segment (is_session (seg_metadata seg)) (meta, bc, pol, auth) seg)"

lemma session_datagram_parses:
  assumes "write_env_ok W" and "cipher_ok c" and "IsStateless c" and "packet_sendable mtu seg" and "seg_metadata seg = SessionMD ss"
    and "fst (session_datagram W mtu tp c ss (seg_payload seg)) \<noteq> Inl PaddingWaits"
  obtains n meta rest ss' a where "session_datagram W mtu tp c ss (seg_payload seg) =
      (Inr (packet_of (wv_crypto W) (ac_key c) n meta rest), ss', c\<lparr>ac_noncePatternApplied := a\<rparr>)"
    "length n = 24" "length meta = 32" "bc_UserName (ac_ctx c) \<noteq> [] \<longrightarrow> CheckUserFromHint (bytes_of (bc_UserName (ac_ctx c))) n = Some True"
    "restamped (wv_now W) (SessionMD ss) (SessionMD ss')" "72 + length rest \<le> nat mtu"
    "parses_to W (ac_key c) (packet_of (wv_crypto W) (ac_key c) n meta rest) meta (mk_segment (SessionMD ss') (seg_payload seg) PacketTransport)"
proof -
  have cr: "crypto_ok (wv_crypto W)" using assms(1) by (simp add: write_env_ok_def)
  obtain n ss' p a where d: "session_datagram W mtu tp c ss (seg_payload seg) =
      (Inr (packet_of (wv_crypto W) (ac_key c) n (snd (marshal_session (wv_now W) ss'))
         ((if seg_payload seg = [] then [] else cr_Seal (wv_crypto W) (ac_key c) n (seg_payload seg)) @ p)), ss', c\<lparr>ac_noncePatternApplied := a\<rparr>)"
    "length n = 24" "bc_UserName (ac_ctx c) \<noteq> [] \<longrightarrow> CheckUserFromHint (bytes_of (bc_UserName (ac_ctx c))) n = Some True"
    "ss' = ss\<lparr>ss_timestamp := unix_minute (wv_now W), ss_suffixLen := of_nat (length p)\<rparr>" "length p \<le> 255"
    "88 + length (seg_payload seg) + length p \<le> nat mtu"
    using assms by (rule session_datagram_shape)
  have s: "isSessionProtocol (ss_protocol ss')" "unat (ss_payloadLen ss') = length (seg_payload seg)" "length (seg_payload seg) \<le> MaxSessionOpenPayload"
      "ss_timestamp ss' = unix_minute (wv_now W)" "unat (ss_suffixLen ss') = length p"
    using assms(4,5) d(4,5) by (simp_all add: packet_sendable_def unat_of_nat)
  show ?thesis
  proof (rule that [OF d(1,2) _ d(3)])
    show "length (snd (marshal_session (wv_now W) ss')) = 32" using length_marshal_session by (simp add: MetadataLength_def)
    show "restamped (wv_now W) (SessionMD ss) (SessionMD ss')" using d(4) by (auto simp: restamped_def)
    show "72 + length ((if seg_payload seg = [] then [] else cr_Seal (wv_crypto W) (ac_key c) n (seg_payload seg)) @ p) \<le> nat mtu"
      using d(6) crypto_okD(4) [OF cr] by simp
    show "parses_to W (ac_key c) (packet_of (wv_crypto W) (ac_key c) n (snd (marshal_session (wv_now W) ss'))
        ((if seg_payload seg = [] then [] else cr_Seal (wv_crypto W) (ac_key c) n (seg_payload seg)) @ p)) (snd (marshal_session (wv_now W) ss'))
        (mk_segment (SessionMD ss') (seg_payload seg) PacketTransport)"
      unfolding parses_to_def
    proof (intro allI impI)
      fix now isClient own bc pol auth e
      assume a: "clocks_agree (wv_now W) now" "payload_cipher isClient own bc = Inr e" "IsStateless e" "ac_key e = ac_key c"
      show "parse_packet (wv_crypto W) now isClient own (packet_of (wv_crypto W) (ac_key c) n (snd (marshal_session (wv_now W) ss'))
          ((if seg_payload seg = [] then [] else cr_Seal (wv_crypto W) (ac_key c) n (seg_payload seg)) @ p)) (snd (marshal_session (wv_now W) ss'), bc, pol, auth) =
        finish_segment (is_session (seg_metadata (mk_segment (SessionMD ss') (seg_payload seg) PacketTransport))) (snd (marshal_session (wv_now W) ss'), bc, pol, auth)
          (mk_segment (SessionMD ss') (seg_payload seg) PacketTransport)"
        using parse_session_packet [OF cr d(2) a(1) s a(2,3), of pol auth] unfolding a(4) by (simp add: is_session_def mk_segment_def)
    qed
  qed
qed

lemma dataAck_datagram_parses:
  assumes "write_env_ok W" and "cipher_ok c" and "IsStateless c" and "packet_sendable mtu seg" and "seg_metadata seg = DataAckMD das"
    and "fst (dataAck_datagram W mtu tp c das (seg_payload seg)) \<noteq> Inl PaddingWaits"
  obtains n meta rest das' a where "dataAck_datagram W mtu tp c das (seg_payload seg) =
      (Inr (packet_of (wv_crypto W) (ac_key c) n meta rest), das', c\<lparr>ac_noncePatternApplied := a\<rparr>)"
    "length n = 24" "length meta = 32" "bc_UserName (ac_ctx c) \<noteq> [] \<longrightarrow> CheckUserFromHint (bytes_of (bc_UserName (ac_ctx c))) n = Some True"
    "restamped (wv_now W) (DataAckMD das) (DataAckMD das')" "72 + length rest \<le> nat mtu"
    "parses_to W (ac_key c) (packet_of (wv_crypto W) (ac_key c) n meta rest) meta (mk_segment (DataAckMD das') (seg_payload seg) PacketTransport)"
proof -
  have cr: "crypto_ok (wv_crypto W)" using assms(1) by (simp add: write_env_ok_def)
  obtain n das' p wire q a where d: "dataAck_datagram W mtu tp c das (seg_payload seg) =
      (Inr (packet_of (wv_crypto W) (ac_key c) n (snd (marshal_dataAck (wv_now W) das')) (p @ wire @ q)), das', c\<lparr>ac_noncePatternApplied := a\<rparr>)"
    "length n = 24" "bc_UserName (ac_ctx c) \<noteq> [] \<longrightarrow> CheckUserFromHint (bytes_of (bc_UserName (ac_ctx c))) n = Some True"
    "restamped (wv_now W) (DataAckMD das) (DataAckMD das')" "das_timestamp das' = unix_minute (wv_now W)"
    "unat (das_prefixLen das') = length p" "unat (das_suffixLen das') = length q"
    "carries (wv_crypto W) (ac_key c) n das' (seg_payload seg) wire" "88 + unat (das_payloadLen das') + length p + length q \<le> nat mtu"
    using assms by (rule dataAck_datagram_shape)
  have s: "isDataAckProtocol (das_protocol das')" "\<not> isLowEntropyProtocol (das_protocol das') \<Longrightarrow> das_lowEntropyMode das' = 0 \<and> das_lowEntropyMask das' = 0 \<and>
      das_extractedPayloadLen das' = 0 \<and> das_lowEntropyMaskRotation das' = 0"
    using assms(4,5) d(4) by (auto simp: packet_sendable_def restamped_def)
  show ?thesis
  proof (rule that [OF d(1,2) _ d(3,4)])
    show "length (snd (marshal_dataAck (wv_now W) das')) = 32" using length_marshal_dataAck by (simp add: MetadataLength_def)
    show "72 + length (p @ wire @ q) \<le> nat mtu" using d(8,9) by (auto simp: carries_def split: if_splits)
    show "parses_to W (ac_key c) (packet_of (wv_crypto W) (ac_key c) n (snd (marshal_dataAck (wv_now W) das')) (p @ wire @ q))
        (snd (marshal_dataAck (wv_now W) das')) (mk_segment (DataAckMD das') (seg_payload seg) PacketTransport)"
      unfolding parses_to_def
    proof (intro allI impI)
      fix now isClient own bc pol auth e
      assume a: "clocks_agree (wv_now W) now" "payload_cipher isClient own bc = Inr e" "IsStateless e" "ac_key e = ac_key c"
      show "parse_packet (wv_crypto W) now isClient own (packet_of (wv_crypto W) (ac_key c) n (snd (marshal_dataAck (wv_now W) das')) (p @ wire @ q))
          (snd (marshal_dataAck (wv_now W) das'), bc, pol, auth) =
        finish_segment (is_session (seg_metadata (mk_segment (DataAckMD das') (seg_payload seg) PacketTransport))) (snd (marshal_dataAck (wv_now W) das'), bc, pol, auth)
          (mk_segment (DataAckMD das') (seg_payload seg) PacketTransport)"
        using parse_dataAck_packet [OF cr d(2) a(1) s(1) d(8) [folded a(4)] d(5-7) s(2) a(2,3), of pol auth] unfolding a(4) by (simp add: is_session_def mk_segment_def)
    qed
  qed
qed

lemma sendable_restamped: "packet_sendable mtu seg \<Longrightarrow> is_session (seg_metadata seg) \<longleftrightarrow> isSessionProtocol (seg_Protocol seg)"
  by (auto simp: packet_sendable_def is_session_def seg_Protocol_def isProtocol_defs protocolType_defs split: metadata.splits)

lemma write_parses:
  assumes "write_env_ok W" and "wv_writes W" and "bu_isClient u \<longrightarrow> addr_String addr = addr_String (pu_serverAddr u)"
    and "packet_cipher seg u = Inr (place, c)" and "cipher_ok c" and "IsStateless c" and "packet_sendable (bu_mtu u) (in_seg seg)"
    and "fst (packet_writeOneSegment W seg addr u) \<noteq> Inl PaddingWaits"
  obtains n meta rest md a where "packet_writeOneSegment W seg addr u =
      (Inr (packet_of (wv_crypto W) (ac_key c) n meta rest), seg\<lparr>in_seg := in_seg seg\<lparr>seg_metadata := md\<rparr>\<rparr>,
       (store_cipher place (c\<lparr>ac_noncePatternApplied := a\<rparr>) u)\<lparr>bu_outBytes := bu_outBytes u + int (72 + length rest)\<rparr>)"
    "length n = 24" "length meta = 32" "bc_UserName (ac_ctx c) \<noteq> [] \<longrightarrow> CheckUserFromHint (bytes_of (bc_UserName (ac_ctx c))) n = Some True"
    "restamped (wv_now W) (seg_metadata (in_seg seg)) md" "72 + length rest \<le> nat (bu_mtu u)"
    "parses_to W (ac_key c) (packet_of (wv_crypto W) (ac_key c) n meta rest) meta (mk_segment md (seg_payload (in_seg seg)) PacketTransport)"
proof -
  have cr: "crypto_ok (wv_crypto W)" using assms(1) by (simp add: write_env_ok_def)
  have out: "bu_outBytes (store_cipher place x u) = bu_outBytes u" for x by (simp add: store_cipher_def split: cipher_place.splits)
  have guard: "\<not> (bu_isClient u \<and> addr_String addr \<noteq> addr_String (pu_serverAddr u))" using assms(3) by simp
  show ?thesis
  proof (cases "seg_metadata (in_seg seg)")
    case (SessionMD ss)
    then have t: "toSessionStruct (seg_metadata (in_seg seg)) = Some (Some ss)"
      using assms(7) by (simp add: toSessionStruct_def packet_sendable_def)
    have "fst (session_datagram W (bu_mtu u) (bu_trafficPattern u) c ss (seg_payload (in_seg seg))) \<noteq> Inl PaddingWaits"
      using assms(8) guard by (auto simp: packet_writeOneSegment_def assms(4) t Let_def split: prod.splits sum.splits)
    from session_datagram_parses [OF assms(1,5-7) SessionMD this]
    obtain n meta rest ss' a where d: "session_datagram W (bu_mtu u) (bu_trafficPattern u) c ss (seg_payload (in_seg seg)) =
        (Inr (packet_of (wv_crypto W) (ac_key c) n meta rest), ss', c\<lparr>ac_noncePatternApplied := a\<rparr>)"
      "length n = 24" "length meta = 32" "bc_UserName (ac_ctx c) \<noteq> [] \<longrightarrow> CheckUserFromHint (bytes_of (bc_UserName (ac_ctx c))) n = Some True"
      "restamped (wv_now W) (SessionMD ss) (SessionMD ss')" "72 + length rest \<le> nat (bu_mtu u)"
      "parses_to W (ac_key c) (packet_of (wv_crypto W) (ac_key c) n meta rest) meta (mk_segment (SessionMD ss') (seg_payload (in_seg seg)) PacketTransport)"
      by blast
    show ?thesis
      using assms(2) guard packet_of_parts(4) [OF cr d(2,3)] d(2-7) SessionMD
      by (intro that [of n meta rest "SessionMD ss'" a]) (simp_all add: packet_writeOneSegment_def assms(4) t [unfolded SessionMD] d(1) Let_def out)
  next
    case (DataAckMD das)
    then have t: "toSessionStruct (seg_metadata (in_seg seg)) = Some None" "toDataAckStruct (seg_metadata (in_seg seg)) = Some (Some das)"
      using assms(7) by (auto simp: toSessionStruct_def toDataAckStruct_def packet_sendable_def isProtocol_defs protocolType_defs)
    have "fst (dataAck_datagram W (bu_mtu u) (bu_trafficPattern u) c das (seg_payload (in_seg seg))) \<noteq> Inl PaddingWaits"
      using assms(8) guard by (auto simp: packet_writeOneSegment_def assms(4) t Let_def split: prod.splits sum.splits)
    from dataAck_datagram_parses [OF assms(1,5-7) DataAckMD this]
    obtain n meta rest das' a where d: "dataAck_datagram W (bu_mtu u) (bu_trafficPattern u) c das (seg_payload (in_seg seg)) =
        (Inr (packet_of (wv_crypto W) (ac_key c) n meta rest), das', c\<lparr>ac_noncePatternApplied := a\<rparr>)"
      "length n = 24" "length meta = 32" "bc_UserName (ac_ctx c) \<noteq> [] \<longrightarrow> CheckUserFromHint (bytes_of (bc_UserName (ac_ctx c))) n = Some True"
      "restamped (wv_now W) (DataAckMD das) (DataAckMD das')" "72 + length rest \<le> nat (bu_mtu u)"
      "parses_to W (ac_key c) (packet_of (wv_crypto W) (ac_key c) n meta rest) meta (mk_segment (DataAckMD das') (seg_payload (in_seg seg)) PacketTransport)"
      by blast
    show ?thesis
      using assms(2) guard packet_of_parts(4) [OF cr d(2,3)] d(2-7) DataAckMD
      by (intro that [of n meta rest "DataAckMD das'" a]) (simp_all add: packet_writeOneSegment_def assms(4) t [unfolded DataAckMD] d(1) Let_def out)
  qed
qed

lemma read_as_client:
  assumes "crypto_ok (de_crypto (rv_disc R))" and "length n = 24" and "length meta = 32" and "72 + length rest \<le> 1500"
    and "bu_isClient v" and "pu_block v = Some d" and "IsStateless d" and "addr_String src = addr_String (pu_serverAddr v)"
  shows "fst (read_datagram R (packet_of (de_crypto (rv_disc R)) (ac_key d) n meta rest) src w v) =
    parse_packet (de_crypto (rv_disc R)) (rv_now R) True (Some d) (packet_of (de_crypto (rv_disc R)) (ac_key d) n meta rest)
      (meta, None, zeroPolicy, zeroAuthentication)"
proof -
  let ?cr = "de_crypto (rv_disc R)" and ?b = "packet_of (de_crypto (rv_disc R)) (ac_key d) n meta rest"
  note p = packet_of_parts [OF assms(1-3), of "ac_key d" rest]
  have t: "take 1500 ?b = ?b" using p(4) assms(4) by simp
  have "fst (Decrypt ?cr (n @ cr_Seal ?cr (ac_key d) n meta) d) = Inr meta"
    using assms(2,7) crypto_okD [OF assms(1)] by (simp add: Decrypt_def IsStateless_def open_with_def)
  then have o: "open_as_client ?cr (take packetNonHeaderPosition ?b) v = Opened (meta, None, zeroPolicy, zeroAuthentication)"
    using assms(6) p(1) by (simp add: open_as_client_def)
  show ?thesis
    using assms(5,6,8) p(4) o unfolding read_datagram_def t Let_def
    by (simp add: packetNonHeaderPosition_def DefaultNonceSize_def MetadataLength_def DefaultOverhead_def open_as_client_def case_prod_beta)
qed

lemma zeroAuthentication_invalid [simp]: "\<not> valid_authentication zeroAuthentication"
  by (simp add: valid_authentication_def zeroAuthentication_def)

end
