(* ===== verification/Underlay_Open.thy ===== *)
theory Underlay_Open
  imports Underlay_Packet_Props Session_Example
begin

text \<open>
  How sessions come into being at a packet underlay of a server.  A client of a registered user opens one, and nothing else than a fresh packet of a registered user does.
  A packet of one user for a session of another one, however, makes the server panic.
\<close>

section \<open>Discovery and recording\<close>

lemma discover_found:
  assumes "fst (fst (tryState D st meta source mandatory m)) = Found d" and "ss_users st \<noteq> []" and "24 \<le> length meta"
  obtains st' m' where "Discover D [(Some st, True)] mandatory meta source False m =
      (Inr (SetBlockContext (dr_userContext d) (dr_block d), dr_decryptedMetadata d,
         \<lparr>au_userID = dr_userID d, au_policy = dr_policy d, au_origin = dr_origin d, au_generation = Some st', au_source = source\<rparr>), m')"
    "ss_users st' = ss_users st" "uc_table (ss_cache st') = uc_table (ss_cache st)"
proof -
  obtain s st1 where t: "tryState D st meta source mandatory m = ((Found d, s), st1)"
    using assms(1) by (metis prod.collapse)
  have st1: "ss_users st1 = ss_users st" "uc_table (ss_cache st1) = uc_table (ss_cache st)"
    using t by (auto simp: tryState_def Let_def case_prod_beta split: option.splits if_splits)
  have u: "discoverUser D [(Some st, True)] mandatory meta source False m =
      (Inr (d, st1\<lparr>ss_cache := if dr_origin d = matchCachedHint \<or> dr_origin d = matchCachedFallback
         then count_stat (\<lambda>s. s\<lparr>st_authenticationHits := st_authenticationHits s + 1\<rparr>) (ss_cache st1) else ss_cache st1\<rparr>), sn_mem s)"
    using assms(2,3) by (simp add: t DefaultNonceSize_def Let_def)
  show ?thesis
    using st1 by (intro that [of "st1\<lparr>ss_cache := if dr_origin d = matchCachedHint \<or> dr_origin d = matchCachedFallback
         then count_stat (\<lambda>s. s\<lparr>st_authenticationHits := st_authenticationHits s + 1\<rparr>) (ss_cache st1) else ss_cache st1\<rparr>" "sn_mem s"])
      (simp_all add: Discover_def u del: discoverUser.simps)
qed

lemma record_never_fails:
  assumes "source_cache_ok hash c" and "u \<noteq> 0"
  shows "cache_recordAuthenticated hash tick key u c \<noteq> None"
proof (cases "uc_table c")
  case (Some table)
  then obtain rs stats c' where r: "\<forall>(_, _, u) \<in> set rs. u \<noteq> 0" "record_all hash rs (newSourceUserCache stats) = Some c'" "uc_table c' = Some table"
    using assms(1) by (auto simp: source_cache_ok_def)
  have "table_inv {} (\<lambda>_. replicate 4 None)" by (simp add: table_inv_def)
  from record_all_ok [OF this _ r(1), of "newSourceUserCache stats" hash] obtain H where "table_inv H table"
    using r(2,3) by (auto simp: newSourceUserCache_def sourceUserCacheWays_def)
  then show ?thesis using record_step [OF _ Some assms(2)] by fastforce
qed (use assms(2) in \<open>simp add: cache_recordAuthenticated_def\<close>)

lemma no_session_at_address:
  assumes "\<forall>sid s. bu_sessionMap v sid = Some s \<longrightarrow> \<not> isSamePacketAddr (session_RemoteAddr s v) addr"
  shows "tryDecryptExistingSession cr order meta addr v = None"
  using assms by (induction order) (auto split: option.splits)

lemma session_RemoteAddr_update [simp]:
  "session_RemoteAddr s (v\<lparr>bu_inBytes := n\<rparr>) = session_RemoteAddr s v"
  by (simp add: session_RemoteAddr_def packet_RemoteAddr_def)

lemma tryDecryptExistingSession_update [simp]:
  "tryDecryptExistingSession cr order meta addr (v\<lparr>bu_inBytes := n\<rparr>) = tryDecryptExistingSession cr order meta addr v"
  by (induction order) (auto split: option.splits sum.splits)

section \<open>A client opens a session\<close>

text \<open>The user is in the configuration, with a name of its own and the credential \<open>password\<close>.\<close>

definition registered :: "User \<Rightarrow> bytes \<Rightarrow> user_input list \<Rightarrow> bool" where
  "registered user password users \<longleftrightarrow> length users < 2 ^ 32 - 1 \<and> (\<exists>key. (key, Some user) \<in> set users) \<and>
     GetString (u_Name user) \<noteq> [] \<and> length (GetString (u_Name user)) \<le> MaxUserNameLen \<and> name_count users (GetString (u_Name user)) = 1 \<and>
     buildCredential (Some user) (GetString (u_Name user)) = Inr password"

text \<open>A client underlay of the user, with the key that it has derived at time \<open>t\<close>.\<close>

definition client_of :: "crypto \<Rightarrow> int \<Rightarrow> User \<Rightarrow> bytes \<Rightarrow> aeadBlockCipher \<Rightarrow> PacketUnderlay \<Rightarrow> bool" where
  "client_of cr t user password c u \<longleftrightarrow> bu_isClient u \<and> pu_block u = Some c \<and> IsStateless c \<and> cipher_ok c \<and>
     bc_UserName (ac_ctx c) = GetString (u_Name user) \<and> ac_key c = key_of cr password (saltFromTime t ! 1)"

definition server_of :: "disc_env \<Rightarrow> user_input list \<Rightarrow> outside \<Rightarrow> PacketUnderlay \<Rightarrow> bool" where
  "server_of D users w v \<longleftrightarrow> \<not> bu_isClient v \<and> \<not> bu_done v \<and>
     (\<exists>reg st stats. pu_serverUsers v = Some reg \<and> rg_users reg = Some st \<and> ss_users st = ss_users (buildState users stats) \<and>
        mem_ok D st (ou_mem w) \<and> source_cache_ok (de_hash D) (ss_cache st))"

text \<open>No key of another user and no other key of this user opens the metadata in front of \<open>data\<close>.\<close>

definition only_key :: "disc_env \<Rightarrow> user_input list \<Rightarrow> string \<Rightarrow> bytes \<Rightarrow> bytes \<Rightarrow> bytes \<Rightarrow> bool" where
  "only_key D users name password key data \<longleftrightarrow>
     (\<forall>u \<in> set (ss_users (buildState users None)). us_name u \<noteq> name \<longrightarrow> opens D (take 72 data) u = None) \<and>
     (\<forall>s \<in> set (saltFromTime (de_now D)). key_of (de_crypto D) password s \<noteq> key \<longrightarrow>
        cr_Open (de_crypto D) (key_of (de_crypto D) password s) (take 24 data) (drop 24 (take 72 data)) = None)"

lemma registered_user:
  assumes "registered user password users"
  obtains u where "u \<in> set (ss_users (buildState users stats))" "us_name u = GetString (u_Name user)" "us_credential u = password"
    "us_policy u = buildPolicy user" "password \<noteq> []" "us_id u \<noteq> 0"
proof -
  let ?name = "GetString (u_Name user)"
  have r: "length users < 2 ^ 32 - 1" "\<exists>key. (key, Some user) \<in> set users" "?name \<noteq> []" "length ?name \<le> MaxUserNameLen"
      "name_count users ?name = 1" "buildCredential (Some user) ?name = Inr password"
    using assms by (simp_all add: registered_def)
  have pw: "password \<noteq> []" by (rule credential_not_empty [OF r(6)])
  obtain u where u: "u \<in> set (ss_users (buildState users stats))" "us_name u = ?name" "us_credential u = password" "us_policy u = buildPolicy user"
    using iffD2 [OF built_member [where users = users and name = "?name" and credential = password and policy = "buildPolicy user" and stats = stats]]
      r(2-6) pw by (auto simp: good_input_Some MaxUserNameLen_def)
  then obtain i where "i < length (ss_users (buildState users stats))" "ss_users (buildState users stats) ! i = u" by (auto simp: in_set_conv_nth)
  then have "unat (us_id u) = i + 1" using state_ids [OF built_state_ok [OF r(1)], of i stats] by simp
  then have "us_id u \<noteq> 0" by auto
  then show ?thesis using that u pw by blast
qed

lemma new_session_exists:
  assumes "\<not> f64_le_0 (e_fl E) (f64_lit (e_fl E) 3 2)"
  obtains s where "newSessionWithServerUserPolicy E sid False mtu policy None tp = Some s" "s_id s = sid" "\<not> s_isClient s" "s_state s = sessionInit"
    "\<not> s_closed s" "s_userPolicy s = (if p_name policy \<noteq> [] then Some policy else None)"
  using assms that
  by (simp add: newSessionWithServerUserPolicy_def SetRTOMultiplier_def newSegmentTree_def segmentSendQueueTreeCapacity_def segmentTreeCapacity_def
      NewCubicSendAlgorithm_def minWindowSize_def maxWindowSize_def Let_def)

lemma open_request_creates_session:
  assumes "\<not> bu_isClient v" and "\<not> bu_done v" and "SessionID (in_seg got) = sid" and "sid \<noteq> 0" and "bu_sessionMap v sid = None"
    and "length (bu_readySessions v) < sessionChanCapacity" and "\<not> f64_le_0 (e_fl E) (f64_lit (e_fl E) 3 2)"
    and "\<And>v. commitServerUserAuthentication D got v \<noteq> None" and "p_name (seg_serverUserPolicy (in_seg got)) \<noteq> []"
  obtains v' a where "packet_onOpenSessionRequest E D picks got src v = (HandlerOK, v')" "bu_sessionMap v' = (bu_sessionMap v)(sid \<mapsto> a)"
    "bu_readySessions v' = bu_readySessions v @ [sid]" "at_recvChan a = [got]" "at_remoteAddr a = Some src" "s_state (at_session a) = sessionAttached"
    "s_userPolicy (at_session a) = Some (seg_serverUserPolicy (in_seg got))"
proof -
  obtain s where s: "newSessionWithServerUserPolicy E sid False (bu_mtu v) (seg_serverUserPolicy (in_seg got)) None (bu_trafficPattern v) = Some s"
      "s_id s = sid" "\<not> s_isClient s" "s_state s = sessionInit" "\<not> s_closed s" "s_userPolicy s = Some (seg_serverUserPolicy (in_seg got))"
    using new_session_exists [OF assms(7), of sid "bu_mtu v" "seg_serverUserPolicy (in_seg got)" "bu_trafficPattern v"] assms(9) by metis
  define a where "a = \<lparr>at_session = forwardStateTo sessionAttached (s\<lparr>s_transport := PacketTransport\<rparr>), at_block = None, at_remoteAddr = Some src, at_recvChan = []\<rparr>"
  define v1 where "v1 = v\<lparr>bu_sessionMap := (bu_sessionMap v)(sid \<mapsto> a)\<rparr>"
  have add: "AddSession PacketTransport \<lparr>at_session = s, at_block = None, at_remoteAddr = None, at_recvChan = []\<rparr> (Some src) v = Inr v1"
    using assms(1,4,5) s(2-4)
    by (simp add: AddSession_def base_AddSession_def isStateAfter_def sessionState_defs and_then_def Let_def v1_def a_def)
  define v2 where "v2 = v1\<lparr>bu_sessionMap := (bu_sessionMap v)(sid \<mapsto> a\<lparr>at_recvChan := [got]\<rparr>)\<rparr>"
  have del: "deliverSegmentToSession (fst picks) sid got v1 = Some (True, v2)"
    using assms(2) s(5)
    by (simp add: deliverSegmentToSession_def v1_def v2_def a_def segmentChanCapacity_def select_def forwardStateTo_def)
  define v3 where "v3 = v2\<lparr>bu_readySessions := bu_readySessions v @ [sid]\<rparr>"
  obtain v4 where v4: "commitServerUserAuthentication D got v3 = Some v4" using assms(8) by blast
  have k: "bu_sessionMap v4 = bu_sessionMap v3" "bu_readySessions v4 = bu_readySessions v3"
    using v4 by (auto simp: commitServerUserAuthentication_def bind_eq_Some_conv split: if_splits)
  show ?thesis
  proof (rule that [of v4 "a\<lparr>at_recvChan := [got]\<rparr>"])
    have "bu_readySessions v2 = bu_readySessions v" "\<not> bu_done v2" using assms(2) by (simp_all add: v2_def v1_def)
    then show "packet_onOpenSessionRequest E D picks got src v = (HandlerOK, v4)"
      using assms(1-6) v4 by (simp add: packet_onOpenSessionRequest_def s(1) add del select_def v3_def)
  qed (use k s in \<open>simp_all add: v3_def v2_def v1_def a_def forwardStateTo_def sessionState_defs\<close>)
qed

lemma read_as_server:
  assumes "crypto_ok (de_crypto D)" and "length n = 24" and "length meta = 32" and "72 + length rest \<le> 1500"
    and "server_of D users w v" and "rv_disc R = D" and "registered user password users" and "CheckUserFromHint (bytes_of (GetString (u_Name user))) n = Some True"
    and "key \<in> key_of (de_crypto D) password ` set (saltFromTime (de_now D))"
    and "only_key D users (GetString (u_Name user)) password key (packet_of (de_crypto D) key n meta rest)"
    and "\<forall>sid s. bu_sessionMap v sid = Some s \<longrightarrow> \<not> isSamePacketAddr (session_RemoteAddr s v) src"
    and "\<not> fst (IsDuplicate (rv_nanos R) (take 16 (packet_of (de_crypto D) key n meta rest)) (addr_String src) (ou_replay w))"
  obtains c auth w' v' where "read_datagram R (packet_of (de_crypto D) key n meta rest) src w v =
      (parse_packet (de_crypto D) (rv_now R) False (pu_block v) (packet_of (de_crypto D) key n meta rest) (meta, Some c, buildPolicy user, auth), w', v')"
    "ac_key c = key" "IsStateless c" "bc_UserName (ac_ctx c) = GetString (u_Name user)" "valid_authentication auth"
    "\<forall>x y. in_authentication x = auth \<longrightarrow> commitServerUserAuthentication D x y \<noteq> None"
    "bu_sessionMap v' = bu_sessionMap v" "bu_readySessions v' = bu_readySessions v" "bu_isClient v' = bu_isClient v" "bu_done v' = bu_done v"
proof -
  let ?cr = "de_crypto D" and ?name = "GetString (u_Name user)"
  let ?b = "packet_of ?cr key n meta rest"
  note p = packet_of_parts [OF assms(1-3), of key rest]
  have t: "take 1500 ?b = ?b" using p(4) assms(4) by simp
  have t16: "take 16 ?b = take 16 n" using assms(2) by (simp add: packet_of_def)
  have t72: "take 72 ?b = n @ cr_Seal ?cr key n meta" "take 24 ?b = n" "drop 24 (take 72 ?b) = cr_Seal ?cr key n meta"
    using p(1,3) assms(2) by (simp_all add: packetNonHeaderPosition_def DefaultNonceSize_def MetadataLength_def DefaultOverhead_def)
  obtain reg st stats where v: "\<not> bu_isClient v" "\<not> bu_done v" "pu_serverUsers v = Some reg" "rg_users reg = Some st"
      "ss_users st = ss_users (buildState users stats)" "mem_ok D st (ou_mem w)" "source_cache_ok (de_hash D) (ss_cache st)"
    using assms(5) by (auto simp: server_of_def)
  have ok: "state_ok st" using built_state_ok [of users stats] assms(7) v(5) by (simp add: state_ok_def registered_def)
  have indep: "ss_users (buildState users None) = ss_users st" using v(5) by (simp add: buildState_def)
  obtain x where x: "x \<in> set (ss_users st)" "us_name x = ?name" "us_credential x = password" "us_policy x = buildPolicy user" "password \<noteq> []" "us_id x \<noteq> 0"
    using assms(7) v(5) by (metis registered_user)
  let ?meta = "n @ cr_Seal ?cr key n meta"
  obtain d where d: "fst (fst (tryState D st ?meta (SourceFromAddr src) (rg_hintMandatory reg) (ou_mem w))) = Found d"
      "d = found x (fresh_cipher key, meta) (dr_origin d)"
    using own_ciphertext_found [OF assms(1) ok v(6,7) x(1) _ assms(2), of key meta "SourceFromAddr src" "rg_hintMandatory reg"]
      assms(8-10) x(2,3,5) t72 indep by (auto simp: only_key_def)
  have "ss_users st \<noteq> []" "24 \<le> length ?meta" using x(1) assms(2) by auto
  then obtain st' m' where e: "Discover D [(Some st, True)] (rg_hintMandatory reg) ?meta (SourceFromAddr src) False (ou_mem w) =
      (Inr (SetBlockContext (dr_userContext d) (dr_block d), dr_decryptedMetadata d,
         \<lparr>au_userID = dr_userID d, au_policy = dr_policy d, au_origin = dr_origin d, au_generation = Some st', au_source = SourceFromAddr src\<rparr>), m')"
      "uc_table (ss_cache st') = uc_table (ss_cache st)"
    using discover_found [OF d(1)] by metis
  have dd: "dr_userContext d = \<lparr>bc_UserName = ?name\<rparr>" "dr_block d = fresh_cipher key" "dr_decryptedMetadata d = meta" "dr_userID d = us_id x"
      "dr_policy d = buildPolicy user"
    by (subst d(2), simp add: found_def x)+
  define auth where "auth = \<lparr>au_userID = us_id x, au_policy = buildPolicy user, au_origin = dr_origin d, au_generation = Some st', au_source = SourceFromAddr src\<rparr>"
  define c where "c = (case bu_trafficPattern v of None \<Rightarrow> SetBlockContext \<lparr>bc_UserName = ?name\<rparr> (fresh_cipher key)
    | Some tp \<Rightarrow> SetNoncePattern (tp_Nonce tp) (SetBlockContext \<lparr>bc_UserName = ?name\<rparr> (fresh_cipher key)))"
  define v1 where "v1 = v\<lparr>bu_inBytes := bu_inBytes v + int (length ?b)\<rparr>"
  define v2 where "v2 = v1\<lparr>pu_serverUsers := Some (reg\<lparr>rg_users := Some st'\<rparr>)\<rparr>"
  have op: "open_as_server R ?meta src False (ou_mem w) v1 = (Opened (meta, Some c, buildPolicy user, auth), m', v2)"
    using no_session_at_address [OF assms(11)] v(3,4) e(1) dd assms(6)
    by (simp add: open_as_server_def serverTryDecryptMetadataForNewSession_def v1_def v2_def auth_def c_def)
  have valid: "valid_authentication auth" using x(6) by (simp add: valid_authentication_def auth_def)
  have ok': "source_cache_ok (de_hash D) (ss_cache st')" using v(7) e(2) by (simp add: source_cache_ok_def)
  show ?thesis
  proof (rule that)
    show "read_datagram R ?b src w v = (parse_packet ?cr (rv_now R) False (pu_block v) ?b (meta, Some c, buildPolicy user, auth),
        \<lparr>ou_replay = snd (IsDuplicate (rv_nanos R) (take 16 ?b) (addr_String src) (ou_replay w)), ou_mem = m'\<rparr>, v2)"
      using v(1) op p(1,4) assms(2,6,12) unfolding read_datagram_def t Let_def v1_def t16
      by (simp add: packetNonHeaderPosition_def DefaultNonceSize_def MetadataLength_def DefaultOverhead_def case_prod_beta v2_def v1_def)
    obtain z where z: "recordAuthenticated D auth = Some z"
    proof (cases "SourceFromAddr src")
      case (Some k)
      then show ?thesis using that valid record_never_fails [OF ok' x(6), of "de_tick D" k] by (auto simp: recordAuthenticated_def auth_def Let_def)
    qed (use that valid in \<open>auto simp: recordAuthenticated_def auth_def Let_def\<close>)
    show "\<forall>x y. in_authentication x = auth \<longrightarrow> commitServerUserAuthentication D x y \<noteq> None"
      using valid by (simp add: commitServerUserAuthentication_def z case_prod_beta)
  qed (use valid v2_def v1_def in \<open>simp_all add: c_def IsStateless_def SetBlockContext_def SetNoncePattern_def split: option.splits\<close>)
qed

text \<open>A server reads the segment of a registered user.\<close>

lemma datagram_is_read:
  assumes "crypto_ok (wv_crypto W)" and "length n = 24" and "length meta = 32" and "72 + length rest \<le> 1500"
    and "server_of (rv_disc R) users w v" and "registered user password users"
    and "CheckUserFromHint (bytes_of (GetString (u_Name user))) n = Some True"
    and "key \<in> key_of (wv_crypto W) password ` set (saltFromTime (de_now (rv_disc R)))" and "de_crypto (rv_disc R) = wv_crypto W"
    and "only_key (rv_disc R) users (GetString (u_Name user)) password key (packet_of (wv_crypto W) key n meta rest)"
    and "\<forall>sid s. bu_sessionMap v sid = Some s \<longrightarrow> \<not> isSamePacketAddr (session_RemoteAddr s v) src"
    and "\<not> fst (IsDuplicate (rv_nanos R) (take 16 (packet_of (wv_crypto W) key n meta rest)) (addr_String src) (ou_replay w))"
    and "parses_to W key (packet_of (wv_crypto W) key n meta rest) meta (mk_segment md payload PacketTransport)"
    and "clocks_agree (wv_now W) (rv_now R)" and "validateServerSegmentDirection (mk_segment md payload PacketTransport) = None"
    and "Protocol md = openSessionRequest \<longrightarrow> is_session md \<and> SessionID (mk_segment md payload PacketTransport) \<noteq> 0"
  obtains got w' v' c where "read_datagram R (packet_of (wv_crypto W) key n meta rest) src w v = (GotSegment got, w', v')"
    "seg_payload (in_seg got) = payload" "seg_metadata (in_seg got) = md" "in_block got = Some c" "ac_key c = key"
    "seg_block (in_seg got) = Some (GetString (u_Name user))" "seg_serverUserPolicy (in_seg got) = buildPolicy user"
    "\<forall>y. commitServerUserAuthentication (rv_disc R) got y \<noteq> None"
    "bu_sessionMap v' = bu_sessionMap v" "bu_readySessions v' = bu_readySessions v" "bu_isClient v' = bu_isClient v" "bu_done v' = bu_done v"
proof -
  let ?cr = "wv_crypto W" and ?name = "GetString (u_Name user)" and ?seg = "mk_segment md payload PacketTransport"
  let ?data = "packet_of (wv_crypto W) key n meta rest"
  have chk: "Protocol md = openSessionRequest \<longrightarrow> is_session md \<and> validateNewServerSessionSegment ?seg = None"
    using assms(16) by (auto simp: validateNewServerSessionSegment_def SessionID_def mk_segment_def is_session_def split: metadata.splits)
  obtain e auth w' v' where rd: "read_datagram R ?data src w v =
      (parse_packet ?cr (rv_now R) False (pu_block v) ?data (meta, Some e, buildPolicy user, auth), w', v')"
    "ac_key e = key" "IsStateless e" "bc_UserName (ac_ctx e) = ?name" "valid_authentication auth"
    "\<forall>x y. in_authentication x = auth \<longrightarrow> commitServerUserAuthentication (rv_disc R) x y \<noteq> None"
    "bu_sessionMap v' = bu_sessionMap v" "bu_readySessions v' = bu_readySessions v" "bu_isClient v' = bu_isClient v" "bu_done v' = bu_done v"
    by (rule read_as_server [of "rv_disc R" n meta rest users w v R user password key src, unfolded assms(9),
          OF assms(1-5) refl assms(6-8,10-12)])
  define got0 where "got0 = set_policy (buildPolicy user) (set_block e (plain_inseg ?seg))"
  define got where "got = (if Protocol md = openSessionRequest then got0\<lparr>in_authentication := auth\<rparr> else got0)"
  have "parse_packet ?cr (rv_now R) False (pu_block v) ?data (meta, Some e, buildPolicy user, auth) =
      finish_segment (is_session (seg_metadata ?seg)) (meta, Some e, buildPolicy user, auth) ?seg"
    using assms(13,14) rd(2,3) unfolding parses_to_def by (simp add: payload_cipher_def)
  also have "\<dots> = GotSegment got"
    using rd(5) chk assms(15) by (auto simp: finish_segment_def got_def got0_def seg_Protocol_def mk_segment_def)
  finally have rg: "read_datagram R ?data src w v = (GotSegment got, w', v')" using rd(1) by simp
  have "in_authentication got = auth \<or> in_authentication got = zeroAuthentication"
    by (simp add: got_def got0_def set_policy_def set_block_def plain_inseg_def)
  then have "commitServerUserAuthentication (rv_disc R) got y \<noteq> None" for y
  proof
    assume "in_authentication got = auth"
    then show ?thesis using rd(6) by blast
  qed (simp add: commitServerUserAuthentication_def)
  then show ?thesis
    using that [OF rg] rd(2,4,7-10) by (auto simp: got_def got0_def set_policy_def set_block_def plain_inseg_def mk_segment_def)
qed

lemma datagram_opens_session:
  assumes "server_of D users w v" and "bu_sessionMap v' = bu_sessionMap v" and "bu_readySessions v' = bu_readySessions v"
    and "bu_isClient v' = bu_isClient v" and "bu_done v' = bu_done v"
    and "seg_metadata (in_seg got) = md" and "Protocol md = openSessionRequest" and "SessionID (in_seg got) = sid" and "sid \<noteq> 0"
    and "p_name (seg_serverUserPolicy (in_seg got)) \<noteq> []" and "\<forall>y. commitServerUserAuthentication D got y \<noteq> None"
    and "bu_sessionMap v sid = None" and "length (bu_readySessions v) < sessionChanCapacity" and "\<not> f64_le_0 (e_fl E) (f64_lit (e_fl E) 3 2)"
  shows "\<exists>v'' a. packet_dispatch E D W' picks got src v' = (LoopGoesOn, [], v'') \<and> bu_sessionMap v'' = (bu_sessionMap v)(sid \<mapsto> a) \<and>
    bu_readySessions v'' = bu_readySessions v @ [sid] \<and> at_recvChan a = [got] \<and> at_remoteAddr a = Some src \<and>
    s_state (at_session a) = sessionAttached \<and> s_userPolicy (at_session a) = Some (seg_serverUserPolicy (in_seg got))"
proof -
  obtain v'' a where o: "packet_onOpenSessionRequest E D picks got src v' = (HandlerOK, v'')" "bu_sessionMap v'' = (bu_sessionMap v')(sid \<mapsto> a)"
      "bu_readySessions v'' = bu_readySessions v' @ [sid]" "at_recvChan a = [got]" "at_remoteAddr a = Some src" "s_state (at_session a) = sessionAttached"
      "s_userPolicy (at_session a) = Some (seg_serverUserPolicy (in_seg got))"
    by (rule open_request_creates_session [of v' got sid E D picks src]) (use assms that in \<open>auto simp: server_of_def\<close>)
  have "packet_dispatch E D W' picks got src v' = (LoopGoesOn, [], v'')"
    using assms(6,7) o(1) by (simp add: packet_dispatch_def Let_def seg_Protocol_def isSessionProtocol_def)
  then show ?thesis using o(2-7) assms(2,3) by (intro exI [of _ v''] exI [of _ a]) simp
qed

text \<open>The datagram of a client.\<close>

lemma client_datagram:
  assumes "write_env_ok W" and "wv_writes W" and "client_of (wv_crypto W) t user password c u" and "addr_String addr = addr_String (pu_serverAddr u)"
    and "packet_sendable (bu_mtu u) (in_seg seg)" and "packet_writeOneSegment W seg addr u = (r, seg', u')" and "r \<noteq> Inl PaddingWaits"
    and "GetString (u_Name user) \<noteq> []"
  obtains n meta rest md where "r = Inr (packet_of (wv_crypto W) (ac_key c) n meta rest)" "seg_metadata (in_seg seg') = md"
    "length n = 24" "length meta = 32" "CheckUserFromHint (bytes_of (GetString (u_Name user))) n = Some True"
    "restamped (wv_now W) (seg_metadata (in_seg seg)) md" "72 + length rest \<le> nat (bu_mtu u)"
    "parses_to W (ac_key c) (packet_of (wv_crypto W) (ac_key c) n meta rest) meta (mk_segment md (seg_payload (in_seg seg)) PacketTransport)"
proof -
  have cl: "bu_isClient u" "pu_block u = Some c" "IsStateless c" "cipher_ok c" "bc_UserName (ac_ctx c) = GetString (u_Name user)"
    using assms(3) by (simp_all add: client_of_def)
  have pc: "packet_cipher seg u = Inr (InUnderlay, c)" using cl(1,2) by (simp add: packet_cipher_def)
  have "fst (packet_writeOneSegment W seg addr u) \<noteq> Inl PaddingWaits" using assms(6,7) by simp
  then obtain n meta rest md b where p: "packet_writeOneSegment W seg addr u =
      (Inr (packet_of (wv_crypto W) (ac_key c) n meta rest), seg\<lparr>in_seg := in_seg seg\<lparr>seg_metadata := md\<rparr>\<rparr>,
       (store_cipher InUnderlay (c\<lparr>ac_noncePatternApplied := b\<rparr>) u)\<lparr>bu_outBytes := bu_outBytes u + int (72 + length rest)\<rparr>)"
    "length n = 24" "length meta = 32" "bc_UserName (ac_ctx c) \<noteq> [] \<longrightarrow> CheckUserFromHint (bytes_of (bc_UserName (ac_ctx c))) n = Some True"
    "restamped (wv_now W) (seg_metadata (in_seg seg)) md" "72 + length rest \<le> nat (bu_mtu u)"
    "parses_to W (ac_key c) (packet_of (wv_crypto W) (ac_key c) n meta rest) meta (mk_segment md (seg_payload (in_seg seg)) PacketTransport)"
    using assms(4) by (elim write_parses [OF assms(1,2) _ pc cl(4,3) assms(5), rotated]) (rule that, assumption+, simp)
  show ?thesis using that [of n meta rest md] p assms(6,8) cl(5) by auto
qed

text \<open>
  C15.  A client opens a session.  The open session request that a client of a registered user writes becomes a datagram within the MTU, unless its padding still
  waits for random values.  A server that has the user in its configuration, whatever its caches hold, reads from it the metadata and the
  payload, creates the session with the policy of the user, hands the segment to it and puts the session into the queue of ready
  sessions.  It needs that the clocks agree, that the datagram is fresh, that the address and the session identifier are not in use, that there is room in the queue,
  and that no other key opens the datagram.
\<close>

theorem client_opens_session:
  assumes "write_env_ok W" and "wv_writes W" and "de_crypto (rv_disc R) = wv_crypto W"
    and "client_of (wv_crypto W) t user password c u" and "addr_String addr = addr_String (pu_serverAddr u)"
    and "packet_sendable (bu_mtu u) (in_seg seg)" and "bu_mtu u \<le> 1500" and "seg_Protocol (in_seg seg) = openSessionRequest"
    and "SessionID (in_seg seg) = sid" and "sid \<noteq> 0"
    and "packet_writeOneSegment W seg addr u = (r, seg', u')" and "r \<noteq> Inl PaddingWaits"
    and "server_of (rv_disc R) users w v" and "registered user password users"
    and "\<bar>t - de_now (rv_disc R)\<bar> \<le> KeyRefreshInterval" and "clocks_agree (wv_now W) (rv_now R)"
    and "\<forall>sid s. bu_sessionMap v sid = Some s \<longrightarrow> \<not> isSamePacketAddr (session_RemoteAddr s v) src"
    and "bu_sessionMap v sid = None" and "length (bu_readySessions v) < sessionChanCapacity"
    and "\<not> f64_le_0 (e_fl E) (f64_lit (e_fl E) 3 2)"
  shows "\<exists>data. r = Inr data \<and> int (length data) \<le> bu_mtu u \<and>
    (only_key (rv_disc R) users (GetString (u_Name user)) password (ac_key c) data \<longrightarrow>
     \<not> fst (IsDuplicate (rv_nanos R) (take 16 data) (addr_String src) (ou_replay w)) \<longrightarrow>
     (\<exists>got w' v' v'' a. read_datagram R data src w v = (GotSegment got, w', v') \<and>
        packet_dispatch E (rv_disc R) W' picks got src v' = (LoopGoesOn, [], v'') \<and>
        seg_payload (in_seg got) = seg_payload (in_seg seg) \<and> seg_metadata (in_seg got) = seg_metadata (in_seg seg') \<and>
        map_option ac_key (in_block got) = Some (ac_key c) \<and>
        bu_sessionMap v'' = (bu_sessionMap v)(sid \<mapsto> a) \<and> bu_readySessions v'' = bu_readySessions v @ [sid] \<and>
        at_recvChan a = [got] \<and> at_remoteAddr a = Some src \<and> s_state (at_session a) = sessionAttached \<and>
        s_userPolicy (at_session a) = Some (buildPolicy user)))"
proof -
  let ?cr = "wv_crypto W" and ?name = "GetString (u_Name user)"
  have nm: "?name \<noteq> []" using assms(14) by (simp add: registered_def)
  have cr: "crypto_ok ?cr" using assms(1) by (simp add: write_env_ok_def)
  obtain n meta rest md where p: "r = Inr (packet_of ?cr (ac_key c) n meta rest)" "seg_metadata (in_seg seg') = md"
    "length n = 24" "length meta = 32" "CheckUserFromHint (bytes_of ?name) n = Some True"
    "restamped (wv_now W) (seg_metadata (in_seg seg)) md" "72 + length rest \<le> nat (bu_mtu u)"
    "parses_to W (ac_key c) (packet_of ?cr (ac_key c) n meta rest) meta (mk_segment md (seg_payload (in_seg seg)) PacketTransport)"
    by (rule client_datagram [OF assms(1,2,4,5,6,11,12) nm])
  let ?data = "packet_of ?cr (ac_key c) n meta rest" and ?seg = "mk_segment md (seg_payload (in_seg seg)) PacketTransport"
  have key: "ac_key c \<in> key_of ?cr password ` set (saltFromTime (de_now (rv_disc R)))"
    using salt_in_window [OF assms(15)] assms(4) by (simp add: client_of_def)
  obtain ss where ss: "seg_metadata (in_seg seg) = SessionMD ss"
    using assms(6,8) by (cases "seg_metadata (in_seg seg)") (auto simp: packet_sendable_def seg_Protocol_def isProtocol_defs protocolType_defs)
  then have md: "is_session md" "Protocol md = openSessionRequest" "SessionID ?seg = sid"
    using p(6) assms(8,9) by (auto simp: restamped_def is_session_def seg_Protocol_def SessionID_def mk_segment_def)
  have dir: "validateServerSegmentDirection ?seg = None" using md(2) by (simp add: validateServerSegmentDirection_def seg_Protocol_def mk_segment_def)
  have "\<exists>got w' v' v'' a. read_datagram R ?data src w v = (GotSegment got, w', v') \<and>
        packet_dispatch E (rv_disc R) W' picks got src v' = (LoopGoesOn, [], v'') \<and>
        seg_payload (in_seg got) = seg_payload (in_seg seg) \<and> seg_metadata (in_seg got) = md \<and>
        map_option ac_key (in_block got) = Some (ac_key c) \<and>
        bu_sessionMap v'' = (bu_sessionMap v)(sid \<mapsto> a) \<and> bu_readySessions v'' = bu_readySessions v @ [sid] \<and>
        at_recvChan a = [got] \<and> at_remoteAddr a = Some src \<and> s_state (at_session a) = sessionAttached \<and>
        s_userPolicy (at_session a) = Some (buildPolicy user)"
    if only: "only_key (rv_disc R) users ?name password (ac_key c) ?data"
      and fresh: "\<not> fst (IsDuplicate (rv_nanos R) (take 16 ?data) (addr_String src) (ou_replay w))"
  proof -
    obtain got w' v' e where g: "read_datagram R ?data src w v = (GotSegment got, w', v')" "seg_payload (in_seg got) = seg_payload (in_seg seg)"
      "seg_metadata (in_seg got) = md" "in_block got = Some e" "ac_key e = ac_key c" "seg_serverUserPolicy (in_seg got) = buildPolicy user"
      "\<forall>y. commitServerUserAuthentication (rv_disc R) got y \<noteq> None"
      "bu_sessionMap v' = bu_sessionMap v" "bu_readySessions v' = bu_readySessions v" "bu_isClient v' = bu_isClient v" "bu_done v' = bu_done v"
      by (rule datagram_is_read [OF cr p(3,4) _ assms(13,14) p(5) key assms(3) only assms(17) fresh p(8) assms(16) dir])
        (use p(7) md assms(7,10) that in auto)
    have "SessionID (in_seg got) = sid" "p_name (seg_serverUserPolicy (in_seg got)) \<noteq> []"
      using md(3) g(3,6) nm by (simp_all add: SessionID_def mk_segment_def buildPolicy_def)
    from datagram_opens_session [OF assms(13) g(8-11,3) md(2) this(1) assms(10) this(2) g(7) assms(18-20), of W' picks src]
    show ?thesis using g(1-6) by fastforce
  qed
  then show ?thesis
    using p(1,2,7) packet_of_parts(4) [OF cr p(3,4)] by auto
qed

section \<open>A segment for a session of another user\<close>

lemma foreign_input_panics:
  assumes "\<not> s_closed s" and "\<not> s_isClient s" and "s_userPolicy s = Some policy" and "seg_block seg = Some name" and "name \<noteq> p_name policy"
    and "accepts_protocol False (seg_Protocol seg)"
  shows "input_loop_step E seg s = None"
  using assms by (auto simp: input_loop_step_def input_def input_block_def input_policy_def Let_def split: option.splits)

lemma dispatch_delivers:
  assumes "is_session (seg_metadata (in_seg got)) \<longleftrightarrow> isSessionProtocol (seg_Protocol (in_seg got))" and "accepts_protocol False (seg_Protocol (in_seg got))"
    and "seg_Protocol (in_seg got) \<noteq> openSessionRequest" and "SessionID (in_seg got) = sid" and "bu_sessionMap v sid \<noteq> None"
    and "deliverSegmentToSession (fst picks) sid got v = Some (b, v')"
  shows "packet_dispatch E D W picks got src v = (LoopGoesOn, [], v')"
proof (cases "seg_metadata (in_seg got)")
  case (SessionMD ss)
  then have "isSessionProtocol (seg_Protocol (in_seg got))" using assms(1) by (simp add: is_session_def)
  moreover have "seg_Protocol (in_seg got) \<noteq> openSessionResponse" using assms(2) by (auto simp: accepts_protocol_def protocolType_defs)
  ultimately show ?thesis
    using assms(3-6) by (auto simp: packet_dispatch_def packet_onCloseSession_def deliver_or_drop_def)
next
  case (DataAckMD das)
  then have n: "\<not> isSessionProtocol (seg_Protocol (in_seg got))" using assms(1) by (simp add: is_session_def)
  then have "isDataAckProtocol (das_protocol das)" using assms(2) DataAckMD by (auto simp: accepts_protocol_def isProtocol_defs seg_Protocol_def)
  then have "toDataAckStruct (seg_metadata (in_seg got)) = Some (Some das)" using DataAckMD by (simp add: toDataAckStruct_def)
  then show ?thesis
    using n assms(4-6) DataAckMD by (simp add: packet_dispatch_def deliver_or_drop_def SessionID_def)
qed

text \<open>
  C17.  Any registered user can crash the server.  A data, acknowledgement or close segment that a client of a registered user writes for the
  identifier of a session of another user is read by the server and put into the channel of this session, whose user is not compared.  The input
  loop of the session then panics, because the user name of the cipher differs.  The user needs to hit the 32-bit session identifier.
\<close>

theorem foreign_segment_panics_server:
  assumes "write_env_ok W" and "wv_writes W" and "de_crypto (rv_disc R) = wv_crypto W"
    and "client_of (wv_crypto W) t user password c u" and "addr_String addr = addr_String (pu_serverAddr u)"
    and "packet_sendable (bu_mtu u) (in_seg seg)" and "bu_mtu u \<le> 1500"
    and "accepts_protocol False (seg_Protocol (in_seg seg))" and "seg_Protocol (in_seg seg) \<noteq> openSessionRequest" and "SessionID (in_seg seg) = sid"
    and "packet_writeOneSegment W seg addr u = (r, seg', u')" and "r \<noteq> Inl PaddingWaits"
    and "server_of (rv_disc R) users w v" and "registered user password users"
    and "\<bar>t - de_now (rv_disc R)\<bar> \<le> KeyRefreshInterval" and "clocks_agree (wv_now W) (rv_now R)"
    and "\<forall>sid s. bu_sessionMap v sid = Some s \<longrightarrow> \<not> isSamePacketAddr (session_RemoteAddr s v) src"
    and "bu_sessionMap v sid = Some a" and "\<not> s_closed (at_session a)" and "\<not> s_isClient (at_session a)" and "at_recvChan a = []"
    and "s_userPolicy (at_session a) = Some policy" and "p_name policy \<noteq> GetString (u_Name user)"
  shows "\<exists>data. r = Inr data \<and>
    (only_key (rv_disc R) users (GetString (u_Name user)) password (ac_key c) data \<longrightarrow>
     \<not> fst (IsDuplicate (rv_nanos R) (take 16 data) (addr_String src) (ou_replay w)) \<longrightarrow>
     (\<exists>got w' v' v'' a'. read_datagram R data src w v = (GotSegment got, w', v') \<and>
        packet_dispatch E (rv_disc R) W' picks got src v' = (LoopGoesOn, [], v'') \<and>
        bu_sessionMap v'' sid = Some a' \<and> session_takes E' a' = None))"
proof -
  let ?cr = "wv_crypto W" and ?name = "GetString (u_Name user)"
  have nm: "?name \<noteq> []" using assms(14) by (simp add: registered_def)
  have cr: "crypto_ok ?cr" using assms(1) by (simp add: write_env_ok_def)
  obtain n meta rest md where p: "r = Inr (packet_of ?cr (ac_key c) n meta rest)" "seg_metadata (in_seg seg') = md"
    "length n = 24" "length meta = 32" "CheckUserFromHint (bytes_of ?name) n = Some True"
    "restamped (wv_now W) (seg_metadata (in_seg seg)) md" "72 + length rest \<le> nat (bu_mtu u)"
    "parses_to W (ac_key c) (packet_of ?cr (ac_key c) n meta rest) meta (mk_segment md (seg_payload (in_seg seg)) PacketTransport)"
    by (rule client_datagram [OF assms(1,2,4,5,6,11,12) nm])
  let ?data = "packet_of ?cr (ac_key c) n meta rest" and ?seg = "mk_segment md (seg_payload (in_seg seg)) PacketTransport"
  have key: "ac_key c \<in> key_of ?cr password ` set (saltFromTime (de_now (rv_disc R)))"
    using salt_in_window [OF assms(15)] assms(4) by (simp add: client_of_def)
  have md: "Protocol md = seg_Protocol (in_seg seg)" "SessionID ?seg = sid" "is_session md \<longleftrightarrow> isSessionProtocol (Protocol md)"
    using p(6) assms(6,10) by (auto simp: restamped_def is_session_def seg_Protocol_def SessionID_def mk_segment_def packet_sendable_def isProtocol_defs protocolType_defs
        split: metadata.splits)
  have dir: "validateServerSegmentDirection ?seg = None"
    using md(1) assms(8) by (auto simp: validateServerSegmentDirection_def seg_Protocol_def mk_segment_def accepts_protocol_def Let_def)
  have "\<exists>got w' v' v'' a'. read_datagram R ?data src w v = (GotSegment got, w', v') \<and>
        packet_dispatch E (rv_disc R) W' picks got src v' = (LoopGoesOn, [], v'') \<and> bu_sessionMap v'' sid = Some a' \<and> session_takes E' a' = None"
    if only: "only_key (rv_disc R) users ?name password (ac_key c) ?data"
      and fresh: "\<not> fst (IsDuplicate (rv_nanos R) (take 16 ?data) (addr_String src) (ou_replay w))"
  proof -
    obtain got w' v' where g: "read_datagram R ?data src w v = (GotSegment got, w', v')" "seg_metadata (in_seg got) = md"
      "seg_block (in_seg got) = Some ?name" "bu_sessionMap v' = bu_sessionMap v" "bu_done v' = bu_done v"
      by (rule datagram_is_read [OF cr p(3,4) _ assms(13,14) p(5) key assms(3) only assms(17) fresh p(8) assms(16) dir])
        (use p(7) md(1) assms(7,9) that in auto)
    let ?a = "a\<lparr>at_recvChan := [got]\<rparr>" and ?v = "v'\<lparr>bu_sessionMap := (bu_sessionMap v')(sid \<mapsto> a\<lparr>at_recvChan := [got]\<rparr>)\<rparr>"
    have "deliverSegmentToSession (fst picks) sid got v' = Some (True, ?v)"
      using assms(13,18,19,21) g(4,5) by (simp add: deliverSegmentToSession_def segmentChanCapacity_def select_def server_of_def)
    then have "packet_dispatch E (rv_disc R) W' picks got src v' = (LoopGoesOn, [], ?v)"
      using md g(2,4) assms(8,9,18) by (intro dispatch_delivers) (simp_all add: seg_Protocol_def SessionID_def mk_segment_def)
    moreover have "session_takes E' ?a = None"
      using foreign_input_panics [OF assms(19,20,22) g(3), of E'] assms(8,23) g(2) md(1) by (simp add: session_takes_def seg_Protocol_def)
    ultimately show ?thesis using g(1) by (intro exI [of _ got] exI [of _ w'] exI [of _ v'] exI [of _ ?v] exI [of _ ?a]) simp
  qed
  then show ?thesis using p(1) by auto
qed

section \<open>From the server to the client\<close>

text \<open>
  C16.  What a server writes for a session, the client reads.  For every segment that a session produces, of any kind, the server sends a datagram that is not
  longer than the MTU, unless the padding still waits for random values.  A client with the same key and a clock in the same minute, up to one, reads
  from it the payload and the metadata of the segment, with the time, the padding lengths and the half mask that the write has set.
\<close>

theorem packet_reaches_client:
  assumes "write_env_ok W" and "wv_writes W" and "\<not> bu_isClient u" and "in_block seg = None"
    and "bu_sessionMap u (SessionID (in_seg seg)) = Some s" and "at_block s = Some c" and "cipher_ok c" and "IsStateless c"
    and "packet_sendable (bu_mtu u) (in_seg seg)" and "bu_mtu u \<le> 1500"
    and "packet_writeOneSegment W seg addr u = (r, seg', u')" and "r \<noteq> Inl PaddingWaits"
    and "bu_isClient v" and "pu_block v = Some d" and "IsStateless d" and "ac_key d = ac_key c"
    and "addr_String src = addr_String (pu_serverAddr v)" and "de_crypto (rv_disc R) = wv_crypto W" and "clocks_agree (wv_now W) (rv_now R)"
  shows "\<exists>data md. r = Inr data \<and> int (length data) \<le> bu_mtu u \<and> seg' = seg\<lparr>in_seg := in_seg seg\<lparr>seg_metadata := md\<rparr>\<rparr> \<and>
    restamped (wv_now W) (seg_metadata (in_seg seg)) md \<and>
    fst (read_datagram R data src w v) = GotSegment (plain_inseg (mk_segment md (seg_payload (in_seg seg)) PacketTransport))"
proof -
  have pc: "packet_cipher seg u = Inr (InSession (SessionID (in_seg seg)), c)" using assms(3-6) by (simp add: packet_cipher_def)
  have cr: "crypto_ok (wv_crypto W)" using assms(1) by (simp add: write_env_ok_def)
  have "fst (packet_writeOneSegment W seg addr u) \<noteq> Inl PaddingWaits" using assms(11,12) by simp
  then obtain n meta rest md a where p: "packet_writeOneSegment W seg addr u =
      (Inr (packet_of (wv_crypto W) (ac_key c) n meta rest), seg\<lparr>in_seg := in_seg seg\<lparr>seg_metadata := md\<rparr>\<rparr>,
       (store_cipher (InSession (SessionID (in_seg seg))) (c\<lparr>ac_noncePatternApplied := a\<rparr>) u)\<lparr>bu_outBytes := bu_outBytes u + int (72 + length rest)\<rparr>)"
    "length n = 24" "length meta = 32" "restamped (wv_now W) (seg_metadata (in_seg seg)) md" "72 + length rest \<le> nat (bu_mtu u)"
    "parses_to W (ac_key c) (packet_of (wv_crypto W) (ac_key c) n meta rest) meta (mk_segment md (seg_payload (in_seg seg)) PacketTransport)"
    using assms(3) by (elim write_parses [OF assms(1,2) _ pc assms(7-9), rotated]) (rule that, auto)
  let ?seg = "mk_segment md (seg_payload (in_seg seg)) PacketTransport"
  have "fst (read_datagram R (packet_of (wv_crypto W) (ac_key c) n meta rest) src w v) =
      parse_packet (wv_crypto W) (rv_now R) True (Some d) (packet_of (wv_crypto W) (ac_key c) n meta rest) (meta, None, zeroPolicy, zeroAuthentication)"
    using read_as_client [of R n meta rest v d src w] cr p(2,3,5) assms(10,13-18) by simp
  also have "\<dots> = finish_segment (is_session (seg_metadata ?seg)) (meta, None, zeroPolicy, zeroAuthentication) ?seg"
    using p(6) assms(15,16,19) by (simp add: parses_to_def payload_cipher_def)
  also have "\<dots> = GotSegment (plain_inseg ?seg)" by (simp add: finish_segment_def)
  finally show ?thesis
    using p(1-5) assms(11) packet_of_parts(4) [OF cr p(2,3)] by auto
qed

section \<open>Samples\<close>

definition sample_password :: bytes where
  "sample_password = HashPassword (bytes_of ''secret'') (bytes_of ''alice'')"

definition sample_cipher :: aeadBlockCipher where
  "sample_cipher = SetBlockContext \<lparr>bc_UserName = ''alice''\<rparr>
     (fresh_cipher (key_of (de_crypto sample_disc_env) sample_password (saltFromTime (60 * Cipher.second) ! 1)))"

definition sample_write_env :: write_env where
  "sample_write_env = \<lparr>wv_crypto = de_crypto sample_disc_env, wv_fl = sample_pad_floats, wv_now = 60, wv_nonce = sample_nonce_rand,
     wv_pad1 = sample_pad_rand, wv_pad2 = sample_pad_rand, wv_strategy = \<lambda>_. 1, wv_asciiLen = 24, wv_randomData = \<lambda>n. replicate n 0,
     wv_mask = \<lambda>_. 0, wv_paddingBit = 0, wv_writes = True\<rparr>"

definition sample_addr :: net_addr where
  "sample_addr = UDPPeer (Some \<lparr>udp_IP = [10, 0, 0, 1], udp_Port = 8964, udp_Zone = []\<rparr>)"

definition sample_client :: PacketUnderlay where
  "sample_client = \<lparr>bu_isClient = True, bu_mtu = 1400, bu_done = False, bu_sessionMap = Map.empty, bu_readySessions = [], bu_trafficPattern = None,
     bu_inBytes = 0, bu_outBytes = 0, pu_serverAddr = sample_addr, pu_block = Some sample_cipher, pu_serverUsers = None\<rparr>"

definition sample_server :: "(u32 \<rightharpoonup> attached) \<Rightarrow> PacketUnderlay" where
  "sample_server m = \<lparr>bu_isClient = False, bu_mtu = 1400, bu_done = False, bu_sessionMap = m, bu_readySessions = [], bu_trafficPattern = None,
     bu_inBytes = 0, bu_outBytes = 0, pu_serverAddr = NilNetAddr, pu_block = None,
     pu_serverUsers = Some \<lparr>rg_users = Some sample_state, rg_hintMandatory = False, rg_stats = \<lparr>st_lookups = 0, st_sourceHits = 0, st_sourceMisses = 0, st_authenticationHits = 0,
       st_fullFallbacks = 0, st_insertions = 0, st_expiries = 0, st_evictions = 0\<rparr>\<rparr>\<rparr>"

definition sample_read_env :: read_env where
  "sample_read_env = \<lparr>rv_disc = sample_disc_env, rv_now = 60, rv_nanos = 0, rv_order = []\<rparr>"

definition sample_outside :: outside where
  "sample_outside = \<lparr>ou_replay = None, ou_mem = sample_mem\<rparr>"

definition sample_seg :: "u8 \<Rightarrow> inseg" where
  "sample_seg p = plain_inseg (mk_segment (SessionMD \<lparr>ss_protocol = p, ss_timestamp = 0, ss_sessionID = 7, ss_seq = 0, ss_statusCode = 0,
     ss_payloadLen = 2, ss_suffixLen = 0\<rparr>) [1, 2] PacketTransport)"

lemma sample_env_ok: "write_env_ok sample_write_env" "wv_writes sample_write_env"
  using sample_disc_ok(1) sample_nonce_rand_ok
  by (simp_all add: write_env_ok_def sample_write_env_def sample_pad_rand_def pad_rand_ok_def mrand_ok_def scale_ok_def sample_pad_floats_def)

lemma sample_name: "GetString (u_Name sample_user) = ''alice''"
  by (simp add: sample_user_def GetString_def)

lemma sample_client_of: "client_of (wv_crypto sample_write_env) (60 * Cipher.second) sample_user sample_password sample_cipher sample_client"
  by (simp add: client_of_def sample_client_def sample_cipher_def sample_write_env_def SetBlockContext_def IsStateless_def cipher_ok_def sample_name
      fresh_cipher_def)

lemma sample_registered: "registered sample_user sample_password [(''a'', Some sample_user)]"
  by (simp add: registered_def sample_name MaxUserNameLen_def name_count_def input_name_def buildCredential_def sample_user_def GetString_def sample_password_def)

lemma sample_server_of: "server_of (rv_disc sample_read_env) [(''a'', Some sample_user)] sample_outside (sample_server m)"
  unfolding server_of_def using sample_disc_ok(2,3)
  by (auto simp: sample_server_def sample_read_env_def sample_outside_def sample_state_def)

lemma sample_only_key: "only_key (rv_disc sample_read_env) [(''a'', Some sample_user)] ''alice'' sample_password (ac_key sample_cipher) data"
  using sample_users
  by (auto simp: only_key_def sample_state_def sample_cipher_def SetBlockContext_def sample_read_env_def key_of_def sample_disc_env_def)

lemma write_session_no_wait:
  assumes "write_env_ok W" and "wv_strategy W = (\<lambda>_. 1)" and "isSessionProtocol (seg_Protocol (in_seg seg))"
  shows "fst (packet_writeOneSegment W seg addr u) \<noteq> Inl PaddingWaits"
proof -
  have e: "end_padding W t oh mtu tp name n \<noteq> PadWaiting" for t oh mtu tp name n
    using entropy_padding_bounds [of "wv_pad2 W" "maxPaddingSizeWithTrafficPattern mtu t n 0 tp endPadding" "wv_fl W"
        "\<lparr>ep_existingData = wv_randomData W (nat (oh + n)), ep_targetProbability = f64_lit (wv_fl W) 325 1000\<rparr>"] assms(1,2) maxPaddingSize_bounds(1)
    by (auto simp: end_padding_def newPadding_def buildRecommendedPaddingOpts_def recommendedTargetProbability_def write_env_ok_def)
  have "session_datagram W mtu tp c ss pl \<noteq> (Inl PaddingWaits, x)" for mtu tp c ss pl x
    using e by (auto simp: session_datagram_def Let_def split: pad_result.splits prod.splits sum.splits if_splits)
  then show ?thesis
    using assms(3) by (auto simp: packet_writeOneSegment_def packet_cipher_def toSessionStruct_def seg_Protocol_def Let_def
        split: prod.splits sum.splits option.splits metadata.splits if_splits)
qed

lemma sample_seg_sendable: "isSessionProtocol p \<Longrightarrow> packet_sendable 1400 (in_seg (sample_seg p))"
  by (simp add: packet_sendable_def sample_seg_def plain_inseg_def mk_segment_def MaxSessionOpenPayload_def packetOverhead_def)

lemma sample_agree: "de_crypto (rv_disc sample_read_env) = wv_crypto sample_write_env"
  "clocks_agree (wv_now sample_write_env) (rv_now sample_read_env)"
  "\<bar>60 * Cipher.second - de_now (rv_disc sample_read_env)\<bar> \<le> KeyRefreshInterval"
  by (simp_all add: sample_read_env_def sample_write_env_def clocks_agree_def sample_disc_env_def KeyRefreshInterval_def Cipher.second_def)

lemma sample_not_duplicate: "\<not> fst (IsDuplicate now tag src (ou_replay sample_outside))"
  by (simp add: sample_outside_def IsDuplicate_def)

theorem client_opens_session_witness:
  "\<exists>data got w' v' v'' a. fst (packet_writeOneSegment sample_write_env (sample_seg openSessionRequest) sample_addr sample_client) = Inr data \<and>
     read_datagram sample_read_env data sample_addr sample_outside (sample_server Map.empty) = (GotSegment got, w', v') \<and>
     packet_dispatch sample_env sample_disc_env sample_write_env (0, 0) got sample_addr v' = (LoopGoesOn, [], v'') \<and>
     bu_sessionMap v'' 7 = Some a \<and> at_recvChan a = [got] \<and> s_userPolicy (at_session a) = Some (buildPolicy sample_user)"
proof -
  obtain r seg' u' where w: "packet_writeOneSegment sample_write_env (sample_seg openSessionRequest) sample_addr sample_client = (r, seg', u')"
    by (metis prod_cases3)
  have p: "seg_Protocol (in_seg (sample_seg openSessionRequest)) = openSessionRequest" "SessionID (in_seg (sample_seg openSessionRequest)) = 7"
    by (simp_all add: sample_seg_def plain_inseg_def seg_Protocol_def SessionID_def mk_segment_def)
  have s: "isSessionProtocol openSessionRequest" by (simp add: isProtocol_defs)
  have "r \<noteq> Inl PaddingWaits"
    using write_session_no_wait [OF sample_env_ok(1), of "sample_seg openSessionRequest" sample_addr sample_client] w p(1) s
    by (simp add: sample_write_env_def)
  from client_opens_session [where addr = sample_addr and src = sample_addr and E = sample_env and W' = sample_write_env and picks = "(0, 0)",
      OF sample_env_ok sample_agree(1) sample_client_of _ _ _ p _ w this sample_server_of [of Map.empty] sample_registered sample_agree(3,2)] sample_seg_sendable [OF s]
  show ?thesis
    using w sample_only_key sample_not_duplicate
    by (fastforce simp: sample_client_def sample_server_def sessionChanCapacity_def sample_env_simps sample_floats_def sample_name sample_read_env_def)
qed

definition sample_attached :: attached where
  "sample_attached = \<lparr>at_session = (sample_session False)\<lparr>s_userPolicy := Some \<lparr>p_name = ''bob'', p_quotas = []\<rparr>\<rparr>, at_block = Some sample_cipher,
     at_remoteAddr = Some (UDPPeer (Some \<lparr>udp_IP = [10, 0, 0, 2], udp_Port = 5000, udp_Zone = []\<rparr>)), at_recvChan = []\<rparr>"

lemma sample_attached_elsewhere: "\<not> isSamePacketAddr (session_RemoteAddr sample_attached v) sample_addr"
  by (simp add: isSamePacketAddr_def session_RemoteAddr_def sample_attached_def sample_addr_def IsNilNetAddr_def NilNetAddr_def)

theorem foreign_segment_panics_server_witness:
  "\<exists>data got w' v' v'' a. fst (packet_writeOneSegment sample_write_env (sample_seg closeSessionRequest) sample_addr sample_client) = Inr data \<and>
     read_datagram sample_read_env data sample_addr sample_outside (sample_server [7 \<mapsto> sample_attached]) = (GotSegment got, w', v') \<and>
     packet_dispatch sample_env sample_disc_env sample_write_env (0, 0) got sample_addr v' = (LoopGoesOn, [], v'') \<and>
     bu_sessionMap v'' 7 = Some a \<and> session_takes sample_env a = None"
proof -
  obtain r seg' u' where w: "packet_writeOneSegment sample_write_env (sample_seg closeSessionRequest) sample_addr sample_client = (r, seg', u')"
    by (metis prod_cases3)
  have p: "seg_Protocol (in_seg (sample_seg closeSessionRequest)) = closeSessionRequest" "SessionID (in_seg (sample_seg closeSessionRequest)) = 7"
    by (simp_all add: sample_seg_def plain_inseg_def seg_Protocol_def SessionID_def mk_segment_def)
  have s: "isSessionProtocol closeSessionRequest" by (simp add: isProtocol_defs protocolType_defs)
  have n: "r \<noteq> Inl PaddingWaits"
    using write_session_no_wait [OF sample_env_ok(1), of "sample_seg closeSessionRequest" sample_addr sample_client] w p(1) s
    by (simp add: sample_write_env_def)
  let ?v = "sample_server [7 \<mapsto> sample_attached]"
  have h: "packet_sendable (bu_mtu sample_client) (in_seg (sample_seg closeSessionRequest))" "bu_mtu sample_client \<le> 1500"
    "addr_String sample_addr = addr_String (pu_serverAddr sample_client)"
    using sample_seg_sendable [OF s] by (simp_all add: sample_client_def)
  have q: "accepts_protocol False (seg_Protocol (in_seg (sample_seg closeSessionRequest)))"
    "seg_Protocol (in_seg (sample_seg closeSessionRequest)) \<noteq> openSessionRequest"
    unfolding p by (simp_all add: accepts_protocol_def protocolType_defs)
  have a: "\<forall>sid s. bu_sessionMap ?v sid = Some s \<longrightarrow> \<not> isSamePacketAddr (session_RemoteAddr s ?v) sample_addr"
    using sample_attached_elsewhere by (simp add: sample_server_def)
  have b: "bu_sessionMap ?v 7 = Some sample_attached" "\<not> s_closed (at_session sample_attached)" "\<not> s_isClient (at_session sample_attached)"
    "at_recvChan sample_attached = []" "s_userPolicy (at_session sample_attached) = Some \<lparr>p_name = ''bob'', p_quotas = []\<rparr>"
    "p_name \<lparr>p_name = ''bob'', p_quotas = []\<rparr> \<noteq> GetString (u_Name sample_user)"
    by (simp_all add: sample_server_def sample_attached_def sample_session_simps sample_name)
  note f = foreign_segment_panics_server [OF sample_env_ok sample_agree(1) sample_client_of h(3,1,2) q p(2) w n sample_server_of sample_registered sample_agree(3,2) a b,
      of sample_env sample_write_env "(0, 0)" sample_env]
  from f obtain data where d: "r = Inr data" and g: "only_key (rv_disc sample_read_env) [(''a'', Some sample_user)] (GetString (u_Name sample_user)) sample_password (ac_key sample_cipher) data \<longrightarrow>
     \<not> fst (IsDuplicate (rv_nanos sample_read_env) (take 16 data) (addr_String sample_addr) (ou_replay sample_outside)) \<longrightarrow>
     (\<exists>got w' v' v'' a'. read_datagram sample_read_env data sample_addr sample_outside ?v = (GotSegment got, w', v') \<and>
        packet_dispatch sample_env (rv_disc sample_read_env) sample_write_env (0, 0) got sample_addr v' = (LoopGoesOn, [], v'') \<and>
        bu_sessionMap v'' 7 = Some a' \<and> session_takes sample_env a' = None)"
    by (elim exE conjE)
  have "fst (packet_writeOneSegment sample_write_env (sample_seg closeSessionRequest) sample_addr sample_client) = Inr data" using w d by simp
  moreover have "rv_disc sample_read_env = sample_disc_env" by (simp add: sample_read_env_def)
  ultimately show ?thesis
    using g [THEN mp, OF sample_only_key [folded sample_name], THEN mp, OF sample_not_duplicate] by metis
qed

theorem packet_reaches_client_witness:
  "\<exists>data md. fst (packet_writeOneSegment sample_write_env (sample_seg openSessionResponse) sample_addr (sample_server [7 \<mapsto> sample_attached])) = Inr data \<and>
     restamped 60 (seg_metadata (in_seg (sample_seg openSessionResponse))) md \<and>
     fst (read_datagram sample_read_env data sample_addr sample_outside sample_client) =
       GotSegment (plain_inseg (mk_segment md (seg_payload (in_seg (sample_seg openSessionResponse))) PacketTransport))"
proof -
  obtain r seg' u' where w: "packet_writeOneSegment sample_write_env (sample_seg openSessionResponse) sample_addr (sample_server [7 \<mapsto> sample_attached]) = (r, seg', u')"
    by (metis prod_cases3)
  have p: "seg_Protocol (in_seg (sample_seg openSessionResponse)) = openSessionResponse" "SessionID (in_seg (sample_seg openSessionResponse)) = 7"
    "in_block (sample_seg openSessionResponse) = None"
    by (simp_all add: sample_seg_def plain_inseg_def seg_Protocol_def SessionID_def mk_segment_def)
  have s: "isSessionProtocol openSessionResponse" by (simp add: isProtocol_defs protocolType_defs)
  have n: "r \<noteq> Inl PaddingWaits"
    using write_session_no_wait [OF sample_env_ok(1), of "sample_seg openSessionResponse" sample_addr "sample_server [7 \<mapsto> sample_attached]"] w p(1) s
    by (simp add: sample_write_env_def)
  have c: "cipher_ok sample_cipher" "IsStateless sample_cipher" using sample_client_of by (simp_all add: client_of_def)
  have "bu_sessionMap (sample_server [7 \<mapsto> sample_attached]) (SessionID (in_seg (sample_seg openSessionResponse))) = Some sample_attached"
    "\<not> bu_isClient (sample_server [7 \<mapsto> sample_attached])" "at_block sample_attached = Some sample_cipher"
    "packet_sendable (bu_mtu (sample_server [7 \<mapsto> sample_attached])) (in_seg (sample_seg openSessionResponse))"
    "bu_mtu (sample_server [7 \<mapsto> sample_attached]) \<le> 1500"
    "bu_isClient sample_client" "pu_block sample_client = Some sample_cipher" "addr_String sample_addr = addr_String (pu_serverAddr sample_client)"
    using sample_seg_sendable [OF s] by (simp_all add: p sample_server_def sample_attached_def sample_client_def)
  from packet_reaches_client [OF sample_env_ok this(2) p(3) this(1,3) c this(4,5) w n this(6,7) c(2) refl this(8) sample_agree(1,2), of sample_outside]
  show ?thesis using w by (auto simp: sample_write_env_def)
qed

end
