(* ===== verification/Spec2Isabelle.thy ===== *)
theory Spec2Isabelle
  imports Link Session_Props Socks_Client_Props Replay Padding Underlay_Open
begin

text \<open>
  Verification of mieru.
\<close>

end
